(* ===== verification/Prelude.thy ===== *)
theory Prelude
  imports Main "HOL-Library.Product_Lexorder" "HOL-Library.List_Lexorder" "HOL-Library.Char_ord"
begin

text \<open>
  What the components share. A database table is a list of rows in the order the
  database plays them back; the SQL statements of the program are \<open>update_where\<close>,
  \<open>delete_where\<close> and \<open>select_where\<close> over it, each one atomic step, as PostgreSQL
  runs one statement. Times are milliseconds on the database clock, a uuid is a
  natural number (PostgreSQL orders uuids, so does the model), and a value the
  program draws at random (\<open>gen_random_uuid\<close>, \<open>randomUUID\<close>) is an argument.

  The locale \<open>machine\<close> is the common shape of the state machines below: a step
  function and an invariant every step keeps; \<open>lease_machine\<close> adds what a lease
  held on a row promises, and is interpreted by the job table and by the
  resource claims.
\<close>

type_synonym time = int
type_synonym uuid = nat

named_theorems table_simps \<open>how statements act on the rows of a table\<close>

subsection \<open>Statements over a table\<close>

definition update_where :: "('r \<Rightarrow> bool) \<Rightarrow> ('r \<Rightarrow> 'r) \<Rightarrow> 'r list \<Rightarrow> 'r list" where
  "update_where P f rs = map (\<lambda>r. if P r then f r else r) rs"

definition delete_where :: "('r \<Rightarrow> bool) \<Rightarrow> 'r list \<Rightarrow> 'r list" where
  "delete_where P rs = filter (\<lambda>r. \<not> P r) rs"

definition select_where :: "('r \<Rightarrow> bool) \<Rightarrow> 'r list \<Rightarrow> 'r list" where
  "select_where P rs = filter P rs"

lemma set_update_where [table_simps]:
  "set (update_where P f rs) = f ` {r \<in> set rs. P r} \<union> {r \<in> set rs. \<not> P r}"
  by (auto simp: update_where_def)

lemma set_delete_where [table_simps]: "set (delete_where P rs) = {r \<in> set rs. \<not> P r}"
  by (auto simp: delete_where_def)

lemma set_select_where [table_simps]: "set (select_where P rs) = {r \<in> set rs. P r}"
  by (auto simp: select_where_def)

lemma set_update_where_one:
  assumes "b \<in> set rs" "P b" "\<And>r. r \<in> set rs \<Longrightarrow> P r \<Longrightarrow> r = b"
  shows "set (update_where P f rs) = insert (f b) (set rs - {b})"
proof -
  have "{r \<in> set rs. P r} = {b}" using assms by blast
  moreover from this have "{r \<in> set rs. \<not> P r} = set rs - {b}" by blast
  ultimately show ?thesis by (simp add: set_update_where)
qed

lemma length_update_where [simp]: "length (update_where P f rs) = length rs"
  by (simp add: update_where_def)

lemma update_where_Nil [simp]: "update_where P f [] = []"
  by (simp add: update_where_def)

lemma update_where_Cons [simp]:
  "update_where P f (r # rs) = (if P r then f r else r) # update_where P f rs"
  by (simp add: update_where_def)

lemma update_where_append [simp]:
  "update_where P f (xs @ ys) = update_where P f xs @ update_where P f ys"
  by (simp add: update_where_def)

lemma map_update_where:
  assumes "\<And>r. r \<in> set rs \<Longrightarrow> P r \<Longrightarrow> k (f r) = k r"
  shows "map k (update_where P f rs) = map k rs"
  using assms by (auto simp: update_where_def)

lemma update_where_none:
  assumes "\<And>r. r \<in> set rs \<Longrightarrow> \<not> P r"
  shows "update_where P f rs = rs"
  using assms by (auto simp: update_where_def intro: map_idI)

lemma distinct_map_delete_where:
  "distinct (map k rs) \<Longrightarrow> distinct (map k (delete_where P rs))"
  by (auto simp: delete_where_def distinct_map intro: inj_on_subset)

lemma Ball_update_where:
  assumes "\<And>r. r \<in> set rs \<Longrightarrow> Q r" "\<And>r. r \<in> set rs \<Longrightarrow> Q r \<Longrightarrow> P r \<Longrightarrow> Q (f r)"
  shows "\<forall>r \<in> set (update_where P f rs). Q r"
  using assms by (auto simp: table_simps)

subsection \<open>Rows by key\<close>

definition row_of :: "('r \<Rightarrow> 'k) \<Rightarrow> 'r list \<Rightarrow> 'k \<Rightarrow> 'r option" where
  "row_of key rs k = List.find (\<lambda>r. key r = k) rs"

lemma row_of_Nil [simp]: "row_of key [] k = None"
  by (simp add: row_of_def)

lemma row_of_Cons [simp]:
  "row_of key (r # rs) k = (if key r = k then Some r else row_of key rs k)"
  by (simp add: row_of_def)

lemma row_of_SomeD: "row_of key rs k = Some r \<Longrightarrow> r \<in> set rs \<and> key r = k"
  by (induction rs) (auto split: if_splits)

lemma row_of_None_iff: "row_of key rs k = None \<longleftrightarrow> k \<notin> key ` set rs"
  by (induction rs) auto

lemma row_of_distinct:
  "distinct (map key rs) \<Longrightarrow> r \<in> set rs \<Longrightarrow> row_of key rs (key r) = Some r"
  by (induction rs) (auto simp: rev_image_eqI)

lemma row_of_iff:
  "distinct (map key rs) \<Longrightarrow> row_of key rs k = Some r \<longleftrightarrow> r \<in> set rs \<and> key r = k"
  using row_of_SomeD row_of_distinct by fastforce

lemma list_ex_row_of:
  "distinct (map key rs) \<Longrightarrow> row_of key rs k = Some r \<Longrightarrow> list_ex (\<lambda>x. key x = k \<and> Q x) rs = Q r"
  by (induction rs) (auto simp: list_ex_iff rev_image_eqI split: if_splits)

lemma select_where_row_of:
  "distinct (map key rs) \<Longrightarrow> row_of key rs k = Some r
    \<Longrightarrow> select_where (\<lambda>x. key x = k \<and> Q x) rs = (if Q r then [r] else [])"
  by (induction rs) (auto simp: select_where_def filter_empty_conv rev_image_eqI split: if_splits)

lemma row_of_update_key:
  "row_of key rs k = Some r \<Longrightarrow> (\<And>x. key (f x) = key x)
    \<Longrightarrow> row_of key (update_where (\<lambda>x. key x = k \<and> Q x) f rs) k = Some (if Q r then f r else r)"
  by (induction rs) (auto split: if_splits)

lemma row_of_update_where:
  assumes "\<And>r. key (f r) = key r"
  shows "row_of key (update_where P f rs) k =
    map_option (\<lambda>r. if P r then f r else r) (row_of key rs k)"
  using assms by (induction rs) auto

lemma row_of_append:
  "row_of key (xs @ ys) k = (case row_of key xs k of Some r \<Rightarrow> Some r | None \<Rightarrow> row_of key ys k)"
  by (induction xs) auto

lemma row_of_delete_where:
  assumes "distinct (map key rs)"
  shows "row_of key (delete_where P rs) k =
    (case row_of key rs k of Some r \<Rightarrow> if P r then None else Some r | None \<Rightarrow> None)"
proof (cases "row_of key (delete_where P rs) k")
  case None
  then show ?thesis
    using row_of_SomeD [of key rs k]
    by (auto simp: row_of_None_iff table_simps image_iff split: option.split)
next
  case (Some r)
  then have "r \<in> set rs" "\<not> P r" "key r = k" using row_of_SomeD by (fastforce simp: table_simps)+
  with assms have "row_of key rs k = Some r" using row_of_distinct by fastforce
  with Some \<open>\<not> P r\<close> show ?thesis by simp
qed

subsection \<open>Least row by a key, as \<open>ORDER BY \<dots> LIMIT 1\<close>\<close>

definition first_by :: "('r \<Rightarrow> 'k::linorder) \<Rightarrow> 'r list \<Rightarrow> 'r option" where
  "first_by key rs = (case sort_key key rs of [] \<Rightarrow> None | r # _ \<Rightarrow> Some r)"

lemma first_by_None_iff [simp]: "first_by key rs = None \<longleftrightarrow> rs = []"
  by (auto simp: first_by_def split: list.split)
     (metis list.set_intros(1) set_empty set_sort)+

lemma first_by_Nil [simp]: "first_by key [] = None"
  by simp

lemma first_by_Some:
  assumes "first_by key rs = Some r"
  shows "r \<in> set rs" "\<And>r'. r' \<in> set rs \<Longrightarrow> key r \<le> key r'"
proof -
  from assms obtain ys where s: "sort_key key rs = r # ys"
    by (auto simp: first_by_def split: list.splits)
  then have set: "set rs = insert r (set ys)"
    by (metis list.simps(15) set_sort)
  then show "r \<in> set rs" by simp
  have "sorted (map key (r # ys))" by (metis s sorted_sort_key)
  then show "\<And>r'. r' \<in> set rs \<Longrightarrow> key r \<le> key r'" using set by auto
qed

lemma first_by_least:
  assumes "r \<in> set rs" "\<And>r'. r' \<in> set rs \<Longrightarrow> r' \<noteq> r \<Longrightarrow> key r < key r'"
  shows "first_by key rs = Some r"
proof (cases "first_by key rs")
  case None
  then show ?thesis using assms(1) by auto
next
  case (Some x)
  then show ?thesis using first_by_Some [OF Some] assms by force
qed

lemma sort_key_map: "sort_key key (map f xs) = map f (sort_key (key \<circ> f) xs)"
proof -
  have "insort_key key (f x) (map f ys) = map f (insort_key (key \<circ> f) x ys)" for x ys
    by (induction ys) auto
  then show ?thesis by (induction xs) auto
qed

lemma first_by_map: "first_by key (map f xs) = map_option f (first_by (key \<circ> f) xs)"
  by (simp add: first_by_def sort_key_map split: list.split)

lemma find_SomeD: "List.find P xs = Some x \<Longrightarrow> x \<in> set xs \<and> P x"
  by (auto simp: find_Some_iff)

lemma find_update_where:
  "(\<And>x. P (f x) = P x) \<Longrightarrow> List.find P (update_where P f xs) = map_option f (List.find P xs)"
  by (induction xs) (auto simp: update_where_def)

lemma find_append:
  "List.find P (xs @ ys) = (case List.find P xs of None \<Rightarrow> List.find P ys | Some x \<Rightarrow> Some x)"
  by (induction xs) simp_all

lemma find_map: "List.find P (map f xs) = map_option f (List.find (P \<circ> f) xs)"
  by (induction xs) auto

subsection \<open>How many elements satisfy a condition\<close>

definition count_where :: "('a \<Rightarrow> bool) \<Rightarrow> 'a list \<Rightarrow> nat" where
  "count_where P xs = length (filter P xs)"

lemma count_where_Nil [simp]: "count_where P [] = 0"
  by (simp add: count_where_def)

lemma count_where_Cons [simp]: "count_where P (x # xs) = (if P x then 1 else 0) + count_where P xs"
  by (simp add: count_where_def)

lemma count_where_append [simp]: "count_where P (xs @ ys) = count_where P xs + count_where P ys"
  by (simp add: count_where_def)

lemma count_where_update:
  "i < length xs \<Longrightarrow>
    count_where P (xs[i := y]) + (if P (xs ! i) then 1 else 0) = count_where P xs + (if P y then 1 else 0)"
proof (induction xs arbitrary: i)
  case (Cons x xs)
  then show ?case using Cons.IH [of "i - 1"] by (cases i) auto
qed simp

lemma count_where_0_iff: "count_where P xs = 0 \<longleftrightarrow> (\<forall>x \<in> set xs. \<not> P x)"
  by (auto simp: count_where_def filter_empty_conv)

lemma count_where_pos: "x \<in> set xs \<Longrightarrow> P x \<Longrightarrow> 0 < count_where P xs"
  using count_where_0_iff [of P xs] by auto

subsection \<open>NULL in SQL\<close>

text \<open>\<open>GREATEST\<close> and \<open>MAX\<close> skip nulls, and are null where every argument is.\<close>

fun pg_greatest :: "'a::linorder option list \<Rightarrow> 'a option" where
  "pg_greatest [] = None"
| "pg_greatest (None # xs) = pg_greatest xs"
| "pg_greatest (Some x # xs) =
     (case pg_greatest xs of None \<Rightarrow> Some x | Some y \<Rightarrow> Some (max x y))"

lemma pg_greatest_None_iff: "pg_greatest xs = None \<longleftrightarrow> (\<forall>x \<in> set xs. x = None)"
  by (induction xs rule: pg_greatest.induct) (auto split: option.splits)

lemma pg_greatest_ge: "Some x \<in> set xs \<Longrightarrow> \<exists>y. pg_greatest xs = Some y \<and> x \<le> y"
proof (induction xs rule: pg_greatest.induct)
  case (3 y xs)
  then show ?case by (cases "pg_greatest xs") (auto simp: le_max_iff_disj)
qed auto

lemma pg_greatest_mem: "pg_greatest xs = Some y \<Longrightarrow> Some y \<in> set xs"
  by (induction xs arbitrary: y rule: pg_greatest.induct) (auto split: option.splits simp: max_def)

fun pg_least :: "'a::linorder list \<Rightarrow> 'a option" where
  "pg_least [] = None"
| "pg_least (x # xs) = (case pg_least xs of None \<Rightarrow> Some x | Some y \<Rightarrow> Some (min x y))"

lemma pg_least_None_iff [simp]: "pg_least xs = None \<longleftrightarrow> xs = []"
  by (cases xs) (auto split: option.split)

lemma pg_least_le: "x \<in> set xs \<Longrightarrow> \<exists>y. pg_least xs = Some y \<and> y \<le> x"
proof (induction xs)
  case (Cons y xs)
  then show ?case by (cases "pg_least xs") (auto simp: min_le_iff_disj)
qed simp

lemma pg_least_mem: "pg_least xs = Some y \<Longrightarrow> y \<in> set xs"
  by (induction xs arbitrary: y) (auto split: option.splits simp: min_def)

subsection \<open>State machines and their invariants\<close>

primrec run_steps :: "('e \<Rightarrow> 's \<Rightarrow> 's) \<Rightarrow> 'e list \<Rightarrow> 's \<Rightarrow> 's" where
  "run_steps step [] s = s"
| "run_steps step (e # es) s = run_steps step es (step e s)"

primrec steps_ok :: "('e \<Rightarrow> 's \<Rightarrow> bool) \<Rightarrow> ('e \<Rightarrow> 's \<Rightarrow> 's) \<Rightarrow> 'e list \<Rightarrow> 's \<Rightarrow> bool" where
  "steps_ok ok step [] s = True"
| "steps_ok ok step (e # es) s = (ok e s \<and> steps_ok ok step es (step e s))"

lemma run_steps_append: "run_steps step (xs @ ys) s = run_steps step ys (run_steps step xs s)"
  by (induction xs arbitrary: s) auto

lemma steps_ok_append:
  "steps_ok ok step (xs @ ys) s \<longleftrightarrow> steps_ok ok step xs s \<and> steps_ok ok step ys (run_steps step xs s)"
  by (induction xs arbitrary: s) auto

text \<open>
  \<open>ok e s\<close> is what the environment owes a step: a clock that does not run
  backwards, random identifiers that are fresh.
\<close>

locale machine =
  fixes step :: "'e \<Rightarrow> 's \<Rightarrow> 's"
    and inv :: "'s \<Rightarrow> bool"
    and ok :: "'e \<Rightarrow> 's \<Rightarrow> bool"
  assumes inv_step: "inv s \<Longrightarrow> ok e s \<Longrightarrow> inv (step e s)"
begin

lemma inv_run: "inv s \<Longrightarrow> steps_ok ok step es s \<Longrightarrow> inv (run_steps step es s)"
  by (induction es arbitrary: s) (auto intro: inv_step)

end

text \<open>
  A lease on a row: who holds it and until when. \<open>lease s k = Some (o, u)\<close> says
  that \<open>o\<close> holds row \<open>k\<close> and nobody may take it before \<open>u\<close> has passed.
  The provider promises that no step made while the lease is live takes it from
  its holder, unless the step is one of those that end it.
\<close>

locale lease_machine = machine step inv ok
  for step :: "'e \<Rightarrow> 's \<Rightarrow> 's" and inv :: "'s \<Rightarrow> bool" and ok :: "'e \<Rightarrow> 's \<Rightarrow> bool" +
  fixes lease :: "'s \<Rightarrow> 'k \<Rightarrow> ('o \<times> time) option"
    and at :: "'e \<Rightarrow> time"
    and ends :: "'e \<Rightarrow> 'o \<Rightarrow> 'k \<Rightarrow> bool"
  assumes lease_kept:
    "inv s \<Longrightarrow> ok e s \<Longrightarrow> lease s k = Some (w, u) \<Longrightarrow> at e \<le> u \<Longrightarrow> \<not> ends e w k
      \<Longrightarrow> \<exists>u'. u \<le> u' \<and> lease (step e s) k = Some (w, u')"
begin

lemma lease_kept_run:
  assumes "inv s" "steps_ok ok step es s" "lease s k = Some (w, u)"
    and "\<And>e. e \<in> set es \<Longrightarrow> at e \<le> u \<and> \<not> ends e w k"
  shows "\<exists>u'. u \<le> u' \<and> lease (run_steps step es s) k = Some (w, u')"
  using assms
proof (induction es arbitrary: s u)
  case Nil
  then show ?case by auto
next
  case (Cons e es)
  then have "at e \<le> u" "\<not> ends e w k" "ok e s" by auto
  with Cons.prems obtain u1 where u1: "u \<le> u1" "lease (step e s) k = Some (w, u1)"
    using lease_kept by blast
  moreover have "inv (step e s)" using Cons.prems \<open>ok e s\<close> inv_step by blast
  ultimately obtain u' where "u1 \<le> u'" "lease (run_steps step es (step e s)) k = Some (w, u')"
    using Cons.IH [of "step e s" u1] Cons.prems by fastforce
  with u1 show ?case by (auto intro: order_trans)
qed

text \<open>Two holders of one row: the second took it after the first's lease had run out or was ended.\<close>

lemma lease_exclusive:
  assumes "inv s" "steps_ok ok step es s" "lease s k = Some (w, u)"
    and "lease (run_steps step es s) k = Some (w', u')" "w' \<noteq> w"
  shows "\<exists>e \<in> set es. u < at e \<or> ends e w k"
  using lease_kept_run [OF assms(1-3)] assms(4,5)
  by (metis linorder_not_le option.inject prod.inject)

end

end
