(* ===== verification/Job_Table.thy ===== *)
theory Job_Table
  imports Prelude
begin

text \<open>
  The job queue's table (\<open>packages/queue/src/postgres.ts\<close>,
  \<open>packages/queue/src/job-queue.ts\<close>, \<open>packages/db/src/schema/job.ts\<close>): what
  each statement of \<open>PostgresJobQueue\<close> does to the rows of \<open>job\<close>. A statement
  is one function over the list of rows; \<open>now\<close> is the database clock, in
  milliseconds, and \<open>skipped\<close> the rows another transaction holds locked while a
  \<open>FOR UPDATE SKIP LOCKED\<close> runs. The payload type is open; its containment test
  (\<open>@>\<close> of jsonb) is the argument \<open>holds\<close>. The loops that drive these
  statements in a worker process are in \<open>Job_Worker\<close>.
\<close>

subsection \<open>The rows\<close>

datatype job_priority = High | Normal | Low

primrec priority_rank :: "job_priority \<Rightarrow> nat" where
  "priority_rank High = 0"
| "priority_rank Normal = 1"
| "priority_rank Low = 2"

lemma priority_rank_inject [simp]: "priority_rank a = priority_rank b \<longleftrightarrow> a = b"
  by (cases a; cases b) auto

text \<open>A PostgreSQL enum is ordered as it is declared: \<open>high\<close> before \<open>normal\<close> before \<open>low\<close>.\<close>

instantiation job_priority :: linorder
begin

definition less_eq_job_priority :: "job_priority \<Rightarrow> job_priority \<Rightarrow> bool" where
  "less_eq_job_priority a b \<longleftrightarrow> priority_rank a \<le> priority_rank b"

definition less_job_priority :: "job_priority \<Rightarrow> job_priority \<Rightarrow> bool" where
  "less_job_priority a b \<longleftrightarrow> priority_rank a < priority_rank b"

instance
  by standard (auto simp: less_eq_job_priority_def less_job_priority_def)

end

datatype job_state = Ready | Dead

datatype job_listing = Scheduled | Waiting | Running | DeadJob

record 'p job =
  job_id :: uuid
  job_type :: string
  payload :: 'p
  run_at :: time
  priority :: job_priority
  attempts :: int
  locked_until :: "time option"
  locked_by :: "uuid option"
  last_error :: "string option"
  job_state :: job_state
  created :: time
  updated :: time

record 'p job_kind =
  kind :: string
  kind_type :: string
  kind_payload :: 'p

record enqueue_options =
  delay_seconds :: "int option"
  opt_priority :: "job_priority option"
  opt_tx :: "nat option"
  unless_waiting :: bool

subsection \<open>Constants\<close>

definition LEASE_S :: int where "LEASE_S = 600"
definition HOLD_INTERVAL_MS :: int where "HOLD_INTERVAL_MS = 120000"
definition MAX_HOLD_MS :: int where "MAX_HOLD_MS = 90 * 60000"
definition MAX_ATTEMPTS :: int where "MAX_ATTEMPTS = 3"
definition RETRY_DELAY_S :: int where "RETRY_DELAY_S = 300"
definition INSERT_BATCH_SIZE :: nat where "INSERT_BATCH_SIZE = 1000"

definition in_seconds :: "time \<Rightarrow> int \<Rightarrow> time" where
  "in_seconds now s = now + s * 1000"

subsection \<open>Conditions on a row\<close>

definition ready :: "'p job \<Rightarrow> bool" where
  "ready j \<longleftrightarrow> job_state j = Ready"

definition due :: "time \<Rightarrow> 'p job \<Rightarrow> bool" where
  "due now j \<longleftrightarrow> run_at j \<le> now"

definition unleased :: "time \<Rightarrow> 'p job \<Rightarrow> bool" where
  "unleased now j = (case locked_until j of None \<Rightarrow> True | Some u \<Rightarrow> u < now)"

definition take_order :: "'p job \<Rightarrow> job_priority \<times> time \<times> uuid" where
  "take_order j = (priority j, run_at j, job_id j)"

definition claimable :: "time \<Rightarrow> 'p job \<Rightarrow> bool" where
  "claimable now j \<longleftrightarrow> ready j \<and> due now j \<and> attempts j < MAX_ATTEMPTS \<and> unleased now j"

definition job_status :: "time \<Rightarrow> 'p job \<Rightarrow> job_listing" where
  "job_status now j =
    (if job_state j = Dead then DeadJob
     else if (case locked_until j of None \<Rightarrow> False | Some u \<Rightarrow> now \<le> u) then Running
     else if now < run_at j then Scheduled
     else Waiting)"

definition mine :: "uuid \<Rightarrow> uuid \<Rightarrow> 'p job \<Rightarrow> bool" where
  "mine owner i j \<longleftrightarrow> job_id j = i \<and> locked_by j = Some owner"

subsection \<open>Kinds: one use of a job type, told apart by its payload\<close>

definition kind_matches :: "('p \<Rightarrow> 'p \<Rightarrow> bool) \<Rightarrow> 'p job_kind \<Rightarrow> 'p job \<Rightarrow> bool" where
  "kind_matches holds k j \<longleftrightarrow> job_type j = kind_type k \<and> holds (payload j) (kind_payload k)"

fun kind_of :: "('p \<Rightarrow> 'p \<Rightarrow> bool) \<Rightarrow> 'p job_kind list \<Rightarrow> 'p job \<Rightarrow> string" where
  "kind_of holds [] j = job_type j"
| "kind_of holds (k # ks) j = (if kind_matches holds k j then kind k else kind_of holds ks j)"

fun find_kind :: "string \<Rightarrow> 'p job_kind list \<Rightarrow> nat option" where
  "find_kind listed [] = None"
| "find_kind listed (k # ks) =
     (if kind k = listed then Some 0 else map_option Suc (find_kind listed ks))"

definition listed_as :: "('p \<Rightarrow> 'p \<Rightarrow> bool) \<Rightarrow> string \<Rightarrow> 'p job_kind list \<Rightarrow> 'p job \<Rightarrow> bool" where
  "listed_as holds listed kinds j =
    (let i = find_kind listed kinds;
         ty = (case i of Some n \<Rightarrow> kind_type (kinds ! n) | None \<Rightarrow> listed);
         earlier = filter (\<lambda>k. kind_type k = ty)
                     (case i of Some n \<Rightarrow> take n kinds | None \<Rightarrow> kinds)
     in job_type j = ty
        \<and> (case i of Some n \<Rightarrow> holds (payload j) (kind_payload (kinds ! n)) | None \<Rightarrow> True)
        \<and> list_all (\<lambda>k. \<not> holds (payload j) (kind_payload k)) earlier)"

subsection \<open>Writing jobs\<close>

definition new_job ::
  "time \<Rightarrow> string \<Rightarrow> job_priority \<Rightarrow> time \<Rightarrow> 'p \<Rightarrow> uuid \<Rightarrow> 'p option \<Rightarrow> 'p job" where
  "new_job now ty prio at emp i data =
    \<lparr>job_id = i, job_type = ty, payload = (case data of None \<Rightarrow> emp | Some p \<Rightarrow> p),
     run_at = at, priority = prio, attempts = 0, locked_until = None, locked_by = None,
     last_error = None, job_state = Ready, created = now, updated = now\<rparr>"

definition run_at_of :: "time \<Rightarrow> enqueue_options \<Rightarrow> time" where
  "run_at_of now opts =
    (case delay_seconds opts of None \<Rightarrow> now
     | Some d \<Rightarrow> if d = 0 then now else in_seconds now d)"

definition priority_of :: "job_priority option \<Rightarrow> enqueue_options \<Rightarrow> job_priority" where
  "priority_of running opts =
    (case opt_priority opts of Some p \<Rightarrow> p
     | None \<Rightarrow> if unless_waiting opts then Normal
               else (case running of Some p \<Rightarrow> p | None \<Rightarrow> Normal))"

text \<open>The insert loop of \<open>enqueueMany\<close>: a statement per batch; the ids are the database's.\<close>

function insert_batches ::
  "(uuid \<Rightarrow> 'd \<Rightarrow> 'p job) \<Rightarrow> uuid list \<Rightarrow> 'd list \<Rightarrow> 'p job list \<Rightarrow> uuid list \<times> 'p job list" where
  "insert_batches mk ids data js =
    (if data = [] then ([], js)
     else let rows = map2 mk (take INSERT_BATCH_SIZE ids) (take INSERT_BATCH_SIZE data);
              (rest, js') = insert_batches mk (drop INSERT_BATCH_SIZE ids)
                              (drop INSERT_BATCH_SIZE data) (js @ rows)
          in (map job_id rows @ rest, js'))"
  by pat_completeness auto
termination
  by (relation "measure (\<lambda>(mk, ids, data, js). length data)") (auto simp: INSERT_BATCH_SIZE_def)

declare insert_batches.simps [simp del]

text \<open>
  The queue as a process sees it: the table, the transactions a job was written in
  (\<open>written\<close>), and how often \<open>wake\<close> has been called.
\<close>

record 'p queue =
  jobs :: "'p job list"
  written :: "nat list"
  wake_calls :: nat

definition wake :: "'p queue \<Rightarrow> 'p queue" where
  "wake q = q\<lparr>wake_calls := Suc (wake_calls q)\<rparr>"

definition wrote :: "nat option \<Rightarrow> 'p queue \<Rightarrow> 'p queue" where
  "wrote tx q = (case tx of Some t \<Rightarrow> q\<lparr>written := List.insert t (written q)\<rparr> | None \<Rightarrow> wake q)"

definition enqueue_many ::
  "'p \<Rightarrow> time \<Rightarrow> job_priority option \<Rightarrow> uuid list \<Rightarrow> string \<Rightarrow> 'p option list \<Rightarrow> enqueue_options
    \<Rightarrow> 'p queue \<Rightarrow> uuid list \<times> 'p queue" where
  "enqueue_many emp now running ids ty data opts q =
    (let prio = priority_of running opts;
         (new, js) = insert_batches (new_job now ty prio (run_at_of now opts) emp) ids data (jobs q);
         q' = q\<lparr>jobs := js\<rparr>
     in (new, if new \<noteq> [] then wrote (opt_tx opts) q' else q'))"

definition stands_in :: "time \<Rightarrow> string \<Rightarrow> 'p \<Rightarrow> enqueue_options \<Rightarrow> 'p job \<Rightarrow> bool" where
  "stands_in now ty data opts j \<longleftrightarrow>
    job_type j = ty \<and> ready j \<and> unleased now j \<and> attempts j = 0 \<and> payload j = data \<and>
    run_at j \<le> in_seconds now (case delay_seconds opts of None \<Rightarrow> 0 | Some d \<Rightarrow> d)"

definition stand_in ::
  "time \<Rightarrow> uuid list \<Rightarrow> string \<Rightarrow> 'p \<Rightarrow> enqueue_options \<Rightarrow> 'p job list \<Rightarrow> uuid option" where
  "stand_in now skipped ty data opts js =
    map_option job_id
      (List.find (\<lambda>j. stands_in now ty data opts j \<and> job_id j \<notin> set skipped) js)"

definition raise_priority :: "uuid \<Rightarrow> job_priority \<Rightarrow> 'p job list \<Rightarrow> 'p job list" where
  "raise_priority i p = update_where (\<lambda>j. job_id j = i) (\<lambda>j. j\<lparr>priority := min (priority j) p\<rparr>)"

definition enqueue ::
  "'p \<Rightarrow> time \<Rightarrow> job_priority option \<Rightarrow> uuid list \<Rightarrow> uuid \<Rightarrow> string \<Rightarrow> 'p option \<Rightarrow> enqueue_options
    \<Rightarrow> 'p queue \<Rightarrow> uuid option \<times> 'p queue" where
  "enqueue emp now running skipped i ty data opts q =
    (let add = (case enqueue_many emp now running [i] ty [data] opts q of
                  ([], q') \<Rightarrow> (None, q') | (n # _, q') \<Rightarrow> (Some n, q'))
     in if unless_waiting opts
        then (case stand_in now skipped ty (case data of None \<Rightarrow> emp | Some p \<Rightarrow> p) opts (jobs q) of
                Some w \<Rightarrow> (Some w, q\<lparr>jobs := raise_priority w (priority_of running opts) (jobs q)\<rparr>)
              | None \<Rightarrow> add)
        else add)"

text \<open>
  \<open>transaction\<close>: the body's writes are undone when it throws, and the worker is
  woken after the commit of one a job was written in.
\<close>

definition queue_transaction ::
  "nat \<Rightarrow> (nat \<Rightarrow> 'p queue \<Rightarrow> ('e + 'a) \<times> 'p queue) \<Rightarrow> 'p queue \<Rightarrow> ('e + 'a) \<times> 'p queue" where
  "queue_transaction tx body q =
    (case body tx q of
       (Inl e, q') \<Rightarrow> (Inl e, q'\<lparr>jobs := jobs q\<rparr>)
     | (Inr a, q') \<Rightarrow> (Inr a, if tx \<in> set (written q') then wake q' else q'))"

subsection \<open>The admin screen\<close>

definition count_jobs ::
  "('p \<Rightarrow> 'p \<Rightarrow> bool) \<Rightarrow> time \<Rightarrow> 'p job_kind list \<Rightarrow> 'p job list
    \<Rightarrow> (string \<times> job_listing \<times> nat) list" where
  "count_jobs holds now kinds js =
    (let key = (\<lambda>j. (kind_of holds kinds j, job_status now j))
     in map (\<lambda>(t, s). (t, s, length (filter (\<lambda>j. key j = (t, s)) js)))
          (sort_key fst (remdups (map key js))))"

definition list_where ::
  "('p \<Rightarrow> 'p \<Rightarrow> bool) \<Rightarrow> time \<Rightarrow> job_listing option \<Rightarrow> string option \<Rightarrow> 'p job_kind list
    \<Rightarrow> 'p job \<Rightarrow> bool" where
  "list_where holds now status ty kinds j \<longleftrightarrow>
    (case status of None \<Rightarrow> True | Some s \<Rightarrow> job_status now j = s) \<and>
    (case ty of None \<Rightarrow> True | Some t \<Rightarrow> t = [] \<or> listed_as holds t kinds j)"

definition list_jobs ::
  "('p \<Rightarrow> 'p \<Rightarrow> bool) \<Rightarrow> time \<Rightarrow> job_listing option \<Rightarrow> string option \<Rightarrow> 'p job_kind list
    \<Rightarrow> nat \<Rightarrow> nat \<Rightarrow> 'p job list \<Rightarrow> 'p job list \<times> nat" where
  "list_jobs holds now status ty kinds limit offset js =
    (let found = select_where (list_where holds now status ty kinds) js;
         ordered = (if status = Some Waiting then sort_key take_order found
                    else sort_key (\<lambda>j. (- updated j, - int (job_id j))) found)
     in (take limit (drop offset ordered), length found))"

definition revived :: "time \<Rightarrow> 'p job \<Rightarrow> 'p job" where
  "revived now j = j\<lparr>job_state := Ready, attempts := 0, run_at := now, updated := now\<rparr>"

definition retry_dead :: "time \<Rightarrow> uuid \<Rightarrow> 'p queue \<Rightarrow> bool \<times> 'p queue" where
  "retry_dead now i q =
    (let hit = (\<lambda>j. job_id j = i \<and> job_state j = Dead);
         rows = select_where hit (jobs q);
         q' = q\<lparr>jobs := update_where hit (revived now) (jobs q)\<rparr>
     in (rows \<noteq> [], if rows \<noteq> [] then wake q' else q'))"

definition revive_dead ::
  "('p \<Rightarrow> 'p \<Rightarrow> bool) \<Rightarrow> time \<Rightarrow> string \<Rightarrow> 'p list \<Rightarrow> nat option \<Rightarrow> 'p queue \<Rightarrow> 'p list \<times> 'p queue" where
  "revive_dead holds now ty payloads tx q =
    (if payloads = [] then ([], q)
     else let hit = (\<lambda>j. job_type j = ty \<and> job_state j = Dead
                         \<and> list_ex (holds (payload j)) payloads);
              rows = select_where hit (jobs q);
              q' = q\<lparr>jobs := update_where hit (revived now) (jobs q)\<rparr>
          in (map payload rows, if rows \<noteq> [] then wrote tx q' else q'))"

definition delete_dead :: "uuid \<Rightarrow> 'p queue \<Rightarrow> bool \<times> 'p queue" where
  "delete_dead i q =
    (let hit = (\<lambda>j. job_id j = i \<and> job_state j = Dead)
     in (select_where hit (jobs q) \<noteq> [], q\<lparr>jobs := delete_where hit (jobs q)\<rparr>))"

definition prune_dead :: "time \<Rightarrow> int \<Rightarrow> 'p queue \<Rightarrow> nat \<times> 'p queue" where
  "prune_dead now older_than_ms q =
    (let hit = (\<lambda>j. job_state j = Dead \<and> updated j < now - older_than_ms)
     in (length (select_where hit (jobs q)), q\<lparr>jobs := delete_where hit (jobs q)\<rparr>))"

subsection \<open>What a worker does to the rows\<close>

definition bury_exhausted :: "time \<Rightarrow> 'p job list \<Rightarrow> 'p job list" where
  "bury_exhausted now =
    update_where
      (\<lambda>j. ready j \<and> MAX_ATTEMPTS \<le> attempts j
           \<and> (case locked_until j of None \<Rightarrow> False | Some u \<Rightarrow> u < now))
      (\<lambda>j. j\<lparr>job_state := Dead, locked_until := None, locked_by := None,
              last_error := Some ''Lease expired on the last attempt'', updated := now\<rparr>)"

record 'p taken =
  taken_id :: uuid
  taken_type :: string
  taken_data :: 'p
  taken_priority :: job_priority

definition leased :: "time \<Rightarrow> uuid \<Rightarrow> 'p job \<Rightarrow> 'p job" where
  "leased now owner j =
    j\<lparr>locked_until := Some (in_seconds now LEASE_S), locked_by := Some owner,
      attempts := attempts j + 1, updated := now\<rparr>"

definition claim :: "time \<Rightarrow> uuid \<Rightarrow> uuid list \<Rightarrow> 'p job list \<Rightarrow> 'p taken option \<times> 'p job list" where
  "claim now owner skipped js =
    (case first_by take_order
            (select_where (\<lambda>j. claimable now j \<and> job_id j \<notin> set skipped) js) of
       None \<Rightarrow> (None, js)
     | Some c \<Rightarrow>
         (Some \<lparr>taken_id = job_id c, taken_type = job_type c, taken_data = payload c,
                taken_priority = priority c\<rparr>,
          update_where (\<lambda>j. job_id j = job_id c) (leased now owner) js))"

definition complete :: "uuid \<Rightarrow> uuid \<Rightarrow> 'p job list \<Rightarrow> 'p job list" where
  "complete owner i = delete_where (mine owner i)"

definition fail :: "time \<Rightarrow> uuid \<Rightarrow> uuid \<Rightarrow> string \<Rightarrow> 'p job list \<Rightarrow> 'p job list" where
  "fail now owner i err =
    update_where (mine owner i)
      (\<lambda>j. j\<lparr>job_state := (if MAX_ATTEMPTS \<le> attempts j then Dead else Ready),
              run_at := in_seconds now RETRY_DELAY_S, locked_until := None, locked_by := None,
              last_error := Some err, updated := now\<rparr>)"

definition release :: "time \<Rightarrow> uuid \<Rightarrow> uuid \<Rightarrow> 'p job list \<Rightarrow> 'p job list" where
  "release now owner i =
    update_where (mine owner i)
      (\<lambda>j. j\<lparr>attempts := attempts j - 1, run_at := now, locked_until := None,
              locked_by := None, updated := now\<rparr>)"

text \<open>
  How a handler ends: it returns, it says it was cut short (\<open>JobInterruptedError\<close>, with its
  message), or it throws anything else. \<open>run\<close> settles the row by it; a type nobody handles
  is deleted.
\<close>

datatype handler_end = Returned | Interrupted string | Threw string

definition run_job ::
  "time \<Rightarrow> uuid \<Rightarrow> bool \<Rightarrow> (string \<Rightarrow> ('p taken \<Rightarrow> handler_end) option) \<Rightarrow> 'p taken
    \<Rightarrow> 'p job list \<Rightarrow> 'p job list" where
  "run_job now owner stopping handlers job js =
    (case handlers (taken_type job) of
       None \<Rightarrow> complete owner (taken_id job) js
     | Some handler \<Rightarrow>
         (case handler job of
            Returned \<Rightarrow> complete owner (taken_id job) js
          | Interrupted msg \<Rightarrow>
              if stopping then release now owner (taken_id job) js
              else fail now owner (taken_id job) msg js
          | Threw msg \<Rightarrow> fail now owner (taken_id job) msg js))"

text \<open>One firing of the timer \<open>hold\<close> sets: nothing once the job has been held too long.\<close>

definition hold_tick :: "time \<Rightarrow> time \<Rightarrow> uuid \<Rightarrow> uuid \<Rightarrow> 'p job list \<Rightarrow> bool \<times> 'p job list" where
  "hold_tick now until owner i js =
    (if until < now then (False, js)
     else (True, update_where (mine owner i)
                   (\<lambda>j. j\<lparr>locked_until := Some (in_seconds now LEASE_S)\<rparr>) js))"

definition ready_at :: "'p job \<Rightarrow> time" where
  "ready_at j = (case locked_until j of None \<Rightarrow> run_at j | Some u \<Rightarrow> max (run_at j) u)"

text \<open>How long until the earliest job of another holder is ready, in milliseconds.\<close>

definition next_due :: "time \<Rightarrow> uuid \<Rightarrow> 'p job list \<Rightarrow> int option" where
  "next_due now owner js =
    map_option (\<lambda>m. max (m - now) 0)
      (pg_least (map ready_at
         (select_where (\<lambda>j. ready j \<and> locked_by j \<noteq> Some owner) js)))"

text \<open>What \<open>readyJobsFor\<close> and \<open>readyJobsMatching\<close> ask, for an \<open>exists\<close>.\<close>

definition ready_jobs_for :: "('p \<Rightarrow> uuid option) \<Rightarrow> string \<Rightarrow> uuid \<Rightarrow> 'p job list \<Rightarrow> bool" where
  "ready_jobs_for resource_id ty i =
    list_ex (\<lambda>j. job_type j = ty \<and> ready j \<and> resource_id (payload j) = Some i)"

definition ready_jobs_matching ::
  "('p \<Rightarrow> 'p \<Rightarrow> bool) \<Rightarrow> string \<Rightarrow> 'p \<Rightarrow> 'p job list \<Rightarrow> bool" where
  "ready_jobs_matching holds ty match =
    list_ex (\<lambda>j. job_type j = ty \<and> ready j \<and> holds (payload j) match)"

end
