(* ===== verification/Job_Lifecycle.thy ===== *)
theory Job_Lifecycle
  imports Job_Table
begin

text \<open>
  The life of a job: every statement of \<open>Job_Table\<close> as an event on one table shared
  by all processes, the invariant they keep between them, and what follows from it:
  who may hold a job, how often it can be run, what is taken next and when.
\<close>

subsection \<open>What the statements do to a row\<close>

lemma job_state_not_Dead [simp]: "job_state j \<noteq> Dead \<longleftrightarrow> job_state j = Ready"
  by (cases "job_state j") auto

lemma find_kind_mem: "find_kind l ks = Some n \<Longrightarrow> n < length ks \<and> kind (ks ! n) = l"
  by (induction ks arbitrary: n) (auto split: if_splits)

lemma kind_of_mem: "kind_of holds ks j \<in> insert (job_type j) (kind ` set ks)"
  by (induction ks) auto

lemma listed_as_Cons:
  "listed_as holds l (k # ks) j \<longleftrightarrow>
    (if kind k = l then kind_matches holds k j
     else listed_as holds l ks j \<and> \<not> kind_matches holds k j)"
  by (auto simp: listed_as_def kind_matches_def Let_def split: option.splits)

lemma insert_batches_eq:
  "length ids = length data \<Longrightarrow>
   insert_batches mk ids data js =
     (map job_id (map2 mk ids data), js @ map2 mk ids data)"
proof (induction mk ids data js rule: insert_batches.induct)
  case (1 mk ids data js)
  show ?case
  proof (cases "data = []")
    case True
    then show ?thesis by (simp add: insert_batches.simps)
  next
    case False
    let ?n = INSERT_BATCH_SIZE
    have split: "map2 mk ids data =
        map2 mk (take ?n ids) (take ?n data) @ map2 mk (drop ?n ids) (drop ?n data)"
      using "1.prems"
      by (metis append_take_drop_id length_take map_append zip_append)
    show ?thesis
      using False "1.IH" [OF False refl] "1.prems"
      by (simp add: insert_batches.simps [of mk ids data] split Let_def)
  qed
qed

lemma insert_batches_appends: "\<exists>rows. snd (insert_batches mk ids data js) = js @ rows"
proof (induction mk ids data js rule: insert_batches.induct)
  case (1 mk ids data js)
  show ?case
  proof (cases "data = []")
    case True
    then show ?thesis by (simp add: insert_batches.simps)
  next
    case False
    with "1.IH" [OF False refl] show ?thesis
      by (subst insert_batches.simps) (fastforce simp: Let_def split: prod.split)
  qed
qed

lemma claim_cases:
  obtains (none) "claim now w skipped js = (None, js)"
      "\<And>j. j \<in> set js \<Longrightarrow> claimable now j \<Longrightarrow> job_id j \<in> set skipped"
  | (taken) c where "c \<in> set js" "claimable now c" "job_id c \<notin> set skipped"
      "\<And>j. j \<in> set js \<Longrightarrow> claimable now j \<Longrightarrow> job_id j \<notin> set skipped \<Longrightarrow> take_order c \<le> take_order j"
      "claim now w skipped js =
        (Some \<lparr>taken_id = job_id c, taken_type = job_type c, taken_data = payload c,
               taken_priority = priority c\<rparr>,
         update_where (\<lambda>j. job_id j = job_id c) (leased now w) js)"
proof (cases "first_by take_order
    (select_where (\<lambda>j. claimable now j \<and> job_id j \<notin> set skipped) js)")
  case None
  moreover from None have "\<And>j. j \<in> set js \<Longrightarrow> claimable now j \<Longrightarrow> job_id j \<in> set skipped"
    by (auto simp: select_where_def filter_empty_conv)
  ultimately show ?thesis using None by (intro none) (simp_all add: claim_def)
next
  case (Some c)
  note c = first_by_Some [OF Some]
  show ?thesis
    by (rule taken [of c]) (use c in \<open>auto simp: table_simps claim_def Some\<close>)
qed

lemma row_of_insert_batches:
  assumes "length ids = length data"
  shows "row_of job_id (snd (insert_batches mk ids data js)) k =
    (case row_of job_id js k of Some j \<Rightarrow> Some j | None \<Rightarrow> row_of job_id (map2 mk ids data) k)"
  using assms by (simp add: insert_batches_eq row_of_append)

subsection \<open>Events on the shared table\<close>

datatype 'p job_event =
    Enqueue time "job_priority option" "uuid list" uuid string "'p option" enqueue_options
  | Enqueue_Many time "job_priority option" "uuid list" string "'p option list" enqueue_options
  | Retry_Dead time uuid
  | Revive_Dead time string "'p list" "nat option"
  | Delete_Dead time uuid
  | Prune_Dead time int
  | Bury time
  | Claim time uuid "uuid list"
  | Complete time uuid uuid
  | Fail time uuid uuid string
  | Release time uuid uuid
  | Hold_Tick time time uuid uuid

fun event_time :: "'p job_event \<Rightarrow> time" where
  "event_time (Enqueue t _ _ _ _ _ _) = t"
| "event_time (Enqueue_Many t _ _ _ _ _) = t"
| "event_time (Retry_Dead t _) = t"
| "event_time (Revive_Dead t _ _ _) = t"
| "event_time (Delete_Dead t _) = t"
| "event_time (Prune_Dead t _) = t"
| "event_time (Bury t) = t"
| "event_time (Claim t _ _) = t"
| "event_time (Complete t _ _) = t"
| "event_time (Fail t _ _ _) = t"
| "event_time (Release t _ _) = t"
| "event_time (Hold_Tick t _ _ _) = t"

record 'p job_system =
  clock :: time
  queue :: "'p queue"

fun queue_step :: "('p \<Rightarrow> 'p \<Rightarrow> bool) \<Rightarrow> 'p \<Rightarrow> 'p job_event \<Rightarrow> 'p queue \<Rightarrow> 'p queue" where
  "queue_step holds emp (Enqueue t r sk i ty d opts) q = snd (enqueue emp t r sk i ty d opts q)"
| "queue_step holds emp (Enqueue_Many t r ids ty ds opts) q =
     snd (enqueue_many emp t r ids ty ds opts q)"
| "queue_step holds emp (Retry_Dead t i) q = snd (retry_dead t i q)"
| "queue_step holds emp (Revive_Dead t ty ps tx) q = snd (revive_dead holds t ty ps tx q)"
| "queue_step holds emp (Delete_Dead t i) q = snd (delete_dead i q)"
| "queue_step holds emp (Prune_Dead t ms) q = snd (prune_dead t ms q)"
| "queue_step holds emp (Bury t) q = q\<lparr>jobs := bury_exhausted t (jobs q)\<rparr>"
| "queue_step holds emp (Claim t w sk) q = q\<lparr>jobs := snd (claim t w sk (jobs q))\<rparr>"
| "queue_step holds emp (Complete t w i) q = q\<lparr>jobs := complete w i (jobs q)\<rparr>"
| "queue_step holds emp (Fail t w i e) q = q\<lparr>jobs := fail t w i e (jobs q)\<rparr>"
| "queue_step holds emp (Release t w i) q = q\<lparr>jobs := release t w i (jobs q)\<rparr>"
| "queue_step holds emp (Hold_Tick t u w i) q = q\<lparr>jobs := snd (hold_tick t u w i (jobs q))\<rparr>"

definition job_step ::
  "('p \<Rightarrow> 'p \<Rightarrow> bool) \<Rightarrow> 'p \<Rightarrow> 'p job_event \<Rightarrow> 'p job_system \<Rightarrow> 'p job_system" where
  "job_step holds emp e s = \<lparr>clock = event_time e, queue = queue_step holds emp e (queue s)\<rparr>"

text \<open>The ids an event may insert under; the database draws them, so they are fresh.\<close>

fun inserted_ids :: "'p job_event \<Rightarrow> uuid list" where
  "inserted_ids (Enqueue t r sk i ty d opts) = [i]"
| "inserted_ids (Enqueue_Many t r ids ty ds opts) = ids"
| "inserted_ids e = []"

fun enough_ids :: "'p job_event \<Rightarrow> bool" where
  "enough_ids (Enqueue_Many t r ids ty ds opts) = (length ids = length ds)"
| "enough_ids e = True"

definition job_ok :: "'p job_event \<Rightarrow> 'p job_system \<Rightarrow> bool" where
  "job_ok e s \<longleftrightarrow> clock s \<le> event_time e \<and> distinct (inserted_ids e) \<and> enough_ids e
     \<and> list_all (\<lambda>i. i \<notin> job_id ` set (jobs (queue s))) (inserted_ids e)"

subsection \<open>The invariant\<close>

definition row_ok :: "time \<Rightarrow> 'p job \<Rightarrow> bool" where
  "row_ok now j \<longleftrightarrow>
     0 \<le> attempts j \<and> attempts j \<le> MAX_ATTEMPTS
   \<and> (locked_by j = None \<longleftrightarrow> locked_until j = None)
   \<and> (case locked_until j of None \<Rightarrow> True | Some u \<Rightarrow> u \<le> in_seconds now LEASE_S)
   \<and> (job_state j = Dead \<longrightarrow> locked_by j = None \<and> attempts j = MAX_ATTEMPTS)
   \<and> (locked_by j \<noteq> None \<longrightarrow> 1 \<le> attempts j)
   \<and> (job_state j = Ready \<and> locked_by j = None \<longrightarrow> attempts j < MAX_ATTEMPTS)"

definition job_inv :: "'p job_system \<Rightarrow> bool" where
  "job_inv s \<longleftrightarrow> distinct (map job_id (jobs (queue s)))
     \<and> (\<forall>j \<in> set (jobs (queue s)). row_ok (clock s) j)"

lemmas job_const_defs = LEASE_S_def MAX_ATTEMPTS_def RETRY_DELAY_S_def in_seconds_def

lemma row_ok_later: "row_ok now j \<Longrightarrow> now \<le> now' \<Longrightarrow> row_ok now' j"
  by (auto simp: row_ok_def job_const_defs split: option.splits)

lemma row_ok_new: "row_ok now (new_job now ty p at emp i d)"
  by (simp add: row_ok_def new_job_def job_const_defs)

lemma row_ok_leased: "row_ok now j \<Longrightarrow> claimable now j \<Longrightarrow> row_ok now (leased now w j)"
  by (auto simp: row_ok_def leased_def claimable_def ready_def job_const_defs)

lemma map2_new_job_ids:
  "length ids = length ds \<Longrightarrow> map job_id (map2 (new_job now ty p at emp) ids ds) = ids"
  by (induction ids ds rule: list_induct2) (auto simp: new_job_def)

text \<open>
  An update of rows keeps the table's invariant when it keeps the ids and each updated row
  is sound at the new time.
\<close>

definition table_ok :: "time \<Rightarrow> 'p job list \<Rightarrow> bool" where
  "table_ok now js \<longleftrightarrow> distinct (map job_id js) \<and> (\<forall>j \<in> set js. row_ok now j)"

lemma job_inv_table: "job_inv s \<longleftrightarrow> table_ok (clock s) (jobs (queue s))"
  by (simp add: job_inv_def table_ok_def)

lemma table_ok_later: "table_ok now js \<Longrightarrow> now \<le> now' \<Longrightarrow> table_ok now' js"
  by (auto simp: table_ok_def intro: row_ok_later)

lemma table_ok_update:
  assumes "table_ok now js" "\<And>j. job_id (f j) = job_id j"
    and "\<And>j. j \<in> set js \<Longrightarrow> row_ok now j \<Longrightarrow> P j \<Longrightarrow> row_ok now (f j)"
  shows "table_ok now (update_where P f js)"
  using assms by (auto simp: table_ok_def table_simps map_update_where)

lemma table_ok_delete: "table_ok now js \<Longrightarrow> table_ok now (delete_where P js)"
  by (auto simp: table_ok_def table_simps distinct_map_delete_where)

lemma table_ok_insert:
  assumes "table_ok now js" "length ids = length ds" "distinct ids" "\<forall>i \<in> set ids. i \<notin> job_id ` set js"
  shows "table_ok now (snd (insert_batches (new_job now ty p at emp) ids ds js))"
proof -
  have "row_ok now j" if "j \<in> set (map2 (new_job now ty p at emp) ids ds)" for j
    using that row_ok_new by (auto simp: in_set_zip)
  then show ?thesis
    using assms map2_new_job_ids [OF assms(2), of now ty p at emp]
    by (auto simp: table_ok_def insert_batches_eq)
qed

lemma jobs_wrote [simp]: "jobs (wrote tx q) = jobs q"
  by (simp add: wrote_def wake_def split: option.split)

lemma jobs_wake [simp]: "jobs (wake q) = jobs q"
  by (simp add: wake_def)

lemma jobs_enqueue_many:
  "jobs (snd (enqueue_many emp t r ids ty ds opts q)) =
     snd (insert_batches (new_job t ty (priority_of r opts) (run_at_of t opts) emp) ids ds (jobs q))"
  by (simp add: enqueue_many_def Let_def split: prod.split)

lemma jobs_enqueue:
  "jobs (snd (enqueue emp t r sk i ty d opts q)) =
    (case (if unless_waiting opts
           then stand_in t sk ty (case d of None \<Rightarrow> emp | Some p \<Rightarrow> p) opts (jobs q) else None) of
       Some w \<Rightarrow> raise_priority w (priority_of r opts) (jobs q)
     | None \<Rightarrow> jobs q @ [new_job t ty (priority_of r opts) (run_at_of t opts) emp i d])"
proof -
  have many: "enqueue_many emp t r [i] ty [d] opts q =
     ([i], wrote (opt_tx opts)
        (q\<lparr>jobs := jobs q @ [new_job t ty (priority_of r opts) (run_at_of t opts) emp i d]\<rparr>))"
    by (simp add: enqueue_many_def insert_batches_eq new_job_def)
  show ?thesis
    by (simp add: enqueue_def many Let_def split: option.split)
qed

lemma jobs_after_dead_ops:
  "jobs (snd (retry_dead t i q)) =
     update_where (\<lambda>j. job_id j = i \<and> job_state j = Dead) (revived t) (jobs q)"
  "jobs (snd (revive_dead holds t ty ps tx q)) =
     update_where (\<lambda>j. job_type j = ty \<and> job_state j = Dead \<and> list_ex (holds (payload j)) ps)
       (revived t) (jobs q)"
  "jobs (snd (delete_dead i q)) =
     delete_where (\<lambda>j. job_id j = i \<and> job_state j = Dead) (jobs q)"
  "jobs (snd (prune_dead t ms q)) =
     delete_where (\<lambda>j. job_state j = Dead \<and> updated j < t - ms) (jobs q)"
  by (auto simp: retry_dead_def revive_dead_def delete_dead_def prune_dead_def Let_def
      update_where_none)

lemma table_ok_raise: "table_ok now js \<Longrightarrow> table_ok now (raise_priority i p js)"
  unfolding raise_priority_def by (rule table_ok_update) (auto simp: row_ok_def)

lemma table_ok_claim:
  assumes "table_ok now js"
  shows "table_ok now (snd (claim now w sk js))"
proof (cases rule: claim_cases [of now w sk js])
  case (taken c)
  have "j = c" if "j \<in> set js" "job_id j = job_id c" for j
    using that taken(1) assms by (auto simp: table_ok_def distinct_map dest: inj_onD)
  then show ?thesis
    unfolding taken(5) using assms taken(2)
    by (auto intro!: table_ok_update row_ok_leased simp: leased_def)
qed (use assms in simp)

lemma table_ok_queue_step:
  assumes inv: "table_ok now (jobs q)" and le: "now \<le> event_time e"
    and fresh: "distinct (inserted_ids e)" "enough_ids e"
      "list_all (\<lambda>i. i \<notin> job_id ` set (jobs q)) (inserted_ids e)"
  shows "table_ok (event_time e) (jobs (queue_step holds emp e q))"
proof -
  have t: "table_ok (event_time e) (jobs q)" using inv le by (rule table_ok_later)
  show ?thesis
  proof (cases e)
    case (Enqueue t r sk i ty d opts)
    then show ?thesis
      using t fresh table_ok_insert [of t "jobs q" "[i]" "[d]"]
      by (auto simp: jobs_enqueue insert_batches_eq table_ok_raise split: option.split)
  next
    case (Enqueue_Many t r ids ty ds opts)
    then show ?thesis
      using t fresh table_ok_insert [of t "jobs q" ids ds]
      by (auto simp: jobs_enqueue_many list_all_iff)
  next
    case (Retry_Dead t i)
    then show ?thesis
      using t by (auto simp: jobs_after_dead_ops intro!: table_ok_update)
        (auto simp: revived_def row_ok_def job_const_defs)
  next
    case (Revive_Dead t ty ps tx)
    then show ?thesis
      using t by (auto simp: jobs_after_dead_ops intro!: table_ok_update)
        (auto simp: revived_def row_ok_def job_const_defs)
  next
    case (Delete_Dead t i)
    then show ?thesis using t by (auto simp: jobs_after_dead_ops intro: table_ok_delete)
  next
    case (Prune_Dead t ms)
    then show ?thesis using t by (auto simp: jobs_after_dead_ops intro: table_ok_delete)
  next
    case (Bury t)
    then show ?thesis
      using t by (auto simp: bury_exhausted_def intro!: table_ok_update)
        (auto simp: row_ok_def job_const_defs)
  next
    case (Claim t w sk)
    then show ?thesis using t by (auto intro: table_ok_claim)
  next
    case (Complete t w i)
    then show ?thesis using t by (auto simp: complete_def intro: table_ok_delete)
  next
    case (Fail t w i err)
    then show ?thesis
      using t by (auto simp: fail_def intro!: table_ok_update)
        (auto simp: row_ok_def job_const_defs)
  next
    case (Release t w i)
    then show ?thesis
      using t by (auto simp: release_def intro!: table_ok_update)
        (auto simp: row_ok_def mine_def job_const_defs)
  next
    case (Hold_Tick t u w i)
    then show ?thesis
      using t by (auto simp: hold_tick_def intro!: table_ok_update)
        (auto simp: row_ok_def mine_def job_const_defs)
  qed
qed

lemma job_inv_step: "job_inv s \<Longrightarrow> job_ok e s \<Longrightarrow> job_inv (job_step holds emp e s)"
  unfolding job_inv_table job_step_def job_ok_def
  using table_ok_queue_step [of "clock s" "queue s" e] by simp

subsection \<open>The lease of a job\<close>

definition job_lease :: "'p job_system \<Rightarrow> uuid \<Rightarrow> (uuid \<times> time) option" where
  "job_lease s i =
    (case row_of job_id (jobs (queue s)) i of
       None \<Rightarrow> None
     | Some j \<Rightarrow> (case (locked_by j, locked_until j) of
                    (Some w, Some u) \<Rightarrow> Some (w, u) | _ \<Rightarrow> None))"

text \<open>What gives a job up: its holder finishing it, failing it or handing it back.\<close>

fun job_ends :: "'p job_event \<Rightarrow> uuid \<Rightarrow> uuid \<Rightarrow> bool" where
  "job_ends (Complete t w' i') w i \<longleftrightarrow> w' = w \<and> i' = i"
| "job_ends (Fail t w' i' err) w i \<longleftrightarrow> w' = w \<and> i' = i"
| "job_ends (Release t w' i') w i \<longleftrightarrow> w' = w \<and> i' = i"
| "job_ends e w i \<longleftrightarrow> False"

lemma job_lease_Some_iff:
  "job_lease s i = Some (w, u) \<longleftrightarrow>
    (\<exists>j. row_of job_id (jobs (queue s)) i = Some j \<and> locked_by j = Some w \<and> locked_until j = Some u)"
  by (auto simp: job_lease_def split: option.splits)

lemma held_row:
  assumes "table_ok now js" "row_of job_id js i = Some j" "locked_by j = Some w"
  shows "job_state j = Ready" "job_id j = i" "j \<in> set js"
  using assms row_of_SomeD [OF assms(2)]
  by (auto simp: table_ok_def row_ok_def simp flip: job_state_not_Dead)

lemma queue_step_keeps:
  assumes inv: "table_ok now (jobs q)" "now \<le> event_time e"
    and row: "row_of job_id (jobs q) i = Some j" "locked_by j = Some w" "locked_until j = Some u"
    and live: "event_time e \<le> u" and nend: "\<not> job_ends e w i"
  shows "\<exists>j' u'. row_of job_id (jobs (queue_step holds emp e q)) i = Some j'
           \<and> locked_by j' = Some w \<and> locked_until j' = Some u' \<and> u \<le> u'"
proof -
  note held = held_row [OF inv(1) row(1,2)]
  have dist: "distinct (map job_id (jobs q))" using inv(1) by (simp add: table_ok_def)
  have ok: "row_ok now j" using inv(1) held(3) by (simp add: table_ok_def)
  note upd = row_of_update_where [where key = job_id] row_of_delete_where [OF dist]
  show ?thesis
  proof (cases e)
    case (Enqueue t r sk n ty d opts)
    then show ?thesis
      using row by (auto simp: jobs_enqueue raise_priority_def upd row_of_append split: option.split)
  next
    case (Enqueue_Many t r ids ty ds opts)
    obtain rows where "jobs (queue_step holds emp e q) = jobs q @ rows"
      using insert_batches_appends Enqueue_Many by (fastforce simp: jobs_enqueue_many)
    then show ?thesis using row by (simp add: row_of_append)
  next
    case (Retry_Dead t k)
    then show ?thesis using row held by (simp add: jobs_after_dead_ops upd revived_def)
  next
    case (Revive_Dead t ty ps tx)
    then show ?thesis using row held by (simp add: jobs_after_dead_ops upd revived_def)
  next
    case (Delete_Dead t k)
    then show ?thesis using row held by (simp add: jobs_after_dead_ops upd)
  next
    case (Prune_Dead t ms)
    then show ?thesis using row held by (simp add: jobs_after_dead_ops upd)
  next
    case (Bury t)
    then show ?thesis using row live by (simp add: bury_exhausted_def upd)
  next
    case (Claim t w' sk)
    show ?thesis
    proof (cases rule: claim_cases [of t w' sk "jobs q"])
      case none
      then show ?thesis using Claim row by simp
    next
      case (taken c)
      then have "c \<noteq> j" using row live Claim by (auto simp: claimable_def unleased_def)
      then have "job_id c \<noteq> job_id j" using dist taken(1) held(3) by (auto simp: distinct_map dest: inj_onD)
      then show ?thesis using Claim taken(5) row held by (simp add: upd leased_def)
    qed
  next
    case (Complete t w' k)
    then show ?thesis using row held nend by (auto simp: complete_def mine_def upd)
  next
    case (Fail t w' k err)
    then show ?thesis using row held nend by (auto simp: fail_def mine_def upd)
  next
    case (Release t w' k)
    then show ?thesis using row held nend by (auto simp: release_def mine_def upd)
  next
    case (Hold_Tick t un w' k)
    then show ?thesis
      using row held ok inv(2)
      by (auto simp: hold_tick_def mine_def upd row_ok_def job_const_defs)
  qed
qed

lemma job_lease_kept:
  assumes "job_inv s" "job_ok e s" "job_lease s k = Some (w, u)" "event_time e \<le> u" "\<not> job_ends e w k"
  shows "\<exists>u'\<ge>u. job_lease (job_step holds emp e s) k = Some (w, u')"
  using assms queue_step_keeps [of "clock s" "queue s" e k _ w u holds emp]
  by (fastforce simp: job_inv_table job_lease_Some_iff job_ok_def job_step_def)

interpretation job_leases: lease_machine "job_step holds emp" job_inv job_ok job_lease event_time job_ends
  for holds :: "'p \<Rightarrow> 'p \<Rightarrow> bool" and emp :: 'p
  by unfold_locales (fact job_inv_step, fact job_lease_kept)

lemma claim_leases:
  assumes "job_inv s" "fst (claim t w sk (jobs (queue s))) = Some c"
  shows "job_lease (job_step holds emp (Claim t w sk) s) (taken_id c) = Some (w, t + 600000)"
proof (cases rule: claim_cases [of t w sk "jobs (queue s)"])
  case (taken d)
  have "row_of job_id (jobs (queue s)) (job_id d) = Some d"
    using assms(1) taken(1) by (auto simp: job_inv_def intro: row_of_distinct)
  moreover have "taken_id c = job_id d" using assms(2) taken(5) by auto
  ultimately show ?thesis
    using taken(5)
    by (simp add: job_lease_Some_iff job_step_def row_of_update_where leased_def job_const_defs)
qed (use assms in simp)

lemma leased_not_claimed:
  assumes "job_inv s" "job_lease s i = Some (w, u)" "t \<le> u"
    and "fst (claim t w' sk (jobs (queue s))) = Some c"
  shows "taken_id c \<noteq> i"
proof (cases rule: claim_cases [of t w' sk "jobs (queue s)"])
  case (taken d)
  obtain j where j: "row_of job_id (jobs (queue s)) i = Some j" "locked_until j = Some u"
    using assms(2) by (auto simp: job_lease_Some_iff)
  have "row_of job_id (jobs (queue s)) (job_id d) = Some d"
    using assms(1) taken(1) by (auto simp: job_inv_def intro: row_of_distinct)
  then show ?thesis
    using assms(3,4) taken(2,5) j by (auto simp: claimable_def unleased_def)
qed (use assms in simp)

subsection \<open>How often a job can be taken\<close>

fun takes :: "'p job_event \<Rightarrow> 'p queue \<Rightarrow> uuid \<Rightarrow> bool" where
  "takes (Claim t w sk) q i \<longleftrightarrow>
     (case fst (claim t w sk (jobs q)) of None \<Rightarrow> False | Some c \<Rightarrow> taken_id c = i)"
| "takes e q i \<longleftrightarrow> False"

primrec times_taken ::
  "('p \<Rightarrow> 'p \<Rightarrow> bool) \<Rightarrow> 'p \<Rightarrow> uuid \<Rightarrow> 'p job_event list \<Rightarrow> 'p job_system \<Rightarrow> int" where
  "times_taken holds emp i [] s = 0"
| "times_taken holds emp i (e # es) s =
     (if takes e (queue s) i then 1 else 0) + times_taken holds emp i es (job_step holds emp e s)"

text \<open>Handing job \<open>i\<close> back uncounted, as a worker that is stopping does.\<close>

fun hands_back :: "uuid \<Rightarrow> 'p job_event \<Rightarrow> bool" where
  "hands_back i (Release t w i') \<longleftrightarrow> i' = i"
| "hands_back i e \<longleftrightarrow> False"

text \<open>An administrator, or a sweep, putting dead jobs back, or a new job under the id.\<close>

fun renews :: "uuid \<Rightarrow> 'p job_event \<Rightarrow> bool" where
  "renews i (Retry_Dead t i') \<longleftrightarrow> i' = i"
| "renews i (Revive_Dead t ty ps tx) \<longleftrightarrow> True"
| "renews i e \<longleftrightarrow> i \<in> set (inserted_ids e)"

definition tries_left :: "'p job list \<Rightarrow> uuid \<Rightarrow> int" where
  "tries_left js i = (case row_of job_id js i of None \<Rightarrow> 0 | Some j \<Rightarrow> MAX_ATTEMPTS - attempts j)"

lemma tries_left_bounds:
  assumes "table_ok now js"
  shows "0 \<le> tries_left js i" "tries_left js i \<le> MAX_ATTEMPTS"
  using assms row_of_SomeD [of job_id js i]
  by (auto simp: tries_left_def table_ok_def row_ok_def MAX_ATTEMPTS_def split: option.split)

lemma tries_left_update:
  assumes "\<And>j. job_id (f j) = job_id j" "\<And>j. job_id j = i \<Longrightarrow> P j \<Longrightarrow> attempts (f j) = attempts j"
  shows "tries_left (update_where P f js) i = tries_left js i"
  using assms row_of_SomeD [of job_id js i]
  by (auto simp: tries_left_def row_of_update_where split: option.split)

lemma tries_left_delete:
  assumes "table_ok now js"
  shows "tries_left (delete_where P js) i \<le> tries_left js i"
proof -
  have "distinct (map job_id js)" using assms by (simp add: table_ok_def)
  then show ?thesis
    using tries_left_bounds(1) [OF assms, of i] row_of_SomeD [of job_id js i]
    by (auto simp: tries_left_def row_of_delete_where split: option.split)
qed

lemma tries_left_append:
  assumes "i \<notin> job_id ` set rows"
  shows "tries_left (js @ rows) i = tries_left js i"
proof -
  have "row_of job_id rows i = None" using assms by (simp add: row_of_None_iff)
  then show ?thesis by (simp add: tries_left_def row_of_append split: option.split)
qed

lemma tries_left_claim:
  assumes "table_ok now js"
  shows "tries_left (snd (claim t w sk js)) i
    = tries_left js i - (case fst (claim t w sk js) of None \<Rightarrow> 0 | Some c \<Rightarrow> if taken_id c = i then 1 else 0)"
proof (cases rule: claim_cases [of t w sk js])
  case (taken c)
  have "distinct (map job_id js)" using assms by (simp add: table_ok_def)
  then have "row_of job_id js (job_id c) = Some c" using taken(1) by (rule row_of_distinct)
  then show ?thesis
    using row_of_SomeD [of job_id js i]
    by (auto simp: taken(5) tries_left_def row_of_update_where leased_def split: option.split)
qed simp

lemma tries_left_step:
  assumes inv: "table_ok now (jobs q)"
    and fresh: "enough_ids e" "\<not> renews i e"
  shows "tries_left (jobs (queue_step holds emp e q)) i + (if takes e q i then 1 else 0)
    \<le> tries_left (jobs q) i + (if hands_back i e then 1 else 0)"
proof (cases e)
  case (Enqueue t r sk n ty d opts)
  then show ?thesis
    using fresh by (auto simp: jobs_enqueue raise_priority_def tries_left_update tries_left_append
      new_job_def split: option.split)
next
  case (Enqueue_Many t r ids ty ds opts)
  then have "i \<notin> job_id ` set (map2 (new_job t ty (priority_of r opts) (run_at_of t opts) emp) ids ds)"
    using fresh map2_new_job_ids [of ids ds] by (metis enough_ids.simps(1) image_set inserted_ids.simps(2) renews.simps(4))
  then show ?thesis
    using Enqueue_Many fresh by (simp add: jobs_enqueue_many insert_batches_eq tries_left_append)
next
  case (Retry_Dead t k)
  then have "tries_left (jobs (queue_step holds emp e q)) i = tries_left (jobs q) i"
    using fresh by (simp add: jobs_after_dead_ops) (rule tries_left_update, auto simp: revived_def)
  with Retry_Dead show ?thesis by simp
next
  case (Delete_Dead t k)
  then show ?thesis using tries_left_delete [OF inv] by (simp add: jobs_after_dead_ops)
next
  case (Prune_Dead t ms)
  then show ?thesis using tries_left_delete [OF inv] by (simp add: jobs_after_dead_ops)
next
  case (Bury t)
  then show ?thesis by (simp add: bury_exhausted_def tries_left_update)
next
  case (Claim t w sk)
  then show ?thesis using tries_left_claim [OF inv, of t w sk i] by (auto split: option.splits)
next
  case (Complete t w k)
  then show ?thesis using tries_left_delete [OF inv] by (simp add: complete_def)
next
  case (Fail t w k err)
  then show ?thesis by (simp add: fail_def tries_left_update)
next
  case (Release t w k)
  then show ?thesis
    using row_of_SomeD [of job_id "jobs q" i]
    by (auto simp: release_def tries_left_def row_of_update_where mine_def split: option.split)
next
  case (Hold_Tick t u w k)
  then show ?thesis by (simp add: hold_tick_def tries_left_update)
qed (use fresh in simp)

lemma times_taken_bound:
  assumes "job_inv s" "steps_ok job_ok (job_step holds emp) es s" "\<And>e. e \<in> set es \<Longrightarrow> \<not> renews i e"
  shows "times_taken holds emp i es s
    \<le> tries_left (jobs (queue s)) i + int (length (filter (hands_back i) es))"
  using assms
proof (induction es arbitrary: s)
  case Nil
  then show ?case using tries_left_bounds(1) [of "clock s"] by (simp add: job_inv_table)
next
  case (Cons e es)
  let ?s' = "job_step holds emp e s"
  have "job_inv ?s'" using Cons.prems by (auto intro: job_inv_step)
  then have "times_taken holds emp i es ?s'
      \<le> tries_left (jobs (queue ?s')) i + int (length (filter (hands_back i) es))"
    using Cons by auto
  moreover have "tries_left (jobs (queue ?s')) i + (if takes e (queue s) i then 1 else 0)
      \<le> tries_left (jobs (queue s)) i + (if hands_back i e then 1 else 0)"
    using tries_left_step [of "clock s" "queue s" e i holds emp] Cons.prems
    by (auto simp: job_inv_table job_ok_def job_step_def)
  ultimately show ?case by auto
qed

end
