(* ===== verification/Job_Guarantees.thy ===== *)
theory Job_Guarantees
  imports Job_Lifecycle
begin

text \<open>
  What the job queue guarantees, stated over the statements of \<open>Job_Table\<close> and the
  runs of \<open>Job_Lifecycle\<close>; each property is followed by its instance at a small
  table.
\<close>

definition sample_job :: "uuid \<Rightarrow> job_priority \<Rightarrow> time \<Rightarrow> nat job" where
  "sample_job i p t = new_job 0 ''pipeline'' p t 0 i (Some i)"

lemma sample_job_id: "job_id (sample_job i p t) = i"
  by (simp add: sample_job_def new_job_def)

definition sample_system :: "nat job_system" where
  "sample_system =
    \<lparr>clock = 0, queue = \<lparr>jobs = [sample_job 1 Low 0, sample_job 2 High 5], written = [], wake_calls = 0\<rparr>\<rparr>"

abbreviation sample_step :: "nat job_event \<Rightarrow> nat job_system \<Rightarrow> nat job_system" where
  "sample_step \<equiv> job_step (\<lambda>a b. a = b) 0"

text \<open>
  C14. One runner at a time: from the moment a worker takes a job until the lease it was
  given has run out, no worker - itself included - takes the job again, whatever the other
  processes do to the table meanwhile, unless the holder itself finishes, fails or hands back
  the job; and the row still names the holder.
\<close>
theorem job_lease_excludes:
  assumes "job_inv s" "job_ok (Claim t w sk) s"
    and "fst (claim t w sk (jobs (queue s))) = Some c"
    and "steps_ok job_ok (job_step holds emp) (Claim t w sk # es) s"
    and "\<forall>e \<in> set es. event_time e \<le> t + 600000 \<and> \<not> job_ends e w (taken_id c)"
    and "s' = run_steps (job_step holds emp) (Claim t w sk # es) s"
  shows "(\<exists>j. row_of job_id (jobs (queue s')) (taken_id c) = Some j \<and> locked_by j = Some w)
    \<and> (\<forall>t' w' sk' c'. t' \<le> t + 600000 \<longrightarrow> fst (claim t' w' sk' (jobs (queue s'))) = Some c'
         \<longrightarrow> taken_id c' \<noteq> taken_id c)"
proof -
  let ?s1 = "job_step holds emp (Claim t w sk) s"
  have inv: "job_inv ?s1" "job_inv s'"
    using job_leases.inv_run [OF assms(1,4)] assms(1,2,6) by (auto intro: job_inv_step)
  obtain u where u: "t + 600000 \<le> u" "job_lease s' (taken_id c) = Some (w, u)"
    using job_leases.lease_kept_run [where es = es and holds = holds and emp = emp,
        OF inv(1) _ claim_leases [OF assms(1,3)]] assms(4-6)
    by fastforce
  have "taken_id c' \<noteq> taken_id c"
    if "t' \<le> t + 600000" "fst (claim t' w' sk' (jobs (queue s'))) = Some c'" for t' w' sk' c'
    using leased_not_claimed [OF inv(2) u(2) _ that(2)] that(1) u(1) by simp
  with u(2) show ?thesis by (auto simp: job_lease_Some_iff)
qed

theorem job_lease_excludes_witness:
  "let s' = run_steps sample_step [Claim 10 7 [], Hold_Tick 120000 5400000 7 2, Claim 200000 8 [],
              Bury 300000] sample_system
   in (\<exists>j. row_of job_id (jobs (queue s')) 2 = Some j \<and> locked_by j = Some 7)"
proof -
  let ?es = "[Hold_Tick 120000 5400000 7 2, Claim 200000 8 [], Bury 300000] :: nat job_event list"
  have "job_inv sample_system" "job_ok (Claim 10 7 []) sample_system"
    "fst (claim 10 7 [] (jobs (queue sample_system))) =
      Some \<lparr>taken_id = 2, taken_type = ''pipeline'', taken_data = 2, taken_priority = High\<rparr>"
    "steps_ok job_ok sample_step (Claim 10 7 [] # ?es) sample_system"
    "\<forall>e \<in> set ?es. event_time e \<le> 10 + 600000 \<and> \<not> job_ends e 7 2"
    by code_simp+
  from job_lease_excludes [OF this(1-4) _ refl] this(5) show ?thesis by simp
qed



text \<open>
  The order of work: a worker's statement takes the least ready job by priority, then by
  due time, then by id, among those no transaction holds locked, and takes nothing only when
  none is ready; and the job it takes is stamped with a ten minute lease, its owner and one
  more attempt, while every other row stays as it was.
\<close>
theorem claim_takes_first:
  "case claim now w skipped js of
     (None, js') \<Rightarrow> js' = js \<and> (\<forall>j \<in> set js. claimable now j \<longrightarrow> job_id j \<in> set skipped)
   | (Some c, js') \<Rightarrow>
       (\<exists>j \<in> set js. taken_id c = job_id j \<and> taken_data c = payload j \<and> claimable now j
          \<and> job_id j \<notin> set skipped
          \<and> (\<forall>r \<in> set js. claimable now r \<and> job_id r \<notin> set skipped \<longrightarrow> take_order j \<le> take_order r))
       \<and> js' = map (\<lambda>r. if job_id r = taken_id c
                      then r\<lparr>locked_until := Some (now + 600000), locked_by := Some w,
                              attempts := attempts r + 1, updated := now\<rparr> else r) js"
  by (cases rule: claim_cases [of now w skipped js])
     (auto simp: leased_def job_const_defs update_where_def)

theorem claim_takes_first_witness:
  "map_option taken_id (fst (claim 10 3 [] (jobs (queue sample_system)))) = Some 2"
proof -
  let ?js = "[sample_job 1 Low 0, sample_job 2 High 5]"
  obtain c js' where c: "claim 10 3 [] ?js = (c, js')" by force
  have can: "claimable 10 (sample_job 1 Low 0)" "claimable 10 (sample_job 2 High 5)"
    "\<not> take_order (sample_job 1 Low 0) \<le> take_order (sample_job 2 High 5)" by code_simp+
  have "c \<noteq> None \<and> taken_id (the c) = 2"
    using claim_takes_first [where now = 10 and w = 3 and skipped = "[]" and js = ?js] can
    unfolding c by (cases c) (auto simp: sample_job_id)
  then show ?thesis using c by (auto simp: sample_system_def)
qed

text \<open>
  C37. What the admin screen lists as waiting is what will be taken: once a pass has buried the
  jobs whose worker died on the last attempt, the head of \<open>listJobs\<close> for the status
  \<open>waiting\<close> is the very job \<open>claim\<close> takes, in every table the queue can reach.
\<close>
theorem waiting_list_is_take_order:
  assumes "table_ok now js"
  shows "map_option taken_id (fst (claim now w [] (bury_exhausted now js)))
    = (case fst (list_jobs holds now (Some Waiting) None kinds 1 0 (bury_exhausted now js)) of
         [] \<Rightarrow> None | j # _ \<Rightarrow> Some (job_id j))"
proof -
  let ?js = "bury_exhausted now js"
  have "claimable now j \<longleftrightarrow> job_status now j = Waiting" if "j \<in> set ?js" for j
    using that assms by (auto simp: bury_exhausted_def table_simps claimable_def job_status_def
        ready_def due_def unleased_def table_ok_def row_ok_def split: option.splits if_splits)
  then have "select_where (\<lambda>j. claimable now j \<and> job_id j \<notin> set []) ?js
      = select_where (list_where holds now (Some Waiting) None kinds) ?js"
    by (auto simp: select_where_def list_where_def intro!: filter_cong)
  then show ?thesis
    by (auto simp: claim_def list_jobs_def first_by_def Let_def split: list.split)
qed

theorem waiting_list_is_take_order_witness:
  "map_option taken_id (fst (claim 10 3 [] (bury_exhausted 10 (jobs (queue sample_system))))) = Some 2"
proof -
  have "table_ok 10 (jobs (queue sample_system))" by code_simp
  note waiting_list_is_take_order [OF this, of 3 "\<lambda>a b. a = b" "[]"]
  moreover have "fst (list_jobs (\<lambda>a b. a = b) 10 (Some Waiting) None [] 1 0
      (bury_exhausted 10 (jobs (queue sample_system)))) = [sample_job 2 High 5]" by code_simp
  ultimately show ?thesis by (simp add: sample_job_def new_job_def)
qed

text \<open>
  The two spellings of a job's kind agree: with kinds of distinct names, none of them the
  row's own type, the filter \<open>listedAs\<close> builds for an index selects exactly the rows whose
  computed kind \<open>kindOf\<close> is the one asked for, whatever containment means.
\<close>
theorem listed_as_iff_kind_of:
  assumes "distinct (map kind kinds)" "\<forall>k \<in> set kinds. kind k \<noteq> job_type j"
  shows "listed_as holds l kinds j \<longleftrightarrow> kind_of holds kinds j = l"
  using assms
proof (induction kinds)
  case Nil
  then show ?case by (auto simp: listed_as_def)
next
  case (Cons k ks)
  moreover have "kind k = l \<Longrightarrow> kind_of holds ks j \<noteq> l"
    using kind_of_mem [of holds ks j] Cons.prems by (metis insertE list.set_intros(1) distinct.simps(2) list.simps(9) list.set_map)
  ultimately show ?case by (auto simp: listed_as_Cons)
qed

theorem listed_as_iff_kind_of_witness:
  "listed_as (\<lambda>a b. b \<le> a) ''bulk'' [\<lparr>kind = ''bulk'', kind_type = ''pipeline'', kind_payload = 2\<rparr>]
     (sample_job 2 High 5)"
  using listed_as_iff_kind_of [of "[\<lparr>kind = ''bulk'', kind_type = ''pipeline'', kind_payload = 2\<rparr>]"
      "sample_job 2 High 5" "\<lambda>a b. b \<le> a" "''bulk''"]
  by (simp add: sample_job_def new_job_def kind_matches_def)

text \<open>
  The consumer sleeps no longer than it may: with the timer set to the delay
  \<open>armForNextDue\<close> computes, no job that another process could hold becomes ready to be
  taken before the timer fires, and a computed delay is never negative.
\<close>
theorem timer_wakes_in_time:
  "case next_due now w js of
     None \<Rightarrow> (\<forall>j \<in> set js. \<forall>t \<ge> now. locked_by j \<noteq> Some w \<longrightarrow> \<not> claimable t j)
   | Some d \<Rightarrow> 0 \<le> d \<and>
       (\<forall>j \<in> set js. \<forall>t \<ge> now. locked_by j \<noteq> Some w \<longrightarrow> t < now + d \<longrightarrow> \<not> claimable t j)"
proof -
  let ?rows = "select_where (\<lambda>j. ready j \<and> locked_by j \<noteq> Some w) js"
  have late: "ready_at j \<le> t" if "claimable t j" for j :: "'a job" and t
    using that by (auto simp: claimable_def ready_at_def due_def unleased_def split: option.splits)
  show ?thesis
  proof (cases "next_due now w js")
    case None
    then show ?thesis by (auto simp: next_due_def select_where_def filter_empty_conv claimable_def)
  next
    case (Some d)
    then obtain m where m: "pg_least (map ready_at ?rows) = Some m" "d = max (m - now) 0"
      by (auto simp: next_due_def)
    have "now + d \<le> t" if "j \<in> set js" "locked_by j \<noteq> Some w" "claimable t j" "now \<le> t" for j t
    proof -
      have "j \<in> set ?rows" using that by (auto simp: table_simps claimable_def)
      then have "m \<le> ready_at j" using pg_least_le [of "ready_at j" "map ready_at ?rows"] m(1) by auto
      then show ?thesis using late [OF that(3)] m(2) that(4) by simp
    qed
    then show ?thesis using Some m(2) by fastforce
  qed
qed

theorem timer_wakes_in_time_witness:
  "next_due 0 9 [sample_job 1 Low 70, sample_job 2 High 50] = Some 50
    \<and> \<not> claimable 49 (sample_job 2 High 50)"
proof -
  have "next_due 0 9 [sample_job 1 Low 70, sample_job 2 High 50] = Some 50" by code_simp
  with timer_wakes_in_time [where now = 0 and w = 9 and js = "[sample_job 1 Low 70, sample_job 2 High 50]"]
  show ?thesis by (simp add: sample_job_def new_job_def)
qed

text \<open>
  What \<open>unlessWaiting\<close> promises: either the job is written as asked, or the id returned is
  that of a job of the same type and payload that is ready, that no worker has ever taken, that
  is due no later than the one asked for, and that now has a priority at least as urgent as the
  one asked for; in both cases no other job changes.
\<close>
theorem enqueue_unless_waiting:
  assumes "unless_waiting opts" "distinct (map job_id (jobs q))" "i \<notin> job_id ` set (jobs q)"
  shows "case enqueue emp now running skipped i ty d opts q of
     (None, q') \<Rightarrow> False
   | (Some n, q') \<Rightarrow>
       (\<exists>j \<in> set (jobs q'). job_id j = n \<and> job_type j = ty
          \<and> payload j = (case d of None \<Rightarrow> emp | Some p \<Rightarrow> p) \<and> ready j \<and> attempts j = 0
          \<and> unleased now j \<and> priority j \<le> priority_of running opts
          \<and> run_at j \<le> in_seconds now (case delay_seconds opts of None \<Rightarrow> 0 | Some s \<Rightarrow> s))
     \<and> (\<forall>j \<in> set (jobs q). job_id j \<noteq> n \<longrightarrow> j \<in> set (jobs q'))
     \<and> (length (jobs q') \<le> Suc (length (jobs q)))"
proof -
  let ?data = "case d of None \<Rightarrow> emp | Some p \<Rightarrow> p"
  have many: "enqueue_many emp now running [i] ty [d] opts q =
     ([i], wrote (opt_tx opts) (q\<lparr>jobs := jobs q @
        [new_job now ty (priority_of running opts) (run_at_of now opts) emp i d]\<rparr>))"
    by (simp add: enqueue_many_def insert_batches_eq new_job_def)
  show ?thesis
  proof (cases "stand_in now skipped ty ?data opts (jobs q)")
    case None
    then show ?thesis
      using assms(1) many
      by (auto simp: enqueue_def new_job_def ready_def unleased_def run_at_of_def in_seconds_def
          split: option.splits)
  next
    case (Some n)
    then obtain j where j: "j \<in> set (jobs q)" "job_id j = n" "stands_in now ty ?data opts j"
      by (auto simp: stand_in_def find_Some_iff in_set_conv_nth)
    let ?p = "priority_of running opts"
    have "j\<lparr>priority := min (priority j) ?p\<rparr> \<in> set (raise_priority n ?p (jobs q))"
      using j by (auto simp: raise_priority_def table_simps)
    moreover have "min (priority j) ?p \<le> ?p" by simp
    ultimately show ?thesis
      using assms(1) Some j
      by (auto simp: enqueue_def Let_def stands_in_def ready_def unleased_def raise_priority_def table_simps
          intro!: bexI [of _ "j\<lparr>priority := min (priority j) ?p\<rparr>"])
  qed
qed

theorem enqueue_unless_waiting_witness:
  "fst (enqueue 0 6 None [] 9 ''pipeline'' (Some 2)
     \<lparr>delay_seconds = None, opt_priority = Some High, opt_tx = None, unless_waiting = True\<rparr>
     (queue sample_system)) = Some 2"
proof -
  let ?o = "\<lparr>delay_seconds = None, opt_priority = Some High, opt_tx = None, unless_waiting = True\<rparr>"
  have "unless_waiting ?o" "distinct (map job_id (jobs (queue sample_system)))"
    "9 \<notin> job_id ` set (jobs (queue sample_system))"
    by code_simp+
  note enqueue_unless_waiting [OF this, where emp = 0 and now = 6 and running = None
      and skipped = "[]" and ty = "''pipeline''" and d = "Some 2"]
  moreover have "fst (enqueue 0 6 None [] 9 ''pipeline'' (Some 2) ?o (queue sample_system)) \<in> {None, Some 2}"
    by code_simp
  ultimately show ?thesis by (auto split: prod.splits option.splits)
qed

text \<open>
  A bulk enqueue is its insertions: however the list is cut into batches, \<open>enqueueMany\<close>
  appends one job per item in the list's order under the ids the database drew, answers those
  ids, and outside a transaction wakes the worker exactly once - not at all for an empty list,
  and within a transaction only by marking it.
\<close>
theorem enqueue_many_appends:
  assumes "length ids = length ds"
  shows "enqueue_many emp now running ids ty ds opts q =
    (ids, q\<lparr>jobs := jobs q @ map2 (new_job now ty (priority_of running opts) (run_at_of now opts) emp) ids ds,
            wake_calls := wake_calls q + (if ds = [] \<or> opt_tx opts \<noteq> None then 0 else 1),
            written := (case opt_tx opts of
                          None \<Rightarrow> written q
                        | Some t \<Rightarrow> if ds = [] then written q else List.insert t (written q))\<rparr>)"
  using assms map2_new_job_ids [OF assms, of now ty "priority_of running opts" "run_at_of now opts" emp]
  by (cases "opt_tx opts"; cases "ds = []")
     (auto simp: enqueue_many_def insert_batches_eq wrote_def wake_def Let_def)

theorem enqueue_many_appends_witness:
  "fst (enqueue_many 0 5 None [7, 8] ''t'' [Some 1, None]
     \<lparr>delay_seconds = None, opt_priority = None, opt_tx = None, unless_waiting = False\<rparr>
     (queue sample_system)) = [7, 8 :: uuid]"
  by (subst enqueue_many_appends) simp_all

text \<open>
  A worker that lost its lease cannot touch the job: finishing it, failing it, handing it
  back or extending it leaves the whole table as it was, whoever holds the job now.
\<close>
theorem lost_lease_writes_nothing:
  assumes "\<forall>j \<in> set js. job_id j = i \<longrightarrow> locked_by j \<noteq> Some w"
  shows "complete w i js = js \<and> fail now w i err js = js \<and> release now w i js = js
    \<and> snd (hold_tick now until w i js) = js"
  using assms
  by (auto simp: complete_def fail_def release_def hold_tick_def mine_def delete_where_def
      intro!: update_where_none filter_True)

theorem lost_lease_writes_nothing_witness:
  "complete 9 1 (snd (claim 3 7 [] [sample_job 1 Low 0])) = snd (claim 3 7 [] [sample_job 1 Low 0])"
proof -
  have "\<forall>j \<in> set (snd (claim 3 7 [] [sample_job 1 Low 0])). job_id j = 1 \<longrightarrow> locked_by j \<noteq> Some 9"
    by code_simp
  from lost_lease_writes_nothing [OF this] show ?thesis by blast
qed

text \<open>
  How a taken job ends (\<open>run\<close>). Its row is gone exactly when the handler returned or
  nobody handles the type; cut short by a stop it is ready again at once with the try
  given back; and however else the handler throws - an interruption nobody asked for
  included - it waits five minutes, or is dead once its tries are used up, saying why. In
  the last two cases nobody holds it, and no other job is touched in any.
\<close>
theorem run_settles_the_job:
  assumes "distinct (map job_id js)" "j \<in> set js" "job_id j = taken_id c" "locked_by j = Some w"
  shows "(\<forall>i. i \<noteq> taken_id c \<longrightarrow> row_of job_id (run_job now w stopping hs c js) i = row_of job_id js i)
    \<and> (case row_of job_id (run_job now w stopping hs c js) (taken_id c) of
         None \<Rightarrow> (case hs (taken_type c) of None \<Rightarrow> True | Some h \<Rightarrow> h c = Returned)
       | Some j' \<Rightarrow> locked_by j' = None \<and> locked_until j' = None
           \<and> (\<exists>h. hs (taken_type c) = Some h
                \<and> ((\<exists>msg. h c = Interrupted msg \<and> stopping \<and> run_at j' = now
                       \<and> attempts j' = attempts j - 1 \<and> job_state j' = job_state j)
                 \<or> (\<exists>msg. (h c = Threw msg \<or> h c = Interrupted msg \<and> \<not> stopping)
                       \<and> last_error j' = Some msg \<and> run_at j' = now + 300000 \<and> attempts j' = attempts j
                       \<and> job_state j' = (if 3 \<le> attempts j then Dead else Ready)))))"
proof -
  have row: "row_of job_id js (taken_id c) = Some j"
    using row_of_distinct [OF assms(1,2)] assms(3) by simp
  have mine: "mine w (taken_id c) j" using assms(3,4) by (simp add: mine_def)
  have upd: "row_of job_id (update_where (mine w (taken_id c)) f js) i =
      (if i = taken_id c then Some (f j) else row_of job_id js i)" if "\<And>j. job_id (f j) = job_id j" for f i
    using that row mine row_of_SomeD [of job_id js i]
    by (auto simp: row_of_update_where mine_def split: option.split)
      (cases "row_of job_id js i"; auto)
  have del: "row_of job_id (complete w (taken_id c) js) i =
      (if i = taken_id c then None else row_of job_id js i)" for i
    using row mine row_of_SomeD [of job_id js i] assms(1)
    by (auto simp: complete_def row_of_delete_where mine_def split: option.split)
  show ?thesis
  proof (cases "hs (taken_type c)")
    case None
    then show ?thesis using del by (simp add: run_job_def)
  next
    case (Some h)
    then show ?thesis
      by (cases "h c") (auto simp: run_job_def del upd fail_def release_def in_seconds_def
          MAX_ATTEMPTS_def RETRY_DELAY_S_def)
  qed
qed

lemma run_settles_the_job_witness:
  "row_of job_id (run_job 9 7 False (\<lambda>_. Some (\<lambda>_. Threw ''boom''))
      \<lparr>taken_id = 1, taken_type = ''pipeline'', taken_data = 1, taken_priority = Low\<rparr>
      [leased 8 7 (sample_job 1 Low 0), sample_job 2 High 5]) 2 = Some (sample_job 2 High 5)"
proof -
  let ?js = "[leased 8 7 (sample_job 1 Low 0), sample_job 2 High 5]"
  let ?c = "\<lparr>taken_id = 1, taken_type = ''pipeline'', taken_data = 1 :: nat, taken_priority = Low\<rparr>"
  have h: "distinct (map job_id ?js)" "leased 8 7 (sample_job 1 Low 0) \<in> set ?js"
    "job_id (leased 8 7 (sample_job 1 Low 0)) = taken_id ?c"
    "locked_by (leased 8 7 (sample_job 1 Low 0)) = Some 7"
    by (simp_all add: leased_def sample_job_def new_job_def)
  from run_settles_the_job [OF h, where now = 9 and stopping = False and hs = "\<lambda>_. Some (\<lambda>_. Threw ''boom'')"]
  show ?thesis by (simp add: leased_def sample_job_def new_job_def)
qed

end
