(* ===== verification/Job_Worker.thy ===== *)
theory Job_Worker
  imports Job_Table
begin

text \<open>
  The consumer side of \<open>PostgresJobQueue\<close> inside one worker process
  (\<open>packages/queue/src/postgres.ts\<close>): the loops that take jobs (\<open>requestPass\<close>,
  \<open>lane\<close>), the timer (\<open>arm\<close>, \<open>disarm\<close>, \<open>passFailed\<close>), stopping, and the
  coalesced wake signal. JavaScript runs one turn at a time, so an event is one turn:
  what the code does between two \<open>await\<close>s. Which turn comes next - a query that
  answers, a job that ends, a request, the timer - is the environment's choice.
  The waiting counts reported for scaling (\<open>onWaiting\<close>) are not modelled.
\<close>

subsection \<open>One call at a time: \<open>coalesced\<close>\<close>

record coalesced =
  busy :: bool
  again :: bool
  started :: nat

datatype coalesced_event = Request | Fn_Done | Fn_Threw

definition coalesced_init :: coalesced where
  "coalesced_init = \<lparr>busy = False, again = False, started = 0\<rparr>"

fun coalesced_step :: "coalesced_event \<Rightarrow> coalesced \<Rightarrow> coalesced" where
  "coalesced_step Request s =
     (if busy s then s\<lparr>again := True\<rparr>
      else s\<lparr>busy := True, again := False, started := Suc (started s)\<rparr>)"
| "coalesced_step Fn_Done s =
     (if again s then s\<lparr>again := False, started := Suc (started s)\<rparr> else s\<lparr>busy := False\<rparr>)"
| "coalesced_step Fn_Threw s = s\<lparr>busy := False\<rparr>"

definition coalesced_inv :: "nat \<Rightarrow> coalesced \<Rightarrow> bool" where
  "coalesced_inv n s \<longleftrightarrow> (again s \<longrightarrow> busy s) \<and> (started s \<le> n \<longrightarrow> busy s \<and> again s \<and> started s = n)"

definition coalesced_ok :: "coalesced_event \<Rightarrow> coalesced \<Rightarrow> bool" where
  "coalesced_ok e s \<longleftrightarrow> (e = Fn_Done \<longrightarrow> busy s) \<and> e \<noteq> Fn_Threw"

interpretation signal: machine coalesced_step "coalesced_inv n" coalesced_ok for n
proof unfold_locales
  fix s e
  show "coalesced_inv n s \<Longrightarrow> coalesced_ok e s \<Longrightarrow> coalesced_inv n (coalesced_step e s)"
    by (cases e) (auto simp: coalesced_inv_def coalesced_ok_def)
qed

lemma again_only_busy:
  "steps_ok coalesced_ok coalesced_step es s \<Longrightarrow> again s \<longrightarrow> busy s
    \<Longrightarrow> again (run_steps coalesced_step es s) \<longrightarrow> busy (run_steps coalesced_step es s)"
proof (induction es arbitrary: s)
  case (Cons e es)
  moreover from Cons.prems have "again (coalesced_step e s) \<longrightarrow> busy (coalesced_step e s)"
    by (cases e) (auto simp: coalesced_ok_def)
  ultimately show ?case by simp
qed simp

lemma coalesced_request_inv:
  "again s \<longrightarrow> busy s \<Longrightarrow> coalesced_inv (started s) (coalesced_step Request s)"
  by (auto simp: coalesced_inv_def)

subsection \<open>The lanes of a worker\<close>

text \<open>
  Where a loop stands: waiting for the burial of exhausted jobs, waiting for \<open>claim\<close> with
  the value \<open>wakes\<close> had when the look began, running a job, closing (no longer counted in
  \<open>active\<close>), or over.
\<close>

datatype lane = Burying | Looking nat | Working | Closing | Over

record worker =
  handlers :: bool
  stopped :: bool
  concurrency :: nat
  active :: nat
  lanes :: "lane list"
  wakes :: nat
  last_look :: nat
  took_since_idle :: bool
  running :: nat
  timer :: "time option"
  backoff_until :: time

text \<open>
  \<open>last_look\<close> is what \<open>wakes\<close> was when a \<open>claim\<close> statement was last sent; the code
  keeps it per loop (\<open>looked\<close>), the model also remembers the latest, to state that no
  request goes unanswered. \<open>timer\<close> is \<open>timerAt\<close>, \<open>None\<close> for no timer.
\<close>

definition worker_init :: "int \<Rightarrow> worker" where
  "worker_init c = \<lparr>handlers = False, stopped = False, concurrency = nat (max 1 c), active = 0,
     lanes = [], wakes = 0, last_look = 0, took_since_idle = False, running = 0, timer = None,
     backoff_until = 0\<rparr>"

definition disarm :: "worker \<Rightarrow> worker" where
  "disarm s = s\<lparr>timer := None\<rparr>"

definition arm :: "time \<Rightarrow> int \<Rightarrow> worker \<Rightarrow> worker" where
  "arm now delay s =
    (if stopped s then s
     else let d = max delay (backoff_until s - now); at = now + d
          in case timer s of
               Some at' \<Rightarrow> if at' \<le> at then s else s\<lparr>timer := Some at\<rparr>
             | None \<Rightarrow> s\<lparr>timer := Some at\<rparr>)"

definition DRAIN_RETRY_MS :: int where "DRAIN_RETRY_MS = 30000"

definition pass_failed :: "time \<Rightarrow> worker \<Rightarrow> worker" where
  "pass_failed now s =
    arm now DRAIN_RETRY_MS (disarm (s\<lparr>backoff_until := now + DRAIN_RETRY_MS\<rparr>))"

text \<open>The head of the \<open>while\<close> loop, and leaving the loop (\<open>failed\<close> after a throw).\<close>

definition leave_loop :: "nat \<Rightarrow> bool \<Rightarrow> worker \<Rightarrow> worker" where
  "leave_loop i failed s =
    (let n = active s - 1
     in s\<lparr>active := n, took_since_idle := (if n = 0 then False else took_since_idle s),
          lanes := (lanes s)[i := if stopped s \<or> failed then Over else Closing]\<rparr>)"

definition loop_head :: "nat \<Rightarrow> worker \<Rightarrow> worker" where
  "loop_head i s =
    (if stopped s then leave_loop i False s
     else s\<lparr>lanes := (lanes s)[i := Looking (wakes s)], last_look := wakes s\<rparr>)"

text \<open>Starting lanes until \<open>concurrency\<close> are; a lane runs up to its first \<open>await\<close> at once.\<close>

fun start_lanes :: "nat \<Rightarrow> bool \<Rightarrow> worker \<Rightarrow> worker" where
  "start_lanes 0 bury s = s"
| "start_lanes (Suc n) bury s =
     (let s1 = s\<lparr>active := Suc (active s), lanes := lanes s @ [Burying]\<rparr>;
          s2 = (if bury then s1 else loop_head (length (lanes s)) s1)
      in start_lanes n False s2)"

definition request_pass :: "worker \<Rightarrow> worker" where
  "request_pass s =
    (if stopped s then s
     else let s1 = s\<lparr>wakes := Suc (wakes s)\<rparr>
          in start_lanes (concurrency s - active s) (active s = 0) s1)"

definition wake_here :: "worker \<Rightarrow> worker" where
  "wake_here s = (if handlers s then request_pass s else s)"

text \<open>\<open>process\<close> throws when it is already running.\<close>

definition process_jobs :: "worker \<Rightarrow> worker option" where
  "process_jobs s = (if handlers s then None else Some (request_pass (s\<lparr>handlers := True\<rparr>)))"

definition stop_worker :: "worker \<Rightarrow> worker" where
  "stop_worker s = disarm (s\<lparr>stopped := True\<rparr>)"

datatype worker_event =
    Process
  | Wake_Here
  | Timer_Fires time
  | Stop
  | Buried nat
  | Claimed nat
  | Found_None nat
  | Job_Over nat
  | Lane_Threw nat time
  | Closed nat time "int option"
  | Closing_Threw nat time

fun worker_step :: "worker_event \<Rightarrow> worker \<Rightarrow> worker" where
  "worker_step Process s = (case process_jobs s of None \<Rightarrow> s | Some s' \<Rightarrow> s')"
| "worker_step Wake_Here s = wake_here s"
| "worker_step (Timer_Fires now) s = request_pass (s\<lparr>timer := None\<rparr>)"
| "worker_step Stop s = stop_worker s"
| "worker_step (Buried i) s = loop_head i s"
| "worker_step (Claimed i) s =
     s\<lparr>took_since_idle := True, running := Suc (running s), lanes := (lanes s)[i := Working]\<rparr>"
| "worker_step (Found_None i) s =
     (case lanes s ! i of
        Looking looked \<Rightarrow> if wakes s \<noteq> looked then loop_head i s else leave_loop i False s
      | _ \<Rightarrow> s)"
| "worker_step (Job_Over i) s = loop_head i (s\<lparr>running := running s - 1\<rparr>)"
| "worker_step (Lane_Threw i now) s =
     leave_loop i True (pass_failed now
       (s\<lparr>running := (if lanes s ! i = Working then running s - 1 else running s)\<rparr>))"
| "worker_step (Closed i now delay) s =
     (case delay of None \<Rightarrow> s | Some d \<Rightarrow> arm now (max d 0) s)\<lparr>lanes := (lanes s)[i := Over]\<rparr>"
| "worker_step (Closing_Threw i now) s = (pass_failed now s)\<lparr>lanes := (lanes s)[i := Over]\<rparr>"

text \<open>The turns that can come: an answer only to a lane that waits for it.\<close>

fun worker_ok :: "worker_event \<Rightarrow> worker \<Rightarrow> bool" where
  "worker_ok (Timer_Fires now) s = (case timer s of None \<Rightarrow> False | Some at \<Rightarrow> at \<le> now)"
| "worker_ok (Buried i) s = (i < length (lanes s) \<and> lanes s ! i = Burying)"
| "worker_ok (Claimed i) s = (i < length (lanes s) \<and> (case lanes s ! i of Looking _ \<Rightarrow> True | _ \<Rightarrow> False))"
| "worker_ok (Found_None i) s = (i < length (lanes s) \<and> (case lanes s ! i of Looking _ \<Rightarrow> True | _ \<Rightarrow> False))"
| "worker_ok (Job_Over i) s = (i < length (lanes s) \<and> lanes s ! i = Working)"
| "worker_ok (Lane_Threw i now) s = (i < length (lanes s) \<and> lanes s ! i \<noteq> Closing \<and> lanes s ! i \<noteq> Over)"
| "worker_ok (Closed i now d) s = (i < length (lanes s) \<and> lanes s ! i = Closing)"
| "worker_ok (Closing_Threw i now) s = (i < length (lanes s) \<and> lanes s ! i = Closing)"
| "worker_ok e s = True"

subsection \<open>The invariant of a worker\<close>

primrec in_loop :: "lane \<Rightarrow> bool" where
  "in_loop Burying = True"
| "in_loop (Looking n) = True"
| "in_loop Working = True"
| "in_loop Closing = False"
| "in_loop Over = False"

text \<open>
  \<open>lanes_ok\<close>: the counters count what they say, and every look is one \<open>last_look\<close> has seen.
  \<open>answered\<close>: an idle worker has looked since the last request, or has a timer that will.
\<close>

definition lanes_ok :: "worker \<Rightarrow> bool" where
  "lanes_ok s \<longleftrightarrow>
     active s = count_where in_loop (lanes s) \<and> active s \<le> concurrency s \<and> 1 \<le> concurrency s
   \<and> running s = count_where (\<lambda>l. l = Working) (lanes s)
   \<and> count_where (\<lambda>l. l = Burying) (lanes s) \<le> 1
   \<and> (\<forall>n. Looking n \<in> set (lanes s) \<longrightarrow> n \<le> last_look s) \<and> last_look s \<le> wakes s"

definition timer_ok :: "worker \<Rightarrow> bool" where
  "timer_ok s \<longleftrightarrow> (stopped s \<longrightarrow> timer s = None)
     \<and> (\<forall>at. timer s = Some at \<longrightarrow> backoff_until s \<le> at)"

definition answered :: "worker \<Rightarrow> bool" where
  "answered s \<longleftrightarrow> stopped s \<or> 0 < active s \<or> last_look s = wakes s \<or> timer s \<noteq> None"

definition worker_inv :: "worker \<Rightarrow> bool" where
  "worker_inv s \<longleftrightarrow> lanes_ok s \<and> timer_ok s \<and> answered s"

lemma worker_inv_init: "worker_inv (worker_init c)"
  by (simp add: worker_inv_def lanes_ok_def timer_ok_def answered_def worker_init_def)

text \<open>The timer\<close>

lemma arm_frame [simp]:
  "lanes (arm now d s) = lanes s" "active (arm now d s) = active s"
  "concurrency (arm now d s) = concurrency s" "running (arm now d s) = running s"
  "wakes (arm now d s) = wakes s" "last_look (arm now d s) = last_look s"
  "stopped (arm now d s) = stopped s" "backoff_until (arm now d s) = backoff_until s"
  "handlers (arm now d s) = handlers s"
  by (auto simp: arm_def Let_def split: option.split)

lemma pass_failed_frame [simp]:
  "lanes (pass_failed now s) = lanes s" "active (pass_failed now s) = active s"
  "concurrency (pass_failed now s) = concurrency s" "running (pass_failed now s) = running s"
  "wakes (pass_failed now s) = wakes s" "last_look (pass_failed now s) = last_look s"
  "stopped (pass_failed now s) = stopped s" "handlers (pass_failed now s) = handlers s"
  by (simp_all add: pass_failed_def disarm_def)

lemma timer_ok_arm: "timer_ok s \<Longrightarrow> timer_ok (arm now d s)"
  by (auto simp: timer_ok_def arm_def Let_def max_def split: option.splits)

lemma arm_sets: "\<not> stopped s \<Longrightarrow> timer (arm now d s) \<noteq> None"
  by (auto simp: arm_def Let_def split: option.split)

lemma pass_failed_ok: "timer_ok (pass_failed now s)" "\<not> stopped s \<Longrightarrow> timer (pass_failed now s) \<noteq> None"
  unfolding pass_failed_def
   apply (rule timer_ok_arm)
   apply (simp add: timer_ok_def disarm_def)
  apply (rule arm_sets)
  apply (simp add: disarm_def)
  done

text \<open>One lane moving\<close>

lemma lanes_ok_move:
  assumes "lanes_ok s" "i < length (lanes s)"
    and "in_loop (lanes s ! i)" "in_loop l" "l \<noteq> Burying"
    and "lanes s' = (lanes s)[i := l]" "active s' = active s" "concurrency s' = concurrency s"
    and "running s' + (if lanes s ! i = Working then 1 else 0) = running s + (if l = Working then 1 else 0)"
    and "last_look s \<le> last_look s'" "last_look s' \<le> wakes s'" "\<forall>n. l = Looking n \<longrightarrow> n \<le> last_look s'"
  shows "lanes_ok s'"
proof -
  have upd: "Looking n \<in> set (lanes s') \<Longrightarrow> Looking n \<in> set (lanes s) \<or> l = Looking n" for n
    using assms(6) set_update_subset_insert by fastforce
  show ?thesis
    using assms(1,3-5,7-12) upd
      count_where_update [OF assms(2), of in_loop l]
      count_where_update [OF assms(2), of "\<lambda>l. l = Working" l]
      count_where_update [OF assms(2), of "\<lambda>l. l = Burying" l]
    unfolding lanes_ok_def assms(6) by (auto split: if_splits intro: order_trans)
qed

lemma lanes_ok_leave:
  assumes "lanes_ok s" "i < length (lanes s)" "in_loop (lanes s ! i)" "lanes s ! i \<noteq> Working"
  shows "lanes_ok (leave_loop i failed s)"
proof -
  let ?l = "if stopped s \<or> failed then Over else Closing"
  have "Looking n \<in> set ((lanes s)[i := ?l]) \<Longrightarrow> Looking n \<in> set (lanes s)" for n
    using set_update_subset_insert [of "lanes s" i ?l] by (auto split: if_splits)
  then show ?thesis
    using assms
      count_where_update [OF assms(2), of in_loop ?l]
      count_where_update [OF assms(2), of "\<lambda>l. l = Working" ?l]
      count_where_update [OF assms(2), of "\<lambda>l. l = Burying" ?l]
    unfolding lanes_ok_def leave_loop_def by (auto simp: Let_def split: if_splits)
qed

text \<open>Starting lanes\<close>

lemma loop_head_new:
  "\<not> stopped s \<Longrightarrow> lanes s = ls @ [l] \<Longrightarrow>
    loop_head (length ls) s = s\<lparr>lanes := ls @ [Looking (wakes s)], last_look := wakes s\<rparr>"
  by (simp add: loop_head_def)

lemma start_lanes_eq:
  "\<not> stopped s \<Longrightarrow>
    start_lanes n bury s =
      s\<lparr>active := active s + n,
         lanes := lanes s @ (if n = 0 then [] else
           (if bury then Burying else Looking (wakes s)) # replicate (n - 1) (Looking (wakes s))),
         last_look := (if n = 0 \<or> bury \<and> n = 1 then last_look s else wakes s)\<rparr>"
proof (induction n arbitrary: bury s)
  case (Suc n)
  let ?s1 = "s\<lparr>active := Suc (active s), lanes := lanes s @ [Burying]\<rparr>"
  let ?t = "if bury then ?s1 else loop_head (length (lanes s)) ?s1"
  have "?t = ?s1\<lparr>lanes := lanes s @ [if bury then Burying else Looking (wakes s)],
      last_look := (if bury then last_look s else wakes s)\<rparr>"
    using Suc.prems by (simp add: loop_head_new)
  moreover have "start_lanes (Suc n) bury s = start_lanes n False ?t" by (simp add: Let_def)
  moreover have "\<not> stopped ?t" using Suc.prems calculation(1) by simp
  ultimately show ?case using Suc.IH [of ?t False] by (cases n) auto
qed simp

lemma count_where_replicate [simp]: "count_where P (replicate n x) = (if P x then n else 0)"
  by (induction n) auto

lemma worker_inv_request:
  assumes "lanes_ok s" "timer_ok s" "\<not> stopped s"
  shows "worker_inv (request_pass s)"
proof -
  have "count_where (\<lambda>l. l = Burying) (lanes s) = 0" if "active s = 0"
    using assms(1) that by (fastforce simp: lanes_ok_def count_where_0_iff)
  then show ?thesis
    using assms
    by (auto simp: worker_inv_def request_pass_def Let_def start_lanes_eq lanes_ok_def timer_ok_def
        answered_def split: option.splits)
qed

lemma worker_inv_loop_head:
  assumes "lanes_ok s" "timer_ok s" "i < length (lanes s)" "in_loop (lanes s ! i)" "lanes s ! i \<noteq> Working"
  shows "worker_inv (loop_head i s)"
proof (cases "stopped s")
  case True
  then show ?thesis
    using assms lanes_ok_leave [OF assms(1,3-5)]
    by (auto simp: worker_inv_def loop_head_def answered_def timer_ok_def leave_loop_def Let_def)
next
  case False
  have "lanes_ok (loop_head i s)"
    by (rule lanes_ok_move [OF assms(1,3,4), of "Looking (wakes s)"])
      (use assms False in \<open>auto simp: loop_head_def lanes_ok_def\<close>)
  moreover have "0 < active s"
    using assms(1,3,4) count_where_pos [of "lanes s ! i" "lanes s" in_loop] by (auto simp: lanes_ok_def)
  ultimately show ?thesis
    using assms(2) False by (auto simp: worker_inv_def loop_head_def answered_def timer_ok_def)
qed

lemma timer_ok_leave [simp]: "timer_ok (leave_loop i failed s) = timer_ok s"
  by (simp add: timer_ok_def leave_loop_def Let_def split: option.split)

lemma leave_loop_frame [simp]:
  "last_look (leave_loop i failed s) = last_look s" "wakes (leave_loop i failed s) = wakes s"
  "stopped (leave_loop i failed s) = stopped s" "timer (leave_loop i failed s) = timer s"
  by (simp_all add: leave_loop_def Let_def)

lemma lanes_ok_over:
  assumes "lanes_ok s" "i < length (lanes s)" "lanes s ! i = Closing"
  shows "lanes_ok (s\<lparr>lanes := (lanes s)[i := Over]\<rparr>)"
proof -
  have "Looking n \<in> set ((lanes s)[i := Over]) \<Longrightarrow> Looking n \<in> set (lanes s)" for n
    using set_update_subset_insert [of "lanes s" i Over] by auto
  then show ?thesis
    using assms
      count_where_update [OF assms(2), of in_loop Over]
      count_where_update [OF assms(2), of "\<lambda>l. l = Working" Over]
      count_where_update [OF assms(2), of "\<lambda>l. l = Burying" Over]
    by (auto simp: lanes_ok_def)
qed

text \<open>A lane whose job is over, or that threw, counts as looking again before it moves on.\<close>

lemma lanes_ok_job_over:
  assumes "lanes_ok s" "i < length (lanes s)" "lanes s ! i = Working"
  shows "lanes_ok (s\<lparr>running := running s - 1, lanes := (lanes s)[i := Looking (last_look s)]\<rparr>)"
proof -
  have "0 < running s"
    using assms count_where_pos [OF nth_mem [OF assms(2)], of "\<lambda>l. l = Working"] by (auto simp: lanes_ok_def)
  then show ?thesis
    by (intro lanes_ok_move [OF assms(1,2), of "Looking (last_look s)"])
      (use assms in \<open>auto simp: lanes_ok_def\<close>)
qed

lemma list_update_twice [simp]: "xs[i := x, i := y] = xs[i := y]"
  by simp

lemma loop_head_over [simp]: "loop_head i (s\<lparr>lanes := (lanes s)[i := l]\<rparr>) = loop_head i s"
  by (simp add: loop_head_def leave_loop_def Let_def)

lemma leave_loop_over [simp]: "leave_loop i f (s\<lparr>lanes := (lanes s)[i := l]\<rparr>) = leave_loop i f s"
  by (simp add: leave_loop_def Let_def)

lemma worker_inv_step:
  assumes "worker_inv s" "worker_ok e s"
  shows "worker_inv (worker_step e s)"
proof -
  have l: "lanes_ok s" and t: "timer_ok s" and a: "answered s" using assms(1) by (simp_all add: worker_inv_def)
  show ?thesis
  proof (cases e)
    case Process
    have "worker_inv (request_pass (s\<lparr>handlers := True\<rparr>))"
    proof (cases "stopped s")
      case True
      then show ?thesis using assms(1)
        by (simp add: request_pass_def worker_inv_def lanes_ok_def timer_ok_def answered_def)
    next
      case False
      then show ?thesis using l t by (intro worker_inv_request) (auto simp: lanes_ok_def timer_ok_def)
    qed
    then show ?thesis using Process assms(1) by (simp add: process_jobs_def)
  next
    case Wake_Here
    then show ?thesis
      using assms(1) l t worker_inv_request [of s] by (auto simp: wake_here_def request_pass_def)
  next
    case (Timer_Fires now)
    have "\<not> stopped s" using t assms(2) Timer_Fires by (auto simp: timer_ok_def split: option.splits)
    then show ?thesis
      using Timer_Fires l t by (auto intro!: worker_inv_request simp: lanes_ok_def timer_ok_def)
  next
    case Stop
    then show ?thesis
      using l by (simp add: stop_worker_def disarm_def worker_inv_def lanes_ok_def timer_ok_def answered_def)
  next
    case (Buried i)
    then show ?thesis using assms(2) l t by (auto intro: worker_inv_loop_head)
  next
    case (Claimed i)
    then obtain n where n: "i < length (lanes s)" "lanes s ! i = Looking n"
      using assms(2) by (auto split: lane.splits)
    have "lanes_ok (worker_step e s)"
      by (rule lanes_ok_move [OF l n(1), of Working]) (use n l Claimed in \<open>auto simp: lanes_ok_def\<close>)
    then show ?thesis using Claimed t a by (simp add: worker_inv_def timer_ok_def answered_def)
  next
    case (Found_None i)
    then obtain n where n: "i < length (lanes s)" "lanes s ! i = Looking n"
      using assms(2) by (auto split: lane.splits)
    then have "Looking n \<in> set (lanes s)" by (metis nth_mem)
    then have "n \<le> last_look s" "last_look s \<le> wakes s" using l by (auto simp: lanes_ok_def)
    then have "wakes s = n \<Longrightarrow> worker_inv (leave_loop i False s)"
      using lanes_ok_leave [OF l n(1)] t n(2) by (simp add: worker_inv_def answered_def)
    then show ?thesis
      using Found_None n worker_inv_loop_head [OF l t n(1)] by auto
  next
    case (Job_Over i)
    let ?s = "s\<lparr>running := running s - 1, lanes := (lanes s)[i := Looking (last_look s)]\<rparr>"
    have "worker_inv (loop_head i ?s)"
      using assms(2) Job_Over lanes_ok_job_over [OF l] t
      by (intro worker_inv_loop_head) (auto simp: timer_ok_def)
    then show ?thesis
      using Job_Over loop_head_over [of i "s\<lparr>running := running s - 1\<rparr>"] by simp
  next
    case (Lane_Threw i now)
    let ?s = "if lanes s ! i = Working
      then s\<lparr>running := running s - 1, lanes := (lanes s)[i := Looking (last_look s)]\<rparr> else s"
    have i: "i < length (lanes s)" "in_loop (lanes s ! i)"
      using assms(2) Lane_Threw by (auto, cases "lanes s ! i", auto)
    have "lanes_ok ?s" using l lanes_ok_job_over [OF l i(1)] by auto
    then have "lanes_ok (pass_failed now ?s)" by (simp add: lanes_ok_def)
    then have "lanes_ok (leave_loop i True (pass_failed now ?s))"
      by (rule lanes_ok_leave) (use i in auto)
    moreover have "leave_loop i True (pass_failed now ?s) = worker_step e s"
      using Lane_Threw
      by (auto simp: leave_loop_def pass_failed_def arm_def disarm_def Let_def split: option.split)
    moreover have "stopped ?s = stopped s" by simp
    ultimately show ?thesis
      using pass_failed_ok [where now = now and s = ?s]
      unfolding worker_inv_def answered_def by (metis leave_loop_frame(3,4) pass_failed_frame(7) timer_ok_leave)
  next
    case (Closed i now d)
    have "lanes_ok (case d of None \<Rightarrow> s | Some d \<Rightarrow> arm now (max d 0) s)"
      using l by (auto simp: lanes_ok_def split: option.split)
    moreover have "timer_ok (case d of None \<Rightarrow> s | Some d \<Rightarrow> arm now (max d 0) s)"
      using t by (auto intro: timer_ok_arm split: option.split)
    moreover have "answered (case d of None \<Rightarrow> s | Some d \<Rightarrow> arm now (max d 0) s)"
      using a arm_sets [of s now] by (auto simp: answered_def split: option.split)
    ultimately show ?thesis
      using Closed assms(2) lanes_ok_over [of "case d of None \<Rightarrow> s | Some d \<Rightarrow> arm now (max d 0) s" i]
      by (auto simp: worker_inv_def timer_ok_def answered_def split: option.splits)
  next
    case (Closing_Threw i now)
    have "lanes_ok (pass_failed now s)" using l by (simp add: lanes_ok_def)
    then show ?thesis
      using Closing_Threw assms(2) lanes_ok_over [of "pass_failed now s" i] pass_failed_ok [where now = now and s = s]
      by (auto simp: worker_inv_def timer_ok_def answered_def)
  qed
qed

lemma concurrency_start_lanes [simp]: "concurrency (start_lanes n b s) = concurrency s"
  by (induction n arbitrary: b s) (simp_all add: Let_def loop_head_def leave_loop_def)

lemma concurrency_step [simp]: "concurrency (worker_step e s) = concurrency s"
  by (cases e)
     (auto simp: process_jobs_def wake_here_def request_pass_def stop_worker_def disarm_def
       loop_head_def leave_loop_def Let_def split: option.split lane.split)

lemma concurrency_run: "concurrency (run_steps worker_step es s) = concurrency s"
  by (induction es arbitrary: s) auto

lemma count_where_mono: "(\<And>x. P x \<Longrightarrow> Q x) \<Longrightarrow> count_where P xs \<le> count_where Q xs"
  by (induction xs) auto

interpretation worker: machine worker_step worker_inv worker_ok
  by unfold_locales (rule worker_inv_step)

subsection \<open>What a worker guarantees\<close>

text \<open>
  C33. No request for a pass is lost: in whatever order answers, requests, failures and timers
  reach a running worker, once it has no loop left and no timer armed, a \<open>claim\<close> was sent
  after the last request; and it never runs more loops, or more jobs, than its concurrency.
\<close>
theorem worker_answers_requests:
  assumes "steps_ok worker_ok worker_step es (worker_init c)"
    and "s = run_steps worker_step es (worker_init c)"
  shows "(\<not> stopped s \<and> active s = 0 \<and> timer s = None \<longrightarrow> last_look s = wakes s)
    \<and> active s = count_where in_loop (lanes s) \<and> running s \<le> active s
    \<and> active s \<le> nat (max 1 c)"
proof -
  have inv: "worker_inv s" using worker.inv_run [OF worker_inv_init assms(1)] assms(2) by simp
  have "concurrency s = nat (max 1 c)"
    using assms(2) concurrency_run [of es "worker_init c"] by (simp add: worker_init_def)
  moreover have "running s \<le> active s"
    using inv count_where_mono [of "\<lambda>l. l = Working" in_loop "lanes s"]
    by (simp add: worker_inv_def lanes_ok_def)
  ultimately show ?thesis using inv by (auto simp: worker_inv_def lanes_ok_def answered_def)
qed

theorem worker_answers_requests_witness:
  "let s = run_steps worker_step
        [Process, Buried 0, Claimed 0, Wake_Here, Job_Over 0, Found_None 0, Found_None 1, Found_None 1,
         Closed 0 5 None, Closed 1 6 None] (worker_init 2)
   in active s = 0 \<and> last_look s = wakes s"
proof -
  let ?es = "[Process, Buried 0, Claimed 0, Wake_Here, Job_Over 0, Found_None 0, Found_None 1, Found_None 1,
         Closed 0 5 None, Closed 1 6 None]"
  have "steps_ok worker_ok worker_step ?es (worker_init 2)" by code_simp
  note worker_answers_requests [OF this refl]
  moreover have "\<not> stopped (run_steps worker_step ?es (worker_init 2))
    \<and> active (run_steps worker_step ?es (worker_init 2)) = 0
    \<and> timer (run_steps worker_step ?es (worker_init 2)) = None" by code_simp
  ultimately show ?thesis by (simp add: Let_def)
qed

text \<open>
  A signal is never swallowed: whenever the wake signal is asked for, and the sends that
  run do not throw, then by the time nothing is being sent a send has begun after that request -
  the burst in between shares it.
\<close>
theorem signal_follows_request:
  assumes "steps_ok coalesced_ok coalesced_step (before @ Request # after) coalesced_init"
    and "s = run_steps coalesced_step before coalesced_init"
    and "s' = run_steps coalesced_step (Request # after) s"
    and "\<not> busy s'"
  shows "started s < started s'"
proof -
  have ok: "steps_ok coalesced_ok coalesced_step before coalesced_init"
    "steps_ok coalesced_ok coalesced_step after (coalesced_step Request s)"
    using assms(1,2) by (simp_all add: steps_ok_append)
  have "again s \<longrightarrow> busy s"
    using again_only_busy [OF ok(1)] assms(2) by (simp add: coalesced_init_def)
  then have "coalesced_inv (started s) s'"
    using signal.inv_run [OF coalesced_request_inv ok(2)] assms(3) by simp
  then show ?thesis using assms(4) by (auto simp: coalesced_inv_def)
qed

theorem signal_follows_request_witness:
  "started (run_steps coalesced_step [Request] coalesced_init)
    < started (run_steps coalesced_step [Request, Request, Fn_Done, Fn_Done]
        (run_steps coalesced_step [Request] coalesced_init))"
proof (rule signal_follows_request [where before = "[Request]" and after = "[Request, Fn_Done, Fn_Done]", OF _ refl refl])
qed (code_simp+)

end
