(* ===== verification/Schema.thy ===== *)
theory Schema
  imports Complex_Main "HOL-Library.AList" Prelude
begin

text \<open>
  The rows the pipeline works on (\<open>packages/db/src/schema\<close>): a resource, its pipeline
  row - which is also its claim - the steps of the last run, its versions, and the ledger
  of objects nothing may point at any more (\<open>orphaned_object\<close>). Only the columns some
  modelled statement reads or writes are kept. JSON columns hold \<open>json\<close> values, with
  rational numbers; a storage key is a string. How PostgreSQL prints a JSON value that is
  not a string (\<open>->>\<close>) is the argument \<open>pt\<close>.
\<close>

datatype json =
    JNull
  | JBool bool
  | JNum rat
  | JStr string
  | JArr "json list"
  | JObj "(string \<times> json) list"

type_synonym key = string

definition member_of :: "string \<Rightarrow> json \<Rightarrow> json option" where
  "member_of f j = (case j of JObj kvs \<Rightarrow> map_of kvs f | _ \<Rightarrow> None)"

text \<open>\<open>column ->> 'f'\<close>: null where the field is absent or null.\<close>

definition arrow_text :: "(json \<Rightarrow> string) \<Rightarrow> json option \<Rightarrow> string \<Rightarrow> string option" where
  "arrow_text pt col f =
    (case col of None \<Rightarrow> None
     | Some j \<Rightarrow>
         (case member_of f j of None \<Rightarrow> None | Some JNull \<Rightarrow> None | Some (JStr s) \<Rightarrow> Some s
          | Some v \<Rightarrow> Some (pt v)))"

text \<open>\<open>a || b\<close> on objects: the fields of \<open>b\<close> win.\<close>

definition json_merge :: "json \<Rightarrow> json \<Rightarrow> json" where
  "json_merge a b =
    (case (a, b) of (JObj xs, JObj ys) \<Rightarrow> JObj (ys @ filter (\<lambda>(k, v). k \<notin> fst ` set ys) xs)
     | _ \<Rightarrow> b)"

text \<open>\<open>jsonb_set(j, '{f}', v, true)\<close> and \<open>j - 'f'\<close> on an object.\<close>

definition json_set :: "string \<Rightarrow> json \<Rightarrow> json \<Rightarrow> json" where
  "json_set f v j = (case j of JObj kvs \<Rightarrow> JObj (AList.update f v kvs) | _ \<Rightarrow> j)"

definition json_remove :: "string \<Rightarrow> json \<Rightarrow> json" where
  "json_remove f j = (case j of JObj kvs \<Rightarrow> JObj (filter (\<lambda>(k, _). k \<noteq> f) kvs) | _ \<Rightarrow> j)"

text \<open>
  \<open>column_settings -> 'primaryKey'\<close> as JavaScript reads it back: null, or the list of its
  strings. A value that is neither, which \<open>$type\<close> excludes, reads as null.
\<close>

fun json_string :: "json \<Rightarrow> string option" where
  "json_string (JStr s) = Some s"
| "json_string _ = None"

definition stored_primary_key :: "json \<Rightarrow> string list option" where
  "stored_primary_key settings =
    (case member_of ''primaryKey'' settings of
       Some (JArr xs) \<Rightarrow> Some (List.map_filter json_string xs)
     | _ \<Rightarrow> None)"

text \<open>The lax path accessors of \<open>jsonb_path_query_array\<close>.\<close>

definition lax_member :: "string \<Rightarrow> json \<Rightarrow> json list" where
  "lax_member f j =
    (case j of
       JObj kvs \<Rightarrow> (case map_of kvs f of None \<Rightarrow> [] | Some v \<Rightarrow> [v])
     | JArr xs \<Rightarrow> concat (map (\<lambda>x. case member_of f x of None \<Rightarrow> [] | Some v \<Rightarrow> [v]) xs)
     | _ \<Rightarrow> [])"

definition lax_elements :: "json \<Rightarrow> json list" where
  "lax_elements j = (case j of JArr xs \<Rightarrow> xs | _ \<Rightarrow> [j])"

definition schema_column_names :: "json option \<Rightarrow> json list" where
  "schema_column_names metadata =
    (let root = (case metadata of None \<Rightarrow> JObj [] | Some j \<Rightarrow> j);
         columns = concat (map (lax_member ''columns'') (lax_member ''schema'' root))
     in concat (map (lax_member ''name'') (concat (map lax_elements columns))))"

datatype pipeline_status = Pending | Queued | Processing | Complete | Error | Cancelled

datatype step_status = Step_Pending | Step_Running | Step_Complete | Step_Error | Step_Skipped

datatype claim_kind = Run | Job

record package_row =
  pkg_id :: uuid
  pkg_name :: string
  pkg_title :: "string option"
  pkg_notes :: "string option"
  pkg_url :: "string option"
  pkg_version :: "string option"
  pkg_license :: "string option"
  pkg_author :: "string option"
  pkg_author_email :: "string option"
  pkg_maintainer :: "string option"
  pkg_maintainer_email :: "string option"
  pkg_state :: "string option"
  pkg_type :: "string option"
  pkg_owner_org :: "uuid option"
  pkg_private :: bool
  pkg_creator :: "string option"
  pkg_extras :: json
  pkg_doc_sync_due_at :: "time option"
  pkg_created :: time
  pkg_updated :: time

record resource_row =
  res_id :: uuid
  res_package :: uuid
  res_url :: "string option"
  res_url_type :: "string option"
  res_name :: "string option"
  res_format :: "string option"
  res_mimetype :: "string option"
  res_size :: "int option"
  res_hash :: "string option"
  res_storage_key :: "key option"
  res_content_revision :: uuid
  res_pending_key :: "key option"
  res_pending_at :: "time option"
  res_pending_metadata :: "json option"
  res_state :: "string option"
  res_column_settings :: json
  res_doc_sync_due_at :: "time option"
  res_health_status :: "string option"
  res_health_checked_at :: "time option"
  res_health_check_state :: "json option"
  res_embedding_due_at :: "time option"
  res_content_index_due_at :: "time option"
  res_created :: time
  res_updated :: time
  res_last_modified :: "time option"
  res_summary :: "string option"
  res_summary_meta :: json
  res_description :: "string option"
  res_position :: int
  res_section :: "string option"
  res_type :: "string option"
  res_extras :: json

record pipeline_row =
  pl_id :: uuid
  pl_resource :: uuid
  pl_status :: pipeline_status
  pl_claim_owner :: "uuid option"
  pl_claim_kind :: "claim_kind option"
  pl_claim_owner_at :: "time option"
  pl_error :: "string option"
  pl_preview_key :: "key option"
  pl_metadata :: "json option"
  pl_profile :: "json option"
  pl_lake_catalog_key :: "key option"
  pl_updated :: time

record step_row =
  st_id :: uuid
  st_pipeline :: uuid
  st_name :: string
  st_status :: step_status
  st_error :: "string option"
  st_started_at :: "time option"
  st_completed_at :: "time option"

record version_row =
  ver_resource :: uuid
  ver_number :: int
  ver_storage_key :: key
  ver_size :: "int option"
  ver_hash :: "string option"
  ver_origin :: string
  ver_restored_from :: "int option"
  ver_format :: "string option"
  ver_state :: string
  ver_schema :: "json option"
  ver_no_table_reason :: "string option"
  ver_key_columns :: "string list option"
  ver_lake_snapshot :: "int option"
  ver_lake_ingest_reason :: "string option"
  ver_lake_ingest_failures :: int
  ver_lake_ingest_failed_at :: "time option"
  ver_purged_at :: "time option"
  ver_purged_by :: "uuid option"
  ver_purge_reason :: "string option"
  ver_updated :: time

record orphan_row =
  orphan_key :: key
  orphan_expires_at :: time

text \<open>
  Who owns the datasets and how they are filed: organizations, groups, tags - free ones have no
  vocabulary - and the memberships that decide who may do what. A user's id is text, every other
  id a uuid.
\<close>

record organization_row =
  org_id :: uuid
  org_name :: string
  org_title :: "string option"
  org_description :: "string option"
  org_image_url :: "string option"
  org_state :: "string option"
  org_extras :: json
  org_created :: time
  org_updated :: time

record group_row =
  grp_id :: uuid
  grp_name :: string
  grp_state :: "string option"

record tag_row =
  tag_id :: uuid
  tag_name :: string
  tag_vocabulary :: "uuid option"

record membership =
  ms_user :: string
  ms_entity :: uuid
  ms_role :: string

record db =
  packages :: "package_row list"
  resources :: "resource_row list"
  pipelines :: "pipeline_row list"
  steps :: "step_row list"
  versions :: "version_row list"
  orphans :: "orphan_row list"
  organizations :: "organization_row list"
  org_members :: "membership list"
  group_rows :: "group_row list"
  group_members :: "membership list"
  tag_rows :: "tag_row list"
  package_tags :: "(uuid \<times> uuid) list"
  package_groups :: "(uuid \<times> uuid) list"

text \<open>Every storage key a pipeline row names, in the order of \<open>PIPELINE_POINTERS\<close>.\<close>

definition pipeline_object_keys :: "(json \<Rightarrow> string) \<Rightarrow> pipeline_row \<Rightarrow> key option list" where
  "pipeline_object_keys pt p =
    [pl_preview_key p,
     arrow_text pt (pl_metadata p) ''textHeadKey'',
     arrow_text pt (pl_metadata p) ''documentTextKey'',
     arrow_text pt (pl_profile p) ''key'']"

text \<open>A freshly minted pipeline row: the defaults of its columns.\<close>

definition new_pipeline_row :: "time \<Rightarrow> uuid \<Rightarrow> uuid \<Rightarrow> pipeline_row" where
  "new_pipeline_row now i r =
    \<lparr>pl_id = i, pl_resource = r, pl_status = Pending, pl_claim_owner = None, pl_claim_kind = None,
     pl_claim_owner_at = None, pl_error = None, pl_preview_key = None, pl_metadata = None,
     pl_profile = None, pl_lake_catalog_key = None, pl_updated = now\<rparr>"

end
