(* ===== verification/Claim.thy ===== *)
theory Claim
  imports Schema
begin

text \<open>
  The per-resource execution claim
  (\<open>packages/api/src/services/pipeline/pipeline-claim.ts\<close>): the pipeline row is the
  claim. One definition per exported function; a body run under a claim is a function from
  the database to a result - an error or a value - and the database it leaves. Owners and
  the ids of minted rows are arguments (\<open>randomUUID\<close>, \<open>gen_random_uuid\<close>).
\<close>

definition CLAIM_STALE_AFTER_MS :: int where "CLAIM_STALE_AFTER_MS = 15 * 60 * 1000"

record resource_claim =
  claim_id :: uuid
  claim_resource :: uuid
  claim_owner :: uuid

record held_resource =
  held_id :: uuid
  held_resource_id :: uuid

datatype 'e failure = Conflict string uuid | Failed 'e

subsection \<open>Conditions\<close>

definition last_progress :: "db \<Rightarrow> pipeline_row \<Rightarrow> time option" where
  "last_progress d p =
    pg_greatest [pl_claim_owner_at p,
      pg_greatest (map st_started_at (select_where (\<lambda>s. st_pipeline s = pl_id p) (steps d)))]"

definition stale_claim :: "time \<Rightarrow> int \<Rightarrow> db \<Rightarrow> pipeline_row \<Rightarrow> bool" where
  "stale_claim now stale_after d p =
    (case last_progress d p of None \<Rightarrow> False | Some t \<Rightarrow> t < now - stale_after)"

definition on_revision :: "db \<Rightarrow> uuid \<Rightarrow> uuid option \<Rightarrow> bool" where
  "on_revision d rid revision =
    (case revision of None \<Rightarrow> True
     | Some v \<Rightarrow> list_ex (\<lambda>r. res_id r = rid \<and> res_content_revision r = v) (resources d))"

definition held_by :: "resource_claim \<Rightarrow> pipeline_row \<Rightarrow> bool" where
  "held_by c p \<longleftrightarrow> pl_id p = claim_id c \<and> pl_claim_owner p = Some (claim_owner c)"

definition still_held :: "db \<Rightarrow> resource_claim option \<Rightarrow> bool" where
  "still_held d c = (case c of None \<Rightarrow> True | Some c \<Rightarrow> list_ex (held_by c) (pipelines d))"

definition still_holds :: "db \<Rightarrow> resource_claim \<Rightarrow> bool" where
  "still_holds d c \<longleftrightarrow> select_where (held_by c) (pipelines d) \<noteq> []"

subsection \<open>Taking and giving up\<close>

definition unclaimed :: "pipeline_row \<Rightarrow> pipeline_row" where
  "unclaimed p = p\<lparr>pl_claim_owner := None, pl_claim_owner_at := None, pl_claim_kind := None\<rparr>"

definition claimed_by :: "uuid \<Rightarrow> time \<Rightarrow> claim_kind \<Rightarrow> pipeline_row \<Rightarrow> pipeline_row" where
  "claimed_by owner now k p =
    p\<lparr>pl_claim_owner := Some owner, pl_claim_owner_at := Some now, pl_claim_kind := Some k\<rparr>"

definition ensure_claimable :: "time \<Rightarrow> (uuid \<Rightarrow> uuid) \<Rightarrow> uuid list \<Rightarrow> db \<Rightarrow> db" where
  "ensure_claimable now mint rids d =
    (let wanted = sort (map res_id (select_where (\<lambda>r. res_id r \<in> set rids) (resources d)));
         missing = filter (\<lambda>r. r \<notin> pl_resource ` set (pipelines d)) wanted
     in d\<lparr>pipelines := pipelines d @ map (\<lambda>r. new_pipeline_row now (mint r) r) missing\<rparr>)"

definition claim_resources ::
  "time \<Rightarrow> (uuid \<Rightarrow> uuid) \<Rightarrow> uuid list \<Rightarrow> uuid \<Rightarrow> int \<Rightarrow> claim_kind \<Rightarrow> db
    \<Rightarrow> (resource_claim list \<times> held_resource list) \<times> db" where
  "claim_resources now mint rids owner stale_after k d =
    (if rids = [] then (([], []), d)
     else let d1 = ensure_claimable now mint rids d;
              takeable = (\<lambda>p. pl_resource p \<in> set rids
                \<and> (pl_claim_owner p = None \<or> stale_claim now stale_after d1 p));
              rows = select_where (\<lambda>p. pl_resource p \<in> set rids) (pipelines d1)
          in ((map (\<lambda>p. \<lparr>claim_id = pl_id p, claim_resource = pl_resource p, claim_owner = owner\<rparr>)
                 (filter takeable rows),
               map (\<lambda>p. \<lparr>held_id = pl_id p, held_resource_id = pl_resource p\<rparr>)
                 (filter (\<lambda>p. \<not> takeable p) rows)),
              d1\<lparr>pipelines := update_where takeable (claimed_by owner now k) (pipelines d1)\<rparr>))"

definition release_resource_claims :: "uuid list \<Rightarrow> uuid \<Rightarrow> db \<Rightarrow> nat \<times> db" where
  "release_resource_claims ids owner d =
    (if ids = [] then (0, d)
     else let mine = (\<lambda>p. pl_id p \<in> set ids \<and> pl_claim_owner p = Some owner)
          in (length (select_where mine (pipelines d)),
              d\<lparr>pipelines := update_where mine unclaimed (pipelines d)\<rparr>))"

definition touch_resource_claim ::
  "time \<Rightarrow> resource_claim \<Rightarrow> db \<Rightarrow> ('e failure + unit) \<times> db" where
  "touch_resource_claim now c d =
    (if select_where (held_by c) (pipelines d) = []
     then (Inl (Conflict ''no longer held'' (claim_resource c)), d)
     else (Inr (), d\<lparr>pipelines :=
            update_where (held_by c) (\<lambda>p. p\<lparr>pl_claim_owner_at := Some now\<rparr>) (pipelines d)\<rparr>))"

definition cancel_resource_run :: "time \<Rightarrow> uuid \<Rightarrow> db \<Rightarrow> bool \<times> db" where
  "cancel_resource_run now rid d =
    (let hit = (\<lambda>p. pl_resource p = rid \<and> pl_claim_owner p \<noteq> None \<and> pl_claim_kind p \<noteq> Some Job)
     in (select_where hit (pipelines d) \<noteq> [],
         d\<lparr>pipelines := update_where hit
             (\<lambda>p. (unclaimed p)\<lparr>pl_status := Cancelled, pl_updated := now\<rparr>) (pipelines d)\<rparr>))"

subsection \<open>Scoped claims\<close>

datatype 'a claim_outcome = Ran 'a | Held "held_resource list" | Absent

definition with_resource_claim ::
  "time \<Rightarrow> (uuid \<Rightarrow> uuid) \<Rightarrow> uuid \<Rightarrow> uuid
    \<Rightarrow> (resource_claim \<Rightarrow> db \<Rightarrow> ('e failure + 'a) \<times> db) \<Rightarrow> db
    \<Rightarrow> ('e failure + 'a claim_outcome) \<times> db" where
  "with_resource_claim now mint owner rid fn d =
    (let ((taken, held), d1) = claim_resources now mint [rid] owner CLAIM_STALE_AFTER_MS Run d
     in case taken of
          [] \<Rightarrow> (Inr (if held \<noteq> [] then Held held else Absent), d1)
        | c # _ \<Rightarrow>
            (let (r, d2) = fn c d1;
                 d3 = snd (release_resource_claims [claim_id c] owner d2)
             in (map_sum id Ran r, d3)))"

definition with_resource_claims ::
  "time \<Rightarrow> (uuid \<Rightarrow> uuid) \<Rightarrow> uuid \<Rightarrow> uuid list
    \<Rightarrow> (resource_claim list \<Rightarrow> db \<Rightarrow> ('e failure + 'a) \<times> db) \<Rightarrow> db
    \<Rightarrow> ('e failure + 'a claim_outcome) \<times> db" where
  "with_resource_claims now mint owner rids fn d =
    (let ((taken, held), d1) = claim_resources now mint rids owner CLAIM_STALE_AFTER_MS Job d
     in if held \<noteq> [] then (Inr (Held held), d) \<comment> \<open>the transaction is rolled back\<close>
        else let (r, d2) = fn taken d1;
                 d3 = snd (release_resource_claims (map claim_id taken) owner d2)
             in (map_sum id Ran r, d3))"

definition held_conflict :: "held_resource list \<Rightarrow> string \<Rightarrow> 'e failure" where
  "held_conflict held action = Conflict (''being processed; retry the '' @ action) (held_resource_id (hd held))"

definition with_resource_claims_or_conflict ::
  "time \<Rightarrow> (uuid \<Rightarrow> uuid) \<Rightarrow> uuid \<Rightarrow> uuid list
    \<Rightarrow> (resource_claim list \<Rightarrow> db \<Rightarrow> ('e failure + 'a) \<times> db) \<Rightarrow> db \<Rightarrow> ('e failure + 'a) \<times> db" where
  "with_resource_claims_or_conflict now mint owner rids fn d =
    (case with_resource_claims now mint owner rids fn d of
       (Inl e, d') \<Rightarrow> (Inl e, d')
     | (Inr (Ran a), d') \<Rightarrow> (Inr a, d')
     | (Inr (Held held), d') \<Rightarrow> (Inl (held_conflict held ''purge''), d')
     | (Inr Absent, d') \<Rightarrow> (Inl (held_conflict [] ''purge''), d'))"

subsection \<open>Taking a resource over from a run\<close>

datatype takeover =
    Claimed "resource_claim option" bool
  | Takeover_Held "held_resource list"
  | Stale

definition claim_from_run ::
  "time \<Rightarrow> (uuid \<Rightarrow> uuid) \<Rightarrow> uuid \<Rightarrow> uuid \<Rightarrow> uuid option \<Rightarrow> db \<Rightarrow> takeover \<times> db" where
  "claim_from_run now mint owner rid require_revision d =
    (let d1 = ensure_claimable now mint [rid] d;
         revision_ok = on_revision d1 rid require_revision
     in case select_where (\<lambda>p. pl_resource p = rid) (pipelines d1) of
          [] \<Rightarrow> (Claimed None False, d1)
        | b # _ \<Rightarrow>
            (let taken = ((pl_claim_kind b \<noteq> Some Job \<or> stale_claim now CLAIM_STALE_AFTER_MS d1 b)
                          \<and> revision_ok);
                 d2 = (if taken
                       then d1\<lparr>pipelines := update_where (\<lambda>p. pl_id p = pl_id b)
                              (\<lambda>p. (claimed_by owner now Job p)
                                 \<lparr>pl_status := (if pl_claim_owner b = None then pl_status p else Cancelled),
                                  pl_updated := now\<rparr>) (pipelines d1)\<rparr>
                       else d1)
             in if \<not> taken
                then (if revision_ok
                      then Takeover_Held [\<lparr>held_id = pl_id b, held_resource_id = rid\<rparr>] else Stale, d2)
                else (Claimed (Some \<lparr>claim_id = pl_id b, claim_resource = rid, claim_owner = owner\<rparr>)
                        (pl_claim_owner b \<noteq> None), d2)))"

definition with_claim_from_run ::
  "time \<Rightarrow> (uuid \<Rightarrow> uuid) \<Rightarrow> uuid \<Rightarrow> uuid \<Rightarrow> string
    \<Rightarrow> (resource_claim option \<Rightarrow> bool \<Rightarrow> db \<Rightarrow> ('e failure + 'a) \<times> db) \<Rightarrow> uuid option \<Rightarrow> db
    \<Rightarrow> ('e failure + 'a) \<times> db" where
  "with_claim_from_run now mint owner rid action fn require_revision d =
    (case claim_from_run now mint owner rid require_revision d of
       (Stale, d1) \<Rightarrow> (Inl (Conflict ''has changed since it was read'' rid), d1)
     | (Takeover_Held held, d1) \<Rightarrow> (Inl (held_conflict held action), d1)
     | (Claimed c cancelled, d1) \<Rightarrow>
         (let (r, d2) = fn c cancelled d1
          in (r, case c of None \<Rightarrow> d2
                 | Some c \<Rightarrow> snd (release_resource_claims [claim_id c] (claim_owner c) d2))))"

end
