(* ===== verification/Run_Tracker.thy ===== *)
theory Run_Tracker
  imports Claim
begin

text \<open>
  What a run writes to its own record (\<open>apps/worker/src/pipeline/run/step-tracker.ts\<close>):
  the pipeline row's status and pointers, and one row per step. Every statement is
  conditioned on the claim, so the tracker of a run that lost it writes nothing. The
  parking of replaced objects (\<open>park\<close>, \<open>PARKED_UNTIL\<close> of
  \<open>api/src/services/pipeline/storage-pointer.ts\<close>) is here because the pointers move here.
\<close>

subsection \<open>The ledger of objects to delete\<close>

definition PARKED_UNTIL :: "time \<Rightarrow> time" where "PARKED_UNTIL now = now + 60 * 60 * 1000"

definition RESERVED_UNTIL :: "time \<Rightarrow> time" where "RESERVED_UNTIL now = now + 60 * 60 * 1000"

text \<open>\<open>INSERT INTO orphaned_object \<dots> ON CONFLICT (key) DO NOTHING\<close>.\<close>

fun park :: "time \<Rightarrow> key list \<Rightarrow> orphan_row list \<Rightarrow> orphan_row list" where
  "park until [] os = os"
| "park until (k # ks) os =
     park until ks (if k \<in> set (map orphan_key os) then os
                    else os @ [\<lparr>orphan_key = k, orphan_expires_at = until\<rparr>])"

definition untrack :: "key list \<Rightarrow> orphan_row list \<Rightarrow> orphan_row list" where
  "untrack ks os = delete_where (\<lambda>r. orphan_key r \<in> set ks) os"

text \<open>\<open>array_remove(ARRAY[\<dots>], NULL)\<close>.\<close>

definition not_null :: "'a option list \<Rightarrow> 'a list" where
  "not_null xs = List.map_filter id xs"

subsection \<open>The tracker\<close>

record tracker =
  trk_claim :: resource_claim
  open_steps :: "uuid list"

datatype run_error = Run_Cancelled uuid

definition begin_run :: "time \<Rightarrow> tracker \<Rightarrow> db \<Rightarrow> tracker \<times> db" where
  "begin_run now t d =
    (let c = trk_claim t;
         taken = map pl_id (select_where (held_by c) (pipelines d))
     in (t\<lparr>open_steps := []\<rparr>,
         d\<lparr>pipelines := update_where (held_by c)
               (\<lambda>p. p\<lparr>pl_status := Processing, pl_error := None, pl_updated := now\<rparr>) (pipelines d),
           steps := delete_where (\<lambda>s. st_pipeline s \<in> set taken) (steps d)\<rparr>))"

definition update_status :: "time \<Rightarrow> pipeline_status \<Rightarrow> string option \<Rightarrow> tracker \<Rightarrow> db \<Rightarrow> db" where
  "update_status now status err t d =
    d\<lparr>pipelines := update_where (held_by (trk_claim t))
        (\<lambda>p. p\<lparr>pl_status := status, pl_error := err, pl_updated := now\<rparr>) (pipelines d)\<rparr>"

definition move_pointers ::
  "(json \<Rightarrow> string) \<Rightarrow> time \<Rightarrow> (pipeline_row \<Rightarrow> pipeline_row) \<Rightarrow> tracker \<Rightarrow> db \<Rightarrow> db" where
  "move_pointers pt now assign t d =
    (case select_where (held_by (trk_claim t)) (pipelines d) of
       [] \<Rightarrow> d
     | before # _ \<Rightarrow>
         (let after = (assign before)\<lparr>pl_updated := now\<rparr>;
              previous = not_null (pipeline_object_keys pt before);
              current = not_null (pipeline_object_keys pt after);
              renamed = (schema_column_names (pl_metadata before)
                          \<noteq> schema_column_names (pl_metadata after))
          in d\<lparr>pipelines := update_where (held_by (trk_claim t)) (\<lambda>_. after) (pipelines d),
               resources := update_where (\<lambda>r. res_id r = pl_resource before \<and> renamed)
                   (\<lambda>r. r\<lparr>res_doc_sync_due_at := Some now\<rparr>) (resources d),
               orphans := untrack current
                   (park (PARKED_UNTIL now) (filter (\<lambda>k. k \<notin> set current) previous)
                     (orphans d))\<rparr>))"

definition update_interpret_result ::
  "(json \<Rightarrow> string) \<Rightarrow> time \<Rightarrow> key option \<Rightarrow> json \<Rightarrow> json option \<Rightarrow> tracker \<Rightarrow> db \<Rightarrow> db" where
  "update_interpret_result pt now preview metadata profile t d =
    move_pointers pt now
      (\<lambda>p. p\<lparr>pl_preview_key := preview, pl_metadata := Some metadata, pl_profile := profile\<rparr>) t d"

definition merge_metadata :: "(json \<Rightarrow> string) \<Rightarrow> time \<Rightarrow> json \<Rightarrow> tracker \<Rightarrow> db \<Rightarrow> db" where
  "merge_metadata pt now metadata t d =
    move_pointers pt now
      (\<lambda>p. p\<lparr>pl_metadata := Some (json_merge (case pl_metadata p of None \<Rightarrow> JObj [] | Some j \<Rightarrow> j)
                                      metadata)\<rparr>) t d"

subsection \<open>The content index mark\<close>

definition content_index_mark :: "tracker \<Rightarrow> db \<Rightarrow> time option" where
  "content_index_mark t d =
    Option.bind (row_of res_id (resources d) (claim_resource (trk_claim t))) res_content_index_due_at"

definition raise_content_index_mark :: "time \<Rightarrow> tracker \<Rightarrow> db \<Rightarrow> db" where
  "raise_content_index_mark now t d =
    d\<lparr>resources := update_where
        (\<lambda>r. res_id r = claim_resource (trk_claim t) \<and> still_held d (Some (trk_claim t)))
        (\<lambda>r. r\<lparr>res_content_index_due_at := Some now\<rparr>) (resources d)\<rparr>"

definition lower_content_index_mark :: "time option \<Rightarrow> tracker \<Rightarrow> db \<Rightarrow> db" where
  "lower_content_index_mark read t d =
    (if read = None then d
     else d\<lparr>resources := update_where
        (\<lambda>r. res_id r = claim_resource (trk_claim t) \<and> res_content_index_due_at r = read
          \<and> res_state r = Some ''active''
          \<and> list_ex (\<lambda>k. pkg_id k = res_package r \<and> pkg_state k = Some ''active'') (packages d)
          \<and> still_held d (Some (trk_claim t)))
        (\<lambda>r. r\<lparr>res_content_index_due_at := None\<rparr>) (resources d)\<rparr>)"

subsection \<open>Steps\<close>

text \<open>\<open>sid\<close> is the id the table gives the new row.\<close>

definition start_step ::
  "time \<Rightarrow> uuid \<Rightarrow> string \<Rightarrow> tracker \<Rightarrow> db \<Rightarrow> (run_error + uuid) \<times> tracker \<times> db" where
  "start_step now sid name t d =
    (let c = trk_claim t
     in if select_where (held_by c) (pipelines d) = [] then (Inl (Run_Cancelled (claim_resource c)), t, d)
        else (Inr sid, t\<lparr>open_steps := open_steps t @ [sid]\<rparr>,
              d\<lparr>steps := steps d @
                 [\<lparr>st_id = sid, st_pipeline = claim_id c, st_name = name, st_status = Step_Running,
                   st_error = None, st_started_at = Some now, st_completed_at = None\<rparr>]\<rparr>))"

definition settle_step ::
  "time \<Rightarrow> uuid \<Rightarrow> step_status \<Rightarrow> string option \<Rightarrow> tracker \<Rightarrow> db \<Rightarrow> tracker \<times> db" where
  "settle_step now sid status err t d =
    (t\<lparr>open_steps := filter (\<lambda>i. i \<noteq> sid) (open_steps t)\<rparr>,
     d\<lparr>steps := update_where
         (\<lambda>s. st_id s = sid
           \<and> list_ex (\<lambda>p. st_pipeline s = pl_id p \<and> held_by (trk_claim t) p) (pipelines d))
         (\<lambda>s. s\<lparr>st_status := status, st_error := err, st_completed_at := Some now\<rparr>) (steps d)\<rparr>)"

definition complete_step :: "time \<Rightarrow> uuid \<Rightarrow> tracker \<Rightarrow> db \<Rightarrow> tracker \<times> db" where
  "complete_step now sid = settle_step now sid Step_Complete None"

definition fail_step :: "time \<Rightarrow> uuid \<Rightarrow> string \<Rightarrow> tracker \<Rightarrow> db \<Rightarrow> tracker \<times> db" where
  "fail_step now sid err = settle_step now sid Step_Error (Some err)"

definition skip_step :: "time \<Rightarrow> uuid \<Rightarrow> tracker \<Rightarrow> db \<Rightarrow> tracker \<times> db" where
  "skip_step now sid = settle_step now sid Step_Skipped None"

primrec fail_steps :: "time \<Rightarrow> string \<Rightarrow> uuid list \<Rightarrow> tracker \<times> db \<Rightarrow> tracker \<times> db" where
  "fail_steps now err [] td = td"
| "fail_steps now err (sid # sids) td =
     fail_steps now err sids (fail_step now sid err (fst td) (snd td))"

text \<open>Innermost first, over a copy of the list.\<close>

definition fail_open_step :: "time \<Rightarrow> string \<Rightarrow> tracker \<Rightarrow> db \<Rightarrow> tracker \<times> db" where
  "fail_open_step now err t d = fail_steps now err (rev (open_steps t)) (t, d)"

end
