(* ===== verification/Claim_Protocol.thy ===== *)
theory Claim_Protocol
  imports Run_Tracker
begin

text \<open>
  The claim as a state machine: the statements of \<open>Claim\<close> and \<open>Run_Tracker\<close> in any
  order, by any number of processes, under a clock that does not run backwards and owners
  drawn afresh (\<open>randomUUID\<close>). The invariant of the pipeline table, the claim as a lease
  (\<open>lease_machine\<close>), and the finality of a kill.
\<close>

subsection \<open>Events\<close>

datatype claim_event =
    Take time "uuid \<Rightarrow> uuid" "uuid list" uuid claim_kind
  | Give_Back time "uuid list" uuid
  | Touch time resource_claim
  | Stop_Run time uuid
  | Take_Over time "uuid \<Rightarrow> uuid" uuid uuid "uuid option"
  | Begin time tracker
  | Set_Status time pipeline_status "string option" tracker
  | Interpreted time "key option" json "json option" tracker
  | Merged time json tracker
  | Start time uuid string tracker
  | Settle time uuid step_status "string option" tracker

fun claim_time :: "claim_event \<Rightarrow> time" where
  "claim_time (Take now _ _ _ _) = now"
| "claim_time (Give_Back now _ _) = now"
| "claim_time (Touch now _) = now"
| "claim_time (Stop_Run now _) = now"
| "claim_time (Take_Over now _ _ _ _) = now"
| "claim_time (Begin now _) = now"
| "claim_time (Set_Status now _ _ _) = now"
| "claim_time (Interpreted now _ _ _ _) = now"
| "claim_time (Merged now _ _) = now"
| "claim_time (Start now _ _ _) = now"
| "claim_time (Settle now _ _ _ _) = now"

fun db_step :: "(json \<Rightarrow> string) \<Rightarrow> claim_event \<Rightarrow> db \<Rightarrow> db" where
  "db_step pt (Take now mint rids owner k) d =
     snd (claim_resources now mint rids owner CLAIM_STALE_AFTER_MS k d)"
| "db_step pt (Give_Back _ ids owner) d = snd (release_resource_claims ids owner d)"
| "db_step pt (Touch now c) d = snd (touch_resource_claim now c d :: (unit failure + unit) \<times> db)"
| "db_step pt (Stop_Run now rid) d = snd (cancel_resource_run now rid d)"
| "db_step pt (Take_Over now mint owner rid revision) d =
     snd (claim_from_run now mint owner rid revision d)"
| "db_step pt (Begin now t) d = snd (begin_run now t d)"
| "db_step pt (Set_Status now status err t) d = update_status now status err t d"
| "db_step pt (Interpreted now preview metadata profile t) d =
     update_interpret_result pt now preview metadata profile t d"
| "db_step pt (Merged now metadata t) d = merge_metadata pt now metadata t d"
| "db_step pt (Start now sid name t) d = snd (snd (start_step now sid name t d))"
| "db_step pt (Settle now sid status err t) d = snd (settle_step now sid status err t d)"

fun new_owner :: "claim_event \<Rightarrow> uuid list" where
  "new_owner (Take _ _ _ owner _) = [owner]"
| "new_owner (Take_Over _ _ owner _ _) = [owner]"
| "new_owner _ = []"

fun minted :: "claim_event \<Rightarrow> uuid list" where
  "minted (Take _ mint rids _ _) = map mint (remdups rids)"
| "minted (Take_Over _ mint _ rid _) = [mint rid]"
| "minted _ = []"

record claim_system =
  clk :: time
  issued :: "uuid list"
  data :: db

definition claim_step :: "(json \<Rightarrow> string) \<Rightarrow> claim_event \<Rightarrow> claim_system \<Rightarrow> claim_system" where
  "claim_step pt e s =
    \<lparr>clk = claim_time e, issued = new_owner e @ issued s, data = db_step pt e (data s)\<rparr>"

definition claim_ok :: "claim_event \<Rightarrow> claim_system \<Rightarrow> bool" where
  "claim_ok e s \<longleftrightarrow> clk s \<le> claim_time e \<and> (\<forall>w \<in> set (new_owner e). w \<notin> set (issued s))
    \<and> distinct (minted e) \<and> (\<forall>i \<in> set (minted e). i \<notin> pl_id ` set (pipelines (data s)))"

subsection \<open>The pipeline table\<close>

definition claim_row_ok :: "time \<Rightarrow> uuid set \<Rightarrow> pipeline_row \<Rightarrow> bool" where
  "claim_row_ok now used p \<longleftrightarrow>
    (pl_claim_owner p = None \<longrightarrow> pl_claim_owner_at p = None \<and> pl_claim_kind p = None)
    \<and> (\<forall>w. pl_claim_owner p = Some w \<longrightarrow> w \<in> used \<and> (\<exists>t \<le> now. pl_claim_owner_at p = Some t))"

definition rows_ok :: "time \<Rightarrow> uuid set \<Rightarrow> db \<Rightarrow> bool" where
  "rows_ok now used d \<longleftrightarrow>
    distinct (map pl_id (pipelines d)) \<and> distinct (map pl_resource (pipelines d))
    \<and> distinct (map res_id (resources d))
    \<and> (\<forall>p \<in> set (pipelines d). claim_row_ok now used p)
    \<and> (\<forall>s \<in> set (steps d). \<forall>t. st_started_at s = Some t \<longrightarrow> t \<le> now)"

definition claim_inv :: "claim_system \<Rightarrow> bool" where
  "claim_inv s \<longleftrightarrow> rows_ok (clk s) (set (issued s)) (data s)"

lemma claim_row_ok_mono:
  "claim_row_ok now used p \<Longrightarrow> now \<le> now' \<Longrightarrow> used \<subseteq> used' \<Longrightarrow> claim_row_ok now' used' p"
  by (fastforce simp: claim_row_ok_def)

lemma rows_ok_mono:
  assumes "rows_ok now used d" "now \<le> now'" "used \<subseteq> used'"
  shows "rows_ok now' used' d"
  using assms claim_row_ok_mono by (fastforce simp: rows_ok_def)

lemma rows_ok_update:
  assumes "rows_ok now used d"
    and "\<And>p. pl_id (f p) = pl_id p" "\<And>p. pl_resource (f p) = pl_resource p"
    and "\<And>p. p \<in> set (pipelines d) \<Longrightarrow> claim_row_ok now used p \<Longrightarrow> P p \<Longrightarrow> claim_row_ok now used (f p)"
  shows "rows_ok now used (d\<lparr>pipelines := update_where P f (pipelines d)\<rparr>)"
  using assms by (auto simp: rows_ok_def map_update_where table_simps)

lemma rows_ok_steps:
  "rows_ok now used d \<Longrightarrow> (\<And>s t. s \<in> set ss \<Longrightarrow> st_started_at s = Some t \<Longrightarrow> t \<le> now)
    \<Longrightarrow> rows_ok now used (d\<lparr>steps := ss\<rparr>)"
  by (auto simp: rows_ok_def)

lemma rows_ok_resources:
  "rows_ok now used d \<Longrightarrow> map res_id rs = map res_id (resources d)
    \<Longrightarrow> rows_ok now used (d\<lparr>resources := rs\<rparr>)"
  by (auto simp: rows_ok_def)

lemma rows_ok_orphans: "rows_ok now used d \<Longrightarrow> rows_ok now used (d\<lparr>orphans := os\<rparr>)"
  by (auto simp: rows_ok_def)

lemma rows_okD:
  assumes "rows_ok now used d" "p \<in> set (pipelines d)"
  shows "row_of pl_resource (pipelines d) (pl_resource p) = Some p" "claim_row_ok now used p"
  using assms by (auto simp: rows_ok_def row_of_distinct)

lemma same_pipeline:
  "rows_ok now used d \<Longrightarrow> p \<in> set (pipelines d) \<Longrightarrow> q \<in> set (pipelines d)
    \<Longrightarrow> pl_id p = pl_id q \<or> pl_resource p = pl_resource q \<Longrightarrow> p = q"
  by (auto simp: rows_ok_def distinct_map dest: inj_onD)

subsection \<open>Minting missing rows\<close>

definition missing_rows :: "uuid list \<Rightarrow> db \<Rightarrow> uuid list" where
  "missing_rows rids d =
    filter (\<lambda>r. r \<notin> pl_resource ` set (pipelines d))
      (sort (map res_id (select_where (\<lambda>r. res_id r \<in> set rids) (resources d))))"

lemma ensure_claimable_eq:
  "ensure_claimable now mint rids d =
    d\<lparr>pipelines := pipelines d @ map (\<lambda>r. new_pipeline_row now (mint r) r) (missing_rows rids d)\<rparr>"
  by (simp add: ensure_claimable_def missing_rows_def Let_def)

lemma set_missing_rows:
  "set (missing_rows rids d) = {r \<in> set rids. r \<in> res_id ` set (resources d)
     \<and> r \<notin> pl_resource ` set (pipelines d)}"
  by (auto simp: missing_rows_def table_simps)

lemma distinct_missing_rows: "rows_ok now used d \<Longrightarrow> distinct (missing_rows rids d)"
  by (simp add: missing_rows_def rows_ok_def select_where_def distinct_map_filter)

lemma new_pipeline_row_simps [simp]:
  "pl_id (new_pipeline_row now i r) = i" "pl_resource (new_pipeline_row now i r) = r"
  "pl_claim_owner (new_pipeline_row now i r) = None"
  "pl_claim_kind (new_pipeline_row now i r) = None"
  "pl_claim_owner_at (new_pipeline_row now i r) = None"
  "pl_status (new_pipeline_row now i r) = Pending"
  by (simp_all add: new_pipeline_row_def)

lemma rows_ok_ensure:
  assumes "rows_ok now used d" "distinct (map mint (remdups rids))"
    and "\<forall>i \<in> set (map mint (remdups rids)). i \<notin> pl_id ` set (pipelines d)"
  shows "rows_ok now used (ensure_claimable now' mint rids d)"
proof -
  have dist: "distinct (missing_rows rids d)" using assms(1) by (rule distinct_missing_rows)
  have inj: "inj_on mint (set (missing_rows rids d))"
    using assms(2) by (auto simp: distinct_map set_missing_rows intro: inj_on_subset)
  have "set (missing_rows rids d) \<subseteq> set rids" by (auto simp: set_missing_rows)
  then have "pl_id ` set (pipelines d) \<inter> mint ` set (missing_rows rids d) = {}"
    using assms(3) by fastforce
  then have "distinct (map pl_id (pipelines (ensure_claimable now' mint rids d)))"
    using assms(1) dist inj by (simp add: rows_ok_def ensure_claimable_eq comp_def distinct_map [of mint])
  moreover have "distinct (map pl_resource (pipelines (ensure_claimable now' mint rids d)))"
    using assms(1) dist by (auto simp: rows_ok_def ensure_claimable_eq comp_def set_missing_rows)
  moreover have "\<forall>p \<in> set (pipelines (ensure_claimable now' mint rids d)). claim_row_ok now used p"
    using assms(1) by (auto simp: rows_ok_def ensure_claimable_eq claim_row_ok_def)
  ultimately show ?thesis using assms(1) by (simp add: rows_ok_def ensure_claimable_eq)
qed

lemma ensure_claimable_parts [simp]:
  "steps (ensure_claimable now mint rids d) = steps d"
  "resources (ensure_claimable now mint rids d) = resources d"
  "orphans (ensure_claimable now mint rids d) = orphans d"
  "versions (ensure_claimable now mint rids d) = versions d"
  "packages (ensure_claimable now mint rids d) = packages d"
  by (simp_all add: ensure_claimable_eq)

lemma row_of_ensure:
  "row_of pl_resource (pipelines d) r = Some p
    \<Longrightarrow> row_of pl_resource (pipelines (ensure_claimable now mint rids d)) r = Some p"
  by (simp add: ensure_claimable_eq row_of_append)

lemma set_ensure:
  "set (pipelines (ensure_claimable now mint rids d)) =
    set (pipelines d) \<union> (\<lambda>r. new_pipeline_row now (mint r) r) ` set (missing_rows rids d)"
  by (simp add: ensure_claimable_eq)

subsection \<open>Every event keeps the table well formed\<close>

lemma rows_ok_snd_simps [simp]:
  "claim_row_ok now used (p\<lparr>pl_status := st, pl_error := er, pl_updated := up\<rparr>) = claim_row_ok now used p"
  "claim_row_ok now used (unclaimed p)"
  "claim_row_ok now used ((unclaimed p)\<lparr>pl_status := st, pl_updated := up\<rparr>)"
  by (simp_all add: claim_row_ok_def unclaimed_def)

lemma unclaimed_simps [simp]:
  "pl_id (unclaimed p) = pl_id p" "pl_resource (unclaimed p) = pl_resource p"
  "pl_claim_owner (unclaimed p) = None"
  by (simp_all add: unclaimed_def)

lemma claimed_by_simps [simp]:
  "pl_id (claimed_by w now k p) = pl_id p" "pl_resource (claimed_by w now k p) = pl_resource p"
  "pl_claim_owner (claimed_by w now k p) = Some w" "pl_claim_kind (claimed_by w now k p) = Some k"
  "pl_claim_owner_at (claimed_by w now k p) = Some now" "pl_status (claimed_by w now k p) = pl_status p"
  by (simp_all add: claimed_by_def)

lemma rows_ok_take:
  assumes "rows_ok now used d" "distinct (map mint (remdups rids))" "w \<in> used"
    and "\<forall>i \<in> set (map mint (remdups rids)). i \<notin> pl_id ` set (pipelines d)"
  shows "rows_ok now used (snd (claim_resources now mint rids w stale_after k d))"
  using assms rows_ok_ensure [OF assms(1,2,4)]
  by (auto simp: claim_resources_def Let_def claim_row_ok_def intro!: rows_ok_update)

lemma rows_ok_release:
  "rows_ok now used d \<Longrightarrow> rows_ok now used (snd (release_resource_claims ids w d))"
  by (auto simp: release_resource_claims_def Let_def intro!: rows_ok_update)

lemma rows_ok_touch:
  "rows_ok now used d \<Longrightarrow> rows_ok now used (snd (touch_resource_claim now c d))"
  by (auto simp: touch_resource_claim_def claim_row_ok_def held_by_def intro!: rows_ok_update)

lemma rows_ok_cancel:
  "rows_ok now used d \<Longrightarrow> rows_ok now used (snd (cancel_resource_run now rid d))"
  by (auto simp: cancel_resource_run_def Let_def intro!: rows_ok_update)

lemma rows_ok_take_over:
  assumes "rows_ok now used d" "w \<in> used" "mint rid \<notin> pl_id ` set (pipelines d)"
  shows "rows_ok now used (snd (claim_from_run now mint w rid gen d))"
proof -
  have "rows_ok now used (ensure_claimable now mint [rid] d)"
    using assms by (intro rows_ok_ensure) auto
  then show ?thesis using assms(2)
    by (auto simp: claim_from_run_def Let_def claim_row_ok_def split: list.split
        intro!: rows_ok_update)
qed

lemma rows_ok_move_pointers:
  assumes "rows_ok now used d"
    and "\<And>p. pl_id (f p) = pl_id p" "\<And>p. pl_resource (f p) = pl_resource p"
    and "\<And>p. claim_row_ok now used p \<Longrightarrow> claim_row_ok now used ((f p)\<lparr>pl_updated := now\<rparr>)"
  shows "rows_ok now used (move_pointers pt now f t d)"
proof (cases "select_where (held_by (trk_claim t)) (pipelines d)")
  case Nil
  with assms(1) show ?thesis by (simp add: move_pointers_def)
next
  case (Cons b bs)
  then have b: "b \<in> set (pipelines d)" "held_by (trk_claim t) b"
    using set_select_where [of "held_by (trk_claim t)" "pipelines d"] by auto
  have only: "p = b" if "p \<in> set (pipelines d)" "held_by (trk_claim t) p" for p
    using that b assms(1) same_pipeline by (fastforce simp: held_by_def)
  have "update_where (held_by (trk_claim t)) (\<lambda>_. (f b)\<lparr>pl_updated := now\<rparr>) (pipelines d)
      = update_where (held_by (trk_claim t)) (\<lambda>p. (f p)\<lparr>pl_updated := now\<rparr>) (pipelines d)"
    using only by (auto simp: update_where_def)
  moreover have "rows_ok now used
      (d\<lparr>pipelines := update_where (held_by (trk_claim t)) (\<lambda>p. (f p)\<lparr>pl_updated := now\<rparr>) (pipelines d)\<rparr>)"
    using assms by (intro rows_ok_update) auto
  ultimately show ?thesis using Cons
    by (simp add: move_pointers_def Let_def rows_ok_def map_update_where)
qed

lemma rows_ok_step:
  assumes "rows_ok now used d" "now = claim_time e" "set (new_owner e) \<subseteq> used"
    and "distinct (minted e)" "\<forall>i \<in> set (minted e). i \<notin> pl_id ` set (pipelines d)"
  shows "rows_ok now used (db_step pt e d)"
proof (cases e)
  case (Take now' mint rids w k)
  with assms show ?thesis using rows_ok_take [of now used d mint rids w] by simp
next
  case (Take_Over now' mint w rid gen)
  with assms show ?thesis using rows_ok_take_over [of now used d w mint rid] by simp
next
  case (Begin now' t)
  with assms show ?thesis
    by (auto simp: begin_run_def Let_def table_simps rows_ok_def map_update_where)
next
  case (Set_Status now' st er t)
  with assms show ?thesis
    by (auto simp: update_status_def intro!: rows_ok_update)
next
  case (Interpreted now' pv md pr t)
  with assms show ?thesis
    by (auto simp: update_interpret_result_def claim_row_ok_def intro!: rows_ok_move_pointers)
next
  case (Merged now' md t)
  with assms show ?thesis
    by (auto simp: merge_metadata_def claim_row_ok_def intro!: rows_ok_move_pointers)
next
  case (Start now' sid nm t)
  with assms show ?thesis by (auto simp: start_step_def Let_def rows_ok_def)
next
  case (Settle now' sid st er t)
  with assms show ?thesis
    by (auto simp: settle_step_def rows_ok_def table_simps)
qed (use assms in \<open>auto intro: rows_ok_release rows_ok_touch rows_ok_cancel\<close>)

lemma claim_inv_step:
  assumes "claim_inv s" "claim_ok e s"
  shows "claim_inv (claim_step pt e s)"
proof -
  have "rows_ok (claim_time e) (set (new_owner e @ issued s)) (data s)"
    using assms by (auto simp: claim_inv_def claim_ok_def intro: rows_ok_mono)
  from rows_ok_step [OF this refl] assms(2) show ?thesis
    by (simp add: claim_inv_def claim_step_def claim_ok_def)
qed

subsection \<open>The claim is a lease\<close>

definition claim_lease :: "claim_system \<Rightarrow> uuid \<Rightarrow> ((uuid \<times> claim_kind option) \<times> time) option" where
  "claim_lease s r =
    (case row_of pl_resource (pipelines (data s)) r of None \<Rightarrow> None
     | Some p \<Rightarrow>
         (case (pl_claim_owner p, last_progress (data s) p) of
            (Some w, Some t) \<Rightarrow> Some ((w, pl_claim_kind p), t + CLAIM_STALE_AFTER_MS)
          | _ \<Rightarrow> None))"

text \<open>
  A claim is live for fifteen minutes from its last progress, and at least from when it was
  taken or last extended, its \<open>claim_mark\<close>: the steps that count as progress go when a run begins,
  the mark does not.
\<close>

definition claim_mark :: "claim_system \<Rightarrow> uuid \<Rightarrow> ((uuid \<times> claim_kind option) \<times> time) option" where
  "claim_mark s r =
    (case row_of pl_resource (pipelines (data s)) r of None \<Rightarrow> None
     | Some p \<Rightarrow>
         (case (pl_claim_owner p, pl_claim_owner_at p) of
            (Some w, Some a) \<Rightarrow> Some ((w, pl_claim_kind p), a + CLAIM_STALE_AFTER_MS)
          | _ \<Rightarrow> None))"

text \<open>
  What ends a claim before that: its owner's release and, for a run, a stop or a takeover.
  Nothing else ends a job's claim. What may bring its lease forward, though never to before
  its mark, is a beginning by its own owner.
\<close>

fun claim_ended :: "claim_event \<Rightarrow> uuid \<times> claim_kind option \<Rightarrow> uuid \<Rightarrow> bool" where
  "claim_ended (Give_Back _ ids owner) (w, k) r = (owner = w)"
| "claim_ended (Stop_Run _ rid) (w, k) r = (rid = r \<and> k \<noteq> Some Job)"
| "claim_ended (Take_Over _ _ _ rid _) (w, k) r = (rid = r \<and> k \<noteq> Some Job)"
| "claim_ended _ _ _ = False"

fun claim_ends :: "claim_event \<Rightarrow> uuid \<times> claim_kind option \<Rightarrow> uuid \<Rightarrow> bool" where
  "claim_ends (Give_Back _ ids owner) (w, k) r = (owner = w)"
| "claim_ends (Stop_Run _ rid) (w, k) r = (rid = r \<and> k \<noteq> Some Job)"
| "claim_ends (Take_Over _ _ _ rid _) (w, k) r = (rid = r \<and> k \<noteq> Some Job)"
| "claim_ends (Begin _ t) (w, k) r = (claim_owner (trk_claim t) = w)"
| "claim_ends _ _ _ = False"

lemma claim_lease_iff:
  "claim_lease s r = Some ((w, k), u) \<longleftrightarrow>
    (\<exists>p t. row_of pl_resource (pipelines (data s)) r = Some p \<and> pl_claim_owner p = Some w
       \<and> pl_claim_kind p = k \<and> last_progress (data s) p = Some t \<and> u = t + CLAIM_STALE_AFTER_MS)"
  by (auto simp: claim_lease_def split: option.splits)

definition starts :: "db \<Rightarrow> uuid \<Rightarrow> time option list" where
  "starts d i = map st_started_at (select_where (\<lambda>s. st_pipeline s = i) (steps d))"

lemma last_progress_eq:
  "last_progress d p = pg_greatest [pl_claim_owner_at p, pg_greatest (starts d (pl_id p))]"
  by (simp add: last_progress_def starts_def)

lemma last_progress_same:
  "pl_id p' = pl_id p \<Longrightarrow> pl_claim_owner_at p' = pl_claim_owner_at p \<Longrightarrow> steps d' = steps d
    \<Longrightarrow> last_progress d' p' = last_progress d p"
  by (simp add: last_progress_def)

lemma last_progress_mono:
  assumes "last_progress d p = Some t" "pl_id p' = pl_id p"
    and "\<And>a. pl_claim_owner_at p = Some a \<Longrightarrow> \<exists>a' \<ge> a. pl_claim_owner_at p' = Some a'"
    and "set (starts d (pl_id p)) \<subseteq> set (starts d' (pl_id p))"
  shows "\<exists>t' \<ge> t. last_progress d' p' = Some t'"
proof -
  from pg_greatest_mem [OF assms(1) [unfolded last_progress_eq]]
  consider (owner) "pl_claim_owner_at p = Some t" | (step) "pg_greatest (starts d (pl_id p)) = Some t"
    by auto
  then obtain t1 where "t \<le> t1"
    "Some t1 \<in> set [pl_claim_owner_at p', pg_greatest (starts d' (pl_id p'))]"
  proof cases
    case owner
    with assms(3) that show ?thesis by fastforce
  next
    case step
    then have "Some t \<in> set (starts d' (pl_id p'))" using assms(2,4) pg_greatest_mem by fastforce
    from pg_greatest_ge [OF this] that show ?thesis by fastforce
  qed
  with pg_greatest_ge [OF this(2)] show ?thesis unfolding last_progress_eq
    by (auto intro: order_trans)
qed

lemma starts_begin:
  assumes "pl_id p \<notin> set ids"
  shows "starts (d\<lparr>steps := delete_where (\<lambda>s. st_pipeline s \<in> set ids) (steps d)\<rparr>) (pl_id p) = starts d (pl_id p)"
  using assms by (auto simp: starts_def select_where_def delete_where_def
      intro!: arg_cong [of _ _ "map st_started_at"] filter_cong)

lemma starts_settle:
  "starts (d\<lparr>steps := update_where P (\<lambda>s. s\<lparr>st_status := st, st_error := er, st_completed_at := ct\<rparr>) (steps d)\<rparr>) i
    = starts d i"
proof -
  have "map st_started_at (select_where (\<lambda>s. st_pipeline s = i)
      (update_where P (\<lambda>s. s\<lparr>st_status := st, st_error := er, st_completed_at := ct\<rparr>) ss))
    = map st_started_at (select_where (\<lambda>s. st_pipeline s = i) ss)" for ss
    by (induction ss) (auto simp: select_where_def)
  then show ?thesis by (simp add: starts_def)
qed

text \<open>What an event leaves of a claim that is live and that it does not end.\<close>

definition kept :: "db \<Rightarrow> db \<Rightarrow> uuid \<Rightarrow> pipeline_row \<Rightarrow> time \<Rightarrow> bool" where
  "kept d d' r p t \<longleftrightarrow>
    (\<exists>p'. row_of pl_resource (pipelines d') r = Some p' \<and> pl_claim_owner p' = pl_claim_owner p
       \<and> pl_claim_kind p' = pl_claim_kind p \<and> (\<exists>t' \<ge> t. last_progress d' p' = Some t')
       \<and> (\<forall>a. pl_claim_owner_at p = Some a \<longrightarrow> (\<exists>a' \<ge> a. pl_claim_owner_at p' = Some a')))"

lemma keptI:
  assumes "row_of pl_resource (pipelines d') r = Some p'" "pl_claim_owner p' = pl_claim_owner p"
    and "pl_claim_kind p' = pl_claim_kind p" "last_progress d p = Some t" "pl_id p' = pl_id p"
    and "\<And>a. pl_claim_owner_at p = Some a \<Longrightarrow> \<exists>a' \<ge> a. pl_claim_owner_at p' = Some a'"
    and "set (starts d (pl_id p)) \<subseteq> set (starts d' (pl_id p))"
  shows "kept d d' r p t"
  using assms last_progress_mono [OF assms(4-7)] by (auto simp: kept_def)

lemma kept_unchanged:
  assumes "row_of pl_resource (pipelines d') r = Some p" "last_progress d p = Some t" "steps d' = steps d"
  shows "kept d d' r p t"
  using assms last_progress_same [of p p d' d] by (auto simp: kept_def)

lemma kept_update:
  assumes "row_of pl_resource (pipelines d) r = Some p" "last_progress d p = Some t"
    and "pipelines d' = update_where P f (pipelines d)" "\<And>q. pl_resource (f q) = pl_resource q"
    and "set (starts d (pl_id p)) \<subseteq> set (starts d' (pl_id p))"
    and "P p \<Longrightarrow> pl_id (f p) = pl_id p \<and> pl_claim_owner (f p) = pl_claim_owner p
           \<and> pl_claim_kind (f p) = pl_claim_kind p
           \<and> (\<forall>a. pl_claim_owner_at p = Some a \<longrightarrow> (\<exists>a' \<ge> a. pl_claim_owner_at (f p) = Some a'))"
  shows "kept d d' r p t"
proof (rule keptI)
  show "row_of pl_resource (pipelines d') r = Some (if P p then f p else p)"
    using assms(1,3,4) by (simp add: row_of_update_where)
qed (use assms in auto)

lemma stale_ensure [simp]:
  "stale_claim now st (ensure_claimable now' mint rids d) = stale_claim now st d"
  by (simp add: stale_claim_def last_progress_def fun_eq_iff)

lemma last_progress_ensure [simp]:
  "last_progress (ensure_claimable now' mint rids d) = last_progress d"
  by (simp add: last_progress_def fun_eq_iff)

lemma kept_take:
  assumes "row_of pl_resource (pipelines d) r = Some p" "last_progress d p = Some t"
    and "pl_claim_owner p = Some w" "now \<le> t + CLAIM_STALE_AFTER_MS"
  shows "kept d (snd (claim_resources now mint rids v CLAIM_STALE_AFTER_MS k d)) r p t"
proof (cases "rids = []")
  case True
  with assms show ?thesis by (auto simp: claim_resources_def intro: kept_unchanged)
next
  case False
  have live: "\<not> stale_claim now CLAIM_STALE_AFTER_MS d p" using assms by (simp add: stale_claim_def)
  let ?d1 = "ensure_claimable now mint rids d"
  have "kept ?d1 (snd (claim_resources now mint rids v CLAIM_STALE_AFTER_MS k d)) r p t"
    using False assms live row_of_ensure [OF assms(1)]
    by (intro kept_update [where P = "\<lambda>p. pl_resource p \<in> set rids
          \<and> (pl_claim_owner p = None \<or> stale_claim now CLAIM_STALE_AFTER_MS ?d1 p)"
        and f = "claimed_by v now k"])
      (auto simp: claim_resources_def Let_def starts_def)
  then show ?thesis by (simp add: kept_def)
qed

lemma kept_take_over:
  assumes "rows_ok now used d" "row_of pl_resource (pipelines d) r = Some p" "last_progress d p = Some t"
    and "pl_claim_owner p = Some w" "now \<le> t + CLAIM_STALE_AFTER_MS"
    and "rid \<noteq> r \<or> pl_claim_kind p = Some Job" "mint rid \<notin> pl_id ` set (pipelines d)"
  shows "kept d (snd (claim_from_run now mint v rid gen d)) r p t"
proof -
  let ?d1 = "ensure_claimable now mint [rid] d"
  have row: "row_of pl_resource (pipelines ?d1) r = Some p" using assms(2) by (rule row_of_ensure)
  then have p: "p \<in> set (pipelines ?d1)" "pl_resource p = r" using row_of_SomeD by fastforce+
  have ok: "rows_ok now used ?d1" using assms(1,7) by (intro rows_ok_ensure) auto
  have live: "\<not> stale_claim now CLAIM_STALE_AFTER_MS d p" using assms by (simp add: stale_claim_def)
  show ?thesis
  proof (cases "select_where (\<lambda>q. pl_resource q = rid) (pipelines ?d1)")
    case Nil
    with row assms show ?thesis by (auto simp: claim_from_run_def Let_def intro: kept_unchanged)
  next
    case (Cons b bs)
    then have b: "b \<in> set (pipelines ?d1)" "pl_resource b = rid"
      using set_select_where [of "\<lambda>q. pl_resource q = rid" "pipelines ?d1"] by auto
    have other: "\<not> (pl_id p = pl_id b \<and> (pl_claim_kind b \<noteq> Some Job \<or> stale_claim now CLAIM_STALE_AFTER_MS d b))"
      using same_pipeline [OF ok p(1) b(1)] b p(2) assms(6) live by auto
    have "pipelines (snd (claim_from_run now mint v rid gen d)) = pipelines ?d1 \<or>
      (\<exists>f. pipelines (snd (claim_from_run now mint v rid gen d)) = update_where (\<lambda>q. pl_id q = pl_id b) f (pipelines ?d1)
        \<and> (\<forall>q. pl_resource (f q) = pl_resource q) \<and> pl_id p \<noteq> pl_id b)"
      using Cons other by (auto simp: claim_from_run_def Let_def)
    moreover have st: "steps (snd (claim_from_run now mint v rid gen d)) = steps d"
      using Cons by (simp add: claim_from_run_def Let_def)
    ultimately have "row_of pl_resource (pipelines (snd (claim_from_run now mint v rid gen d))) r = Some p"
      using row by (auto simp: row_of_update_where)
    then show ?thesis using st assms(3) by (intro kept_unchanged)
  qed
qed

lemma kept_move_pointers:
  assumes "row_of pl_resource (pipelines d) r = Some p" "last_progress d p = Some t"
    and "rows_ok now' used d"
    and "\<And>q. pl_id (f q) = pl_id q" "\<And>q. pl_resource (f q) = pl_resource q"
    and "\<And>q. pl_claim_owner (f q) = pl_claim_owner q" "\<And>q. pl_claim_kind (f q) = pl_claim_kind q"
    and "\<And>q. pl_claim_owner_at (f q) = pl_claim_owner_at q"
  shows "kept d (move_pointers pt now f tr d) r p t"
proof (cases "select_where (held_by (trk_claim tr)) (pipelines d)")
  case Nil
  with assms show ?thesis by (auto simp: move_pointers_def intro: kept_unchanged)
next
  case (Cons b bs)
  then have b: "b \<in> set (pipelines d)" "held_by (trk_claim tr) b"
    using set_select_where [of "held_by (trk_claim tr)" "pipelines d"] by auto
  have only: "q = b" if "q \<in> set (pipelines d)" "held_by (trk_claim tr) q" for q
    using that b assms(3) same_pipeline by (fastforce simp: held_by_def)
  have "pipelines (move_pointers pt now f tr d)
      = update_where (held_by (trk_claim tr)) (\<lambda>q. (f q)\<lparr>pl_updated := now\<rparr>) (pipelines d)"
    using Cons only by (auto simp: move_pointers_def Let_def update_where_def)
  moreover have "steps (move_pointers pt now f tr d) = steps d"
    using Cons by (simp add: move_pointers_def Let_def)
  ultimately show ?thesis using assms
    by (intro kept_update [where P = "held_by (trk_claim tr)" and f = "\<lambda>q. (f q)\<lparr>pl_updated := now\<rparr>"])
      (auto simp: starts_def)
qed

lemma kept_step:
  assumes "rows_ok now used d" "now = claim_time e" "row_of pl_resource (pipelines d) r = Some p"
    and "pl_claim_owner p = Some w" "last_progress d p = Some t" "now \<le> t + CLAIM_STALE_AFTER_MS"
    and "\<not> claim_ends e (w, pl_claim_kind p) r"
    and "\<forall>i \<in> set (minted e). i \<notin> pl_id ` set (pipelines d)"
  shows "kept d (db_step pt e d) r p t"
proof -
  have p: "p \<in> set (pipelines d)" "pl_resource p = r" using assms(3) row_of_SomeD by fastforce+
  have at: "\<exists>a \<le> now. pl_claim_owner_at p = Some a"
    using rows_okD [OF assms(1) p(1)] assms(4) by (auto simp: claim_row_ok_def)
  note upd = kept_update [OF assms(3,5)]
  show ?thesis
  proof (cases e)
    case (Take now' mint rids v k)
    with assms show ?thesis by (simp add: kept_take)
  next
    case (Give_Back now' ids v)
    then have "pl_claim_owner p \<noteq> Some v" using assms(4,7) by auto
    with Give_Back show ?thesis
      by (cases "ids = []") (auto simp: release_resource_claims_def Let_def starts_def
        intro!: upd kept_unchanged [OF assms(3,5)])
  next
    case (Touch now' c)
    with assms(2) at show ?thesis
      by (cases "select_where (held_by c) (pipelines d) = []")
        (auto simp: touch_resource_claim_def starts_def intro!: upd kept_unchanged [OF assms(3,5)])
  next
    case (Stop_Run now' rid)
    then have "pl_resource p \<noteq> rid \<or> pl_claim_kind p = Some Job" using assms(7) p(2) by auto
    with Stop_Run show ?thesis by (auto simp: cancel_resource_run_def Let_def starts_def intro!: upd)
  next
    case (Take_Over now' mint v rid gen)
    with assms show ?thesis using kept_take_over [of now used d r p t w rid mint] by auto
  next
    case (Begin now' tr)
    then have "claim_owner (trk_claim tr) \<noteq> w" using assms(7) by simp
    then have np: "\<not> held_by (trk_claim tr) p" using assms(4) by (simp add: held_by_def)
    let ?ids = "map pl_id (select_where (held_by (trk_claim tr)) (pipelines d))"
    have "pl_id p \<notin> set ?ids"
      using np same_pipeline [OF assms(1) p(1)] by (auto simp: table_simps)
    from starts_begin [OF this, of d] np Begin show ?thesis
      by (auto simp: begin_run_def Let_def starts_def intro!: upd)
  next
    case (Set_Status now' st er tr)
    then show ?thesis by (auto simp: update_status_def starts_def intro!: upd)
  next
    case (Interpreted now' pv md pr tr)
    then show ?thesis using assms(1,3,5)
      by (auto simp: update_interpret_result_def intro!: kept_move_pointers)
  next
    case (Merged now' md tr)
    then show ?thesis using assms(1,3,5)
      by (auto simp: merge_metadata_def intro!: kept_move_pointers)
  next
    case (Start now' sid nm tr)
    then show ?thesis using assms(3,5)
      by (auto simp: start_step_def Let_def starts_def select_where_def intro!: keptI [of _ _ p])
  next
    case (Settle now' sid st er tr)
    then show ?thesis using assms(3,5)
      by (auto simp: settle_step_def starts_settle intro!: keptI [of _ _ p])
  qed
qed

lemma claim_lease_kept:
  assumes "claim_inv s" "claim_ok e s" "claim_lease s r = Some (wk, u)" "claim_time e \<le> u"
    and "\<not> claim_ends e wk r"
  shows "\<exists>u'. u \<le> u' \<and> claim_lease (claim_step pt e s) r = Some (wk, u')"
proof -
  obtain w k where wk: "wk = (w, k)" by force
  from assms(3) obtain p t where p: "row_of pl_resource (pipelines (data s)) r = Some p"
    "pl_claim_owner p = Some w" "pl_claim_kind p = k" "last_progress (data s) p = Some t"
    "u = t + CLAIM_STALE_AFTER_MS" unfolding wk claim_lease_iff by blast
  have "rows_ok (claim_time e) (set (issued s)) (data s)"
    using assms(1,2) by (auto simp: claim_inv_def claim_ok_def intro: rows_ok_mono)
  then have "kept (data s) (db_step pt e (data s)) r p t"
    using kept_step [where pt = pt] p assms(2,4,5) wk by (simp add: claim_ok_def)
  then obtain p' t' where "row_of pl_resource (pipelines (data (claim_step pt e s))) r = Some p'"
    "pl_claim_owner p' = Some w" "pl_claim_kind p' = k" "t \<le> t'"
    "last_progress (data (claim_step pt e s)) p' = Some t'"
    using p by (auto simp: kept_def claim_step_def)
  then have "claim_lease (claim_step pt e s) r = Some ((w, k), t' + CLAIM_STALE_AFTER_MS)"
    by (simp add: claim_lease_def)
  then show ?thesis using \<open>t \<le> t'\<close> p(5) wk by auto
qed

lemma mark_has_lease:
  assumes "claim_mark s r = Some ((w, k), m)"
  shows "\<exists>u. claim_lease s r = Some ((w, k), u)"
proof -
  obtain p a where p: "row_of pl_resource (pipelines (data s)) r = Some p" "pl_claim_owner p = Some w"
    "pl_claim_kind p = k" "pl_claim_owner_at p = Some a"
    using assms by (auto simp: claim_mark_def split: option.splits)
  have "Some a \<in> set [pl_claim_owner_at p, pg_greatest (starts (data s) (pl_id p))]" using p(4) by simp
  then obtain t where "last_progress (data s) p = Some t"
    using pg_greatest_ge unfolding last_progress_eq by blast
  then show ?thesis using p by (simp add: claim_lease_def)
qed

text \<open>Nothing but what ends a claim moves its mark back, or takes the claim while the mark holds.\<close>

lemma claim_mark_kept:
  assumes "claim_inv s" "claim_ok e s" "claim_mark s r = Some (wk, u)" "claim_time e \<le> u"
    and "\<not> claim_ended e wk r"
  shows "\<exists>u'. u \<le> u' \<and> claim_mark (claim_step pt e s) r = Some (wk, u')"
proof -
  obtain w k where wk: "wk = (w, k)" by force
  from assms(3) obtain p a where p: "row_of pl_resource (pipelines (data s)) r = Some p"
    "pl_claim_owner p = Some w" "pl_claim_kind p = k" "pl_claim_owner_at p = Some a"
    "u = a + CLAIM_STALE_AFTER_MS"
    unfolding wk claim_mark_def by (auto split: option.splits)
  have mem: "Some a \<in> set [pl_claim_owner_at p, pg_greatest (starts (data s) (pl_id p))]" using p(4) by simp
  obtain t where t: "last_progress (data s) p = Some t" "a \<le> t"
    using pg_greatest_ge [OF mem] unfolding last_progress_eq by auto
  have ok: "rows_ok (claim_time e) (set (issued s)) (data s)"
    using assms(1,2) by (auto simp: claim_inv_def claim_ok_def intro: rows_ok_mono)
  show ?thesis
  proof (cases "claim_ends e wk r")
    case True
    with assms(5) obtain now tr where e: "e = Begin now tr" unfolding wk by (cases e) auto
    let ?f = "\<lambda>p. p\<lparr>pl_status := Processing, pl_error := None, pl_updated := now\<rparr>"
    have "row_of pl_resource (pipelines (data (claim_step pt e s))) r
        = Some (if held_by (trk_claim tr) p then ?f p else p)"
      using p(1) by (simp add: e claim_step_def begin_run_def Let_def row_of_update_where)
    then show ?thesis using p unfolding wk by (auto simp: claim_mark_def)
  next
    case False
    have "claim_time e \<le> t + CLAIM_STALE_AFTER_MS" using assms(4) t(2) p(5) by simp
    then have "kept (data s) (db_step pt e (data s)) r p t"
      using kept_step [OF ok refl p(1,2) t(1)] False assms(2) p(3) wk by (simp add: claim_ok_def)
    then show ?thesis using p unfolding wk by (auto simp: kept_def claim_mark_def claim_step_def)
  qed
qed

interpretation claim_marks: lease_machine "claim_step pt" claim_inv claim_ok claim_mark claim_time claim_ended
  for pt :: "json \<Rightarrow> string"
  by unfold_locales (fact claim_inv_step, fact claim_mark_kept)

interpretation claims: lease_machine "claim_step pt" claim_inv claim_ok claim_lease claim_time claim_ends
  for pt :: "json \<Rightarrow> string"
  by unfold_locales (fact claim_inv_step, fact claim_lease_kept)

end
