(* ===== verification/Run_Record.thy ===== *)
theory Run_Record
  imports Claim_Protocol
begin

text \<open>
  What the claim's protocol gives the runs: owners only ever come from acquisitions, a
  claim that is gone stays gone, every write of a run that lost it is void; and the steps
  a run opens and settles (\<open>StepTracker\<close>) as a machine of their own.
\<close>

subsection \<open>Rows a claim holds\<close>

lemma still_held_Some: "still_held d (Some c) \<longleftrightarrow> (\<exists>p \<in> set (pipelines d). held_by c p)"
  by (simp add: still_held_def list_ex_iff)

lemma not_held_select:
  "\<not> still_held d (Some c) \<Longrightarrow> select_where (held_by c) (pipelines d) = []"
  by (auto simp: still_held_Some select_where_def filter_empty_conv)

lemma not_held_update:
  "\<not> still_held d (Some c) \<Longrightarrow> update_where (held_by c) f (pipelines d) = pipelines d"
  by (auto simp: still_held_Some intro: update_where_none)

lemma still_held_update:
  assumes "\<And>p. held_by c (f p) = held_by c p"
  shows "still_held (d\<lparr>pipelines := update_where P f (pipelines d)\<rparr>) (Some c) = still_held d (Some c)"
proof -
  have "list_ex (held_by c) (update_where P f ps) = list_ex (held_by c) ps" for ps
    using assms by (induction ps) auto
  then show ?thesis by (simp add: still_held_def)
qed

subsection \<open>Owners come from acquisitions\<close>

definition owner_of :: "db \<Rightarrow> uuid \<Rightarrow> uuid \<Rightarrow> bool" where
  "owner_of d i w \<longleftrightarrow> (\<exists>p \<in> set (pipelines d). pl_id p = i \<and> pl_claim_owner p = Some w)"

lemma still_held_owner_of: "still_held d (Some c) \<longleftrightarrow> owner_of d (claim_id c) (claim_owner c)"
  by (simp add: still_held_Some owner_of_def held_by_def)

lemma owner_of_update:
  assumes "owner_of (d\<lparr>pipelines := update_where P f (pipelines d)\<rparr>) i w"
    and "\<And>p. pl_id (f p) = pl_id p" "\<And>p. pl_claim_owner (f p) = Some w \<Longrightarrow> pl_claim_owner p = Some w"
  shows "owner_of d i w"
  using assms by (fastforce simp: owner_of_def table_simps)

lemma owner_of_ensure: "owner_of (ensure_claimable now mint rids d) i w \<Longrightarrow> owner_of d i w"
  by (auto simp: owner_of_def set_ensure)

lemma owner_of_move_pointers:
  assumes "owner_of (move_pointers pt now f t d) i w"
    and "\<And>p. pl_id (f p) = pl_id p" "\<And>p. pl_claim_owner (f p) = pl_claim_owner p"
  shows "owner_of d i w"
proof (cases "select_where (held_by (trk_claim t)) (pipelines d)")
  case Nil
  with assms show ?thesis by (simp add: move_pointers_def)
next
  case (Cons b bs)
  then have b: "b \<in> set (pipelines d)"
    using set_select_where [of "held_by (trk_claim t)" "pipelines d"] by auto
  from assms(1) Cons obtain p where "p \<in> set (pipelines d)"
    "(if held_by (trk_claim t) p then (f b)\<lparr>pl_updated := now\<rparr> else p) \<in> {q. pl_id q = i \<and> pl_claim_owner q = Some w}"
    by (auto simp: move_pointers_def Let_def owner_of_def update_where_def)
  with b assms(2,3) show ?thesis by (cases "held_by (trk_claim t) p") (auto simp: owner_of_def)
qed

lemma owner_of_step:
  assumes "owner_of (db_step pt e d) i w" "w \<notin> set (new_owner e)"
  shows "owner_of d i w"
proof (cases e)
  case (Take now mint rids v k)
  show ?thesis
  proof (cases "rids = []")
    case True
    with assms Take show ?thesis by (simp add: claim_resources_def)
  next
    case False
    with assms Take have "owner_of (ensure_claimable now mint rids d) i w"
      by (auto simp: claim_resources_def Let_def elim!: owner_of_update)
    then show ?thesis by (rule owner_of_ensure)
  qed
next
  case (Take_Over now mint v rid gen)
  with assms have "owner_of (ensure_claimable now mint [rid] d) i w"
    by (auto simp: claim_from_run_def Let_def split: list.splits if_splits elim!: owner_of_update)
  then show ?thesis by (rule owner_of_ensure)
next
  case (Give_Back now ids v)
  with assms show ?thesis
    by (cases "ids = []") (auto simp: release_resource_claims_def Let_def elim!: owner_of_update)
next
  case (Touch now c)
  with assms show ?thesis
    by (auto simp: touch_resource_claim_def split: if_splits elim!: owner_of_update)
next
  case (Stop_Run now rid)
  with assms show ?thesis by (auto simp: cancel_resource_run_def Let_def elim!: owner_of_update)
next
  case (Begin now t)
  with assms have "owner_of (d\<lparr>pipelines := pipelines (snd (begin_run now t d))\<rparr>) i w"
    by (simp add: owner_of_def)
  then show ?thesis by (auto simp: begin_run_def Let_def elim!: owner_of_update)
next
  case (Set_Status now st er t)
  with assms show ?thesis by (auto simp: update_status_def elim!: owner_of_update)
next
  case (Interpreted now pv md pr t)
  with assms show ?thesis by (auto simp: update_interpret_result_def elim!: owner_of_move_pointers)
next
  case (Merged now md t)
  with assms show ?thesis by (auto simp: merge_metadata_def elim!: owner_of_move_pointers)
next
  case (Start now sid nm t)
  with assms show ?thesis by (auto simp: start_step_def Let_def owner_of_def split: if_splits)
next
  case (Settle now sid st er t)
  with assms show ?thesis by (simp add: settle_step_def owner_of_def)
qed

text \<open>An owner id is drawn once, so a claim that does not hold never holds again.\<close>

definition claim_gone :: "resource_claim \<Rightarrow> claim_system \<Rightarrow> bool" where
  "claim_gone c s \<longleftrightarrow> claim_owner c \<in> set (issued s) \<and> \<not> still_held (data s) (Some c)"

interpretation gone: machine "claim_step pt" "claim_gone c" claim_ok
  for pt :: "json \<Rightarrow> string" and c :: resource_claim
proof unfold_locales
  fix s e
  assume "claim_gone c s" "claim_ok e s"
  then have "claim_owner c \<notin> set (new_owner e)" by (auto simp: claim_gone_def claim_ok_def)
  with \<open>claim_gone c s\<close> show "claim_gone c (claim_step pt e s)"
    using owner_of_step [of pt e "data s" "claim_id c" "claim_owner c"]
    by (auto simp: claim_gone_def claim_step_def still_held_owner_of)
qed

text \<open>Every statement of a tracker whose claim is gone leaves the database as it is.\<close>

lemma void_writes:
  assumes "\<not> still_held d (Some (trk_claim t))"
  shows "snd (begin_run now t d) = d" "update_status now st er t d = d"
    "move_pointers pt now f t d = d" "raise_content_index_mark now t d = d"
    "lower_content_index_mark read t d = d"
    "start_step now sid nm t d = (Inl (Run_Cancelled (claim_resource (trk_claim t))), t, d)"
    "snd (settle_step now sid ss er t d) = d"
    "touch_resource_claim now (trk_claim t) d =
       (Inl (Conflict ''no longer held'' (claim_resource (trk_claim t))), d)"
proof -
  note none = not_held_select [OF assms] not_held_update [OF assms]
  show "snd (begin_run now t d) = d" by (simp add: begin_run_def Let_def none delete_where_def)
  show "update_status now st er t d = d" by (simp add: update_status_def none)
  show "move_pointers pt now f t d = d" by (simp add: move_pointers_def none)
  show "raise_content_index_mark now t d = d"
    using assms by (simp add: raise_content_index_mark_def update_where_none)
  show "lower_content_index_mark read t d = d"
    using assms by (simp add: lower_content_index_mark_def update_where_none)
  show "start_step now sid nm t d = (Inl (Run_Cancelled (claim_resource (trk_claim t))), t, d)"
    by (simp add: start_step_def Let_def none)
  have no: "\<not> list_ex (\<lambda>p. st_pipeline s = pl_id p \<and> held_by (trk_claim t) p) (pipelines d)" for s
    using assms by (auto simp: still_held_Some list_ex_iff)
  show "snd (settle_step now sid ss er t d) = d"
    by (simp add: settle_step_def update_where_none no)
  show "touch_resource_claim now (trk_claim t) d =
       (Inl (Conflict ''no longer held'' (claim_resource (trk_claim t))), d)"
    by (simp add: touch_resource_claim_def none)
qed

subsection \<open>The steps of a run\<close>

datatype run_event =
    Open_Step time uuid string
  | Settle_Step time uuid step_status "string option"

fun run_step :: "run_event \<Rightarrow> tracker \<times> db \<Rightarrow> tracker \<times> db" where
  "run_step (Open_Step now sid name) td = snd (start_step now sid name (fst td) (snd td))"
| "run_step (Settle_Step now sid st err) td = settle_step now sid st err (fst td) (snd td)"

fun run_ok :: "run_event \<Rightarrow> tracker \<times> db \<Rightarrow> bool" where
  "run_ok (Open_Step _ _ _) td = True"
| "run_ok (Settle_Step _ _ st _) td = (st \<noteq> Step_Running)"

text \<open>While the claim holds, every step still running is one the tracker knows is open.\<close>

definition steps_known :: "tracker \<times> db \<Rightarrow> bool" where
  "steps_known td \<longleftrightarrow> still_held (snd td) (Some (trk_claim (fst td)))
    \<and> (\<forall>s \<in> set (steps (snd td)). st_pipeline s = claim_id (trk_claim (fst td))
          \<and> st_status s = Step_Running \<longrightarrow> st_id s \<in> set (open_steps (fst td)))"

lemma settle_held:
  assumes "still_held d (Some (trk_claim t))"
  shows "list_ex (\<lambda>p. i = pl_id p \<and> held_by (trk_claim t) p) (pipelines d) \<longleftrightarrow> i = claim_id (trk_claim t)"
proof -
  from assms obtain p where "p \<in> set (pipelines d)" "held_by (trk_claim t) p" "pl_id p = claim_id (trk_claim t)"
    by (auto simp: still_held_Some held_by_def)
  then show ?thesis unfolding list_ex_iff by (auto simp: held_by_def intro!: bexI [of _ p])
qed

lemma steps_known_settle:
  assumes "steps_known (t, d)" "st \<noteq> Step_Running"
  shows "steps_known (settle_step now sid st err t d)"
  using assms settle_held [of d t]
  by (auto simp: steps_known_def settle_step_def table_simps still_held_Some)

interpretation run: machine run_step steps_known run_ok
proof unfold_locales
  fix td e
  assume known: "steps_known td" and ok: "run_ok e td"
  show "steps_known (run_step e td)"
  proof (cases e)
    case (Open_Step now sid name)
    with known show ?thesis
      by (auto simp: start_step_def Let_def steps_known_def still_held_Some)
  next
    case (Settle_Step now sid st err)
    with known ok show ?thesis by (cases td) (auto intro: steps_known_settle)
  qed
qed

lemma settle_step_parts [simp]:
  "trk_claim (fst (settle_step now sid st err t d)) = trk_claim t"
  "pipelines (snd (settle_step now sid st err t d)) = pipelines d"
  "open_steps (fst (settle_step now sid st err t d)) = filter (\<lambda>i. i \<noteq> sid) (open_steps t)"
  by (simp_all add: settle_step_def)

lemma run_step_claim:
  "trk_claim (fst (run_step e td)) = trk_claim (fst td)"
  "pipelines (snd (run_step e td)) = pipelines (snd td)"
  by (cases e; auto simp: start_step_def Let_def settle_step_def)+

lemma run_steps_claim:
  "trk_claim (fst (run_steps run_step es td)) = trk_claim (fst td)"
  "pipelines (snd (run_steps run_step es td)) = pipelines (snd td)"
  by (induction es arbitrary: td) (auto simp: run_step_claim)

lemma fail_steps_known:
  "steps_known td \<Longrightarrow> steps_known (fail_steps now err sids td)"
proof (induction sids arbitrary: td)
  case (Cons sid sids)
  then have "steps_known (fail_step now sid err (fst td) (snd td))"
    by (auto simp: fail_step_def intro: steps_known_settle)
  with Cons.IH show ?case by simp
qed simp

lemma fail_steps_open:
  "open_steps (fst (fail_steps now err sids td)) = filter (\<lambda>i. i \<notin> set sids) (open_steps (fst td))"
  by (induction sids arbitrary: td) (auto simp: fail_step_def intro: filter_cong)

lemma fail_steps_claim:
  "trk_claim (fst (fail_steps now err sids td)) = trk_claim (fst td)"
  by (induction sids arbitrary: td) (auto simp: fail_step_def)

lemma fail_steps_others:
  "s \<in> set (steps (snd td)) \<Longrightarrow> st_pipeline s \<noteq> claim_id (trk_claim (fst td))
    \<Longrightarrow> s \<in> set (steps (snd (fail_steps now err sids td)))"
proof (induction sids arbitrary: td)
  case (Cons sid sids)
  have "s \<in> set (steps (snd (fail_step now sid err (fst td) (snd td))))"
    using Cons.prems by (auto simp: fail_step_def settle_step_def table_simps list_ex_iff held_by_def)
  then show ?case using Cons.IH Cons.prems by (simp add: fail_step_def)
qed simp

lemma begin_run_known:
  assumes "still_held d (Some (trk_claim t))"
  shows "steps_known (begin_run now t d)" "trk_claim (fst (begin_run now t d)) = trk_claim t"
proof -
  have kept: "still_held (d\<lparr>pipelines := update_where (held_by (trk_claim t))
      (\<lambda>p. p\<lparr>pl_status := Processing, pl_error := None, pl_updated := now\<rparr>) (pipelines d)\<rparr>)
      (Some (trk_claim t))"
    using assms by (simp add: still_held_update held_by_def)
  have "claim_id (trk_claim t) \<in> pl_id ` set (select_where (held_by (trk_claim t)) (pipelines d))"
    using assms by (auto simp: still_held_Some held_by_def table_simps)
  with kept show "steps_known (begin_run now t d)"
    by (auto simp: begin_run_def Let_def steps_known_def table_simps still_held_def)
qed (simp add: begin_run_def Let_def)

end
