(* ===== verification/Samples.thy ===== *)
theory Samples
  imports Run_Record
begin

text \<open>Small concrete rows and databases, on which the properties are applied once.\<close>

definition sample_resource :: "uuid \<Rightarrow> key option \<Rightarrow> resource_row" where
  "sample_resource i k =
    \<lparr>res_id = i, res_package = 1, res_url = None, res_url_type = Some ''upload'', res_name = None,
     res_format = Some ''CSV'', res_mimetype = None, res_size = None, res_hash = None,
     res_storage_key = k, res_content_revision = 0, res_pending_key = None, res_pending_at = None,
     res_pending_metadata = None, res_state = Some ''active'', res_column_settings = JObj [],
     res_doc_sync_due_at = None, res_health_status = None, res_health_checked_at = None,
     res_health_check_state = None, res_embedding_due_at = None, res_content_index_due_at = None,
     res_created = 0, res_updated = 0, res_last_modified = None,
     res_summary = None, res_summary_meta = JObj [], res_description = None, res_position = 0,
     res_section = None, res_type = None, res_extras = JObj []\<rparr>"

definition sample_package :: package_row where
  "sample_package = \<lparr>pkg_id = 1, pkg_name = ''wells'', pkg_title = None, pkg_notes = None, pkg_url = None,
     pkg_version = None, pkg_license = Some ''cc-by'', pkg_author = None, pkg_author_email = None,
     pkg_maintainer = None, pkg_maintainer_email = None, pkg_state = Some ''active'',
     pkg_type = Some ''dataset'', pkg_owner_org = Some 7, pkg_private = True, pkg_creator = Some ''ann'',
     pkg_extras = JObj [], pkg_doc_sync_due_at = None, pkg_created = 0, pkg_updated = 0\<rparr>"

definition sample_db :: db where
  "sample_db = \<lparr>packages = [sample_package],
     resources = [sample_resource 10 (Some ''a''), sample_resource 11 None],
     pipelines = [new_pipeline_row 0 100 10], steps = [], versions = [], orphans = [],
     organizations = [], org_members = [], group_rows = [], group_members = [], tag_rows = [],
     package_tags = [], package_groups = []\<rparr>"

text \<open>Resource 10 taken at time 5 by the owner 7, as a run or as a job.\<close>

definition sample_claim :: resource_claim where
  "sample_claim = \<lparr>claim_id = 100, claim_resource = 10, claim_owner = 7\<rparr>"

definition sample_tracker :: tracker where
  "sample_tracker = \<lparr>trk_claim = sample_claim, open_steps = []\<rparr>"

definition taken_db :: "claim_kind \<Rightarrow> db" where
  "taken_db k = sample_db\<lparr>pipelines := [claimed_by 7 5 k (new_pipeline_row 0 100 10)]\<rparr>"

definition taken_system :: "claim_kind \<Rightarrow> claim_system" where
  "taken_system k = \<lparr>clk = 5, issued = [7], data = taken_db k\<rparr>"

lemma taken_system_ok: "claim_inv (taken_system k)"
  by (simp add: claim_inv_def taken_system_def taken_db_def sample_db_def rows_ok_def
      claim_row_ok_def sample_resource_def)

lemma sample_db_ok: "rows_ok 5 {7} sample_db"
  by (simp add: sample_db_def rows_ok_def claim_row_ok_def sample_resource_def)

end
