(* ===== verification/Claim_Guarantees.thy ===== *)
theory Claim_Guarantees
  imports Samples
begin

text \<open>What the resource claim promises, each stated on the code's own operations.\<close>

text \<open>
  C15. Two holders never overlap on one resource. If its claim is later in other hands, then the
  first claim was ended - by its own release, or, being a run's, by a stop or a takeover - or
  something happened more than fifteen minutes after it was taken or last extended; a job's
  claim ends by its own release only. While the holder begins no run of its own, which clears
  the steps that count, the fifteen minutes are counted from its last progress.
\<close>

theorem claim_excludes:
  assumes "claim_inv s" "steps_ok claim_ok (claim_step pt) es s"
    and "claim_lease s r = Some ((w, k), u)" "claim_mark s r = Some ((w, k), m)"
    and "claim_mark (run_steps (claim_step pt) es s) r = Some ((w', k'), m')" "w' \<noteq> w"
  shows "(\<exists>e \<in> set es. m < claim_time e \<or> claim_ended e (w, k) r)
    \<and> (k = Some Job \<longrightarrow> (\<exists>e \<in> set es. m < claim_time e \<or> (\<exists>now ids. e = Give_Back now ids w)))
    \<and> ((\<forall>now t. Begin now t \<in> set es \<longrightarrow> claim_owner (trk_claim t) \<noteq> w)
        \<longrightarrow> (\<exists>e \<in> set es. u < claim_time e \<or> claim_ended e (w, k) r))"
proof -
  have differ: "(w', k') \<noteq> (w, k)" using assms(6) by simp
  obtain e where e: "e \<in> set es" "m < claim_time e \<or> claim_ended e (w, k) r"
    using claim_marks.lease_exclusive [OF assms(1,2,4,5) differ] by blast
  have job: "\<exists>now ids. e = Give_Back now ids w" if "claim_ended e (w, Some Job) r" for e
    using that by (cases e) auto
  obtain u' where "claim_lease (run_steps (claim_step pt) es s) r = Some ((w', k'), u')"
    using mark_has_lease [OF assms(5)] by blast
  from claims.lease_exclusive [OF assms(1-3) this differ] obtain e' where
    e': "e' \<in> set es" "u < claim_time e' \<or> claim_ends e' (w, k) r" by blast
  have "claim_ended e' (w, k) r"
    if "claim_ends e' (w, k) r" "\<forall>now t. Begin now t \<in> set es \<longrightarrow> claim_owner (trk_claim t) \<noteq> w"
    using that e'(1) by (cases e') auto
  then show ?thesis using e e' job by blast
qed

lemma claim_excludes_witness:
  "\<exists>e \<in> set [Take_Over 6 (\<lambda>r. r + 100) 8 10 None]. 900005 < claim_time e \<or> claim_ended e (7, Some Run) 10"
proof -
  have h: "steps_ok claim_ok (claim_step (\<lambda>_. [])) [Take_Over 6 (\<lambda>r. r + 101) 8 10 None] (taken_system Run)"
    "claim_lease (taken_system Run) 10 = Some ((7, Some Run), 900005)"
    "claim_mark (taken_system Run) 10 = Some ((7, Some Run), 900005)"
    "claim_mark (run_steps (claim_step (\<lambda>_. [])) [Take_Over 6 (\<lambda>r. r + 101) 8 10 None] (taken_system Run)) 10
      = Some ((8, Some Job), 900006)"
    by code_simp+
  from claim_excludes [OF taken_system_ok h] show ?thesis by simp
qed

text \<open>
  C16. Stopping a run is final. Once \<open>cancelResourceRun\<close> has stopped the run that held a
  resource, then whatever else happens, the run's claim never holds again, and every
  write of that run is void: it begins nothing, moves no pointer, changes no status, mark
  or step, and its next step is refused.
\<close>

theorem kill_is_final:
  assumes "claim_inv s" "claim_ok (Stop_Run now r) s" "p \<in> set (pipelines (data s))" "held_by c p"
    and "pl_resource p = r" "pl_claim_kind p \<noteq> Some Job"
    and "steps_ok claim_ok (claim_step pt) es (claim_step pt (Stop_Run now r) s)" "trk_claim t = c"
    and "d = data (run_steps (claim_step pt) es (claim_step pt (Stop_Run now r) s))"
  shows "fst (cancel_resource_run now r (data s)) \<and> \<not> still_held d (Some c)
    \<and> snd (begin_run at' t d) = d \<and> update_status at' st er t d = d
    \<and> update_interpret_result pt at' pv md pr t d = d \<and> merge_metadata pt at' md t d = d
    \<and> raise_content_index_mark at' t d = d \<and> lower_content_index_mark read t d = d
    \<and> snd (settle_step at' sid ss er t d) = d
    \<and> start_step at' sid nm t d = (Inl (Run_Cancelled (claim_resource c)), t, d)"
proof -
  let ?s1 = "claim_step pt (Stop_Run now r) s"
  have inv: "rows_ok (clk s) (set (issued s)) (data s)" using assms(1) by (simp add: claim_inv_def)
  have "claim_owner c \<in> set (issued s)"
    using rows_okD(2) [OF inv assms(3)] assms(4) by (simp add: claim_row_ok_def held_by_def)
  moreover have "\<not> still_held (data ?s1) (Some c)"
  proof
    assume "still_held (data ?s1) (Some c)"
    then obtain q where q: "q \<in> set (pipelines (data s))" "pl_id q = claim_id c"
      "pl_claim_owner q = Some (claim_owner c)" "\<not> (pl_resource q = r \<and> pl_claim_kind q \<noteq> Some Job)"
      by (auto simp: still_held_Some claim_step_def cancel_resource_run_def Let_def table_simps held_by_def)
    then have "q = p" using same_pipeline [OF inv q(1) assms(3)] assms(4) by (simp add: held_by_def)
    with q(4) assms(5,6) show False by simp
  qed
  ultimately have "claim_gone c ?s1" by (simp add: claim_gone_def claim_step_def)
  with gone.inv_run assms(7) have "claim_gone c (run_steps (claim_step pt) es ?s1)" by blast
  then have gone: "\<not> still_held d (Some (trk_claim t))" using assms(8,9) by (simp add: claim_gone_def)
  moreover have "p \<in> set (select_where (\<lambda>p. pl_resource p = r \<and> pl_claim_owner p \<noteq> None
      \<and> pl_claim_kind p \<noteq> Some Job) (pipelines (data s)))"
    using assms(3-6) by (simp add: table_simps held_by_def)
  then have "fst (cancel_resource_run now r (data s))" by (auto simp: cancel_resource_run_def Let_def)
  ultimately show ?thesis using void_writes [OF gone] assms(8)
    by (simp add: update_interpret_result_def merge_metadata_def)
qed

lemma kill_is_final_witness:
  "start_step 9 1 ''index'' sample_tracker
      (data (run_steps (claim_step (\<lambda>_. [])) [Take 7 (\<lambda>r. r + 101) [10] 8 Run]
        (claim_step (\<lambda>_. []) (Stop_Run 6 10) (taken_system Run))))
    = (Inl (Run_Cancelled 10), sample_tracker,
       data (run_steps (claim_step (\<lambda>_. [])) [Take 7 (\<lambda>r. r + 101) [10] 8 Run]
        (claim_step (\<lambda>_. []) (Stop_Run 6 10) (taken_system Run))))"
proof -
  have p: "claimed_by 7 5 Run (new_pipeline_row 0 100 10) \<in> set (pipelines (data (taken_system Run)))"
    by (simp add: taken_system_def taken_db_def)
  have h: "claim_ok (Stop_Run 6 10) (taken_system Run)"
    "held_by sample_claim (claimed_by 7 5 Run (new_pipeline_row 0 100 10))"
    "steps_ok claim_ok (claim_step (\<lambda>_. [])) [Take 7 (\<lambda>r. r + 101) [10] 8 Run]
      (claim_step (\<lambda>_. []) (Stop_Run 6 10) (taken_system Run))"
    "trk_claim sample_tracker = sample_claim" "claim_resource sample_claim = 10"
    by code_simp+
  from kill_is_final [where at' = 9 and sid = 1 and nm = "''index''",
      OF taken_system_ok h(1) p h(2) _ _ h(3,4) refl] h(5)
  show ?thesis by simp
qed

subsection \<open>Acquisition\<close>

definition takeable :: "time \<Rightarrow> int \<Rightarrow> db \<Rightarrow> pipeline_row \<Rightarrow> bool" where
  "takeable now stale_after d p \<longleftrightarrow> pl_claim_owner p = None \<or> stale_claim now stale_after d p"

definition claim_on :: "uuid \<Rightarrow> pipeline_row \<Rightarrow> resource_claim" where
  "claim_on w p = \<lparr>claim_id = pl_id p, claim_resource = pl_resource p, claim_owner = w\<rparr>"

definition held_on :: "pipeline_row \<Rightarrow> held_resource" where
  "held_on p = \<lparr>held_id = pl_id p, held_resource_id = pl_resource p\<rparr>"

lemma on_simps [simp]:
  "claim_id (claim_on w p) = pl_id p" "claim_resource (claim_on w p) = pl_resource p"
  "claim_owner (claim_on w p) = w" "held_id (held_on p) = pl_id p"
  "held_resource_id (held_on p) = pl_resource p"
  by (simp_all add: claim_on_def held_on_def)

lemma claim_resources_Nil: "claim_resources now mint [] w sa k d = (([], []), d)"
  by (simp add: claim_resources_def)

lemma claim_resources_lists:
  assumes "claim_resources now mint rids w sa k d = ((taken, held), d')"
    and "ps = {p \<in> set (pipelines (ensure_claimable now mint rids d)). pl_resource p \<in> set rids}"
  shows "set taken = claim_on w ` {p \<in> ps. takeable now sa d p}
    \<and> set held = held_on ` {p \<in> ps. \<not> takeable now sa d p}
    \<and> set (pipelines d') = claimed_by w now k ` {p \<in> ps. takeable now sa d p}
      \<union> (set (pipelines (ensure_claimable now mint rids d)) - {p \<in> ps. takeable now sa d p})"
proof (cases "rids = []")
  case True
  with assms show ?thesis
    by (simp add: claim_resources_Nil ensure_claimable_eq missing_rows_def select_where_def)
next
  case False
  let ?t = "\<lambda>p. pl_resource p \<in> set rids \<and> (pl_claim_owner p = None \<or> stale_claim now sa d p)"
  let ?rows = "select_where (\<lambda>p. pl_resource p \<in> set rids) (pipelines (ensure_claimable now mint rids d))"
  have t: "?t p \<longleftrightarrow> pl_resource p \<in> set rids \<and> takeable now sa d p" for p by (simp add: takeable_def)
  have parts: "taken = map (claim_on w) (filter ?t ?rows)" "held = map held_on (filter (\<lambda>p. \<not> ?t p) ?rows)"
    "pipelines d' = update_where ?t (claimed_by w now k) (pipelines (ensure_claimable now mint rids d))"
  proof -
    have "claim_resources now mint rids w sa k d =
      ((map (claim_on w) (filter ?t ?rows), map held_on (filter (\<lambda>p. \<not> ?t p) ?rows)),
       (ensure_claimable now mint rids d)\<lparr>pipelines := update_where ?t (claimed_by w now k)
          (pipelines (ensure_claimable now mint rids d))\<rparr>)"
      using False unfolding claim_resources_def Let_def stale_ensure claim_on_def [abs_def] held_on_def [abs_def]
      by (simp only: if_False)
    then have "((taken, held), d') = \<dots>" using assms(1) by (rule trans [OF sym, rotated])
    then have e: "taken = map (claim_on w) (filter ?t ?rows)" "held = map held_on (filter (\<lambda>p. \<not> ?t p) ?rows)"
      "d' = (ensure_claimable now mint rids d)\<lparr>pipelines := update_where ?t (claimed_by w now k)
          (pipelines (ensure_claimable now mint rids d))\<rparr>"
      by (simp_all only: prod.inject)
    show "taken = map (claim_on w) (filter ?t ?rows)" "held = map held_on (filter (\<lambda>p. \<not> ?t p) ?rows)"
      by (rule e)+
    show "pipelines d' = update_where ?t (claimed_by w now k) (pipelines (ensure_claimable now mint rids d))"
      unfolding e(3) by simp
  qed
  have taken: "set taken = claim_on w ` {p \<in> set ?rows. ?t p}"
    and held: "set held = held_on ` {p \<in> set ?rows. \<not> ?t p}"
    unfolding parts set_map set_filter by (rule refl)+
  have rows: "{p \<in> set ?rows. ?t p} = {p \<in> ps. takeable now sa d p}"
    "{p \<in> set ?rows. \<not> ?t p} = {p \<in> ps. \<not> takeable now sa d p}"
    unfolding t assms(2) set_select_where by blast+
  have "set (pipelines d') = claimed_by w now k ` {p \<in> ps. takeable now sa d p}
      \<union> (set (pipelines (ensure_claimable now mint rids d)) - {p \<in> ps. takeable now sa d p})"
    unfolding parts set_update_where t assms(2) by (intro arg_cong2 [of _ _ _ _ "(\<union>)"] image_cong) blast+
  then show ?thesis using taken held unfolding rows by blast
qed

lemma claimed_still_held:
  assumes "claim_resources now mint rids w sa k d = ((taken, held), d')" "c \<in> set taken"
  shows "still_held d' (Some c)" "claim_owner c = w" "claim_resource c \<in> set rids"
proof -
  define ps where "ps = {p \<in> set (pipelines (ensure_claimable now mint rids d)). pl_resource p \<in> set rids}"
  note lists = claim_resources_lists [OF assms(1) ps_def]
  from assms(2) obtain p where p: "c = claim_on w p" "p \<in> {p \<in> ps. takeable now sa d p}"
    unfolding lists [THEN conjunct1] by (rule imageE)
  then have mem: "pl_resource p \<in> set rids" unfolding ps_def by simp
  have row: "claimed_by w now k p \<in> set (pipelines d')"
    unfolding lists [THEN conjunct2, THEN conjunct2] using p(2) by (intro UnI1 imageI)
  from row show "still_held d' (Some c)"
    unfolding still_held_Some p(1) by (rule bexI [rotated]) (simp add: held_by_def)
  show "claim_owner c = w" "claim_resource c \<in> set rids" using p(1) mem by simp_all
qed

lemma existing_has_row:
  assumes "r \<in> set rids" "r \<in> res_id ` set (resources d) \<or> r \<in> pl_resource ` set (pipelines d)"
  shows "\<exists>p \<in> set (pipelines (ensure_claimable now mint rids d)). pl_resource p = r"
proof (cases "r \<in> pl_resource ` set (pipelines d)")
  case True
  then show ?thesis by (auto simp: set_ensure)
next
  case False
  with assms have "new_pipeline_row now (mint r) r \<in> set (pipelines (ensure_claimable now mint rids d))"
    by (auto simp: set_ensure set_missing_rows)
  then show ?thesis by force
qed

lemma ensured_resource:
  "p \<in> set (pipelines (ensure_claimable now mint rids d)) \<Longrightarrow>
    pl_resource p \<in> res_id ` set (resources d) \<or> pl_resource p \<in> pl_resource ` set (pipelines d)"
  by (auto simp: set_ensure set_missing_rows)

definition existing :: "uuid list \<Rightarrow> db \<Rightarrow> uuid set" where
  "existing rids d =
    {r \<in> set rids. r \<in> res_id ` set (resources d) \<or> r \<in> pl_resource ` set (pipelines d)}"

lemma requested_rows:
  "pl_resource ` {p \<in> set (pipelines (ensure_claimable now mint rids d)). pl_resource p \<in> set rids}
    = existing rids d"
proof (intro equalityI subsetI)
  fix r assume "r \<in> pl_resource ` {p \<in> set (pipelines (ensure_claimable now mint rids d)). pl_resource p \<in> set rids}"
  then show "r \<in> existing rids d"
    using ensured_resource [of _ now mint rids d] by (auto simp: existing_def)
next
  fix r assume "r \<in> existing rids d"
  then show "r \<in> pl_resource ` {p \<in> set (pipelines (ensure_claimable now mint rids d)). pl_resource p \<in> set rids}"
    using existing_has_row [of r rids d now mint] by (auto simp: existing_def image_iff)
qed

lemma acquired_resources:
  assumes "claim_resources now mint rids w sa k d = ((taken, held), d')"
  shows "claim_resource ` set taken \<union> held_resource_id ` set held = existing rids d"
proof -
  note lists = claim_resources_lists [OF assms refl]
  show ?thesis
    unfolding lists [THEN conjunct1] lists [THEN conjunct2, THEN conjunct1]
      requested_rows [of now mint, symmetric] image_image on_simps by blast
qed

lemma held_rows:
  assumes "claim_resources now mint rids w sa k d = ((taken, held), d')" "h \<in> set held"
  shows "\<exists>p \<in> set (pipelines d) \<inter> set (pipelines d'). pl_id p = held_id h
      \<and> pl_resource p = held_resource_id h \<and> pl_claim_owner p \<noteq> None \<and> \<not> stale_claim now sa d p"
proof -
  note lists = claim_resources_lists [OF assms(1) refl]
  from assms(2) obtain p where p: "h = held_on p" "\<not> takeable now sa d p"
    "p \<in> set (pipelines (ensure_claimable now mint rids d))"
    unfolding lists [THEN conjunct2, THEN conjunct1] by blast
  then have "p \<in> set (pipelines d)" "p \<in> set (pipelines d')"
    unfolding lists [THEN conjunct2, THEN conjunct2] by (auto simp: takeable_def set_ensure)
  with p show ?thesis by (auto simp: takeable_def)
qed

text \<open>
  C34. An acquisition answers for every resource it was asked about. Each one that exists -
  or has a pipeline row - comes back either claimed or held, never both, and none that was
  not asked about does; every claim it reports holds, for the new owner; and what it
  reports held is a live claim of another's, left as it was.
\<close>

theorem acquisition_answers_for_all:
  assumes "rows_ok now0 used (ensure_claimable now mint rids d)"
    and "claim_resources now mint rids w sa k d = ((taken, held), d')"
  shows "claim_resource ` set taken \<union> held_resource_id ` set held = existing rids d
    \<and> claim_resource ` set taken \<inter> held_resource_id ` set held = {}
    \<and> (\<forall>c \<in> set taken. claim_owner c = w \<and> still_held d' (Some c))
    \<and> (\<forall>h \<in> set held. \<exists>p \<in> set (pipelines d) \<inter> set (pipelines d'). pl_id p = held_id h
         \<and> pl_resource p = held_resource_id h \<and> pl_claim_owner p \<noteq> None \<and> \<not> stale_claim now sa d p)"
proof -
  note lists = claim_resources_lists [OF assms(2) refl]
  have "False" if "p \<in> set (pipelines (ensure_claimable now mint rids d))"
      "q \<in> set (pipelines (ensure_claimable now mint rids d))" "takeable now sa d p"
      "\<not> takeable now sa d q" "pl_resource p = pl_resource q" for p q
    using that same_pipeline [OF assms(1), of p q] by blast
  then have "claim_resource ` set taken \<inter> held_resource_id ` set held = {}"
    unfolding lists [THEN conjunct1] lists [THEN conjunct2, THEN conjunct1] image_image on_simps by blast
  moreover have "\<forall>c \<in> set taken. claim_owner c = w \<and> still_held d' (Some c)"
    using claimed_still_held [OF assms(2)] by simp
  ultimately show ?thesis
    using acquired_resources [OF assms(2)] held_rows [OF assms(2)] by (intro conjI ballI) simp_all
qed

lemma acquisition_answers_for_all_witness:
  "{10, 11} = existing [10, 11, 12] (taken_db Run)"
proof -
  have h: "rows_ok 5 {7} (ensure_claimable 6 (\<lambda>r. r + 101) [10, 11, 12] (taken_db Run))"
    using taken_system_ok [of Run]
    by (intro rows_ok_ensure) (auto simp: claim_inv_def taken_system_def taken_db_def)
  obtain taken held d' where c: "claim_resources 6 (\<lambda>r. r + 101) [10, 11, 12] 8 CLAIM_STALE_AFTER_MS Job
      (taken_db Run) = ((taken, held), d')" by (metis prod.exhaust)
  have "fst (claim_resources 6 (\<lambda>r. r + 101) [10, 11, 12] 8 CLAIM_STALE_AFTER_MS Job (taken_db Run))
      = ([\<lparr>claim_id = 112, claim_resource = 11, claim_owner = 8\<rparr>], [\<lparr>held_id = 100, held_resource_id = 10\<rparr>])"
    by code_simp
  with c have "taken = [\<lparr>claim_id = 112, claim_resource = 11, claim_owner = 8\<rparr>]"
    "held = [\<lparr>held_id = 100, held_resource_id = 10\<rparr>]" by auto
  with acquisition_answers_for_all [OF h c] show ?thesis by auto
qed

lemma released_not_held:
  assumes "c \<in> set cs" "\<And>c. c \<in> set cs \<Longrightarrow> claim_owner c = w"
  shows "\<not> still_held (snd (release_resource_claims (map claim_id cs) w d)) (Some c)"
proof -
  have "map claim_id cs \<noteq> []" using assms(1) by auto
  then show ?thesis using assms
    by (auto simp: still_held_Some release_resource_claims_def Let_def table_simps held_by_def)
qed

text \<open>
  C35. A job over many resources runs under all of them or not at all
  (\<open>withResourceClaims\<close>). Where one is held, the answer names live claims, the database is
  exactly as before, and the body has not run: the answer does not depend on it. Otherwise
  the body ran once, under claims covering every requested resource that exists, all of
  them holding as it starts; and whatever it did - failing included - none of them is
  held afterwards, and its result or error is the answer.
\<close>

theorem job_claims_all_or_nothing:
  "case with_resource_claims now mint w rids fn d of
     (Inr (Held hs), d') \<Rightarrow> hs \<noteq> [] \<and> d' = d
       \<and> (\<forall>fn'. with_resource_claims now mint w rids fn' d = (Inr (Held hs), d))
       \<and> (\<forall>h \<in> set hs. \<exists>p \<in> set (pipelines d). pl_resource p = held_resource_id h
            \<and> pl_claim_owner p \<noteq> None \<and> \<not> stale_claim now CLAIM_STALE_AFTER_MS d p)
   | (out, d') \<Rightarrow> \<exists>cs d1. out = map_sum id Ran (fst (fn cs d1))
       \<and> claim_resource ` set cs = existing rids d
       \<and> (\<forall>c \<in> set cs. still_held d1 (Some c) \<and> \<not> still_held d' (Some c))"
proof -
  obtain taken held d1 where c: "claim_resources now mint rids w CLAIM_STALE_AFTER_MS Job d = ((taken, held), d1)"
    by (metis prod.exhaust)
  show ?thesis
  proof (cases "held = []")
    case True
    define d' where "d' = snd (release_resource_claims (map claim_id taken) w (snd (fn taken d1)))"
    define m where "m = map_sum id Ran (fst (fn taken d1))"
    have w: "with_resource_claims now mint w rids fn d = (m, d')"
      using c True by (simp add: with_resource_claims_def d'_def m_def split: prod.split)
    have "claim_resource ` set taken = existing rids d" using acquired_resources [OF c] True by simp
    moreover have "\<forall>c \<in> set taken. still_held d1 (Some c) \<and> \<not> still_held d' (Some c)"
      unfolding d'_def using claimed_still_held [OF c] released_not_held by blast
    ultimately have ran: "\<exists>cs d1. m = map_sum id Ran (fst (fn cs d1)) \<and> claim_resource ` set cs = existing rids d
       \<and> (\<forall>c \<in> set cs. still_held d1 (Some c) \<and> \<not> still_held d' (Some c))"
      unfolding m_def by blast
    show ?thesis
    proof (cases "fst (fn taken d1)")
      case (Inl e)
      then have "m = Inl e" by (simp add: m_def)
      with ran show ?thesis unfolding w by simp
    next
      case (Inr a)
      then have "m = Inr (Ran a)" by (simp add: m_def)
      with ran show ?thesis unfolding w by simp
    qed
  next
    case False
    then have w: "with_resource_claims now mint w rids fn' d = (Inr (Held held), d)" for fn'
      using c by (simp add: with_resource_claims_def)
    have "\<exists>p \<in> set (pipelines d). pl_resource p = held_resource_id h
        \<and> pl_claim_owner p \<noteq> None \<and> \<not> stale_claim now CLAIM_STALE_AFTER_MS d p" if "h \<in> set held" for h
      using held_rows [OF c that] by blast
    then show ?thesis unfolding w using False by simp
  qed
qed

text \<open>
  A stop reaches runs only. \<open>cancelResourceRun\<close> answers whether a run was stopped; then
  that run's row is free and reads \<open>cancelled\<close>, and every other row - a job's claim on the
  resource included - the content and the steps are as before.
\<close>

theorem cancel_stops_only_runs:
  assumes "rows_ok now0 used d"
  shows "case cancel_resource_run now r d of (stopped, d') \<Rightarrow>
     (stopped \<longleftrightarrow> (\<exists>p \<in> set (pipelines d). pl_resource p = r \<and> pl_claim_owner p \<noteq> None
        \<and> pl_claim_kind p \<noteq> Some Job))
     \<and> (stopped \<longrightarrow> (\<exists>p \<in> set (pipelines d'). pl_resource p = r \<and> pl_claim_owner p = None
          \<and> pl_status p = Cancelled))
     \<and> (\<forall>p \<in> set (pipelines d). pl_resource p \<noteq> r \<or> pl_claim_kind p = Some Job \<longrightarrow> p \<in> set (pipelines d'))
     \<and> (\<not> stopped \<longrightarrow> d' = d) \<and> resources d' = resources d \<and> steps d' = steps d \<and> versions d' = versions d"
proof -
  define hit :: "pipeline_row \<Rightarrow> bool" where "hit p \<longleftrightarrow> pl_resource p = r \<and> pl_claim_owner p \<noteq> None \<and> pl_claim_kind p \<noteq> Some Job" for p
  have eq: "cancel_resource_run now r d = (select_where hit (pipelines d) \<noteq> [],
      d\<lparr>pipelines := update_where hit (\<lambda>p. (unclaimed p)\<lparr>pl_status := Cancelled, pl_updated := now\<rparr>) (pipelines d)\<rparr>)"
    by (simp add: cancel_resource_run_def Let_def hit_def [abs_def])
  have some: "select_where hit (pipelines d) \<noteq> [] \<longleftrightarrow> (\<exists>p \<in> set (pipelines d). hit p)"
    by (auto simp: select_where_def filter_empty_conv)
  have "\<exists>p \<in> set (pipelines (snd (cancel_resource_run now r d))). pl_resource p = r
      \<and> pl_claim_owner p = None \<and> pl_status p = Cancelled" if "q \<in> set (pipelines d)" "hit q" for q
    using that unfolding eq
    by (intro bexI [of _ "(unclaimed q)\<lparr>pl_status := Cancelled, pl_updated := now\<rparr>"])
      (auto simp: table_simps hit_def)
  moreover have "update_where hit f (pipelines d) = pipelines d" if "\<forall>p \<in> set (pipelines d). \<not> hit p" for f
    using that by (intro update_where_none) auto
  ultimately show ?thesis unfolding eq by (auto simp: some table_simps hit_def)
qed

lemma job_claims_all_or_nothing_witness:
  "with_resource_claims 6 (\<lambda>r. r + 101) 8 [10, 11] (\<lambda>_ d. (Inl (Failed ()), d)) (taken_db Run)
     = (Inr (Held [\<lparr>held_id = 100, held_resource_id = 10\<rparr>]) :: unit failure + unit claim_outcome, taken_db Run)"
proof -
  let ?fn = "\<lambda>(_ :: resource_claim list) d. (Inl (Failed ()) :: unit failure + unit, d)"
  have "fst (with_resource_claims 6 (\<lambda>r. r + 101) 8 [10, 11] ?fn (taken_db Run))
      = Inr (Held [\<lparr>held_id = 100, held_resource_id = 10\<rparr>])" by code_simp
  with job_claims_all_or_nothing [where now = 6 and mint = "\<lambda>r. r + 101" and w = 8
      and rids = "[10, 11]" and fn = ?fn and d = "taken_db Run"]
  show ?thesis by (cases "with_resource_claims 6 (\<lambda>r. r + 101) 8 [10, 11] ?fn (taken_db Run)") auto
qed

lemma cancel_stops_only_runs_witness:
  "\<not> fst (cancel_resource_run 6 10 (taken_db Job)) \<and> snd (cancel_resource_run 6 10 (taken_db Job)) = taken_db Job"
proof -
  have ok: "rows_ok 5 {7} (taken_db Job)"
    using taken_system_ok [of Job] by (simp add: claim_inv_def taken_system_def)
  have "\<not> fst (cancel_resource_run 6 10 (taken_db Job))" by code_simp
  with cancel_stops_only_runs [OF ok, where now = 6 and r = 10] show ?thesis
    by (cases "cancel_resource_run 6 10 (taken_db Job)") simp
qed

text \<open>
  C36. A takeover never leaves the resource free and never stops what it may not
  (\<open>claimFromRun\<close>). It is refused as stale only where the generation named is no longer
  the resource's, as held only by a job that is still making progress, and then changes
  nothing but minting the row; otherwise the new claim holds and whatever held the row before
  no longer does. Where no job held it, \<open>cancelled\<close> says whether a run did, and the status
  then reads \<open>cancelled\<close> and is left as it was otherwise. No claim comes back only where the
  resource is gone. (What \<open>cancelled\<close> says after a stale job is not stated: there the code and
  its comments differ.)
\<close>

theorem takeover_is_exclusive:
  assumes "rows_ok now0 used (ensure_claimable now mint [r] d)" "w \<notin> used"
  shows "case claim_from_run now mint w r gen d of
     (Stale, d') \<Rightarrow> \<not> on_revision d r gen \<and> d' = ensure_claimable now mint [r] d
   | (Takeover_Held hs, d') \<Rightarrow> on_revision d r gen \<and> d' = ensure_claimable now mint [r] d
       \<and> (\<exists>p \<in> set (pipelines d). hs = [held_on p] \<and> pl_resource p = r \<and> pl_claim_kind p = Some Job
            \<and> \<not> stale_claim now CLAIM_STALE_AFTER_MS d p)
   | (Claimed None cancelled, d') \<Rightarrow> existing [r] d = {} \<and> \<not> cancelled
   | (Claimed (Some c) cancelled, d') \<Rightarrow> on_revision d r gen \<and> claim_resource c = r \<and> still_held d' (Some c)
       \<and> (\<exists>p \<in> set (pipelines (ensure_claimable now mint [r] d)). pl_id p = claim_id c
            \<and> (pl_claim_kind p \<noteq> Some Job \<or> stale_claim now CLAIM_STALE_AFTER_MS d p)
            \<and> (\<forall>old. held_by old p \<longrightarrow> \<not> still_held d' (Some old))
            \<and> (pl_claim_kind p \<noteq> Some Job \<longrightarrow> cancelled = (pl_claim_owner p \<noteq> None)
                 \<and> (\<exists>p' \<in> set (pipelines d'). pl_id p' = pl_id p
                      \<and> pl_status p' = (if cancelled then Cancelled else pl_status p))))"
proof -
  define d1 where "d1 = ensure_claimable now mint [r] d"
  have rev: "on_revision d1 r gen = on_revision d r gen" by (cases gen) (simp_all add: on_revision_def d1_def)
  show ?thesis
  proof (cases "select_where (\<lambda>p. pl_resource p = r) (pipelines d1)")
    case Nil
    then have "existing [r] d = {}"
      using requested_rows [of now mint "[r]" d, symmetric]
      by (auto simp: d1_def select_where_def filter_empty_conv)
    with Nil show ?thesis by (simp add: claim_from_run_def Let_def d1_def [symmetric])
  next
    case (Cons b bs)
    then have b: "b \<in> set (pipelines d1)" "pl_resource b = r"
      using set_select_where [of "\<lambda>p. pl_resource p = r" "pipelines d1"] by auto
    define free where "free \<longleftrightarrow> pl_claim_kind b \<noteq> Some Job \<or> stale_claim now CLAIM_STALE_AFTER_MS d b"
    define b' where "b' = (claimed_by w now Job b)
      \<lparr>pl_status := (if pl_claim_owner b = None then pl_status b else Cancelled), pl_updated := now\<rparr>"
    have run: "claim_from_run now mint w r gen d =
      (if \<not> (free \<and> on_revision d r gen)
       then (if on_revision d r gen then Takeover_Held [held_on b] else Stale, d1)
       else (Claimed (Some (claim_on w b)) (pl_claim_owner b \<noteq> None),
             d1\<lparr>pipelines := update_where (\<lambda>p. pl_id p = pl_id b)
                (\<lambda>p. (claimed_by w now Job p)
                   \<lparr>pl_status := (if pl_claim_owner b = None then pl_status p else Cancelled), pl_updated := now\<rparr>)
                (pipelines d1)\<rparr>))"
      using Cons rev by (simp add: claim_from_run_def Let_def d1_def [symmetric] free_def held_on_def claim_on_def b(2))
        (simp add: d1_def)
    show ?thesis
    proof (cases "free \<and> on_revision d r gen")
      case False
      have "b \<in> set (pipelines d)" if "pl_claim_kind b = Some Job"
        using b(1) that by (auto simp: d1_def set_ensure)
      then show ?thesis using False b unfolding run d1_def [symmetric] by (auto simp: free_def)
    next
      case True
      define d2 where "d2 = snd (claim_from_run now mint w r gen d)"
      have only: "p = b" if "p \<in> set (pipelines d1)" "pl_id p = pl_id b" for p
        using same_pipeline [OF assms(1) [folded d1_def]] that b(1) by blast
      have rows: "set (pipelines d2) = insert b' (set (pipelines d1) - {b})"
      proof -
        have "pipelines d2 = update_where (\<lambda>p. pl_id p = pl_id b) (\<lambda>p. (claimed_by w now Job p)
            \<lparr>pl_status := (if pl_claim_owner b = None then pl_status p else Cancelled), pl_updated := now\<rparr>)
            (pipelines d1)"
          using True unfolding d2_def run by simp
        then show ?thesis using b(1) only unfolding b'_def by (simp only:) (rule set_update_where_one; blast)
      qed
      have held: "still_held d2 (Some (claim_on w b))"
        unfolding still_held_Some rows by (auto simp: held_by_def b'_def)
      have old: "\<not> still_held d2 (Some old)" if "held_by old b" for old
      proof
        assume "still_held d2 (Some old)"
        then obtain q where q: "q \<in> set (pipelines d2)" "held_by old q" unfolding still_held_Some by blast
        have "claim_owner old \<noteq> w"
          using rows_okD(2) [OF assms(1) [folded d1_def] b(1)] that assms(2)
          by (auto simp: claim_row_ok_def held_by_def)
        with q that only show False unfolding rows by (auto simp: held_by_def b'_def)
      qed
      have st: "b' \<in> set (pipelines d2)" "pl_id b' = pl_id b"
        "pl_status b' = (if pl_claim_owner b \<noteq> None then Cancelled else pl_status b)"
        unfolding rows by (auto simp: b'_def)
      have "claim_from_run now mint w r gen d = (Claimed (Some (claim_on w b)) (pl_claim_owner b \<noteq> None), d2)"
        using True unfolding d2_def run by simp
      moreover have "\<exists>p \<in> set (pipelines d1). pl_id p = pl_id b
          \<and> (pl_claim_kind p \<noteq> Some Job \<or> stale_claim now CLAIM_STALE_AFTER_MS d p)
          \<and> (\<forall>old. held_by old p \<longrightarrow> \<not> still_held d2 (Some old))
          \<and> (pl_claim_kind p \<noteq> Some Job \<longrightarrow> (pl_claim_owner b \<noteq> None) = (pl_claim_owner p \<noteq> None)
               \<and> (\<exists>p' \<in> set (pipelines d2). pl_id p' = pl_id p
                    \<and> pl_status p' = (if pl_claim_owner b \<noteq> None then Cancelled else pl_status p)))"
        using True b(1) old st unfolding free_def by (intro bexI [of _ b]) blast+
      ultimately show ?thesis using True b(2) held by (simp add: d1_def [symmetric])
    qed
  qed
qed

lemma takeover_is_exclusive_witness:
  "fst (claim_from_run 6 (\<lambda>r. r + 101) 8 10 None (taken_db Job)) = Takeover_Held [\<lparr>held_id = 100, held_resource_id = 10\<rparr>]
    \<and> snd (claim_from_run 6 (\<lambda>r. r + 101) 8 10 None (taken_db Job)) = ensure_claimable 6 (\<lambda>r. r + 101) [10] (taken_db Job)"
proof -
  have ok: "rows_ok 5 {7} (ensure_claimable 6 (\<lambda>r. r + 101) [10] (taken_db Job))"
    using taken_system_ok [of Job]
    by (intro rows_ok_ensure) (auto simp: claim_inv_def taken_system_def taken_db_def)
  have "fst (claim_from_run 6 (\<lambda>r. r + 101) 8 10 None (taken_db Job))
      = Takeover_Held [\<lparr>held_id = 100, held_resource_id = 10\<rparr>]" by code_simp
  with takeover_is_exclusive [OF ok, where w = 8 and gen = None] show ?thesis
    by (cases "claim_from_run 6 (\<lambda>r. r + 101) 8 10 None (taken_db Job)") simp
qed

text \<open>
  A job that went stale is taken over like a run: the takeover reports that a run was
  cancelled, and the row reads \<open>cancelled\<close>, though no run was stopped.
\<close>

theorem stale_job_recorded_as_cancelled:
  assumes "rows_ok now0 used d" "p \<in> set (pipelines d)" "pl_claim_kind p = Some Job"
    and "pl_claim_owner p \<noteq> None" "stale_claim now CLAIM_STALE_AFTER_MS d p" "on_revision d (pl_resource p) gen"
  shows "\<exists>c d'. claim_from_run now mint w (pl_resource p) gen d = (Claimed (Some c) True, d')
    \<and> (\<exists>p' \<in> set (pipelines d'). pl_id p' = pl_id p \<and> pl_status p' = Cancelled)"
proof -
  have "missing_rows [pl_resource p] d = []"
    using assms(2) set_missing_rows [of "[pl_resource p]" d] by (auto simp flip: set_empty)
  then have same: "ensure_claimable now mint [pl_resource p] d = d" by (simp add: ensure_claimable_eq)
  have "select_where (\<lambda>q. pl_resource q = pl_resource p) (pipelines d) \<noteq> []"
    using assms(2) by (auto simp: select_where_def filter_empty_conv)
  then obtain b bs where bs: "select_where (\<lambda>q. pl_resource q = pl_resource p) (pipelines d) = b # bs"
    by (cases "select_where (\<lambda>q. pl_resource q = pl_resource p) (pipelines d)") auto
  then have "b \<in> set (pipelines d)" "pl_resource b = pl_resource p"
    using set_select_where [of "\<lambda>q. pl_resource q = pl_resource p" "pipelines d"] by auto
  then have "b = p" using same_pipeline [OF assms(1)] assms(2) by blast
  with bs same assms show ?thesis 
    by (auto simp: claim_from_run_def Let_def table_simps
        intro!: bexI [of _ "(claimed_by w now Job p)\<lparr>pl_status := Cancelled, pl_updated := now\<rparr>"])
qed

lemma stale_job_recorded_as_cancelled_witness:
  "\<exists>c d'. claim_from_run 900006 (\<lambda>r. r + 101) 8 10 None (taken_db Job) = (Claimed (Some c) True, d')"
proof -
  have ok: "rows_ok 5 {7} (taken_db Job)"
    using taken_system_ok [of Job] by (simp add: claim_inv_def taken_system_def)
  have p: "claimed_by 7 5 Job (new_pipeline_row 0 100 10) \<in> set (pipelines (taken_db Job))"
    by (simp add: taken_db_def)
  have h: "stale_claim 900006 CLAIM_STALE_AFTER_MS (taken_db Job) (claimed_by 7 5 Job (new_pipeline_row 0 100 10))"
    "on_revision (taken_db Job) 10 None"
    by code_simp+
  from stale_job_recorded_as_cancelled [OF ok p _ _ h(1), where gen = None and mint = "\<lambda>r. r + 101" and w = 8] h(2)
  show ?thesis by auto
qed

text \<open>
  A run that fails leaves no step reading \<open>running\<close>. From the moment a run that holds
  its claim begins, however its steps open, nest and settle, recording the failure
  (\<open>failOpenStep\<close>) leaves every step of its pipeline settled and the tracker with none open,
  and touches no other pipeline's steps.
\<close>

theorem failed_run_closes_steps:
  assumes "still_held d (Some (trk_claim t))"
    and "steps_ok run_ok run_step es (begin_run now t d)"
    and "(t1, d1) = run_steps run_step es (begin_run now t d)"
  shows "open_steps (fst (fail_open_step now' err t1 d1)) = []
    \<and> (\<forall>s \<in> set (steps (snd (fail_open_step now' err t1 d1))).
          st_pipeline s = claim_id (trk_claim t) \<longrightarrow> st_status s \<noteq> Step_Running)
    \<and> (\<forall>s \<in> set (steps d1). st_pipeline s \<noteq> claim_id (trk_claim t)
          \<longrightarrow> s \<in> set (steps (snd (fail_open_step now' err t1 d1))))"
proof -
  have "steps_known (t1, d1)"
    using run.inv_run [OF begin_run_known(1) [OF assms(1)] assms(2)] assms(3) by simp
  then have known: "steps_known (fail_open_step now' err t1 d1)"
    unfolding fail_open_step_def by (rule fail_steps_known)
  have claim: "trk_claim t1 = trk_claim t"
    using run_steps_claim(1) [of es "begin_run now t d"] begin_run_known(2) [OF assms(1), of now]
    by (simp flip: assms(3))
  have none: "open_steps (fst (fail_open_step now' err t1 d1)) = []"
    by (simp add: fail_open_step_def fail_steps_open)
  have "\<forall>s \<in> set (steps d1). st_pipeline s \<noteq> claim_id (trk_claim t1)
      \<longrightarrow> s \<in> set (steps (snd (fail_open_step now' err t1 d1)))"
    unfolding fail_open_step_def using fail_steps_others [where td = "(t1, d1)"] by simp
  with known none claim fail_steps_claim [of now' err "rev (open_steps t1)" "(t1, d1)"] show ?thesis
    by (auto simp: steps_known_def fail_open_step_def)
qed

lemma failed_run_closes_steps_witness:
  "open_steps (fst (fail_open_step 9 ''boom'' (sample_tracker\<lparr>open_steps := [1, 2]\<rparr>)
     (snd (run_steps run_step [Open_Step 6 1 ''interpret'', Open_Step 7 2 ''lake'']
        (begin_run 6 sample_tracker (taken_db Run)))))) = []"
proof -
  let ?es = "[Open_Step 6 1 ''interpret'', Open_Step 7 2 ''lake'']"
  have h: "still_held (taken_db Run) (Some (trk_claim sample_tracker))"
    "steps_ok run_ok run_step ?es (begin_run 6 sample_tracker (taken_db Run))"
    "fst (run_steps run_step ?es (begin_run 6 sample_tracker (taken_db Run))) = sample_tracker\<lparr>open_steps := [1, 2]\<rparr>"
    by code_simp+
  from failed_run_closes_steps [OF h(1,2), where now' = 9 and err = "''boom''"] h(3)
  show ?thesis by (metis prod.collapse)
qed

end
