(* ===== verification/Ledger.thy ===== *)
theory Ledger
  imports Run_Tracker
begin

text \<open>
  Storage pointers and the ledger of objects to delete: the writers of
  \<open>api/src/services/pipeline/storage-pointer.ts\<close>, the upload half of
  \<open>resource-service.ts\<close> and the version rows of \<open>resource-version-service.ts\<close>, the sweep
  (\<open>worker/src/cron/orphan-cleanup\<close>) and the batched delete of the storage adapter
  (\<open>adapters/storage/src/s3.ts\<close>). What the backend answers to a delete, and which
  resource a lake key belongs to, are arguments.
\<close>

subsection \<open>Who owns an object\<close>

definition owned_by_version :: "key \<Rightarrow> db \<Rightarrow> bool" where
  "owned_by_version k d = list_ex (\<lambda>v. ver_storage_key v = k \<and> ver_state v \<noteq> ''purged'') (versions d)"

definition object_already_versioned :: "key \<Rightarrow> db \<Rightarrow> bool" where
  "object_already_versioned k d = owned_by_version k d"

definition object_owner_is_purging :: "key \<Rightarrow> db \<Rightarrow> bool" where
  "object_owner_is_purging k d =
    list_ex (\<lambda>v. ver_storage_key v = k \<and> ver_state v = ''purging'') (versions d)"

subsection \<open>Publishing content\<close>

text \<open>\<open>'format' in content\<close> and \<open>'keyColumns' in content\<close> are whether the option is there.\<close>

record published_content =
  pc_key :: "key option"
  pc_previous_key :: "key option"
  pc_hash :: "string option"
  pc_size :: "int option"
  pc_previous_hash :: "string option"
  pc_format :: "string option option"
  pc_key_columns :: "string list option option"
  pc_claim :: "resource_claim option"

definition key_setting :: "string list option \<Rightarrow> json \<Rightarrow> json" where
  "key_setting cols settings =
    (case cols of
       Some (c # cs) \<Rightarrow> json_set ''primaryKey'' (JArr (map JStr (c # cs))) settings
     | _ \<Rightarrow> json_remove ''primaryKey'' settings)"

definition published_row :: "time \<Rightarrow> uuid \<Rightarrow> published_content \<Rightarrow> resource_row \<Rightarrow> resource_row" where
  "published_row now revision content r =
    r\<lparr>res_storage_key := pc_key content, res_hash := pc_hash content, res_size := pc_size content,
      res_content_revision := revision,
      res_format := (case pc_format content of None \<Rightarrow> res_format r | Some f \<Rightarrow> f),
      res_doc_sync_due_at :=
        (case pc_format content of None \<Rightarrow> res_doc_sync_due_at r | Some _ \<Rightarrow> Some now),
      res_column_settings :=
        (case pc_key_columns content of None \<Rightarrow> res_column_settings r
         | Some ks \<Rightarrow> key_setting ks (res_column_settings r)),
      res_last_modified :=
        (if pc_previous_hash content \<noteq> pc_hash content then Some now else res_last_modified r)\<rparr>"

definition publish_live_content ::
  "time \<Rightarrow> uuid \<Rightarrow> uuid \<Rightarrow> published_content \<Rightarrow> db \<Rightarrow> bool \<times> db" where
  "publish_live_content now revision rid content d =
    (let hit = (\<lambda>r. res_id r = rid \<and> res_storage_key r = pc_previous_key content
                 \<and> still_held d (pc_claim content));
         ok = list_ex hit (resources d);
         orphan = (if ok then (if pc_previous_key content = pc_key content then None
                               else pc_previous_key content)
                   else pc_key content);
         parked = (case orphan of None \<Rightarrow> [] | Some k \<Rightarrow> if owned_by_version k d then [] else [k]);
         released = (case pc_key content of None \<Rightarrow> [] | Some k \<Rightarrow> if ok then [k] else [])
     in (ok, d\<lparr>resources := update_where hit (published_row now revision content) (resources d),
               orphans := untrack released (park (PARKED_UNTIL now) parked (orphans d))\<rparr>))"

subsection \<open>Uploads\<close>

definition UPLOAD_NEVER_COMPLETED :: string where
  "UPLOAD_NEVER_COMPLETED = ''The upload was never completed''"

definition expire_pending_uploads :: "time \<Rightarrow> int \<Rightarrow> db \<Rightarrow> nat \<times> db" where
  "expire_pending_uploads now ttl d =
    (let hit = (\<lambda>r. res_pending_key r \<noteq> None
                 \<and> (case res_pending_at r of None \<Rightarrow> False | Some t \<Rightarrow> t < now - ttl));
         cleared = not_null (map res_pending_key (select_where hit (resources d)));
         orphans' = park (PARKED_UNTIL now) cleared (orphans d)
     in (length orphans' - length (orphans d),
         d\<lparr>resources := update_where hit
              (\<lambda>r. r\<lparr>res_pending_key := None, res_pending_at := None, res_pending_metadata := None\<rparr>)
              (resources d),
           orphans := orphans'\<rparr>))"

definition never_arrived :: "time \<Rightarrow> int \<Rightarrow> db \<Rightarrow> resource_row \<Rightarrow> bool" where
  "never_arrived now older_than d r \<longleftrightarrow>
    res_url_type r = Some ''upload'' \<and> res_storage_key r = None \<and> res_pending_key r = None
    \<and> (case res_state r of None \<Rightarrow> False | Some s \<Rightarrow> s \<noteq> ''deleted'') \<and> res_created r < now - older_than
    \<and> \<not> list_ex (\<lambda>v. ver_resource v = res_id r) (versions d)
    \<and> \<not> list_ex (\<lambda>p. pl_resource p = res_id r
          \<and> (pl_claim_owner p \<noteq> None \<or> pl_error p = Some UPLOAD_NEVER_COMPLETED)) (pipelines d)"

definition mark_uploads_that_never_arrived ::
  "time \<Rightarrow> (uuid \<Rightarrow> uuid) \<Rightarrow> int \<Rightarrow> db \<Rightarrow> nat \<times> db" where
  "mark_uploads_that_never_arrived now mint older_than d =
    (let found = map res_id (select_where (never_arrived now older_than d) (resources d));
         hit = (\<lambda>p. pl_resource p \<in> set found \<and> pl_claim_owner p = None);
         fresh = filter (\<lambda>r. r \<notin> pl_resource ` set (pipelines d)) found
     in (length (select_where hit (pipelines d)) + length fresh,
         d\<lparr>pipelines := update_where hit
               (\<lambda>p. p\<lparr>pl_status := Error, pl_error := Some UPLOAD_NEVER_COMPLETED, pl_updated := now\<rparr>)
               (pipelines d)
             @ map (\<lambda>r. (new_pipeline_row now (mint r) r)
                      \<lparr>pl_status := Error, pl_error := Some UPLOAD_NEVER_COMPLETED\<rparr>) fresh\<rparr>))"

text \<open>
  The statements of \<open>prepareForUpload\<close>, with the minted key and the metadata it computed.
  A resource that is gone is refused.
\<close>

definition prepare_for_upload :: "time \<Rightarrow> key \<Rightarrow> json \<Rightarrow> uuid \<Rightarrow> db \<Rightarrow> (uuid + key) \<times> db" where
  "prepare_for_upload now pending_key metadata rid d =
    (let before = select_where (\<lambda>r. res_id r = rid) (resources d);
         d1 = d\<lparr>resources := update_where (\<lambda>r. res_id r = rid)
                  (\<lambda>r. r\<lparr>res_pending_key := Some pending_key, res_pending_at := Some now,
                          res_pending_metadata := Some metadata, res_updated := now\<rparr>) (resources d),
                orphans := park (PARKED_UNTIL now) (not_null (map res_pending_key before)) (orphans d)\<rparr>
     in if length before \<noteq> 1 then (Inl rid, d1)
        else (Inr pending_key, snd (cancel_resource_run now rid d1)))"

definition promoted_row :: "(json \<Rightarrow> string) \<Rightarrow> time \<Rightarrow> uuid \<Rightarrow> int \<Rightarrow> resource_row \<Rightarrow> resource_row" where
  "promoted_row pt now revision bytes r =
    (let meta = arrow_text pt (res_pending_metadata r);
         coalesce = (\<lambda>f old. case meta f of None \<Rightarrow> old | Some s \<Rightarrow> Some s)
     in r\<lparr>res_storage_key := res_pending_key r, res_pending_key := None, res_pending_at := None,
          res_url := coalesce ''url'' (res_url r), res_url_type := coalesce ''urlType'' (res_url_type r),
          res_name := coalesce ''name'' (res_name r),
          res_format := (if res_pending_metadata r = None then res_format r else meta ''format''),
          res_mimetype := coalesce ''mimetype'' (res_mimetype r),
          res_pending_metadata := None, res_health_status := Some ''unknown'',
          res_health_checked_at := None, res_health_check_state := Some (JObj []),
          res_size := Some bytes, res_hash := None, res_content_revision := revision,
          res_doc_sync_due_at := Some now,
          res_embedding_due_at := (if coalesce ''name'' (res_name r) \<noteq> res_name r then Some now
                                   else res_embedding_due_at r),
          res_updated := now\<rparr>)"

definition promote_upload ::
  "(json \<Rightarrow> string) \<Rightarrow> time \<Rightarrow> uuid \<Rightarrow> uuid \<Rightarrow> key \<Rightarrow> int \<Rightarrow> db \<Rightarrow> key option \<times> db" where
  "promote_upload pt now revision rid expected bytes d =
    (let hit = (\<lambda>r. res_id r = rid \<and> res_state r = Some ''active'' \<and> res_pending_key r = Some expected);
         before = select_where hit (resources d);
         parked = filter (\<lambda>k. \<not> owned_by_version k d) (not_null (map res_storage_key before))
     in (case before of [] \<Rightarrow> None | b # _ \<Rightarrow> res_pending_key b,
         d\<lparr>resources := update_where hit (promoted_row pt now revision bytes) (resources d),
           orphans := park (PARKED_UNTIL now) parked (orphans d)\<rparr>))"

subsection \<open>Recording an object before it exists\<close>

definition reserve_object :: "time \<Rightarrow> key \<Rightarrow> db \<Rightarrow> db" where
  "reserve_object now k d =
    (if k \<in> set (map orphan_key (orphans d))
     then d\<lparr>orphans := update_where (\<lambda>r. orphan_key r = k)
              (\<lambda>r. r\<lparr>orphan_expires_at := RESERVED_UNTIL now\<rparr>) (orphans d)\<rparr>
     else d\<lparr>orphans := orphans d @ [\<lparr>orphan_key = k, orphan_expires_at = RESERVED_UNTIL now\<rparr>]\<rparr>)"

subsection \<open>Version rows\<close>

text \<open>\<open>'schemaFormat' in v\<close> is whether \<open>cv_schema_format\<close> is there.\<close>

record created_version =
  cv_resource :: uuid
  cv_version :: int
  cv_storage_key :: key
  cv_size :: "int option"
  cv_hash :: "string option"
  cv_origin :: string
  cv_schema :: "json option"
  cv_restored_from :: "int option"
  cv_schema_format :: "string option option"

definition version_of :: "time \<Rightarrow> created_version \<Rightarrow> resource_row \<Rightarrow> version_row" where
  "version_of now v r =
    \<lparr>ver_resource = cv_resource v, ver_number = cv_version v, ver_storage_key = cv_storage_key v,
     ver_size = cv_size v, ver_hash = cv_hash v, ver_origin = cv_origin v,
     ver_restored_from = cv_restored_from v, ver_format = res_format r, ver_state = ''active'',
     ver_schema = (case cv_schema_format v of
                     None \<Rightarrow> cv_schema v
                   | Some f \<Rightarrow> if res_format r = f then cv_schema v else None),
     ver_no_table_reason = None, ver_key_columns = stored_primary_key (res_column_settings r),
     ver_lake_snapshot = None, ver_lake_ingest_reason = None, ver_lake_ingest_failures = 0,
     ver_lake_ingest_failed_at = None, ver_purged_at = None, ver_purged_by = None,
     ver_purge_reason = None, ver_updated = now\<rparr>"

definition insert_version_if_held ::
  "time \<Rightarrow> resource_claim option \<Rightarrow> created_version \<Rightarrow> db \<Rightarrow> bool \<times> db" where
  "insert_version_if_held now c v d =
    (let rows = map (version_of now v)
           (select_where (\<lambda>r. res_id r = cv_resource v \<and> still_held d c) (resources d))
     in (rows \<noteq> [], d\<lparr>versions := versions d @ rows,
                        orphans := untrack (map ver_storage_key rows) (orphans d)\<rparr>))"

definition set_version_schema_if_held ::
  "time \<Rightarrow> resource_claim option \<Rightarrow> uuid \<Rightarrow> int \<Rightarrow> json \<Rightarrow> string option \<Rightarrow> db \<Rightarrow> bool \<times> db" where
  "set_version_schema_if_held now c rid n schema reason d =
    (let hit = (\<lambda>v. ver_resource v = rid \<and> ver_number v = n \<and> still_held d c)
     in (select_where hit (versions d) \<noteq> [],
         d\<lparr>versions := update_where hit
             (\<lambda>v. v\<lparr>ver_schema := Some schema, ver_no_table_reason := reason, ver_updated := now\<rparr>)
             (versions d)\<rparr>))"

text \<open>The highest version of any state; \<open>ORDER BY version DESC LIMIT 1\<close>.\<close>

definition max_version :: "uuid \<Rightarrow> db \<Rightarrow> int option" where
  "max_version rid d =
    map_option ver_number
      (first_by (\<lambda>v. - ver_number v) (select_where (\<lambda>v. ver_resource v = rid) (versions d)))"

definition next_version_number :: "uuid \<Rightarrow> db \<Rightarrow> int" where
  "next_version_number rid d = (case max_version rid d of None \<Rightarrow> 0 | Some n \<Rightarrow> n) + 1"

subsection \<open>The lake catalog's pointer\<close>

text \<open>\<open>commitLakeCatalog\<close> of \<open>lake/lake-catalog.ts\<close>, one transaction.\<close>

datatype lake_refusal = Key_Fault int string | No_Table int string | Cannot_Load int

record lake_commit =
  lc_resource :: uuid
  lc_from :: "key option"
  lc_to :: "key option"
  lc_snapshots :: "(int \<times> int) list"
  lc_rebuilt :: bool
  lc_refused :: "lake_refusal list"
  lc_claim :: "resource_claim option"

definition on_version :: "uuid \<Rightarrow> int \<Rightarrow> (version_row \<Rightarrow> version_row) \<Rightarrow> version_row list \<Rightarrow> version_row list" where
  "on_version rid n f = update_where (\<lambda>v. ver_resource v = rid \<and> ver_number v = n) f"

fun record_refusal :: "uuid \<Rightarrow> lake_refusal \<Rightarrow> version_row list \<Rightarrow> version_row list" where
  "record_refusal rid (Key_Fault n why) = on_version rid n (\<lambda>v. v\<lparr>ver_lake_ingest_reason := Some why\<rparr>)"
| "record_refusal rid (No_Table n why) = on_version rid n (\<lambda>v. v\<lparr>ver_no_table_reason := Some why\<rparr>)"
| "record_refusal rid (Cannot_Load n) =
     on_version rid n (\<lambda>v. v\<lparr>ver_lake_ingest_reason := Some ''ingest-failed''\<rparr>)"

definition commit_lake_catalog :: "time \<Rightarrow> lake_commit \<Rightarrow> db \<Rightarrow> ('e failure + unit) \<times> db" where
  "commit_lake_catalog now c d =
    (let hit = (\<lambda>p. pl_resource p = lc_resource c \<and> pl_lake_catalog_key p = lc_from c
                 \<and> still_held d (lc_claim c))
     in if select_where hit (pipelines d) = []
        then (Inl (Conflict ''moved while being written'' (lc_resource c)), d)
        else let vs1 = (if lc_rebuilt c
                        then update_where (\<lambda>v. ver_resource v = lc_resource c)
                               (\<lambda>v. v\<lparr>ver_lake_snapshot := None\<rparr>) (versions d)
                        else versions d);
                 vs2 = fold (record_refusal (lc_resource c)) (lc_refused c) vs1;
                 vs3 = fold (\<lambda>(n, s). on_version (lc_resource c) n (\<lambda>v. v\<lparr>ver_lake_snapshot := Some s\<rparr>))
                        (lc_snapshots c) vs2
             in (Inr (), d\<lparr>pipelines := update_where hit
                    (\<lambda>p. p\<lparr>pl_lake_catalog_key := lc_to c, pl_updated := now\<rparr>) (pipelines d),
                  versions := vs3,
                  orphans := untrack (case lc_to c of None \<Rightarrow> [] | Some k \<Rightarrow> [k])
                    (park (PARKED_UNTIL now) (case lc_from c of None \<Rightarrow> [] | Some k \<Rightarrow> [k]) (orphans d))\<rparr>))"

subsection \<open>The sweep\<close>

definition ORPHAN_CLEANUP_BATCH_SIZE :: nat where "ORPHAN_CLEANUP_BATCH_SIZE = 5000"

definition DELETE_BATCH_SIZE :: nat where "DELETE_BATCH_SIZE = 1000"

definition is_referenced :: "(json \<Rightarrow> string) \<Rightarrow> db \<Rightarrow> key \<Rightarrow> bool" where
  "is_referenced pt d k \<longleftrightarrow>
    list_ex (\<lambda>r. res_storage_key r = Some k \<or> res_pending_key r = Some k) (resources d)
    \<or> list_ex (\<lambda>v. ver_storage_key v = k) (versions d)
    \<or> list_ex (\<lambda>p. Some k \<in> set (pipeline_object_keys pt p) \<or> pl_lake_catalog_key p = Some k) (pipelines d)"

definition referenced :: "(json \<Rightarrow> string) \<Rightarrow> key list \<Rightarrow> db \<Rightarrow> key list" where
  "referenced pt keys d = filter (is_referenced pt d) keys"

definition due_orphans :: "time \<Rightarrow> db \<Rightarrow> key list" where
  "due_orphans now d = map orphan_key
    (take ORPHAN_CLEANUP_BATCH_SIZE
      (sort_key orphan_expires_at (select_where (\<lambda>r. orphan_expires_at r < now) (orphans d))))"

text \<open>
  \<open>S3StorageAdapter.deleteMany\<close>: one request per thousand keys; \<open>refuses\<close> is the set of
  keys the backend reports an error for in answer to a request.
\<close>

function delete_many :: "(key list \<Rightarrow> key list) \<Rightarrow> key list \<Rightarrow> key list" where
  "delete_many refuses keys =
    (if keys = [] then []
     else let batch = take DELETE_BATCH_SIZE keys
          in filter (\<lambda>k. k \<notin> set (refuses batch)) batch
             @ delete_many refuses (drop DELETE_BATCH_SIZE keys))"
  by auto
termination by (relation "measure (\<lambda>(_, keys). length keys)") (auto simp: DELETE_BATCH_SIZE_def)

declare delete_many.simps [simp del, code del]

lemma delete_many_code [code]:
  "delete_many refuses [] = []"
  "delete_many refuses (k # ks) =
    (let batch = take DELETE_BATCH_SIZE (k # ks)
     in filter (\<lambda>k. k \<notin> set (refuses batch)) batch @ delete_many refuses (drop DELETE_BATCH_SIZE (k # ks)))"
  by (simp_all add: delete_many.simps)

record sweep_report =
  scanned :: nat
  deleted :: nat
  still_referenced :: nat

text \<open>
  One sweep with nothing in between: the ledger it leaves, the keys gone from storage, and
  its report. The interleaved form is the state machine of \<open>Storage_World\<close>.
\<close>

definition sweep_orphaned_objects ::
  "(json \<Rightarrow> string) \<Rightarrow> time \<Rightarrow> (key list \<Rightarrow> key list) \<Rightarrow> db \<Rightarrow> sweep_report \<times> key list \<times> db" where
  "sweep_orphaned_objects pt now refuses d =
    (let keys = due_orphans now d
     in if keys = [] then (\<lparr>scanned = 0, deleted = 0, still_referenced = 0\<rparr>, [], d)
        else let live = referenced pt keys d;
                 dead = filter (\<lambda>k. k \<notin> set live) keys;
                 gone = delete_many refuses dead
             in (\<lparr>scanned = length keys, deleted = length gone, still_referenced = length (remdups live)\<rparr>,
                 gone, d\<lparr>orphans := untrack (gone @ live) (orphans d)\<rparr>))"

end
