(* ===== verification/Storage_World.thy ===== *)
theory Storage_World
  imports Ledger Claim_Protocol
begin

text \<open>
  The bucket beside the database: every writer that moves a storage pointer and the sweep
  that deletes, one statement or one backend call at a time, in any order. A \<open>place\<close> is
  somewhere a row names an object; the version rows name theirs apart, for good. The
  invariant \<open>world_inv\<close> says that no object is lost track of and none that a row names is
  on its way out.
\<close>

subsection \<open>Places that name an object\<close>

datatype place = Live uuid | Pend uuid | Pointer uuid nat | Catalog uuid

primrec named :: "(json \<Rightarrow> string) \<Rightarrow> db \<Rightarrow> place \<Rightarrow> key option" where
  "named pt d (Live r) = Option.bind (row_of res_id (resources d) r) res_storage_key"
| "named pt d (Pend r) = Option.bind (row_of res_id (resources d) r) res_pending_key"
| "named pt d (Pointer i n) =
     Option.bind (row_of pl_id (pipelines d) i)
       (\<lambda>p. if n < length (pipeline_object_keys pt p) then pipeline_object_keys pt p ! n else None)"
| "named pt d (Catalog i) = Option.bind (row_of pl_id (pipelines d) i) pl_lake_catalog_key"

definition names :: "(json \<Rightarrow> string) \<Rightarrow> db \<Rightarrow> key set" where
  "names pt d = {k. \<exists>pl. named pt d pl = Some k}"

definition version_keys :: "db \<Rightarrow> key set" where
  "version_keys d = ver_storage_key ` set (versions d)"

definition ledger :: "db \<Rightarrow> key set" where "ledger d = orphan_key ` set (orphans d)"

definition ids_ok :: "db \<Rightarrow> bool" where
  "ids_ok d \<longleftrightarrow> distinct (map res_id (resources d)) \<and> distinct (map pl_id (pipelines d))
    \<and> distinct (map pl_resource (pipelines d)) \<and> distinct (map orphan_key (orphans d))"

lemma namesI: "named pt d pl = Some k \<Longrightarrow> k \<in> names pt d"
  by (auto simp: names_def)

lemma is_referenced_iff:
  assumes "ids_ok d"
  shows "is_referenced pt d k \<longleftrightarrow> k \<in> names pt d \<or> k \<in> version_keys d"
proof
  assume "is_referenced pt d k"
  then consider (res) r where "r \<in> set (resources d)" "res_storage_key r = Some k \<or> res_pending_key r = Some k"
    | (ver) "k \<in> version_keys d"
    | (ptr) p where "p \<in> set (pipelines d)" "Some k \<in> set (pipeline_object_keys pt p)"
    | (cat) p where "p \<in> set (pipelines d)" "pl_lake_catalog_key p = Some k"
    by (auto simp: is_referenced_def list_ex_iff version_keys_def)
  then show "k \<in> names pt d \<or> k \<in> version_keys d"
  proof cases
    case res
    then have "named pt d (Live (res_id r)) = Some k \<or> named pt d (Pend (res_id r)) = Some k"
      using assms by (auto simp: ids_ok_def row_of_distinct)
    then show ?thesis using namesI by blast
  next
    case ptr
    then obtain n where "n < length (pipeline_object_keys pt p)" "pipeline_object_keys pt p ! n = Some k"
      by (auto simp: in_set_conv_nth)
    then have "named pt d (Pointer (pl_id p) n) = Some k"
      using assms ptr by (simp add: ids_ok_def row_of_distinct)
    then show ?thesis using namesI by blast
  next
    case cat
    then have "named pt d (Catalog (pl_id p)) = Some k"
      using assms by (simp add: ids_ok_def row_of_distinct)
    then show ?thesis using namesI by blast
  qed simp
next
  assume "k \<in> names pt d \<or> k \<in> version_keys d"
  then show "is_referenced pt d k"
  proof
    assume "k \<in> version_keys d"
    then show ?thesis by (auto simp: is_referenced_def list_ex_iff version_keys_def)
  next
    assume "k \<in> names pt d"
    then obtain pl where "named pt d pl = Some k" by (auto simp: names_def)
    then show ?thesis
      by (cases pl) (auto simp: is_referenced_def list_ex_iff bind_eq_Some_conv
          split: if_splits dest!: row_of_SomeD; force dest: nth_mem)+
  qed
qed

subsection \<open>The ledger's own operations\<close>

lemma park_records:
  "set (park until ks os) = set os \<union>
     {r. orphan_key r \<in> set ks \<and> orphan_key r \<notin> orphan_key ` set os \<and> orphan_expires_at r = until}"
proof (induction ks arbitrary: os)
  case (Cons k ks)
  show ?case
  proof (cases "k \<in> orphan_key ` set os")
    case True
    then show ?thesis by (auto simp: Cons.IH)
  next
    case False
    have "r = \<lparr>orphan_key = orphan_key r, orphan_expires_at = orphan_expires_at r\<rparr>" for r :: orphan_row
      by simp
    with False show ?thesis by (auto simp: Cons.IH)
  qed
qed simp

lemma park_keys: "orphan_key ` set (park until ks os) = orphan_key ` set os \<union> set ks"
proof (induction ks arbitrary: os)
  case (Cons k ks)
  then show ?case by auto
qed simp

lemma park_distinct: "distinct (map orphan_key os) \<Longrightarrow> distinct (map orphan_key (park until ks os))"
  by (induction ks arbitrary: os) auto

lemma set_untrack: "set (untrack ks os) = {r \<in> set os. orphan_key r \<notin> set ks}"
  by (auto simp: untrack_def table_simps)

lemma untrack_keys: "orphan_key ` set (untrack ks os) = orphan_key ` set os - set ks"
  by (auto simp: set_untrack)

lemma untrack_distinct: "distinct (map orphan_key os) \<Longrightarrow> distinct (map orphan_key (untrack ks os))"
  by (simp add: untrack_def distinct_map_delete_where)

subsection \<open>The world\<close>

datatype sweep_phase =
    Idle
  | Listed "key list"
  | Checked "key list" "key list" \<comment> \<open>live, dead\<close>
  | Deleted "key list" "key list" \<comment> \<open>live, gone\<close>

text \<open>
  \<open>seen\<close> is a history variable: every key that has ever been named or recorded, so
  that a key of a fresh attempt is one not in it. Each worker process sweeps on its own.
\<close>

record world =
  wclk :: time
  wdb :: db
  objects :: "key set"
  seen :: "key set"
  sweeping :: "nat \<Rightarrow> sweep_phase"

definition recorded :: "time \<Rightarrow> key \<Rightarrow> db \<Rightarrow> bool" where
  "recorded now k d \<longleftrightarrow> (\<exists>r \<in> set (orphans d). orphan_key r = k \<and> now \<le> orphan_expires_at r)"

definition all_keys :: "(json \<Rightarrow> string) \<Rightarrow> db \<Rightarrow> key set" where
  "all_keys pt d = names pt d \<union> version_keys d \<union> ledger d"

definition doomed :: "(json \<Rightarrow> string) \<Rightarrow> world \<Rightarrow> key \<Rightarrow> bool" where
  "doomed pt w k \<longleftrightarrow> k \<notin> names pt (wdb w) \<and> k \<notin> version_keys (wdb w) \<and> k \<in> seen w
    \<and> \<not> recorded (wclk w) k (wdb w)"

definition unused :: "(json \<Rightarrow> string) \<Rightarrow> world \<Rightarrow> key \<Rightarrow> bool" where
  "unused pt w k \<longleftrightarrow> k \<notin> names pt (wdb w) \<and> k \<notin> version_keys (wdb w) \<and> k \<notin> ledger (wdb w)
    \<and> k \<notin> objects w \<and> k \<notin> seen w"

definition one_place :: "(json \<Rightarrow> string) \<Rightarrow> db \<Rightarrow> bool" where
  "one_place pt d \<longleftrightarrow> (\<forall>p q k. named pt d p = Some k \<and> named pt d q = Some k \<longrightarrow> p = q)"

fun sweep_ok :: "(json \<Rightarrow> string) \<Rightarrow> world \<Rightarrow> sweep_phase \<Rightarrow> bool" where
  "sweep_ok pt w Idle = True"
| "sweep_ok pt w (Listed ks) = (\<forall>k \<in> set ks. k \<in> version_keys (wdb w) \<or> doomed pt w k)"
| "sweep_ok pt w (Checked live dead) =
     ((\<forall>k \<in> set live. k \<in> version_keys (wdb w)) \<and> (\<forall>k \<in> set dead. doomed pt w k))"
| "sweep_ok pt w (Deleted live gone) =
     ((\<forall>k \<in> set live. k \<in> version_keys (wdb w))
      \<and> (\<forall>k \<in> set gone. doomed pt w k \<and> k \<notin> objects w))"

definition world_inv :: "(json \<Rightarrow> string) \<Rightarrow> world \<Rightarrow> bool" where
  "world_inv pt w \<longleftrightarrow> ids_ok (wdb w) \<and> one_place pt (wdb w)
    \<and> ledger (wdb w) \<inter> names pt (wdb w) \<subseteq> version_keys (wdb w)
    \<and> objects w \<subseteq> names pt (wdb w) \<union> version_keys (wdb w) \<union> ledger (wdb w)
    \<and> all_keys pt (wdb w) \<subseteq> seen w \<and> (\<forall>i. sweep_ok pt w (sweeping w i))"

text \<open>
  What every writer owes: the contract under which a statement that turns \<open>d\<close> into \<open>d'\<close>,
  bringing in the keys \<open>N\<close>, parking \<open>pk\<close> and releasing \<open>rel\<close>, keeps the invariant.
\<close>

definition writes ::
  "(json \<Rightarrow> string) \<Rightarrow> time \<Rightarrow> world \<Rightarrow> db \<Rightarrow> key set \<Rightarrow> key list \<Rightarrow> key list \<Rightarrow> bool" where
  "writes pt now w d' N pk rel \<longleftrightarrow>
    ids_ok d' \<and> one_place pt d'
    \<and> orphans d' = untrack rel (park (PARKED_UNTIL now) pk (orphans (wdb w)))
    \<and> version_keys (wdb w) \<subseteq> version_keys d' \<and> version_keys d' \<subseteq> version_keys (wdb w) \<union> N
    \<and> names pt d' \<subseteq> names pt (wdb w) \<union> N
    \<and> (\<forall>k \<in> N. recorded now k (wdb w) \<or> k \<in> version_keys (wdb w) \<or> k \<in> names pt (wdb w) \<or> unused pt w k)
    \<and> names pt (wdb w) \<subseteq> names pt d' \<union> set pk \<union> version_keys d'
    \<and> (\<forall>k \<in> set pk. k \<in> names pt d' \<longrightarrow> k \<in> version_keys d' \<or> k \<in> ledger (wdb w))
    \<and> (\<forall>k \<in> set pk. k \<in> names pt (wdb w) \<or> k \<in> ledger (wdb w) \<or> unused pt w k)
    \<and> set rel \<subseteq> names pt d' \<union> version_keys d'
    \<and> (names pt d' - names pt (wdb w)) \<inter> ledger (wdb w) \<subseteq> set rel \<union> version_keys d'"

definition wrote_db :: "(json \<Rightarrow> string) \<Rightarrow> time \<Rightarrow> db \<Rightarrow> world \<Rightarrow> world" where
  "wrote_db pt now d' w = w\<lparr>wclk := now, wdb := d', seen := seen w \<union> all_keys pt d'\<rparr>"

lemma doomed_kept:
  assumes "writes pt now w d' N pk rel" "ids_ok (wdb w)" "wclk w \<le> now" "doomed pt w k"
  shows "doomed pt (wrote_db pt now d' w) k"
proof -
  have "\<not> recorded now k (wdb w)" using assms(3,4) by (fastforce simp: doomed_def recorded_def)
  then have "k \<notin> N" using assms(1,4) by (auto simp: writes_def doomed_def unused_def)
  then have out: "k \<notin> names pt d'" "k \<notin> version_keys d'"
    using assms(1,4) by (auto simp: writes_def doomed_def)
  have "\<not> recorded now k d'"
  proof
    assume "recorded now k d'"
    then obtain r where r: "r \<in> set (orphans d')" "orphan_key r = k" "now \<le> orphan_expires_at r"
      by (auto simp: recorded_def)
    then consider "r \<in> set (orphans (wdb w))" | "k \<in> set pk" "k \<notin> orphan_key ` set (orphans (wdb w))"
      using assms(1) by (auto simp: writes_def set_untrack park_records)
    then show False
    proof cases
      case 1
      then show False using r \<open>\<not> recorded now k (wdb w)\<close> by (auto simp: recorded_def)
    next
      case 2
      then show False using assms(1,4) by (auto simp: writes_def doomed_def unused_def ledger_def)
    qed
  qed
  then show ?thesis using out assms(4) by (simp add: doomed_def wrote_db_def)
qed

lemma write_keeps:
  assumes "world_inv pt w" "writes pt now w d' N pk rel" "wclk w \<le> now"
  shows "world_inv pt (wrote_db pt now d' w)"
proof -
  have ids: "ids_ok (wdb w)" using assms(1) by (simp add: world_inv_def)
  have led: "ledger d' = (ledger (wdb w) \<union> set pk) - set rel"
    using assms(2) by (simp add: writes_def ledger_def untrack_keys park_keys)
  have D: "ledger d' \<inter> names pt d' \<subseteq> version_keys d'"
  proof
    fix k assume k: "k \<in> ledger d' \<inter> names pt d'"
    then consider "k \<in> ledger (wdb w)" "k \<notin> set rel" | "k \<in> set pk" "k \<notin> ledger (wdb w)" using led by auto
    then show "k \<in> version_keys d'"
    proof cases
      case 1
      then show ?thesis using k assms(1,2) by (auto simp: world_inv_def writes_def)
    next
      case 2
      then show ?thesis using k assms(2) by (auto simp: writes_def)
    qed
  qed
  have A: "objects w \<subseteq> names pt d' \<union> version_keys d' \<union> ledger d'"
    using assms(1,2) led by (auto simp: world_inv_def writes_def)
  have V: "version_keys (wdb w) \<subseteq> version_keys d'" using assms(2) by (simp add: writes_def)
  have S: "sweep_ok pt (wrote_db pt now d' w) (sweeping w i)" for i
  proof -
    have "sweep_ok pt w (sweeping w i)" using assms(1) by (simp add: world_inv_def)
    then show ?thesis using V doomed_kept [OF assms(2) ids assms(3)]
      by (cases "sweeping w i") (auto simp: wrote_db_def)
  qed
  show ?thesis using D A S assms(2) by (simp add: world_inv_def writes_def wrote_db_def)
qed

text \<open>A statement that brings in no key and releases none, only parks.\<close>

lemma writes_parks:
  assumes "ids_ok d'" "one_place pt d'" "version_keys d' = version_keys (wdb w)"
    and "orphans d' = untrack [] (park (PARKED_UNTIL now) pk (orphans (wdb w)))"
    and "\<And>k. k \<in> names pt d' \<Longrightarrow> k \<in> names pt (wdb w)"
    and "\<And>k. k \<in> names pt (wdb w) \<Longrightarrow> k \<in> names pt d' \<or> k \<in> set pk \<or> k \<in> version_keys (wdb w)"
    and "\<And>k. k \<in> set pk \<Longrightarrow> k \<in> names pt d' \<Longrightarrow> k \<in> ledger (wdb w)"
    and "\<And>k. k \<in> set pk \<Longrightarrow> k \<in> names pt (wdb w) \<or> k \<in> ledger (wdb w) \<or> unused pt w k"
  shows "writes pt now w d' {} pk []"
proof -
  have "names pt d' \<subseteq> names pt (wdb w) \<union> {}"
    "names pt (wdb w) \<subseteq> names pt d' \<union> set pk \<union> version_keys d'"
    using assms(3,5,6) by auto
  moreover have "\<forall>k \<in> set pk. k \<in> names pt d' \<longrightarrow> k \<in> version_keys d' \<or> k \<in> ledger (wdb w)"
    using assms(7) by simp
  ultimately show ?thesis using assms(1-4,8) by (auto simp: writes_def)
qed

subsection \<open>Statements that move a place\<close>

lemma one_place_upd:
  assumes "one_place pt d" "named pt d' = (named pt d)(p := new)"
    and "\<And>k q. new = Some k \<Longrightarrow> named pt d q = Some k \<Longrightarrow> q = p"
  shows "one_place pt d'"
  using assms by (fastforce simp: one_place_def split: if_splits)

lemma writes_move:
  assumes "world_inv pt w" "d = wdb w" "ids_ok d'" "version_keys d' = version_keys d"
    and "named pt d' = (named pt d)(p := new)"
    and "orphans d' = untrack rel (park (PARKED_UNTIL now) pk (orphans d))"
    and "\<And>k q. new = Some k \<Longrightarrow> named pt d q = Some k \<Longrightarrow> q = p"
    and "\<And>k. new = Some k \<Longrightarrow> recorded now k d \<or> k \<in> version_keys d \<or> k \<in> names pt d \<or> unused pt w k"
    and "\<And>k. k \<in> set pk \<Longrightarrow> named pt d p = Some k \<and> new \<noteq> Some k"
    and "\<And>k. named pt d p = Some k \<Longrightarrow> new \<noteq> Some k \<Longrightarrow> k \<in> set pk \<or> k \<in> version_keys d"
    and "\<And>k. k \<in> set rel \<Longrightarrow> new = Some k"
    and "\<And>k. new = Some k \<Longrightarrow> k \<in> set rel \<or> k \<notin> ledger d"
  shows "writes pt now w d' (set_option new) pk rel"
proof -
  have one: "one_place pt d" using assms(1,2) by (simp add: world_inv_def)
  have up: "names pt d' \<subseteq> names pt d \<union> set_option new"
    using assms(5) by (auto simp: names_def split: if_splits)
  have down: "names pt d \<subseteq> names pt d' \<union> set pk \<union> version_keys d"
  proof
    fix k assume "k \<in> names pt d"
    then obtain q where q: "named pt d q = Some k" by (auto simp: names_def)
    show "k \<in> names pt d' \<union> set pk \<union> version_keys d"
    proof (cases "q = p \<and> new \<noteq> Some k")
      case True
      with q assms(10) show ?thesis by auto
    next
      case False
      then have "named pt d' q = Some k" using q assms(5) by auto
      then show ?thesis by (auto simp: names_def)
    qed
  qed
  have "k \<notin> names pt d'" if "k \<in> set pk" for k
    using assms(9) [OF that] one assms(5) by (auto simp: names_def one_place_def split: if_splits)
  moreover have "set rel \<subseteq> names pt d'"
  proof
    fix k assume "k \<in> set rel"
    then have "named pt d' p = Some k" using assms(5,11) by simp
    then show "k \<in> names pt d'" by (rule namesI)
  qed
  moreover have "(names pt d' - names pt d) \<inter> ledger d \<subseteq> set rel"
    using up assms(12) by auto
  moreover have "k \<in> set pk \<Longrightarrow> k \<in> names pt d" for k using assms(9) by (auto simp: names_def)
  ultimately show ?thesis using assms(1-4,6,8) up down one_place_upd [OF one assms(5,7)]
    by (auto simp: writes_def)
qed

lemma named_update_resources:
  assumes "\<And>r. res_id (f r) = res_id r"
  shows "named pt (d\<lparr>resources := update_where P f (resources d)\<rparr>) pl =
    (case pl of
       Live r \<Rightarrow> Option.bind (row_of res_id (resources d) r) (\<lambda>x. res_storage_key (if P x then f x else x))
     | Pend r \<Rightarrow> Option.bind (row_of res_id (resources d) r) (\<lambda>x. res_pending_key (if P x then f x else x))
     | _ \<Rightarrow> named pt d pl)"
  using assms by (cases pl) (simp_all add: row_of_update_where bind_map_option comp_def)

lemma named_update_one:
  assumes "row_of res_id (resources d) rid = Some r" "P r" "\<And>x. res_id (f x) = res_id x"
    and "\<And>x. P x \<Longrightarrow> res_id x = rid"
  shows "named pt (d\<lparr>resources := update_where P f (resources d)\<rparr>) =
    (named pt d)(Live rid := res_storage_key (f r), Pend rid := res_pending_key (f r))"
proof
  fix pl
  have other: "\<not> P x" if "row_of res_id (resources d) i = Some x" "i \<noteq> rid" for i x
    using that assms(4) row_of_SomeD by metis
  show "named pt (d\<lparr>resources := update_where P f (resources d)\<rparr>) pl =
    ((named pt d)(Live rid := res_storage_key (f r), Pend rid := res_pending_key (f r))) pl"
  proof (cases pl)
    case (Live i)
    then show ?thesis using assms(1,2) other [of i]
      by (cases "row_of res_id (resources d) i") (auto simp: row_of_update_where [where key = res_id, OF assms(3)])
  next
    case (Pend i)
    then show ?thesis using assms(1,2) other [of i]
      by (cases "row_of res_id (resources d) i") (auto simp: row_of_update_where [where key = res_id, OF assms(3)])
  qed simp_all
qed

lemma named_other_tables [simp]:
  "named pt (d\<lparr>orphans := os\<rparr>) = named pt d" "named pt (d\<lparr>versions := vs\<rparr>) = named pt d"
  "named pt (d\<lparr>steps := ss\<rparr>) = named pt d"
  by (rule ext; case_tac x; simp)+

lemma version_keys_other [simp]:
  "version_keys (d\<lparr>orphans := os\<rparr>) = version_keys d"
  "version_keys (d\<lparr>resources := rs\<rparr>) = version_keys d"
  "version_keys (d\<lparr>pipelines := ps\<rparr>) = version_keys d"
  by (simp_all add: version_keys_def)

lemma owned_version_key: "owned_by_version k d \<Longrightarrow> k \<in> version_keys d"
  by (auto simp: owned_by_version_def list_ex_iff version_keys_def)

lemma ids_ok_orphans:
  "ids_ok d \<Longrightarrow> distinct (map orphan_key os) \<Longrightarrow> ids_ok (d\<lparr>orphans := os\<rparr>)"
  by (simp add: ids_ok_def)

lemma ids_ok_ledger:
  "ids_ok d \<Longrightarrow> distinct (map orphan_key (untrack rel (park until pk (orphans d))))"
  by (simp add: ids_ok_def untrack_distinct park_distinct)

end
