(* ===== verification/Storage_Writers.thy ===== *)
theory Storage_Writers
  imports Storage_World
begin

text \<open>
  Each writer of a storage pointer meets the contract \<open>writes\<close>: what it brings in, parks
  and releases. The conditions name what the code's callers arrange - a key is minted for
  one attempt, recorded ahead, and committed before the record runs out.
\<close>

subsection \<open>Publishing\<close>

definition may_publish :: "(json \<Rightarrow> string) \<Rightarrow> time \<Rightarrow> uuid \<Rightarrow> published_content \<Rightarrow> db \<Rightarrow> bool" where
  "may_publish pt now rid c d \<longleftrightarrow>
    (\<forall>k. pc_key c = Some k \<longrightarrow> (recorded now k d \<or> owned_by_version k d)
       \<and> (\<forall>q. named pt d q = Some k \<longrightarrow> q = Live rid))"

lemma publish_refused:
  assumes "\<not> fst (publish_live_content now gen rid c d)"
  shows "snd (publish_live_content now gen rid c d) =
    d\<lparr>orphans := park (PARKED_UNTIL now)
        (case pc_key c of None \<Rightarrow> [] | Some k \<Rightarrow> if owned_by_version k d then [] else [k]) (orphans d)\<rparr>"
proof -
  have none: "\<not> list_ex (\<lambda>r. res_id r = rid \<and> res_storage_key r = pc_previous_key c
      \<and> still_held d (pc_claim c)) (resources d)"
    using assms by (simp add: publish_live_content_def Let_def)
  then have "update_where (\<lambda>r. res_id r = rid \<and> res_storage_key r = pc_previous_key c
      \<and> still_held d (pc_claim c)) (published_row now gen c) (resources d) = resources d"
    by (intro update_where_none) (auto simp: list_ex_iff)
  then show ?thesis using none
    by (simp add: publish_live_content_def Let_def untrack_def delete_where_def split: option.split)
qed

lemma named_publish:
  assumes "fst (publish_live_content now gen rid c d)" "ids_ok d"
  shows "named pt (snd (publish_live_content now gen rid c d)) = (named pt d)(Live rid := pc_key c)"
    and "named pt d (Live rid) = pc_previous_key c"
proof -
  let ?hit = "\<lambda>r. res_id r = rid \<and> res_storage_key r = pc_previous_key c \<and> still_held d (pc_claim c)"
  obtain r where r: "r \<in> set (resources d)" "?hit r"
    using assms(1) by (auto simp: publish_live_content_def Let_def list_ex_iff)
  then have row: "row_of res_id (resources d) rid = Some r"
    using assms(2) by (auto simp: ids_ok_def row_of_distinct)
  then show "named pt d (Live rid) = pc_previous_key c" using r by simp
  have "named pt (snd (publish_live_content now gen rid c d)) =
      named pt (d\<lparr>resources := update_where ?hit (published_row now gen c) (resources d)\<rparr>)"
    by (simp add: publish_live_content_def Let_def)
  also have "\<dots> = (named pt d)(Live rid := pc_key c)"
    using row r by (subst named_update_one [where rid = rid and r = r])
      (auto simp: published_row_def fun_upd_idem_iff)
  finally show "named pt (snd (publish_live_content now gen rid c d)) = (named pt d)(Live rid := pc_key c)" .
qed

lemma resources_publish_ids:
  "map res_id (resources (snd (publish_live_content now gen rid c d))) = map res_id (resources d)"
  by (simp add: publish_live_content_def Let_def map_update_where published_row_def)

lemma publish_writes:
  assumes "world_inv pt w" "d = wdb w" "may_publish pt now rid c d"
    and "d' = snd (publish_live_content now gen rid c d)"
  shows "\<exists>N pk rel. writes pt now w d' N pk rel"
proof (cases "fst (publish_live_content now gen rid c d)")
  case False
  let ?pk = "case pc_key c of None \<Rightarrow> [] | Some k \<Rightarrow> if owned_by_version k d then [] else [k]"
  have d': "d' = d\<lparr>orphans := park (PARKED_UNTIL now) ?pk (orphans d)\<rparr>"
    using publish_refused [OF False] assms(4) by simp
  have "\<forall>k \<in> set ?pk. k \<in> ledger d"
    using assms(3) by (cases "pc_key c") (auto simp: may_publish_def recorded_def ledger_def)
  moreover have "ids_ok d'"
    using assms(1,2) d' by (auto simp: world_inv_def ids_ok_def park_distinct)
  moreover have "named pt d' = named pt d" "version_keys d' = version_keys d" unfolding d' by simp_all
  moreover have "orphans d' = untrack [] (park (PARKED_UNTIL now) ?pk (orphans d))"
    unfolding d' by (simp add: untrack_def delete_where_def)
  moreover from calculation have "names pt d' = names pt d" "one_place pt d'"
    using assms(1,2) by (simp_all add: names_def one_place_def world_inv_def)
  ultimately have "writes pt now w d' {} ?pk []"
    using assms(2) by (intro writes_parks) simp_all
  then show ?thesis by blast
next
  case True
  have ids: "ids_ok d" using assms(1,2) by (simp add: world_inv_def)
  let ?pk = "case (if pc_previous_key c = pc_key c then None else pc_previous_key c) of
      None \<Rightarrow> [] | Some k \<Rightarrow> if owned_by_version k d then [] else [k]"
  let ?rel = "case pc_key c of None \<Rightarrow> [] | Some k \<Rightarrow> [k]"
  note moved = named_publish [OF True ids, of pt]
  have os: "orphans d' = untrack ?rel (park (PARKED_UNTIL now) ?pk (orphans d))"
    using True assms(4) by (cases "pc_key c") (simp_all add: publish_live_content_def Let_def)
  have V: "version_keys d' = version_keys d" using assms(4) by (simp add: publish_live_content_def Let_def)
  have ids': "ids_ok d'"
    using ids ids_ok_ledger [OF ids] resources_publish_ids os assms(4)
    by (simp add: ids_ok_def publish_live_content_def Let_def map_update_where published_row_def)
  have "writes pt now w d' (set_option (pc_key c)) ?pk ?rel"
  proof (rule writes_move [OF assms(1,2) ids' V moved(1) [folded assms(4)] os])
    fix k q
    show "pc_key c = Some k \<Longrightarrow> named pt d q = Some k \<Longrightarrow> q = Live rid"
      using assms(3) by (simp add: may_publish_def)
    show "pc_key c = Some k \<Longrightarrow> recorded now k d \<or> k \<in> version_keys d \<or> k \<in> names pt d \<or> unused pt w k"
      using assms(3) owned_version_key [of k d] by (auto simp: may_publish_def)
    show "k \<in> set ?pk \<Longrightarrow> named pt d (Live rid) = Some k \<and> pc_key c \<noteq> Some k"
      unfolding moved(2) by (cases "pc_previous_key c") (auto split: if_splits)
    show "named pt d (Live rid) = Some k \<Longrightarrow> pc_key c \<noteq> Some k \<Longrightarrow> k \<in> set ?pk \<or> k \<in> version_keys d"
      unfolding moved(2) using owned_version_key [of k d] by auto
    show "k \<in> set ?rel \<Longrightarrow> pc_key c = Some k" "pc_key c = Some k \<Longrightarrow> k \<in> set ?rel \<or> k \<notin> ledger d"
      by (cases "pc_key c"; simp)+
  qed
  then show ?thesis by blast
qed

subsection \<open>Nothing changed but what a place does not see\<close>

lemma writes_unchanged:
  assumes "world_inv pt w" "ids_ok d'" "named pt d' = named pt (wdb w)"
    and "version_keys d' = version_keys (wdb w)" "orphans d' = orphans (wdb w)"
  shows "writes pt now w d' {} [] []"
  using assms by (auto simp: writes_def world_inv_def one_place_def names_def untrack_def delete_where_def)

lemma writes_same: "world_inv pt w \<Longrightarrow> \<exists>N pk rel. writes pt now w (wdb w) N pk rel"
  using writes_unchanged [of pt w "wdb w"] by (auto simp: world_inv_def)

lemma row_of_pipelines_kept:
  assumes "\<And>p. pl_id (f p) = pl_id p" "\<And>p. g (f p) = g p"
  shows "Option.bind (row_of pl_id (update_where P f ps) i) g = Option.bind (row_of pl_id ps i) g"
  using assms by (cases "row_of pl_id ps i") (auto simp: row_of_update_where)

lemma named_pipelines_kept:
  assumes "\<And>p. pl_id (f p) = pl_id p" "\<And>p. pipeline_object_keys pt (f p) = pipeline_object_keys pt p"
    and "\<And>p. pl_lake_catalog_key (f p) = pl_lake_catalog_key p"
  shows "named pt (d\<lparr>pipelines := update_where P f (pipelines d)\<rparr>) = named pt d"
proof
  fix pl
  show "named pt (d\<lparr>pipelines := update_where P f (pipelines d)\<rparr>) pl = named pt d pl"
    using assms by (cases pl) (simp_all add: row_of_pipelines_kept)
qed

lemma object_keys_kept [simp]:
  "pipeline_object_keys pt (p\<lparr>pl_status := st\<rparr>) = pipeline_object_keys pt p"
  "pipeline_object_keys pt (p\<lparr>pl_updated := up\<rparr>) = pipeline_object_keys pt p"
  "pipeline_object_keys pt (unclaimed p) = pipeline_object_keys pt p"
  "pl_lake_catalog_key (unclaimed p) = pl_lake_catalog_key p"
  by (simp_all add: pipeline_object_keys_def unclaimed_def)

lemma cancel_kept:
  "named pt (snd (cancel_resource_run now rid d)) = named pt d"
  "version_keys (snd (cancel_resource_run now rid d)) = version_keys d"
  "orphans (snd (cancel_resource_run now rid d)) = orphans d"
  "ids_ok d \<Longrightarrow> ids_ok (snd (cancel_resource_run now rid d))"
proof -
  have "named pt (d\<lparr>pipelines := update_where P
      (\<lambda>p. (unclaimed p)\<lparr>pl_status := Cancelled, pl_updated := now\<rparr>) (pipelines d)\<rparr>) = named pt d" for P
    by (rule named_pipelines_kept) simp_all
  then show "named pt (snd (cancel_resource_run now rid d)) = named pt d"
    by (simp add: cancel_resource_run_def Let_def)
qed (simp_all add: cancel_resource_run_def Let_def ids_ok_def map_update_where)

subsection \<open>Uploads\<close>

lemma set_not_null: "set (not_null xs) = {k. Some k \<in> set xs}"
  by (induction xs) (auto simp: not_null_def map_filter_simps split: option.splits)

lemma rows_with_id:
  assumes "ids_ok d" "r \<in> set (resources d)"
  shows "select_where (\<lambda>x. res_id x = res_id r) (resources d) = [r]"
proof -
  have "distinct (map res_id rs) \<Longrightarrow> r \<in> set rs \<Longrightarrow> filter (\<lambda>x. res_id x = res_id r) rs = [r]" for rs
    by (induction rs) (auto simp: filter_empty_conv rev_image_eqI)
  then show ?thesis using assms by (simp add: ids_ok_def select_where_def)
qed

lemma prepare_writes:
  assumes "world_inv pt w" "d = wdb w" "unused pt w k"
    and "d' = snd (prepare_for_upload now k md rid d)"
  shows "\<exists>N pk rel. writes pt now w d' N pk rel"
proof (cases "row_of res_id (resources d) rid")
  case None
  then have "select_where (\<lambda>r. res_id r = rid) (resources d) = []"
    "\<And>f. update_where (\<lambda>r. res_id r = rid) f (resources d) = resources d"
    by (auto simp: row_of_None_iff select_where_def filter_empty_conv intro!: update_where_none)
  then have "d' = d" using assms(4) by (simp add: prepare_for_upload_def Let_def not_null_def)
  then show ?thesis using writes_same [OF assms(1)] assms(2) by simp
next
  case (Some r)
  have ids: "ids_ok d" using assms(1,2) by (simp add: world_inv_def)
  have r: "r \<in> set (resources d)" "res_id r = rid" using Some row_of_SomeD by fastforce+
  let ?f = "\<lambda>r. r\<lparr>res_pending_key := Some k, res_pending_at := Some now,
      res_pending_metadata := Some md, res_updated := now\<rparr>"
  let ?pk = "not_null [res_pending_key r]"
  define d1 where "d1 = d\<lparr>resources := update_where (\<lambda>r. res_id r = rid) ?f (resources d),
      orphans := park (PARKED_UNTIL now) ?pk (orphans d)\<rparr>"
  have d': "d' = snd (cancel_resource_run now rid d1)"
    using assms(4) rows_with_id [OF ids r(1)] r(2) by (simp add: prepare_for_upload_def Let_def d1_def)
  have "named pt d1 = (named pt d)(Live rid := res_storage_key r, Pend rid := Some k)"
    unfolding d1_def named_other_tables using Some r(2)
    by (subst named_update_one [where rid = rid and r = r]) auto
  also have "(named pt d)(Live rid := res_storage_key r) = named pt d"
    using Some by (intro fun_upd_idem) simp
  finally have N: "named pt d1 = (named pt d)(Pend rid := Some k)" .
  have new: "k \<notin> names pt d" "k \<notin> ledger d" using assms(2,3) by (simp_all add: unused_def)
  have "writes pt now w d' (set_option (Some k)) ?pk []"
  proof (rule writes_move [OF assms(1,2), where p = "Pend rid"])
    have "ids_ok d1" using ids by (simp add: d1_def ids_ok_def map_update_where park_distinct)
    then show "ids_ok d'" unfolding d' by (rule cancel_kept)
    show "version_keys d' = version_keys d" unfolding d' by (simp add: cancel_kept d1_def)
    show "named pt d' = (named pt d)(Pend rid := Some k)" unfolding d' by (simp add: cancel_kept N)
    show "orphans d' = untrack [] (park (PARKED_UNTIL now) ?pk (orphans d))"
      unfolding d' by (simp add: cancel_kept d1_def untrack_def delete_where_def)
    fix k' q
    show "Some k = Some k' \<Longrightarrow> named pt d q = Some k' \<Longrightarrow> q = Pend rid" using new namesI by auto
    show "Some k = Some k' \<Longrightarrow> recorded now k' d \<or> k' \<in> version_keys d \<or> k' \<in> names pt d \<or> unused pt w k'"
      using assms(3) by simp
    show "k' \<in> set ?pk \<Longrightarrow> named pt d (Pend rid) = Some k' \<and> Some k \<noteq> Some k'"
      using Some new namesI [of pt d "Pend rid"] by (cases "res_pending_key r") (auto simp: not_null_def)
    show "named pt d (Pend rid) = Some k' \<Longrightarrow> Some k \<noteq> Some k' \<Longrightarrow> k' \<in> set ?pk \<or> k' \<in> version_keys d"
      using Some by (simp add: not_null_def)
  qed (use new in auto)
  then show ?thesis by blast
qed

lemma promote_writes:
  assumes "world_inv pt w" "d = wdb w"
    and "d' = snd (promote_upload pt now gen rid k n d)"
  shows "\<exists>N pk rel. writes pt now w d' N pk rel"
proof -
  let ?hit = "\<lambda>r. res_id r = rid \<and> res_state r = Some ''active'' \<and> res_pending_key r = Some k"
  have ids: "ids_ok d" and one: "one_place pt d" using assms(1,2) by (simp_all add: world_inv_def)
  show ?thesis
  proof (cases "\<exists>r \<in> set (resources d). ?hit r")
    case False
    then have "select_where ?hit (resources d) = []"
      "\<And>f. update_where ?hit f (resources d) = resources d"
      by (auto simp: select_where_def filter_empty_conv intro!: update_where_none)
    then have "d' = d" using assms(3) by (simp add: promote_upload_def Let_def not_null_def)
    then show ?thesis using writes_same [OF assms(1)] assms(2) by simp
  next
    case True
    then obtain r where r: "r \<in> set (resources d)" "?hit r" by blast
    then have row: "row_of res_id (resources d) rid = Some r"
      using ids by (auto simp: ids_ok_def row_of_distinct)
    have sel: "select_where ?hit (resources d) = [r]"
    proof -
      have "select_where ?hit (resources d) = filter ?hit (select_where (\<lambda>x. res_id x = res_id r) (resources d))"
        using r(2) by (auto simp: select_where_def intro: filter_cong)
      then show ?thesis using rows_with_id [OF ids r(1)] r(2) by simp
    qed
    let ?pk = "filter (\<lambda>k. \<not> owned_by_version k d) (not_null [res_storage_key r])"
    have os: "orphans d' = park (PARKED_UNTIL now) ?pk (orphans d)"
      using assms(3) sel by (simp add: promote_upload_def Let_def)
    have N: "named pt d' = (named pt d)(Live rid := Some k, Pend rid := None)"
    proof -
      have "named pt d' = named pt (d\<lparr>resources := update_where ?hit (promoted_row pt now gen n) (resources d)\<rparr>)"
        using assms(3) by (simp add: promote_upload_def Let_def)
      also have "\<dots> = (named pt d)(Live rid := Some k, Pend rid := None)"
        using row r(2) by (subst named_update_one [where rid = rid and r = r])
          (auto simp: promoted_row_def Let_def)
      finally show ?thesis .
    qed
    have live: "named pt d (Live rid) = res_storage_key r" "named pt d (Pend rid) = Some k"
      using row r(2) by simp_all
    have V: "version_keys d' = version_keys d" using assms(3) by (simp add: promote_upload_def Let_def)
    have ids': "ids_ok d'" using ids os assms(3)
      by (simp add: ids_ok_def promote_upload_def Let_def map_update_where promoted_row_def park_distinct)
    have one': "one_place pt d'"
      using one live(2) unfolding one_place_def N by (auto split: if_splits)
    have sub: "names pt d' \<subseteq> names pt d"
    proof
      fix k' assume "k' \<in> names pt d'"
      then obtain q where "named pt d' q = Some k'" by (auto simp: names_def)
      then have "named pt d (Pend rid) = Some k' \<or> named pt d q = Some k'"
        using live(2) by (auto simp: N split: if_splits)
      then show "k' \<in> names pt d" using namesI by blast
    qed
    have gone: "k' \<in> names pt d' \<or> k' \<in> set ?pk \<or> k' \<in> version_keys d" if mem: "k' \<in> names pt d" for k'
    proof -
      obtain q where q: "named pt d q = Some k'" using mem unfolding names_def by blast
      consider "q = Live rid" | "q = Pend rid" | "q \<noteq> Live rid" "q \<noteq> Pend rid" by blast
      then show ?thesis
      proof cases
        case 1
        then show ?thesis using q live owned_version_key [of k' d] by (auto simp: set_not_null)
      next
        case 2
        then have "named pt d' (Live rid) = Some k'" using q live by (simp add: N)
        then show ?thesis using namesI by blast
      next
        case 3
        then have "named pt d' q = Some k'" using q by (simp add: N)
        then show ?thesis using namesI by blast
      qed
    qed
    have was: "k' \<in> names pt d" if "k' \<in> set ?pk" for k'
      using that live namesI [of pt d "Live rid" k'] by (auto simp: set_not_null)
    have unnamed: "k' \<notin> names pt d'" if "k' \<in> set ?pk" for k'
    proof
      assume "k' \<in> names pt d'"
      then obtain q where q: "named pt d' q = Some k'" by (auto simp: names_def)
      have p: "named pt d (Live rid) = Some k'" using that live by (auto simp: set_not_null)
      show False
      proof (cases "q = Live rid")
        case True
        then have "named pt d (Pend rid) = Some k'" using q live by (simp add: N)
        then show False using p one unfolding one_place_def by blast
      next
        case False
        then have "named pt d q = Some k'" using q by (auto simp: N split: if_splits)
        then show False using p one False unfolding one_place_def by blast
      qed
    qed
    have "orphans d' = untrack [] (park (PARKED_UNTIL now) ?pk (orphans d))"
      using os by (simp add: untrack_def delete_where_def)
    then have "writes pt now w d' {} ?pk []"
      using ids' one' V assms(2) sub gone unnamed was by (intro writes_parks) (simp, simp, simp, simp, blast+)
    then show ?thesis by blast
  qed
qed

lemma expire_writes:
  assumes "world_inv pt w" "d = wdb w" and "d' = snd (expire_pending_uploads now ttl d)"
  shows "\<exists>N pk rel. writes pt now w d' N pk rel"
proof -
  define hit where "hit r \<longleftrightarrow> res_pending_key r \<noteq> None
    \<and> (case res_pending_at r of None \<Rightarrow> False | Some t \<Rightarrow> t < now - ttl)" for r :: resource_row
  let ?f = "\<lambda>r. r\<lparr>res_pending_key := None, res_pending_at := None, res_pending_metadata := None\<rparr>"
  define pk where "pk = not_null (map res_pending_key (select_where hit (resources d)))"
  have ids: "ids_ok d" and one: "one_place pt d" using assms(1,2) by (simp_all add: world_inv_def)
  have d': "d' = d\<lparr>resources := update_where hit ?f (resources d),
      orphans := park (PARKED_UNTIL now) pk (orphans d)\<rparr>"
    using assms(3) by (simp add: expire_pending_uploads_def Let_def hit_def [abs_def] pk_def)
  have N: "named pt d' pl = (case pl of
      Pend i \<Rightarrow> Option.bind (row_of res_id (resources d) i) (\<lambda>r. if hit r then None else res_pending_key r)
    | _ \<Rightarrow> named pt d pl)" for pl
    unfolding d' named_other_tables
    by (subst named_update_resources)
      (auto split: place.split simp: if_distrib [of res_storage_key] if_distrib [of res_pending_key]
        cong: if_cong)
  have kept: "named pt d pl = Some k" if "named pt d' pl = Some k" for pl k
    using that unfolding N by (cases pl) (auto simp: bind_eq_Some_conv split: if_splits)
  have pk: "k \<in> set pk \<longleftrightarrow> (\<exists>i. named pt d (Pend i) = Some k \<and> named pt d' (Pend i) = None)" for k
  proof
    assume "k \<in> set pk"
    then obtain r where "r \<in> set (resources d)" "hit r" "res_pending_key r = Some k"
      by (auto simp: pk_def set_not_null table_simps)
    moreover from this have "row_of res_id (resources d) (res_id r) = Some r"
      using ids by (simp add: ids_ok_def row_of_distinct)
    ultimately show "\<exists>i. named pt d (Pend i) = Some k \<and> named pt d' (Pend i) = None"
      unfolding N by (intro exI [of _ "res_id r"]) simp
  next
    assume "\<exists>i. named pt d (Pend i) = Some k \<and> named pt d' (Pend i) = None"
    then obtain i r where "row_of res_id (resources d) i = Some r" "res_pending_key r = Some k" "hit r"
      unfolding N by (auto simp: bind_eq_Some_conv bind_eq_None_conv split: if_splits)
    then show "k \<in> set pk" by (auto simp: pk_def set_not_null table_simps image_iff dest: row_of_SomeD)
  qed
  have one': "one_place pt d'" using one kept unfolding one_place_def by blast
  have sub: "names pt d' \<subseteq> names pt d" using kept by (auto simp: names_def)
  have gone: "k \<in> names pt d' \<or> k \<in> set pk" if mem: "k \<in> names pt d" for k
  proof -
    obtain q where q: "named pt d q = Some k" using mem unfolding names_def by blast
    show ?thesis
    proof (cases "named pt d' q")
      case None
      then have "\<exists>i. q = Pend i" using q unfolding N by (cases q) auto
      then show ?thesis using q None pk by blast
    next
      case (Some k')
      then have "k' = k" using kept q by fastforce
      then show ?thesis using Some namesI by blast
    qed
  qed
  have was: "k \<in> names pt d" if k: "k \<in> set pk" for k using k pk namesI by blast
  have unnamed: "k \<notin> names pt d'" if k: "k \<in> set pk" for k
  proof
    assume "k \<in> names pt d'"
    then obtain q where "named pt d' q = Some k" by (auto simp: names_def)
    moreover obtain i where "named pt d (Pend i) = Some k" "named pt d' (Pend i) = None" using k pk by blast
    moreover from calculation have "q = Pend i" using kept one unfolding one_place_def by blast
    ultimately show False by simp
  qed
  have V: "version_keys d' = version_keys d" unfolding d' by simp
  have ids': "ids_ok d'" using ids unfolding d' by (simp add: ids_ok_def map_update_where park_distinct)
  have os: "orphans d' = untrack [] (park (PARKED_UNTIL now) pk (orphans d))"
    unfolding d' by (simp add: untrack_def delete_where_def)
  have "writes pt now w d' {} pk []"
    using ids' one' V os assms(2) sub gone unnamed was by (intro writes_parks) (simp, simp, simp, simp, blast+)
  then show ?thesis by blast
qed

subsection \<open>Version rows\<close>

definition may_version :: "(json \<Rightarrow> string) \<Rightarrow> time \<Rightarrow> created_version \<Rightarrow> db \<Rightarrow> bool" where
  "may_version pt now v d \<longleftrightarrow> recorded now (cv_storage_key v) d \<or> cv_storage_key v \<in> names pt d"

lemma version_writes:
  assumes "world_inv pt w" "d = wdb w" "may_version pt now v d"
    and "d' = snd (insert_version_if_held now c v d)"
  shows "\<exists>N pk rel. writes pt now w d' N pk rel"
proof -
  define rows where "rows = map (version_of now v)
      (select_where (\<lambda>r. res_id r = cv_resource v \<and> still_held d c) (resources d))"
  have d': "d' = d\<lparr>versions := versions d @ rows, orphans := untrack (map ver_storage_key rows) (orphans d)\<rparr>"
    using assms(4) by (simp add: insert_version_if_held_def Let_def rows_def)
  have keys: "set (map ver_storage_key rows) \<subseteq> {cv_storage_key v}" by (auto simp: rows_def version_of_def)
  have V: "version_keys d' = version_keys d \<union> set (map ver_storage_key rows)"
    unfolding d' by (auto simp: version_keys_def)
  have named: "named pt d' = named pt d" unfolding d' by simp
  have ids: "ids_ok d'" using assms(1,2) unfolding d' by (simp add: world_inv_def ids_ok_def untrack_distinct)
  have "orphans d' = untrack (map ver_storage_key rows) (park (PARKED_UNTIL now) [] (orphans d))"
    unfolding d' by simp
  moreover have "\<forall>k \<in> set (map ver_storage_key rows). recorded now k d \<or> k \<in> names pt d"
    using keys assms(3) unfolding may_version_def by blast
  moreover have "names pt d' = names pt d" "one_place pt d'"
    using named assms(1,2) by (simp_all add: names_def one_place_def world_inv_def)
  ultimately have "writes pt now w d' (set (map ver_storage_key rows)) [] (map ver_storage_key rows)"
    using V ids assms(2) unfolding writes_def by auto
  then show ?thesis by blast
qed

subsection \<open>A pipeline row's pointers\<close>

definition may_point :: "(json \<Rightarrow> string) \<Rightarrow> time \<Rightarrow> (pipeline_row \<Rightarrow> pipeline_row) \<Rightarrow> tracker \<Rightarrow> db \<Rightarrow> bool" where
  "may_point pt now f t d \<longleftrightarrow>
    (\<forall>p \<in> set (pipelines d). held_by (trk_claim t) p \<longrightarrow>
       distinct (not_null (pipeline_object_keys pt (f p)))
       \<and> (\<forall>k \<in> set (not_null (pipeline_object_keys pt (f p))).
            Some k \<in> set (pipeline_object_keys pt p) \<or> recorded now k d \<and> k \<notin> names pt d))"

lemma not_null_nth_inj:
  "distinct (not_null xs) \<Longrightarrow> i < length xs \<Longrightarrow> j < length xs \<Longrightarrow> xs ! i = Some k \<Longrightarrow> xs ! j = Some k \<Longrightarrow> i = j"
proof (induction xs arbitrary: i j)
  case (Cons x xs)
  have mem: "k \<in> set (not_null xs)" if "n < length xs" "xs ! n = Some k" for n
    using that by (auto simp: set_not_null in_set_conv_nth)
  from Cons show ?case
    by (cases i; cases j; cases x) (auto simp: not_null_def map_filter_simps dest: mem [unfolded not_null_def])
qed simp

lemma named_row:
  assumes "ids_ok d" "p \<in> set (pipelines d)" "n < length (pipeline_object_keys pt p)"
  shows "named pt d (Pointer (pl_id p) n) = pipeline_object_keys pt p ! n"
  using assms by (simp add: ids_ok_def row_of_distinct)

lemma pointers_writes:
  assumes "world_inv pt w" "d = wdb w" "may_point pt now f t d" "d' = move_pointers pt now f t d"
    and "\<And>p. pl_id (f p) = pl_id p" "\<And>p. pl_resource (f p) = pl_resource p"
    and "\<And>p. pl_lake_catalog_key (f p) = pl_lake_catalog_key p"
  shows "\<exists>N pk rel. writes pt now w d' N pk rel"
proof (cases "select_where (held_by (trk_claim t)) (pipelines d)")
  case Nil
  then have "d' = d" using assms(4) by (simp add: move_pointers_def)
  then show ?thesis using writes_same [OF assms(1)] assms(2) by simp
next
  case (Cons b bs)
  have ids: "ids_ok d" and one: "one_place pt d" using assms(1,2) by (simp_all add: world_inv_def)
  have b: "b \<in> set (pipelines d)" "held_by (trk_claim t) b"
    using Cons set_select_where [of "held_by (trk_claim t)" "pipelines d"] by auto
  have row: "row_of pl_id (pipelines d) (pl_id b) = Some b" using ids b(1) by (simp add: ids_ok_def row_of_distinct)
  have only: "held_by (trk_claim t) x \<longleftrightarrow> x = b" if "row_of pl_id (pipelines d) i = Some x" for i x
  proof
    assume "held_by (trk_claim t) x"
    then have "pl_id x = pl_id b" using b(2) by (simp add: held_by_def)
    moreover have "i = pl_id x" using row_of_SomeD [OF that] by simp
    ultimately have "Some x = Some b" using that row by metis
    then show "x = b" by (rule option.inject [THEN iffD1])
  next
    assume "x = b"
    with b(2) show "held_by (trk_claim t) x" by (rule ssubst [rotated])
  qed
  define a where "a = (f b)\<lparr>pl_updated := now\<rparr>"
  define prev where "prev = pipeline_object_keys pt b"
  define cur where "cur = pipeline_object_keys pt a"
  define pk where "pk = filter (\<lambda>k. k \<notin> set (not_null cur)) (not_null prev)"
  have len: "length prev = length cur" by (simp add: prev_def cur_def pipeline_object_keys_def)
  have cur_f: "cur = pipeline_object_keys pt (f b)" unfolding cur_def a_def by simp
  have may: "distinct (not_null cur)"
    "\<And>k. k \<in> set (not_null cur) \<Longrightarrow> Some k \<in> set prev \<or> recorded now k d \<and> k \<notin> names pt d"
    using assms(3) b unfolding may_point_def cur_f prev_def by blast+
  obtain rs where rs: "map res_id rs = map res_id (resources d)"
    "\<And>i. Option.bind (row_of res_id rs i) res_storage_key = Option.bind (row_of res_id (resources d) i) res_storage_key"
    "\<And>i. Option.bind (row_of res_id rs i) res_pending_key = Option.bind (row_of res_id (resources d) i) res_pending_key"
    "d' = d\<lparr>pipelines := update_where (held_by (trk_claim t)) (\<lambda>_. a) (pipelines d), resources := rs,
       orphans := untrack (not_null cur) (park (PARKED_UNTIL now) pk (orphans d))\<rparr>"
  proof -
    define P where "P r \<longleftrightarrow> res_id r = pl_resource b
      \<and> schema_column_names (pl_metadata b) \<noteq> schema_column_names (pl_metadata a)" for r :: resource_row
    let ?rs = "update_where P (\<lambda>r. r\<lparr>res_doc_sync_due_at := Some now\<rparr>) (resources d)"
    have "Option.bind (row_of res_id ?rs i) res_storage_key = Option.bind (row_of res_id (resources d) i) res_storage_key"
      "Option.bind (row_of res_id ?rs i) res_pending_key = Option.bind (row_of res_id (resources d) i) res_pending_key" for i
      by (cases "row_of res_id (resources d) i"; simp add: row_of_update_where)+
    moreover have "d' = d\<lparr>pipelines := update_where (held_by (trk_claim t)) (\<lambda>_. a) (pipelines d), resources := ?rs,
       orphans := untrack (not_null cur) (park (PARKED_UNTIL now) pk (orphans d))\<rparr>"
      using assms(4) Cons
      by (simp add: move_pointers_def Let_def a_def cur_def prev_def pk_def P_def [abs_def])
    ultimately show thesis by (intro that [of ?rs]) (simp_all add: map_update_where)
  qed
  have rowid: "pl_id a = pl_id b" "pl_resource a = pl_resource b" "pl_lake_catalog_key a = pl_lake_catalog_key b"
    using assms(5-7) by (simp_all add: a_def)
  have only_in: "x = b" if x: "x \<in> set (pipelines d)" "held_by (trk_claim t) x" for x
  proof -
    have "row_of pl_id (pipelines d) (pl_id x) = Some x" using ids x(1) by (simp add: ids_ok_def row_of_distinct)
    then show ?thesis using only [of "pl_id x" x] x(2) by simp
  qed
  have eq: "pipelines d' = update_where (held_by (trk_claim t)) (\<lambda>x. if x = b then a else x) (pipelines d)"
    unfolding rs(4) using only_in by (auto simp: update_where_def)
  have row': "row_of pl_id (pipelines d') i = (if i = pl_id b then Some a else row_of pl_id (pipelines d) i)" for i
  proof -
    have "pl_id (if x = b then a else x) = pl_id x" for x using rowid by simp
    then have "row_of pl_id (pipelines d') i = map_option (\<lambda>x. if held_by (trk_claim t) x then (if x = b then a else x) else x)
        (row_of pl_id (pipelines d) i)"
      unfolding eq by (rule row_of_update_where)
    then show ?thesis using row only [of i] b row_of_SomeD [of pl_id "pipelines d" i]
      by (cases "row_of pl_id (pipelines d) i") auto
  qed
  have N: "named pt d' pl = (case pl of
      Pointer i n \<Rightarrow> if i = pl_id b then (if n < length cur then cur ! n else None) else named pt d pl
    | _ \<Rightarrow> named pt d pl)" for pl
    using rowid row row' rs(2,3) by (cases pl) (simp_all add: rs(4) cur_def)
  have P: "named pt d (Pointer (pl_id b) n) = (if n < length prev then prev ! n else None)" for n
    using row by (simp add: prev_def)
  note named.simps [simp del]
  have in_cur: "k \<in> set (not_null cur) \<longleftrightarrow> (\<exists>n. named pt d' (Pointer (pl_id b) n) = Some k)" for k
    unfolding N by (auto simp: set_not_null in_set_conv_nth split: if_splits)
  have in_prev: "Some k \<in> set prev \<longleftrightarrow> (\<exists>n. named pt d (Pointer (pl_id b) n) = Some k)" for k
    unfolding P by (auto simp: in_set_conv_nth split: if_splits)
  have same: "named pt d' q = named pt d q" if "\<And>n. q \<noteq> Pointer (pl_id b) n" for q
    using that unfolding N by (auto split: place.split)
  have elsewhere: "q = Pointer (pl_id b) m"
    if "named pt d q = Some k" "named pt d (Pointer (pl_id b) m) = Some k" for q k m
    using that one unfolding one_place_def by blast
  have cases_q: "(\<exists>n. q = Pointer (pl_id b) n) \<or> named pt d' q = named pt d q" for q using same by blast
  have fresh: "(\<exists>n. q = Pointer (pl_id b) n)" if "k \<in> set (not_null cur)" "named pt d q = Some k" for q k
    using may(2) [OF that(1)] in_prev [of k] elsewhere [OF that(2)] that(2) namesI [of pt d q k] by blast
  have one': "one_place pt d'"
    unfolding one_place_def
  proof (intro allI impI, elim conjE)
    fix p q k assume pq: "named pt d' p = Some k" "named pt d' q = Some k"
    show "p = q"
    proof (cases "k \<in> set (not_null cur)")
      case True
      have "\<exists>n. x = Pointer (pl_id b) n" if "named pt d' x = Some k" for x
        using cases_q [of x] fresh [OF True, of x] that by auto
      then obtain m n where mn: "p = Pointer (pl_id b) m" "q = Pointer (pl_id b) n" using pq by blast
      with pq have "m < length cur \<and> cur ! m = Some k" "n < length cur \<and> cur ! n = Some k"
        unfolding N by (auto split: if_splits)
      then show ?thesis using not_null_nth_inj [OF may(1), of m n k] mn by simp
    next
      case False
      then have "p \<noteq> Pointer (pl_id b) n" "q \<noteq> Pointer (pl_id b) n" for n using pq in_cur by blast+
      then have "named pt d p = Some k" "named pt d q = Some k" using pq same by simp_all
      then show ?thesis using one unfolding one_place_def by blast
    qed
  qed
  have up: "k \<in> names pt d \<or> k \<in> set (not_null cur)" if mem: "k \<in> names pt d'" for k
  proof -
    obtain q where "named pt d' q = Some k" using mem unfolding names_def by blast
    then show ?thesis using cases_q [of q] in_cur namesI [of pt d q k] by auto
  qed
  have down: "k \<in> names pt d' \<or> k \<in> set pk" if mem: "k \<in> names pt d" for k
  proof -
    obtain q where q: "named pt d q = Some k" using mem unfolding names_def by blast
    show ?thesis
    proof (cases "\<exists>n. q = Pointer (pl_id b) n")
      case True
      then have "Some k \<in> set prev" using q in_prev by blast
      then show ?thesis using in_cur [of k] namesI by (auto simp: pk_def set_not_null)
    next
      case False
      then show ?thesis using q cases_q [of q] namesI [of pt d' q k] by simp
    qed
  qed
  have was: "k \<in> names pt d" if k: "k \<in> set pk" for k
    using k in_prev [of k] namesI [of pt d] by (auto simp: pk_def set_not_null)
  have parked: "k \<notin> names pt d'" if k: "k \<in> set pk" for k
  proof
    assume "k \<in> names pt d'"
    then obtain q where q: "named pt d' q = Some k" unfolding names_def by blast
    have "k \<notin> set (not_null cur)" "Some k \<in> set prev" using k by (auto simp: pk_def set_not_null)
    then obtain m where m: "named pt d (Pointer (pl_id b) m) = Some k" unfolding in_prev by (elim exE)
    have nq: "q \<noteq> Pointer (pl_id b) n" for n
      using \<open>k \<notin> set (not_null cur)\<close> q unfolding in_cur by auto
    then have "named pt d q = Some k" using q same [of q] by simp
    from elsewhere [OF this m] nq show False by simp
  qed
  have rel: "k \<in> names pt d'" if k: "k \<in> set (not_null cur)" for k
    using k in_cur [of k] namesI [of pt d'] by blast
  have brought: "recorded now k d \<or> k \<in> names pt d" if k: "k \<in> set (not_null cur)" for k
    using may(2) [OF k] in_prev [of k] namesI [of pt d] by blast
  have "map pl_id (pipelines d') = map pl_id (pipelines d)"
    "map pl_resource (pipelines d') = map pl_resource (pipelines d)"
    unfolding eq using rowid by (auto intro!: map_update_where)
  then have ids': "ids_ok d'" using ids rs(1)
    by (simp add: ids_ok_def rs(4) untrack_distinct park_distinct)
  have "orphans d' = untrack (not_null cur) (park (PARKED_UNTIL now) pk (orphans d))"
    "version_keys d' = version_keys d" unfolding rs(4) by (simp_all add: version_keys_def)
  then have "writes pt now w d' (set (not_null cur)) pk (not_null cur)"
    using ids' one' up down parked was rel brought assms(2) unfolding writes_def by blast
  then show ?thesis by blast
qed

subsection \<open>The lake catalog\<close>

definition may_commit :: "(json \<Rightarrow> string) \<Rightarrow> time \<Rightarrow> lake_commit \<Rightarrow> db \<Rightarrow> bool" where
  "may_commit pt now c d \<longleftrightarrow> (\<forall>k. lc_to c = Some k \<longrightarrow> recorded now k d \<and> k \<notin> names pt d)"

lemma fold_keeps:
  assumes "\<And>x vs. map ver_storage_key (f x vs) = map ver_storage_key vs"
  shows "map ver_storage_key (fold f xs vs) = map ver_storage_key vs"
  by (induction xs arbitrary: vs) (simp_all add: assms)

lemma commit_versions_kept:
  "map ver_storage_key (on_version rid n (\<lambda>v. v\<lparr>ver_lake_snapshot := s\<rparr>) vs) = map ver_storage_key vs"
  "map ver_storage_key (record_refusal rid x vs) = map ver_storage_key vs"
  by (simp add: on_version_def map_update_where) (cases x; simp add: on_version_def map_update_where)

lemma commit_writes:
  assumes "world_inv pt w" "d = wdb w" "may_commit pt now c d"
    and "d' = snd (commit_lake_catalog now c d :: ('e failure + unit) \<times> db)"
  shows "\<exists>N pk rel. writes pt now w d' N pk rel"
proof -
  define hit where "hit p \<longleftrightarrow> pl_resource p = lc_resource c \<and> pl_lake_catalog_key p = lc_from c
    \<and> still_held d (lc_claim c)" for p :: pipeline_row
  have ids: "ids_ok d" using assms(1,2) by (simp add: world_inv_def)
  show ?thesis
  proof (cases "select_where hit (pipelines d)")
    case Nil
    then have "d' = d" using assms(4) by (simp add: commit_lake_catalog_def Let_def hit_def [abs_def])
    then show ?thesis using writes_same [OF assms(1)] assms(2) by simp
  next
    case (Cons b bs)
    then have b: "b \<in> set (pipelines d)" "hit b" using set_select_where [of hit "pipelines d"] by auto
    have row: "row_of pl_id (pipelines d) (pl_id b) = Some b" using ids b(1) by (simp add: ids_ok_def row_of_distinct)
    have only: "x = b" if "x \<in> set (pipelines d)" "hit x" for x
      using that b ids by (simp add: ids_ok_def distinct_map hit_def) (metis inj_onD)
    let ?f = "\<lambda>p. p\<lparr>pl_lake_catalog_key := lc_to c, pl_updated := now\<rparr>"
    let ?pk = "case lc_from c of None \<Rightarrow> [] | Some k \<Rightarrow> [k]"
    let ?rel = "case lc_to c of None \<Rightarrow> [] | Some k \<Rightarrow> [k]"
    obtain vs where vs: "map ver_storage_key vs = map ver_storage_key (versions d)"
      and d': "d' = d\<lparr>pipelines := update_where hit ?f (pipelines d), versions := vs,
        orphans := untrack ?rel (park (PARKED_UNTIL now) ?pk (orphans d))\<rparr>"
    proof
      let ?vs1 = "if lc_rebuilt c then update_where (\<lambda>v. ver_resource v = lc_resource c)
          (\<lambda>v. v\<lparr>ver_lake_snapshot := None\<rparr>) (versions d) else versions d"
      let ?vs = "fold (\<lambda>(n, s). on_version (lc_resource c) n (\<lambda>v. v\<lparr>ver_lake_snapshot := Some s\<rparr>))
          (lc_snapshots c) (fold (record_refusal (lc_resource c)) (lc_refused c) ?vs1)"
      show "map ver_storage_key ?vs = map ver_storage_key (versions d)"
        by (simp add: fold_keeps commit_versions_kept map_update_where split: prod.split)
      show "d' = d\<lparr>pipelines := update_where hit ?f (pipelines d), versions := ?vs,
          orphans := untrack ?rel (park (PARKED_UNTIL now) ?pk (orphans d))\<rparr>"
        using assms(4) Cons by (simp add: commit_lake_catalog_def Let_def hit_def [abs_def])
    qed
    have N: "named pt d' = (named pt d)(Catalog (pl_id b) := lc_to c)"
    proof
      fix pl
      have row': "row_of pl_id (pipelines d') i = map_option (\<lambda>x. if hit x then ?f x else x) (row_of pl_id (pipelines d) i)" for i
        unfolding d' by (simp add: row_of_update_where)
      have hit: "hit x \<longleftrightarrow> i = pl_id b" if "row_of pl_id (pipelines d) i = Some x" for i x
      proof
        assume "hit x"
        then show "i = pl_id b" using only [of x] row_of_SomeD [OF that] by simp
      next
        assume "i = pl_id b"
        then have "x = b" using that row by simp
        then show "hit x" using b(2) by simp
      qed
      have oth: "resources d' = resources d" unfolding d' by simp
      show "named pt d' pl = ((named pt d)(Catalog (pl_id b) := lc_to c)) pl"
      proof (cases pl)
        case (Pointer i n)
        then show ?thesis by (cases "row_of pl_id (pipelines d) i") (simp_all add: row' pipeline_object_keys_def)
      next
        case (Catalog i)
        then show ?thesis using row
          by (cases "row_of pl_id (pipelines d) i") (auto simp: row' hit)
      qed (simp_all add: oth)
    qed
    have old: "named pt d (Catalog (pl_id b)) = lc_from c" using row b(2) by (simp add: hit_def)
    have V: "version_keys d' = version_keys d"
      unfolding d' version_keys_def using vs by (simp flip: set_map)
    have ids': "ids_ok d'" unfolding d' using ids
      by (simp add: ids_ok_def map_update_where untrack_distinct park_distinct)
    have "writes pt now w d' (set_option (lc_to c)) ?pk ?rel"
    proof (rule writes_move [OF assms(1,2) ids' V N])
      show "orphans d' = untrack ?rel (park (PARKED_UNTIL now) ?pk (orphans d))" unfolding d' by simp
      fix k q
      have new: "lc_to c = Some k \<Longrightarrow> recorded now k d \<and> k \<notin> names pt d"
        using assms(3) by (simp add: may_commit_def)
      show "lc_to c = Some k \<Longrightarrow> named pt d q = Some k \<Longrightarrow> q = Catalog (pl_id b)"
        using new namesI by blast
      show "lc_to c = Some k \<Longrightarrow> recorded now k d \<or> k \<in> version_keys d \<or> k \<in> names pt d \<or> unused pt w k"
        using new by blast
      show "k \<in> set ?pk \<Longrightarrow> named pt d (Catalog (pl_id b)) = Some k \<and> lc_to c \<noteq> Some k"
        unfolding old using new namesI [of pt d "Catalog (pl_id b)" k] old by (cases "lc_from c") auto
      show "named pt d (Catalog (pl_id b)) = Some k \<Longrightarrow> lc_to c \<noteq> Some k \<Longrightarrow> k \<in> set ?pk \<or> k \<in> version_keys d"
        unfolding old by simp
      show "k \<in> set ?rel \<Longrightarrow> lc_to c = Some k" "lc_to c = Some k \<Longrightarrow> k \<in> set ?rel \<or> k \<notin> ledger d"
        by (cases "lc_to c"; simp)+
    qed
    then show ?thesis by blast
  qed
qed

subsection \<open>Recording ahead\<close>

lemma reserve_writes:
  assumes "world_inv pt w" "d = wdb w" "unused pt w k" "d' = reserve_object now k d"
  shows "\<exists>N pk rel. writes pt now w d' N pk rel"
proof -
  have new: "k \<notin> ledger d" "k \<notin> names pt d" using assms(2,3) by (simp_all add: unused_def)
  have d': "d' = d\<lparr>orphans := park (PARKED_UNTIL now) [k] (orphans d)\<rparr>"
    using assms(4) new by (simp add: reserve_object_def ledger_def RESERVED_UNTIL_def PARKED_UNTIL_def)
  have "ids_ok d'" using assms(1,2) unfolding d' by (simp add: world_inv_def ids_ok_def park_distinct del: park.simps)
  moreover have "named pt d' = named pt d" "version_keys d' = version_keys d" unfolding d' by simp_all
  moreover have "orphans d' = untrack [] (park (PARKED_UNTIL now) [k] (orphans d))"
    unfolding d' by (simp add: untrack_def delete_where_def)
  moreover from calculation have "names pt d' = names pt d" "one_place pt d'"
    using assms(1,2) by (simp_all add: names_def one_place_def world_inv_def)
  ultimately have "writes pt now w d' {} [k] []"
    using assms(2,3) new unfolding writes_def by (simp del: park.simps) blast
  then show ?thesis by blast
qed

end
