(* ===== verification/Storage_Machine.thy ===== *)
theory Storage_Machine
  imports Storage_Writers
begin

text \<open>
  The bucket and the database as one machine: every writer of a storage pointer, every
  event of the claim protocol, the objects arriving in the bucket and any number of
  sweeps, one statement or one backend call at a time. A statement is atomic; the four
  calls of a sweep are four events, and anything may come between them. The invariant is
  \<open>world_inv\<close>; what the environment owes an event is \<open>world_ok\<close>.
\<close>

subsection \<open>Events\<close>

datatype world_event =
    Claiming claim_event
  | Reserve time key
  | Put key
  | Publish time uuid uuid published_content
  | New_Version time "resource_claim option" created_version
  | Commit_Lake time lake_commit
  | Expire_Uploads time int
  | Prepare time key json uuid
  | Promote time uuid uuid key int
  | Sweep_List nat time
  | Sweep_Check nat
  | Sweep_Delete nat "key list \<Rightarrow> key list"
  | Sweep_Untrack nat
  | Sweep_Dies nat

text \<open>The statements among them, with the time each runs at.\<close>

fun statement :: "(json \<Rightarrow> string) \<Rightarrow> world_event \<Rightarrow> db \<Rightarrow> (time \<times> db) option" where
  "statement pt (Claiming e) d = Some (claim_time e, db_step pt e d)"
| "statement pt (Reserve now k) d = Some (now, reserve_object now k d)"
| "statement pt (Publish now gen rid c) d = Some (now, snd (publish_live_content now gen rid c d))"
| "statement pt (New_Version now c v) d = Some (now, snd (insert_version_if_held now c v d))"
| "statement pt (Commit_Lake now c) d =
     Some (now, snd (commit_lake_catalog now c d :: (unit failure + unit) \<times> db))"
| "statement pt (Expire_Uploads now ttl) d = Some (now, snd (expire_pending_uploads now ttl d))"
| "statement pt (Prepare now k md rid) d = Some (now, snd (prepare_for_upload now k md rid d))"
| "statement pt (Promote now gen rid k n) d = Some (now, snd (promote_upload pt now gen rid k n d))"
| "statement pt _ d = None"

definition at_phase :: "nat \<Rightarrow> sweep_phase \<Rightarrow> world \<Rightarrow> world" where
  "at_phase i ph w = w\<lparr>sweeping := (sweeping w)(i := ph)\<rparr>"

definition sweep_list :: "nat \<Rightarrow> time \<Rightarrow> world \<Rightarrow> world" where
  "sweep_list i now w =
    (let keys = due_orphans now (wdb w)
     in at_phase i (if keys = [] then Idle else Listed keys) (w\<lparr>wclk := now\<rparr>))"

definition sweep_check :: "(json \<Rightarrow> string) \<Rightarrow> nat \<Rightarrow> world \<Rightarrow> world" where
  "sweep_check pt i w =
    (case sweeping w i of
       Listed keys \<Rightarrow>
         (let live = referenced pt keys (wdb w)
          in at_phase i (Checked live (filter (\<lambda>k. k \<notin> set live) keys)) w)
     | _ \<Rightarrow> w)"

definition sweep_delete :: "nat \<Rightarrow> (key list \<Rightarrow> key list) \<Rightarrow> world \<Rightarrow> world" where
  "sweep_delete i refuses w =
    (case sweeping w i of
       Checked live dead \<Rightarrow>
         (let gone = delete_many refuses dead
          in at_phase i (Deleted live gone) (w\<lparr>objects := objects w - set gone\<rparr>))
     | _ \<Rightarrow> w)"

definition sweep_untrack :: "nat \<Rightarrow> world \<Rightarrow> world" where
  "sweep_untrack i w =
    (case sweeping w i of
       Deleted live gone \<Rightarrow>
         at_phase i Idle (w\<lparr>wdb := (wdb w)\<lparr>orphans := untrack (gone @ live) (orphans (wdb w))\<rparr>\<rparr>)
     | _ \<Rightarrow> w)"

definition world_step :: "(json \<Rightarrow> string) \<Rightarrow> world_event \<Rightarrow> world \<Rightarrow> world" where
  "world_step pt e w =
    (case statement pt e (wdb w) of
       Some (now, d') \<Rightarrow> wrote_db pt now d' w
     | None \<Rightarrow>
         (case e of
            Put k \<Rightarrow> w\<lparr>objects := insert k (objects w)\<rparr>
          | Sweep_List i now \<Rightarrow> sweep_list i now w
          | Sweep_Check i \<Rightarrow> sweep_check pt i w
          | Sweep_Delete i refuses \<Rightarrow> sweep_delete i refuses w
          | Sweep_Untrack i \<Rightarrow> sweep_untrack i w
          | Sweep_Dies i \<Rightarrow> at_phase i Idle w
          | _ \<Rightarrow> w))"

text \<open>
  What the environment owes an event: the clock does not run backwards, a minted key is
  one of an attempt of its own, an object is put only while its key is on record or named,
  and a pointer is moved only to a key its writer has on record (or that a version already
  names) and that nothing else names.
\<close>

fun event_ok :: "(json \<Rightarrow> string) \<Rightarrow> world_event \<Rightarrow> world \<Rightarrow> bool" where
  "event_ok pt (Claiming (Interpreted now pv md pr t)) w =
     may_point pt now (\<lambda>p. p\<lparr>pl_preview_key := pv, pl_metadata := Some md, pl_profile := pr\<rparr>) t (wdb w)"
| "event_ok pt (Claiming (Merged now md t)) w =
     may_point pt now (\<lambda>p. p\<lparr>pl_metadata := Some (json_merge (case pl_metadata p of None \<Rightarrow> JObj [] | Some j \<Rightarrow> j) md)\<rparr>)
       t (wdb w)"
| "event_ok pt (Claiming e) w =
     (distinct (minted e) \<and> (\<forall>i \<in> set (minted e). i \<notin> pl_id ` set (pipelines (wdb w))))"
| "event_ok pt (Reserve now k) w = unused pt w k"
| "event_ok pt (Put k) w =
     (recorded (wclk w) k (wdb w) \<or> k \<in> names pt (wdb w) \<or> k \<in> version_keys (wdb w))"
| "event_ok pt (Publish now gen rid c) w = may_publish pt now rid c (wdb w)"
| "event_ok pt (New_Version now c v) w = may_version pt now v (wdb w)"
| "event_ok pt (Commit_Lake now c) w = may_commit pt now c (wdb w)"
| "event_ok pt (Prepare now k md rid) w = unused pt w k"
| "event_ok pt (Sweep_List i now) w = (wclk w \<le> now)"
| "event_ok pt _ w = True"

definition world_ok :: "(json \<Rightarrow> string) \<Rightarrow> world_event \<Rightarrow> world \<Rightarrow> bool" where
  "world_ok pt e w \<longleftrightarrow> event_ok pt e w
    \<and> (case statement pt e (wdb w) of None \<Rightarrow> True | Some (now, _) \<Rightarrow> wclk w \<le> now)"

subsection \<open>The claim's statements move no key\<close>

lemma ids_ok_ensure:
  assumes "ids_ok d" "distinct (map mint (remdups rids))"
    and "\<forall>i \<in> set (map mint (remdups rids)). i \<notin> pl_id ` set (pipelines d)"
  shows "ids_ok (ensure_claimable now mint rids d)"
proof -
  have dist: "distinct (missing_rows rids d)"
    using assms(1) by (simp add: missing_rows_def ids_ok_def select_where_def distinct_map_filter)
  have inj: "inj_on mint (set (missing_rows rids d))"
    using assms(2) by (auto simp: distinct_map set_missing_rows intro: inj_on_subset)
  have "set (missing_rows rids d) \<subseteq> set rids" by (auto simp: set_missing_rows)
  then have "pl_id ` set (pipelines d) \<inter> mint ` set (missing_rows rids d) = {}"
    using assms(3) by fastforce
  then have "distinct (map pl_id (pipelines (ensure_claimable now mint rids d)))"
    using assms(1) dist inj by (simp add: ids_ok_def ensure_claimable_eq comp_def distinct_map [of mint])
  moreover have "distinct (map pl_resource (pipelines (ensure_claimable now mint rids d)))"
    using assms(1) dist by (auto simp: ids_ok_def ensure_claimable_eq comp_def set_missing_rows)
  ultimately show ?thesis using assms(1) by (simp add: ids_ok_def)
qed

lemma bind_new_rows:
  "(\<And>i r. g (new_pipeline_row now i r) = None)
    \<Longrightarrow> Option.bind (row_of pl_id (map (\<lambda>r. new_pipeline_row now (mint r) r) rs) x) g = None"
  by (induction rs) auto

lemma new_row_keys [simp]:
  "pipeline_object_keys pt (new_pipeline_row now i r) = [None, None, None, None]"
  "pl_lake_catalog_key (new_pipeline_row now i r) = None"
  by (simp_all add: new_pipeline_row_def pipeline_object_keys_def arrow_text_def)

lemma named_ensure: "named pt (ensure_claimable now mint rids d) = named pt d"
proof
  fix pl
  show "named pt (ensure_claimable now mint rids d) pl = named pt d pl"
    by (cases pl)
      (auto simp: ensure_claimable_eq row_of_append less_Suc_eq nth_Cons split: option.split nat.split
        intro!: bind_new_rows)
qed

text \<open>What a statement that neither moves nor records a key leaves alone.\<close>

definition keys_kept :: "(json \<Rightarrow> string) \<Rightarrow> db \<Rightarrow> db \<Rightarrow> bool" where
  "keys_kept pt d d' \<longleftrightarrow> named pt d' = named pt d \<and> version_keys d' = version_keys d
    \<and> orphans d' = orphans d \<and> (ids_ok d \<longrightarrow> ids_ok d')"

lemma keys_kept_refl [simp]: "keys_kept pt d d"
  by (simp add: keys_kept_def)

lemma keys_kept_steps [simp]: "keys_kept pt d (d\<lparr>steps := ss\<rparr>)"
  by (simp add: keys_kept_def ids_ok_def version_keys_def)

lemma keys_kept_pipelines:
  assumes "\<And>p. pl_id (f p) = pl_id p" "\<And>p. pl_resource (f p) = pl_resource p"
    and "\<And>p. pipeline_object_keys pt (f p) = pipeline_object_keys pt p"
    and "\<And>p. pl_lake_catalog_key (f p) = pl_lake_catalog_key p"
  shows "keys_kept pt d (d\<lparr>pipelines := update_where P f (pipelines d)\<rparr>)"
  using assms by (simp add: keys_kept_def named_pipelines_kept ids_ok_def map_update_where)

lemma keys_kept_trans: "keys_kept pt d d1 \<Longrightarrow> keys_kept pt d1 d2 \<Longrightarrow> keys_kept pt d d2"
  by (simp add: keys_kept_def)

lemma keys_kept_ensure:
  assumes "distinct (map mint (remdups rids))"
    and "\<forall>i \<in> set (map mint (remdups rids)). i \<notin> pl_id ` set (pipelines d)"
  shows "keys_kept pt d (ensure_claimable now mint rids d)"
  using ids_ok_ensure [OF _ assms] by (simp add: keys_kept_def named_ensure version_keys_def)

lemma more_keys_kept [simp]:
  "pipeline_object_keys pt (claimed_by w now k p) = pipeline_object_keys pt p"
  "pl_lake_catalog_key (claimed_by w now k p) = pl_lake_catalog_key p"
  "pipeline_object_keys pt (p\<lparr>pl_claim_owner_at := since\<rparr>) = pipeline_object_keys pt p"
  "pipeline_object_keys pt (p\<lparr>pl_error := er\<rparr>) = pipeline_object_keys pt p"
  by (simp_all add: pipeline_object_keys_def claimed_by_def)

definition moves_no_key :: "claim_event \<Rightarrow> bool" where
  "moves_no_key e = (case e of Interpreted _ _ _ _ _ \<Rightarrow> False | Merged _ _ _ \<Rightarrow> False | _ \<Rightarrow> True)"

lemma claim_keys_kept:
  assumes "moves_no_key e" "distinct (minted e)" "\<forall>i \<in> set (minted e). i \<notin> pl_id ` set (pipelines d)"
  shows "keys_kept pt d (db_step pt e d)"
proof (cases e)
  case (Take now mint rids w k)
  then have "keys_kept pt d (ensure_claimable now mint rids d)"
    using assms by (intro keys_kept_ensure) simp_all
  moreover have "keys_kept pt d1 (d1\<lparr>pipelines := update_where P (claimed_by w now k) (pipelines d1)\<rparr>)" for d1 P
    by (rule keys_kept_pipelines) simp_all
  ultimately show ?thesis
    using Take by (auto simp: claim_resources_def Let_def intro: keys_kept_trans)
next
  case (Take_Over now mint w rid gen)
  then have "keys_kept pt d (ensure_claimable now mint [rid] d)"
    using assms by (intro keys_kept_ensure) simp_all
  moreover have "keys_kept pt d1 (d1\<lparr>pipelines := update_where P
      (\<lambda>p. (claimed_by w now Job p)\<lparr>pl_status := g p, pl_updated := now\<rparr>) (pipelines d1)\<rparr>)" for d1 P g
    by (rule keys_kept_pipelines) simp_all
  ultimately show ?thesis
    using Take_Over by (auto simp: claim_from_run_def Let_def split: list.split intro: keys_kept_trans)
next
  case (Give_Back now ids w)
  then show ?thesis
    by (auto simp: release_resource_claims_def Let_def intro!: keys_kept_pipelines)
next
  case (Touch now c)
  then show ?thesis by (auto simp: touch_resource_claim_def intro!: keys_kept_pipelines)
next
  case (Stop_Run now rid)
  then show ?thesis by (auto simp: cancel_resource_run_def Let_def intro!: keys_kept_pipelines)
next
  case (Begin now t)
  have "keys_kept pt d (d\<lparr>pipelines := update_where (held_by (trk_claim t))
      (\<lambda>p. p\<lparr>pl_status := Processing, pl_error := None, pl_updated := now\<rparr>) (pipelines d)\<rparr>)"
    by (rule keys_kept_pipelines) simp_all
  from keys_kept_trans [OF this keys_kept_steps] show ?thesis
    using Begin by (simp add: begin_run_def Let_def)
next
  case (Set_Status now st er t)
  then show ?thesis by (auto simp: update_status_def intro!: keys_kept_pipelines)
next
  case (Start now sid nm t)
  then show ?thesis by (simp add: start_step_def Let_def)
next
  case (Settle now sid st er t)
  then show ?thesis by (simp add: settle_step_def)
qed (use assms(1) in \<open>simp_all add: moves_no_key_def\<close>)

subsection \<open>Every event keeps the invariant\<close>

lemma claim_writes:
  assumes "world_inv pt w" "event_ok pt (Claiming e) w"
  shows "\<exists>N pk rel. writes pt (claim_time e) w (db_step pt e (wdb w)) N pk rel"
proof (cases "moves_no_key e")
  case True
  then have "distinct (minted e)" "\<forall>i \<in> set (minted e). i \<notin> pl_id ` set (pipelines (wdb w))"
    using assms(2) by (cases e; simp add: moves_no_key_def)+
  with claim_keys_kept [OF True] have "keys_kept pt (wdb w) (db_step pt e (wdb w))" by simp
  then have "writes pt (claim_time e) w (db_step pt e (wdb w)) {} [] []"
    using assms(1) by (intro writes_unchanged) (simp_all add: keys_kept_def world_inv_def)
  then show ?thesis by blast
next
  case False
  then show ?thesis
    using assms
    by (cases e) (auto simp: moves_no_key_def update_interpret_result_def merge_metadata_def
        intro!: pointers_writes)
qed

lemma statement_writes:
  assumes "world_inv pt w" "event_ok pt e w" "statement pt e (wdb w) = Some (now, d')"
  shows "\<exists>N pk rel. writes pt now w d' N pk rel"
proof (cases e)
  case (Claiming c)
  with assms show ?thesis using claim_writes by auto
next
  case (Reserve now k)
  with assms show ?thesis using reserve_writes by simp blast
next
  case (Publish now gen rid c)
  with assms show ?thesis using publish_writes by simp blast
next
  case (New_Version now c v)
  with assms show ?thesis using version_writes by simp blast
next
  case (Commit_Lake now c)
  with assms show ?thesis using commit_writes by simp blast
next
  case (Expire_Uploads now ttl)
  with assms show ?thesis using expire_writes by simp blast
next
  case (Prepare now k md rid)
  with assms show ?thesis using prepare_writes by simp blast
next
  case (Promote now gen rid k n)
  with assms show ?thesis using promote_writes by simp blast
qed (use assms(3) in simp_all)

lemma delete_many_subset: "set (delete_many refuses ks) \<subseteq> set ks"
proof (induction refuses ks rule: delete_many.induct)
  case (1 refuses ks)
  show ?case
  proof (cases "ks = []")
    case True
    then show ?thesis by (simp add: delete_many.simps)
  next
    case False
    then show ?thesis using 1 [OF False refl] set_take_subset [of DELETE_BATCH_SIZE ks]
        set_drop_subset [of DELETE_BATCH_SIZE ks]
      by (subst delete_many.simps) (auto simp: Let_def)
  qed
qed

lemma doomed_clock: "doomed pt w k \<Longrightarrow> wclk w \<le> now \<Longrightarrow> doomed pt (w\<lparr>wclk := now\<rparr>) k"
  by (fastforce simp: doomed_def recorded_def)

lemma doomed_cong:
  "wdb w' = wdb w \<Longrightarrow> seen w' = seen w \<Longrightarrow> wclk w' = wclk w \<Longrightarrow> doomed pt w' k = doomed pt w k"
  by (simp add: doomed_def)

lemma recorded_names:
  "recorded now k d \<or> k \<in> names pt d \<or> k \<in> version_keys d \<Longrightarrow> k \<in> all_keys pt d"
  by (auto simp: recorded_def all_keys_def ledger_def)

lemma due_orphans_row:
  "k \<in> set (due_orphans now d) \<Longrightarrow> \<exists>r \<in> set (orphans d). orphan_key r = k \<and> orphan_expires_at r < now"
  by (auto simp: due_orphans_def table_simps dest!: in_set_takeD)

text \<open>A key a sweep lists is a version's, or nothing names it and nothing will.\<close>

lemma listed_ok:
  assumes "world_inv pt w" "wclk w \<le> now" "k \<in> set (due_orphans now (wdb w))"
  shows "k \<in> version_keys (wdb w) \<or> doomed pt (w\<lparr>wclk := now\<rparr>) k"
proof -
  obtain r where r: "r \<in> set (orphans (wdb w))" "orphan_key r = k" "orphan_expires_at r < now"
    using due_orphans_row [OF assms(3)] by blast
  then have led: "k \<in> ledger (wdb w)" by (auto simp: ledger_def)
  have dist: "distinct (map orphan_key (orphans (wdb w)))"
    using assms(1) by (simp add: world_inv_def ids_ok_def)
  have "\<not> recorded now k (wdb w)"
  proof
    assume "recorded now k (wdb w)"
    then obtain r' where "r' \<in> set (orphans (wdb w))" "orphan_key r' = k" "now \<le> orphan_expires_at r'"
      by (auto simp: recorded_def)
    moreover from this r dist have "r' = r" by (auto simp: distinct_map dest: inj_onD)
    ultimately show False using r by simp
  qed
  moreover have "k \<notin> names pt (wdb w) \<or> k \<in> version_keys (wdb w)" "k \<in> seen w"
    using assms(1) led by (auto simp: world_inv_def all_keys_def)
  ultimately show ?thesis by (auto simp: doomed_def)
qed

lemma sweep_ok_mono:
  assumes "sweep_ok pt w ph" "version_keys (wdb w) \<subseteq> version_keys (wdb w')"
    and "\<And>k. doomed pt w k \<Longrightarrow> doomed pt w' k" "\<And>k. doomed pt w k \<Longrightarrow> k \<in> objects w' \<Longrightarrow> k \<in> objects w"
  shows "sweep_ok pt w' ph"
  using assms by (cases ph) fastforce+

lemma inv_phase:
  assumes "world_inv pt w" "sweep_ok pt w ph"
  shows "world_inv pt (at_phase i ph w)"
proof -
  have "sweep_ok pt (at_phase i ph w) (sweeping w j)" for j
    by (rule sweep_ok_mono [of pt w]) (use assms(1) in \<open>simp_all add: world_inv_def at_phase_def doomed_def\<close>)
  moreover have "sweep_ok pt (at_phase i ph w) ph"
    by (rule sweep_ok_mono [of pt w]) (use assms(2) in \<open>simp_all add: at_phase_def doomed_def\<close>)
  ultimately show ?thesis using assms(1) by (simp add: world_inv_def at_phase_def)
qed

lemma inv_put:
  assumes "world_inv pt w" "recorded (wclk w) k (wdb w) \<or> k \<in> names pt (wdb w) \<or> k \<in> version_keys (wdb w)"
  shows "world_inv pt (w\<lparr>objects := insert k (objects w)\<rparr>)"
proof -
  have "k \<in> all_keys pt (wdb w)" using assms(2) by (rule recorded_names)
  moreover have new: "\<not> doomed pt w k" using assms(2) by (auto simp: doomed_def)
  moreover have "sweep_ok pt (w\<lparr>objects := insert k (objects w)\<rparr>) (sweeping w i)" for i
    by (rule sweep_ok_mono [of pt w]) (use assms(1) new in \<open>auto simp: world_inv_def doomed_def\<close>)
  ultimately show ?thesis using assms(1) by (simp add: world_inv_def all_keys_def)
qed

lemma inv_list:
  assumes "world_inv pt w" "wclk w \<le> now"
  shows "world_inv pt (sweep_list i now w)"
proof -
  let ?w = "w\<lparr>wclk := now\<rparr>"
  have "sweep_ok pt ?w (sweeping w j)" for j
    by (rule sweep_ok_mono [of pt w]) (use assms in \<open>auto simp: world_inv_def intro: doomed_clock\<close>)
  then have "world_inv pt ?w" using assms(1) by (simp add: world_inv_def)
  moreover have "sweep_ok pt ?w (if due_orphans now (wdb w) = [] then Idle else Listed (due_orphans now (wdb w)))"
    using listed_ok [OF assms] by simp
  ultimately have "world_inv pt (at_phase i (if due_orphans now (wdb w) = [] then Idle
      else Listed (due_orphans now (wdb w))) ?w)" by (rule inv_phase)
  then show ?thesis by (simp add: sweep_list_def Let_def)
qed

lemma inv_check:
  assumes "world_inv pt w"
  shows "world_inv pt (sweep_check pt i w)"
proof (cases "sweeping w i")
  case (Listed ks)
  have ids: "ids_ok (wdb w)" using assms by (simp add: world_inv_def)
  have "sweep_ok pt w (Listed ks)" using assms Listed by (simp add: world_inv_def flip: Listed)
  then have "\<forall>k \<in> set ks. k \<in> version_keys (wdb w) \<or> doomed pt w k" by simp
  then have "sweep_ok pt w (Checked (referenced pt ks (wdb w)) (filter (\<lambda>k. k \<notin> set (referenced pt ks (wdb w))) ks))"
    using is_referenced_iff [OF ids] by (auto simp: referenced_def doomed_def)
  then show ?thesis using assms Listed by (simp add: sweep_check_def Let_def inv_phase)
qed (use assms in \<open>simp_all add: sweep_check_def\<close>)

lemma inv_delete:
  assumes "world_inv pt w"
  shows "world_inv pt (sweep_delete i refuses w)"
proof (cases "sweeping w i")
  case (Checked live dead)
  let ?gone = "delete_many refuses dead"
  let ?w = "w\<lparr>objects := objects w - set ?gone\<rparr>"
  have "sweep_ok pt w (Checked live dead)" using assms Checked by (simp add: world_inv_def flip: Checked)
  then have "sweep_ok pt ?w (Deleted live ?gone)"
    using delete_many_subset [of refuses dead] by (auto simp: doomed_def)
  moreover have "sweep_ok pt ?w (sweeping w j)" for j
    by (rule sweep_ok_mono [of pt w]) (use assms in \<open>auto simp: world_inv_def doomed_def\<close>)
  then have "world_inv pt ?w" using assms by (auto simp: world_inv_def)
  ultimately have "world_inv pt (at_phase i (Deleted live ?gone) ?w)" by (intro inv_phase)
  then show ?thesis using Checked by (simp add: sweep_delete_def Let_def)
qed (use assms in \<open>simp_all add: sweep_delete_def\<close>)

lemma inv_untrack:
  assumes "world_inv pt w"
  shows "world_inv pt (sweep_untrack i w)"
proof (cases "sweeping w i")
  case (Deleted live gone)
  let ?os = "untrack (gone @ live) (orphans (wdb w))"
  let ?d = "(wdb w)\<lparr>orphans := ?os\<rparr>"
  let ?w = "w\<lparr>wdb := ?d\<rparr>"
  have ok: "sweep_ok pt w (Deleted live gone)" using assms Deleted by (simp add: world_inv_def flip: Deleted)
  have led: "ledger ?d = ledger (wdb w) - set (gone @ live)"
    by (simp add: ledger_def untrack_keys)
  have nm: "names pt ?d = names pt (wdb w)" "one_place pt ?d = one_place pt (wdb w)"
    by (simp_all add: names_def one_place_def)
  have ids: "ids_ok ?d" using assms by (simp add: world_inv_def ids_ok_def untrack_distinct)
  have "recorded (wclk w) k ?d \<Longrightarrow> recorded (wclk w) k (wdb w)" for k
    by (auto simp: recorded_def set_untrack)
  then have kept: "doomed pt ?w k" if "doomed pt w k" for k
    using that nm by (auto simp: doomed_def)
  have sw: "sweep_ok pt ?w (sweeping w j)" for j
    by (rule sweep_ok_mono [of pt w]) (use assms kept in \<open>simp_all add: world_inv_def\<close>)
  have obj: "objects w \<subseteq> names pt (wdb w) \<union> version_keys (wdb w) \<union> (ledger (wdb w) - set (gone @ live))"
    using assms ok by (auto simp: world_inv_def)
  have "world_inv pt ?w"
    using assms sw obj ids unfolding world_inv_def by (auto simp: nm led all_keys_def)
  from inv_phase [OF this, of Idle i] show ?thesis
    using Deleted by (simp add: sweep_untrack_def)
qed (use assms in \<open>simp_all add: sweep_untrack_def\<close>)

lemma world_inv_step:
  assumes "world_inv pt w" "world_ok pt e w"
  shows "world_inv pt (world_step pt e w)"
proof (cases "statement pt e (wdb w)")
  case (Some nd)
  obtain now d' where nd: "nd = (now, d')" by (cases nd)
  with Some assms(2) have "event_ok pt e w" "wclk w \<le> now" by (simp_all add: world_ok_def)
  with statement_writes [OF assms(1)] Some nd obtain N pk rel where "writes pt now w d' N pk rel" by blast
  from write_keeps [OF assms(1) this \<open>wclk w \<le> now\<close>] show ?thesis
    using Some nd by (simp add: world_step_def)
next
  case None
  then have step: "event_ok pt e w" using assms(2) by (simp add: world_ok_def)
  show ?thesis
    using assms(1) step None
    by (cases e) (simp_all add: world_step_def inv_put inv_list inv_check inv_delete inv_untrack inv_phase)
qed

interpretation storage: machine "world_step pt" "world_inv pt" "world_ok pt"
  by unfold_locales (rule world_inv_step)

end
