(* ===== verification/Storage_Guarantees.thy ===== *)
theory Storage_Guarantees
  imports Storage_Machine Samples "HOL-Library.Sublist"
begin

text \<open>
  What the storage machine gives: a referenced object is never deleted, no object is lost
  track of, a sweep reclaims what is due, and the content pointer moves by
  compare-and-swap.
\<close>

subsection \<open>Helper lemmas\<close>

text \<open>The only event that takes an object away is a sweep's delete, and what it takes is doomed.\<close>

lemma delete_takes_doomed:
  assumes "world_inv pt w" "k \<in> objects w" "k \<notin> objects (world_step pt e w)"
  shows "doomed pt w k"
proof (cases e)
  case (Sweep_Delete i refuses)
  then show ?thesis
  proof (cases "sweeping w i")
    case (Checked live dead)
    then have "sweep_ok pt w (Checked live dead)" using assms(1) by (simp add: world_inv_def flip: Checked)
    moreover have "k \<in> set (delete_many refuses dead)"
      using assms(2,3) Sweep_Delete Checked by (simp add: world_step_def sweep_delete_def Let_def at_phase_def)
    ultimately show ?thesis using delete_many_subset [of refuses dead] by auto
  qed (use assms(2,3) Sweep_Delete in \<open>simp_all add: world_step_def sweep_delete_def\<close>)
next
  case (Sweep_Check i)
  then show ?thesis using assms(2,3)
    by (cases "sweeping w i") (simp_all add: world_step_def sweep_check_def Let_def at_phase_def)
next
  case (Sweep_Untrack i)
  then show ?thesis using assms(2,3)
    by (cases "sweeping w i") (simp_all add: world_step_def sweep_untrack_def at_phase_def)
qed (use assms(2,3) in \<open>simp_all add: world_step_def wrote_db_def sweep_list_def Let_def at_phase_def\<close>)

lemma publish_hit:
  assumes "ids_ok d" "row_of res_id (resources d) rid = Some r"
  shows "fst (publish_live_content now gen rid c d) \<longleftrightarrow>
    res_storage_key r = pc_previous_key c \<and> still_held d (pc_claim c)"
  using assms list_ex_row_of [of res_id "resources d" rid r
      "\<lambda>r. res_storage_key r = pc_previous_key c \<and> still_held d (pc_claim c)"]
  by (simp add: publish_live_content_def Let_def ids_ok_def)

lemma published_row_id [simp]: "res_id (published_row now gen c r) = res_id r"
  by (simp add: published_row_def)

lemma delete_many_filter: "delete_many (filter refused) keys = filter (\<lambda>k. \<not> refused k) keys"
proof (induction "filter refused" keys rule: delete_many.induct)
  case (1 keys)
  show ?case
  proof (cases "keys = []")
    case False
    have "filter (\<lambda>k. k \<notin> set (filter refused b)) b = filter (\<lambda>k. \<not> refused k) b" for b
      by (rule filter_cong) auto
    then have "delete_many (filter refused) keys =
        filter (\<lambda>k. \<not> refused k) (take DELETE_BATCH_SIZE keys)
        @ filter (\<lambda>k. \<not> refused k) (drop DELETE_BATCH_SIZE keys)"
      using 1 [OF False refl] False by (subst delete_many.simps) (simp add: Let_def)
    then show ?thesis by (simp flip: filter_append)
  qed (simp add: delete_many.simps)
qed

lemma delete_many_subseq: "subseq (delete_many refuses keys) keys"
proof (induction refuses keys rule: delete_many.induct)
  case (1 refuses keys)
  show ?case
  proof (cases "keys = []")
    case False
    have "subseq (filter (\<lambda>k. k \<notin> set (refuses (take DELETE_BATCH_SIZE keys))) (take DELETE_BATCH_SIZE keys)
        @ delete_many refuses (drop DELETE_BATCH_SIZE keys))
      (take DELETE_BATCH_SIZE keys @ drop DELETE_BATCH_SIZE keys)"
      by (intro list_emb_append_mono subseq_filter_left 1 [OF False refl])
    then show ?thesis using False by (subst delete_many.simps) (simp add: Let_def)
  qed (simp add: delete_many.simps)
qed

subsection \<open>A world to apply them to\<close>

text \<open>\<open>''a''\<close> is resource 10's content; \<open>''b''\<close> is on the ledger and overdue.\<close>

definition sample_world :: world where
  "sample_world = \<lparr>wclk = 5, wdb = sample_db\<lparr>orphans := [\<lparr>orphan_key = ''b'', orphan_expires_at = 3\<rparr>]\<rparr>,
     objects = {''a'', ''b''}, seen = {''a'', ''b''}, sweeping = (\<lambda>_. Idle)\<rparr>"

definition sample_content :: published_content where
  "sample_content = \<lparr>pc_key = Some ''c'', pc_previous_key = Some ''a'', pc_hash = Some ''h'', pc_size = Some 1,
     pc_previous_hash = None, pc_format = None, pc_key_columns = None, pc_claim = None\<rparr>"

lemma sample_db_ids: "ids_ok sample_db"
  by (simp add: ids_ok_def sample_db_def sample_resource_def new_pipeline_row_def)

lemma sample_named:
  "named pt (wdb sample_world) pl = (if pl = Live 10 then Some ''a'' else None)"
  by (cases pl) (auto simp: sample_world_def sample_db_def sample_resource_def less_Suc_eq nth_Cons
      split: nat.split)

lemma sample_world_ok: "world_inv pt sample_world"
proof -
  have "names pt (wdb sample_world) = {''a''}" "one_place pt (wdb sample_world)"
    by (auto simp: names_def one_place_def sample_named split: if_splits)
  then show ?thesis
    by (simp add: world_inv_def all_keys_def)
      (simp add: sample_world_def version_keys_def ledger_def ids_ok_def sample_db_def sample_resource_def
        new_pipeline_row_def)
qed

subsection \<open>Properties\<close>

text \<open>
  C12. In every world reached by any interleaving of writers, claims, arriving objects and
  sweeps, the next event, whatever it is, leaves in the bucket every object that some
  pointer names: a sweep that listed a key, checked it and was overtaken any number of
  times before it deletes still deletes nothing that is referenced by then.
\<close>

theorem referenced_object_survives:
  assumes "world_inv pt w" "steps_ok (world_ok pt) (world_step pt) es w"
    and "w' = run_steps (world_step pt) es w"
    and "k \<in> objects w'" "is_referenced pt (wdb w') k"
  shows "k \<in> objects (world_step pt e w')"
proof (rule ccontr)
  have inv: "world_inv pt w'" unfolding assms(3) by (rule storage.inv_run [OF assms(1,2)])
  assume "k \<notin> objects (world_step pt e w')"
  with inv assms(4) have "doomed pt w' k" by (rule delete_takes_doomed)
  with assms(5) inv show False
    by (auto simp: world_inv_def is_referenced_iff doomed_def)
qed

lemma referenced_object_survives_witness:
  "''a'' \<in> objects (world_step (\<lambda>_. []) (Sweep_Delete 0 (\<lambda>_. []))
     (run_steps (world_step (\<lambda>_. [])) [Sweep_List 0 6, Sweep_Check 0] sample_world))"
proof -
  have due: "due_orphans 6 (wdb sample_world) = [''b'']" by code_simp
  have live: "referenced (\<lambda>_. []) [''b''] (wdb sample_world) = []"
    "is_referenced (\<lambda>_. []) (wdb sample_world) ''a''" by code_simp+
  have clk: "wclk sample_world = 5" "''a'' \<in> objects sample_world" by (simp_all add: sample_world_def)
  show ?thesis
    by (rule referenced_object_survives [OF sample_world_ok _ refl])
      (simp_all add: world_ok_def world_step_def sweep_list_def sweep_check_def at_phase_def due live clk)
qed

text \<open>
  C13. In every such world each object in the bucket is accounted for: a pointer names it,
  or the ledger has its key for a sweep to find. In particular a process that dies between
  recording a key, writing the object and committing the pointer strands nothing.
\<close>

theorem no_object_stranded:
  assumes "world_inv pt w" "steps_ok (world_ok pt) (world_step pt) es w"
    and "w' = run_steps (world_step pt) es w" "k \<in> objects w'"
  shows "is_referenced pt (wdb w') k \<or> k \<in> set (map orphan_key (orphans (wdb w')))"
proof -
  have "world_inv pt w'" unfolding assms(3) by (rule storage.inv_run [OF assms(1,2)])
  then show ?thesis using assms(4)
    by (auto simp: world_inv_def is_referenced_iff ledger_def)
qed

lemma no_object_stranded_witness:
  "is_referenced (\<lambda>_. []) (wdb (run_steps (world_step (\<lambda>_. [])) [Sweep_List 0 6] sample_world)) ''b''
   \<or> ''b'' \<in> set (map orphan_key (orphans (wdb (run_steps (world_step (\<lambda>_. [])) [Sweep_List 0 6] sample_world))))"
proof -
  have clk: "wclk sample_world = 5" "''b'' \<in> objects sample_world" by (simp_all add: sample_world_def)
  show ?thesis
    by (rule no_object_stranded [OF sample_world_ok _ refl])
      (simp_all add: world_ok_def world_step_def sweep_list_def at_phase_def Let_def clk)
qed

text \<open>
  A sweep with nothing in between is the composition of its four calls: the world the
  list, the check, the delete and the untracking leave one after the other is the one
  \<open>sweep_orphaned_objects\<close> describes, in the ledger, in the bucket and in the sweep's state.
\<close>

theorem sweep_refines_phases:
  assumes "sweeping w i = Idle"
    and "sweep_orphaned_objects pt now refuses (wdb w) = (report, gone, d')"
  shows "run_steps (world_step pt)
      [Sweep_List i now, Sweep_Check i, Sweep_Delete i refuses, Sweep_Untrack i] w
    = w\<lparr>wclk := now, wdb := d', objects := objects w - set gone\<rparr>"
proof (cases "due_orphans now (wdb w) = []")
  case True
  have idle: "(sweeping w)(i := Idle) = sweeping w" using assms(1) by auto
  from True assms show ?thesis
    by (auto simp: sweep_orphaned_objects_def world_step_def sweep_list_def sweep_check_def
        sweep_delete_def sweep_untrack_def at_phase_def idle)
next
  case False
  have idle: "(sweeping w)(i := Idle) = sweeping w" using assms(1) by auto
  from False assms show ?thesis
    by (auto simp: sweep_orphaned_objects_def world_step_def sweep_list_def sweep_check_def
        sweep_delete_def sweep_untrack_def at_phase_def Let_def idle)
qed

lemma sweep_refines_phases_witness:
  "run_steps (world_step (\<lambda>_. [])) [Sweep_List 0 6, Sweep_Check 0, Sweep_Delete 0 (\<lambda>_. []), Sweep_Untrack 0]
      sample_world
    = sample_world\<lparr>wclk := 6, wdb := sample_db, objects := {''a'', ''b''} - set [''b'']\<rparr>"
proof -
  have "sweep_orphaned_objects (\<lambda>_. []) 6 (\<lambda>_. []) (wdb sample_world)
      = (\<lparr>scanned = 1, deleted = 1, still_referenced = 0\<rparr>, [''b''], sample_db)"
    by code_simp
  from sweep_refines_phases [of sample_world 0, OF _ this] show ?thesis
    by (simp add: sample_world_def)
qed

text \<open>
  C38. The content pointer moves by compare-and-swap. A publish applies exactly when the
  resource still points where the writer started and its claim, if it has one, still
  holds; then the row is the published one, its own write-ahead record is gone, and the
  object it stepped off is on the ledger unless a version owns it. A publish that does not
  apply changes no resource, and puts the writer's own object on the ledger instead.
\<close>

theorem publish_swaps:
  assumes "ids_ok d" "row_of res_id (resources d) rid = Some r"
    and "publish_live_content now gen rid c d = (ok, d')"
  shows "(ok \<longleftrightarrow> res_storage_key r = pc_previous_key c \<and> still_held d (pc_claim c))
    \<and> row_of res_id (resources d') rid = Some (if ok then published_row now gen c r else r)
    \<and> (\<forall>rid'. rid' \<noteq> rid \<longrightarrow> row_of res_id (resources d') rid' = row_of res_id (resources d) rid')
    \<and> (\<forall>k. ok \<and> pc_key c = Some k \<longrightarrow> k \<notin> ledger d')
    \<and> (\<forall>k. ok \<and> pc_previous_key c = Some k \<and> pc_key c \<noteq> Some k \<and> \<not> owned_by_version k d \<longrightarrow> k \<in> ledger d')
    \<and> (\<forall>k. \<not> ok \<and> pc_key c = Some k \<and> \<not> owned_by_version k d \<longrightarrow> k \<in> ledger d')"
proof -
  have e: "ok = fst (publish_live_content now gen rid c d)" "d' = snd (publish_live_content now gen rid c d)"
    using assms(3) by simp_all
  have ok: "ok \<longleftrightarrow> res_storage_key r = pc_previous_key c \<and> still_held d (pc_claim c)"
    using publish_hit [OF assms(1,2), of now gen c] assms(3) by simp
  have rows: "row_of res_id (resources d') i =
      map_option (\<lambda>x. if res_id x = rid \<and> res_storage_key x = pc_previous_key c \<and> still_held d (pc_claim c)
          then published_row now gen c x else x) (row_of res_id (resources d) i)" for i
    using assms(3) by (auto simp: publish_live_content_def Let_def row_of_update_where)
  have id: "row_of res_id (resources d) i = Some x \<Longrightarrow> res_id x = i" for i x
    using row_of_SomeD by fastforce
  have "row_of res_id (resources d') rid = Some (if ok then published_row now gen c r else r)"
    using assms(2) ok id by (simp add: rows)
  moreover have "row_of res_id (resources d') i = row_of res_id (resources d) i" if "i \<noteq> rid" for i
    using that id by (cases "row_of res_id (resources d) i") (auto simp: rows)
  moreover have "ledger d' = (ledger d \<union> set (case (if ok then (if pc_previous_key c = pc_key c then None
      else pc_previous_key c) else pc_key c) of None \<Rightarrow> [] | Some k \<Rightarrow> if owned_by_version k d then [] else [k]))
      - set (case pc_key c of None \<Rightarrow> [] | Some k \<Rightarrow> if ok then [k] else [])"
    unfolding e by (simp add: publish_live_content_def Let_def ledger_def untrack_keys park_keys)
  ultimately show ?thesis using ok by auto
qed

lemma publish_swaps_witness:
  "row_of res_id (resources (snd (publish_live_content 6 9 10 sample_content sample_db))) 10
     = Some (published_row 6 9 sample_content (sample_resource 10 (Some ''a'')))
   \<and> ''a'' \<in> ledger (snd (publish_live_content 6 9 10 sample_content sample_db))"
proof -
  have r: "row_of res_id (resources sample_db) 10 = Some (sample_resource 10 (Some ''a''))"
    by (simp add: sample_db_def sample_resource_def)
  have c: "fst (publish_live_content 6 9 10 sample_content sample_db)" by code_simp
  have v: "\<not> owned_by_version ''a'' sample_db" by code_simp
  have k: "pc_previous_key sample_content = Some ''a''" "pc_key sample_content \<noteq> Some ''a''" by code_simp+
  from publish_swaps [OF sample_db_ids r surjective_pairing, of 6 9 sample_content] c v k
  show ?thesis by simp
qed

text \<open>
  Of two writers that started from the same content, at most one publishes: once one
  has moved the pointer to its object, the other's publish is refused, leaves every
  resource as it is, and its object goes to the ledger.
\<close>

theorem later_publisher_refused:
  assumes "ids_ok d" "row_of res_id (resources d) rid = Some r"
    and "publish_live_content now gen rid c d = (True, d1)"
    and "publish_live_content now' gen' rid c' d1 = (ok, d2)"
    and "pc_previous_key c' = pc_previous_key c" "pc_key c \<noteq> pc_previous_key c"
  shows "\<not> ok \<and> resources d2 = resources d1
    \<and> (\<forall>k. pc_key c' = Some k \<and> \<not> owned_by_version k d1 \<longrightarrow> k \<in> ledger d2)"
proof -
  have d1: "d1 = snd (publish_live_content now gen rid c d)" using assms(3) by simp
  have "map res_id (resources d1) = map res_id (resources d)" unfolding d1 by (rule resources_publish_ids)
  moreover have "pipelines d1 = pipelines d" unfolding d1 by (simp add: publish_live_content_def Let_def)
  moreover have "distinct (map orphan_key (orphans d1))"
    using assms(1) unfolding d1 by (simp add: publish_live_content_def Let_def ids_ok_ledger)
  ultimately have ids: "ids_ok d1" using assms(1) by (simp add: ids_ok_def)
  have row: "row_of res_id (resources d1) rid = Some (published_row now gen c r)"
    using publish_hit [OF assms(1,2), of now gen c] assms(2,3) row_of_SomeD [OF assms(2)] unfolding d1
    by (auto simp: publish_live_content_def Let_def row_of_update_where)
  have no: "\<not> ok" using publish_hit [OF ids row, of now' gen' c'] assms(4-6) by (simp add: published_row_def)
  moreover have "resources d2 = resources d1"
    using publish_refused [of now' gen' rid c' d1] no assms(4) by simp
  moreover have "k \<in> ledger d2" if "pc_key c' = Some k" "\<not> owned_by_version k d1" for k
    using publish_refused [of now' gen' rid c' d1] no assms(4) that by (simp add: ledger_def park_keys)
  ultimately show ?thesis by blast
qed

lemma later_publisher_refused_witness:
  "\<not> fst (publish_live_content 7 8 10 (sample_content\<lparr>pc_key := Some ''e''\<rparr>)
      (snd (publish_live_content 6 9 10 sample_content sample_db)))"
proof -
  have r: "row_of res_id (resources sample_db) 10 = Some (sample_resource 10 (Some ''a''))"
    by (simp add: sample_db_def sample_resource_def)
  have "fst (publish_live_content 6 9 10 sample_content sample_db)" by code_simp
  then have "publish_live_content 6 9 10 sample_content sample_db
      = (True, snd (publish_live_content 6 9 10 sample_content sample_db))"
    by (metis prod.collapse)
  from later_publisher_refused [OF sample_db_ids r this surjective_pairing] show ?thesis
    by (simp add: sample_content_def)
qed

text \<open>
  Deleting in batches is deleting at once: whatever the backend answers, \<open>deleteMany\<close>
  reports only keys it was given, in their order and each as often; and where the
  backend's errors depend on the key alone, it reports exactly the keys that are not
  refused, however many requests that takes.
\<close>

theorem delete_many_by_key:
  "subseq (delete_many refuses keys) keys
    \<and> delete_many (filter refused) keys = filter (\<lambda>k. \<not> refused k) keys"
  using delete_many_subseq delete_many_filter by blast

text \<open>
  What one undisturbed sweep does: of the keys it lists, it deletes exactly those that
  nothing references and the backend lets go, and it takes off the ledger exactly those and
  the ones something references; a refused delete stays on the ledger for a later sweep.
  It changes no other table.
\<close>

theorem sweep_reclaims:
  assumes "sweep_orphaned_objects pt now (filter refused) d = (report, gone, d')"
  shows "set gone = {k \<in> set (due_orphans now d). \<not> is_referenced pt d k \<and> \<not> refused k}
    \<and> ledger d' = ledger d - {k \<in> set (due_orphans now d). is_referenced pt d k \<or> \<not> refused k}
    \<and> d' = d\<lparr>orphans := orphans d'\<rparr>
    \<and> deleted report = length gone \<and> length gone \<le> scanned report
    \<and> scanned report \<le> ORPHAN_CLEANUP_BATCH_SIZE"
proof -
  let ?due = "due_orphans now d"
  have len: "length ?due \<le> ORPHAN_CLEANUP_BATCH_SIZE" by (simp add: due_orphans_def)
  have gone: "gone = filter (\<lambda>k. \<not> refused k) (filter (\<lambda>k. k \<notin> set (referenced pt ?due d)) ?due)"
    using assms by (auto simp: sweep_orphaned_objects_def Let_def delete_many_filter split: if_splits)
  then have set: "set gone = {k \<in> set ?due. \<not> is_referenced pt d k \<and> \<not> refused k}"
    by (auto simp: referenced_def)
  have d': "d' = d\<lparr>orphans := untrack (gone @ referenced pt ?due d) (orphans d)\<rparr>"
  proof (cases "?due = []")
    case True
    then show ?thesis using assms
      by (auto simp: sweep_orphaned_objects_def referenced_def untrack_def delete_where_def)
  next
    case False
    then show ?thesis using assms unfolding sweep_orphaned_objects_def Let_def by auto
  qed
  then have only: "d' = d\<lparr>orphans := orphans d'\<rparr>" by simp
  have "ledger d' = ledger d - (set gone \<union> set (referenced pt ?due d))"
    unfolding d' by (simp add: ledger_def untrack_keys)
  then have led: "ledger d' = ledger d - {k \<in> set ?due. is_referenced pt d k \<or> \<not> refused k}"
    unfolding set by (auto simp: referenced_def)
  have "length gone \<le> length ?due" unfolding gone by (metis le_trans length_filter_le)
  then have "deleted report = length gone \<and> length gone \<le> scanned report
      \<and> scanned report \<le> ORPHAN_CLEANUP_BATCH_SIZE"
    using assms len by (auto simp: sweep_orphaned_objects_def Let_def split: if_splits)
  then show ?thesis using set led only by (intro conjI) simp_all
qed

lemma sweep_reclaims_witness:
  "ledger (snd (snd (sweep_orphaned_objects (\<lambda>_. []) 6 (filter (\<lambda>_. False)) (wdb sample_world)))) = {}"
proof -
  have "sweep_orphaned_objects (\<lambda>_. []) 6 (filter (\<lambda>_. False)) (wdb sample_world)
      = (\<lparr>scanned = 1, deleted = 1, still_referenced = 0\<rparr>, [''b''], sample_db)"
    "due_orphans 6 (wdb sample_world) = [''b'']" "\<not> is_referenced (\<lambda>_. []) (wdb sample_world) ''b''"
    by code_simp+
  from sweep_reclaims [OF this(1), THEN conjunct2, THEN conjunct1] this show ?thesis
    by (auto simp: ledger_def sample_world_def)
qed

end
