(* ===== verification/Version_Gate.thy ===== *)
theory Version_Gate
  imports Ledger
begin

text \<open>
  When content becomes a version: the identity of a version
  (\<open>shared/src/version-identity.ts\<close>, \<open>shared/src/column-settings.ts\<close>), the create gate
  (\<open>worker/src/pipeline/run/version-gate.ts\<close>) and \<open>createVersion\<close> of
  \<open>worker/src/pipeline/run/build-context.ts\<close>, over a \<open>store\<close>: the database, the bucket,
  the content index, the jobs asked for and the audit log. Keys and revisions minted at
  random are arguments, and so is what others commit between a run's statements
  (\<open>between\<close>, \<open>later\<close>).
\<close>

subsection \<open>The stores a service writes to\<close>

datatype version_job = Purge_Version uuid int | Rebuild uuid

record audit_entry =
  au_resource :: uuid
  au_action :: string
  au_user :: "uuid option"
  au_version :: int
  au_reason :: "string option"
  au_rolled_back :: "bool option"

record store =
  sdb :: db
  bucket :: "key set"
  indexed :: "uuid set"
  asked :: "version_job list"
  audit :: "audit_entry list"

datatype service_error = Not_Found | No_Object key | Unavailable string

type_synonym 'a reply = "service_error failure + 'a"

text \<open>
  \<open>copyObject\<close>: the destination is recorded first. The backend refuses a source it does not have.
\<close>

definition copy_object :: "time \<Rightarrow> key \<Rightarrow> key \<Rightarrow> store \<Rightarrow> unit reply \<times> store" where
  "copy_object now source dest s =
    (let s1 = s\<lparr>sdb := reserve_object now dest (sdb s)\<rparr>
     in if source \<in> bucket s then (Inr (), s1\<lparr>bucket := insert dest (bucket s1)\<rparr>)
        else (Inl (Failed (No_Object source)), s1))"

subsection \<open>Keys and identities\<close>

definition key_columns_of :: "string list option \<Rightarrow> string list option" where
  "key_columns_of columns =
    (case columns of None \<Rightarrow> None | Some cs \<Rightarrow> if length cs = 0 then None else Some cs)"

definition primary_key_of :: "json \<Rightarrow> string list option" where
  "primary_key_of settings = key_columns_of (stored_primary_key settings)"

definition same_key_columns :: "string list option \<Rightarrow> string list option \<Rightarrow> bool" where
  "same_key_columns a b =
    (case (a, b) of
       (Some xs, Some ys) \<Rightarrow> length xs = length ys \<and> list_all (\<lambda>i. xs ! i = ys ! i) [0..<length xs]
     | (None, None) \<Rightarrow> True
     | _ \<Rightarrow> False)"

definition shared_key_columns :: "string list option \<Rightarrow> string list option \<Rightarrow> string list option" where
  "shared_key_columns a b = (if same_key_columns a b then a else None)"

record version_identity =
  vi_hash :: "string option"
  vi_format :: "string option"
  vi_key_columns :: "string list option"

definition same_version_identity :: "version_identity \<Rightarrow> version_identity \<Rightarrow> bool" where
  "same_version_identity a b \<longleftrightarrow> vi_hash a = vi_hash b \<and> vi_format a = vi_format b
    \<and> same_key_columns (vi_key_columns a) (vi_key_columns b)"

text \<open>A version's own reading, as its row froze it.\<close>

definition frozen_identity :: "version_row \<Rightarrow> version_identity" where
  "frozen_identity v =
    \<lparr>vi_hash = ver_hash v, vi_format = ver_format v, vi_key_columns = ver_key_columns v\<rparr>"

subsection \<open>The gate\<close>

datatype version_result = Not_Created | Created int

record gate_input =
  gi_identity :: version_identity
  gi_latest_active :: "version_identity option"
  gi_published_key :: key
  gi_current_key :: "key option"
  gi_max_version :: "int option"
  gi_owner_purging :: bool

definition decide_version_create :: "gate_input \<Rightarrow> version_result" where
  "decide_version_create g =
    (if gi_current_key g \<noteq> Some (gi_published_key g) then Not_Created
     else if gi_owner_purging g then Not_Created
     else if (case gi_latest_active g of None \<Rightarrow> False
              | Some a \<Rightarrow> same_version_identity a (gi_identity g)) then Not_Created
     else Created ((case gi_max_version g of None \<Rightarrow> 0 | Some n \<Rightarrow> n) + 1))"

definition newest_active_version :: "uuid \<Rightarrow> db \<Rightarrow> version_row option" where
  "newest_active_version rid d =
    first_by (\<lambda>v. - ver_number v)
      (select_where (\<lambda>v. ver_resource v = rid \<and> ver_state v = ''active'') (versions d))"

definition version_origin :: "string option \<Rightarrow> string" where
  "version_origin url_type = (if url_type = Some ''upload'' then ''upload'' else ''fetch'')"

subsection \<open>Creating a version\<close>

record create_request =
  cr_resource :: uuid
  cr_key :: key
  cr_hash :: string
  cr_size :: int
  cr_claim :: "resource_claim option"

definition gate_of :: "create_request \<Rightarrow> db \<Rightarrow> gate_input" where
  "gate_of c d =
    (let res = row_of res_id (resources d) (cr_resource c)
     in \<lparr>gi_identity = \<lparr>vi_hash = Some (cr_hash c), vi_format = Option.bind res res_format,
          vi_key_columns = Option.bind res (\<lambda>r. primary_key_of (res_column_settings r))\<rparr>,
         gi_latest_active = map_option frozen_identity (newest_active_version (cr_resource c) d),
         gi_published_key = cr_key c,
         gi_current_key = Option.bind res res_storage_key,
         gi_max_version = max_version (cr_resource c) d,
         gi_owner_purging = object_owner_is_purging (cr_key c) d\<rparr>)"

text \<open>The row a creation adds; only its key differs between taking the object and copying it.\<close>

definition version_to_create :: "create_request \<Rightarrow> string \<Rightarrow> int \<Rightarrow> key \<Rightarrow> created_version" where
  "version_to_create c origin n k =
    \<lparr>cv_resource = cr_resource c, cv_version = n, cv_storage_key = k, cv_size = Some (cr_size c),
     cv_hash = Some (cr_hash c), cv_origin = origin, cv_schema = None, cv_restored_from = None,
     cv_schema_format = None\<rparr>"

definition copied_content :: "create_request \<Rightarrow> key \<Rightarrow> published_content" where
  "copied_content c k =
    \<lparr>pc_key = Some k, pc_previous_key = Some (cr_key c), pc_hash = Some (cr_hash c),
     pc_size = Some (cr_size c), pc_previous_hash = Some (cr_hash c), pc_format = None,
     pc_key_columns = None, pc_claim = cr_claim c\<rparr>"

text \<open>
  The transaction that files the copy: the owner of the source read again, the row and the
  pointer together or neither (\<open>None\<close>: \<open>LostTheClaim\<close>, rolled back).
\<close>

definition file_copy ::
  "time \<Rightarrow> uuid \<Rightarrow> create_request \<Rightarrow> created_version \<Rightarrow> db \<Rightarrow> db option" where
  "file_copy now revision c v d =
    (let owner = List.find (\<lambda>w. ver_storage_key w = cr_key c \<and> ver_state w \<noteq> ''purged'') (versions d)
     in if map_option ver_state owner = Some ''purging'' then None
        else let (inserted, d1) = insert_version_if_held now (cr_claim c) v d
             in if \<not> inserted then None
                else let (published, d2) =
                       publish_live_content now revision (cr_resource c) (copied_content c (cv_storage_key v)) d1
                     in if published then Some d2 else None)"

text \<open>
  \<open>between\<close> is what others commit after the gate has read, \<open>later\<close> what they commit after the
  run has asked whether its object is taken - and copied it, if it is - and before it writes.
\<close>

definition create_version ::
  "time \<Rightarrow> uuid \<Rightarrow> key \<Rightarrow> (db \<Rightarrow> db) \<Rightarrow> (db \<Rightarrow> db) \<Rightarrow> create_request \<Rightarrow> store \<Rightarrow> version_result reply \<times> store" where
  "create_version now revision fresh_key between later c s =
    (case decide_version_create (gate_of c (sdb s)) of
       Not_Created \<Rightarrow> (Inr Not_Created, s)
     | Created n \<Rightarrow>
         (let origin = version_origin (Option.bind (row_of res_id (resources (sdb s)) (cr_resource c)) res_url_type);
              s1 = s\<lparr>sdb := between (sdb s)\<rparr>
          in if \<not> object_already_versioned (cr_key c) (sdb s1)
             then let (inserted, d) =
                    insert_version_if_held now (cr_claim c) (version_to_create c origin n (cr_key c))
                      (later (sdb s1))
                  in (Inr (if inserted then Created n else Not_Created), s1\<lparr>sdb := d\<rparr>)
             else (case copy_object now (cr_key c) fresh_key s1 of
                     (Inl e, s2) \<Rightarrow> (Inl e, s2)
                   | (Inr _, s2) \<Rightarrow>
                       (let s3 = s2\<lparr>sdb := later (sdb s2)\<rparr>
                        in case file_copy now revision c (version_to_create c origin n fresh_key) (sdb s3) of
                             None \<Rightarrow> (Inr Not_Created, s3)
                           | Some d \<Rightarrow> (Inr (Created n), s3\<lparr>sdb := d\<rparr>)))))"

subsection \<open>What a run reads back\<close>

definition version_for_content ::
  "uuid \<Rightarrow> string \<Rightarrow> db \<Rightarrow> (int \<times> key \<times> int \<times> string option) option" where
  "version_for_content rid h d =
    map_option (\<lambda>v. (ver_number v, ver_storage_key v, case ver_size v of None \<Rightarrow> 0 | Some n \<Rightarrow> n, ver_format v))
    (first_by (\<lambda>v. - ver_number v)
      (select_where (\<lambda>v. ver_resource v = rid \<and> ver_state v = ''active'' \<and> ver_hash v = Some h) (versions d)))"

definition pending_lake_version :: "uuid \<Rightarrow> string \<Rightarrow> db \<Rightarrow> int option" where
  "pending_lake_version rid h d =
    map_option ver_number (first_by (\<lambda>v. - ver_number v)
      (select_where (\<lambda>v. ver_resource v = rid \<and> ver_state v = ''active'' \<and> ver_hash v = Some h
          \<and> ver_lake_snapshot v = None \<and> ver_lake_ingest_reason v = None) (versions d)))"

definition made_for_another_version :: "json \<Rightarrow> int \<Rightarrow> bool" where
  "made_for_another_version metadata n =
    (case member_of ''sourceVersion'' metadata of Some (JNum m) \<Rightarrow> m \<noteq> of_int n | _ \<Rightarrow> False)"

subsection \<open>Keys compare as lists\<close>

lemma same_key_columns_iff [simp]: "same_key_columns a b \<longleftrightarrow> a = b"
proof (cases "\<exists>xs ys. a = Some xs \<and> b = Some ys")
  case True
  then obtain xs ys where "a = Some xs" "b = Some ys" by blast
  then show ?thesis by (auto simp: same_key_columns_def list_all_iff intro: nth_equalityI)
next
  case False
  then show ?thesis by (cases a; cases b) (simp_all add: same_key_columns_def)
qed

lemma same_version_identity_iff [simp]: "same_version_identity a b \<longleftrightarrow> a = b"
  by (cases a; cases b) (simp add: same_version_identity_def)

lemma key_columns_of_idem [simp]: "key_columns_of (key_columns_of c) = key_columns_of c"
  by (simp add: key_columns_of_def split: option.split)

end
