(* ===== verification/Version_History.thy ===== *)
theory Version_History
  imports Version_Gate
begin

text \<open>
  What a resource's history may do: which version is served, publishing an old one again,
  emptying, claiming and executing a purge, and the revert
  (\<open>api/src/services/resource-version-service.ts\<close>). An operation that the code runs in a
  transaction returns the store unchanged when it throws. What the storage, the search index
  and the queue answer, layer 2 and what others commit meanwhile are arguments.
\<close>

subsection \<open>Which version is served\<close>

definition truthy :: "string option \<Rightarrow> bool" where
  "truthy x = (case x of None \<Rightarrow> False | Some s \<Rightarrow> s \<noteq> [])"

definition SERVING_STATES :: "string list" where
  "SERVING_STATES = [''active'', ''superseded'', ''purging'']"

definition live_version ::
  "uuid \<Rightarrow> key option \<Rightarrow> string option \<Rightarrow> string list \<Rightarrow> db \<Rightarrow> int option" where
  "live_version rid k h states d =
    (case (if truthy k then List.find (\<lambda>v. ver_resource v = rid \<and> Some (ver_storage_key v) = k
                                        \<and> ver_state v \<noteq> ''purged'') (versions d) else None) of
       Some w \<Rightarrow> if ver_state w \<in> set states then Some (ver_number w) else None
     | None \<Rightarrow>
         (if \<not> truthy h then None
          else map_option ver_number (first_by (\<lambda>v. - ver_number v)
            (select_where (\<lambda>v. ver_resource v = rid \<and> ver_state v \<in> set states \<and> ver_hash v = h)
              (versions d)))))"

definition live_version_number :: "uuid \<Rightarrow> db \<Rightarrow> int option" where
  "live_version_number rid d =
    (case row_of res_id (resources d) rid of
       None \<Rightarrow> None
     | Some r \<Rightarrow> live_version rid (res_storage_key r) (res_hash r) SERVING_STATES d)"

definition live_lake_key :: "uuid \<Rightarrow> db \<Rightarrow> string list option" where
  "live_lake_key rid d =
    (case row_of res_id (resources d) rid of
       None \<Rightarrow> None
     | Some r \<Rightarrow>
         (case first_by (\<lambda>v. - ver_number v)
                 (select_where (\<lambda>v. ver_resource v = rid \<and> ver_state v \<noteq> ''purged''
                    \<and> ver_hash v \<noteq> None \<and> ver_hash v = res_hash r) (versions d)) of
            None \<Rightarrow> None
          | Some v \<Rightarrow> if ver_lake_snapshot v = None \<or> ver_lake_ingest_reason v \<noteq> None then None
                     else key_columns_of (ver_key_columns v)))"

definition get_row :: "uuid \<Rightarrow> int \<Rightarrow> db \<Rightarrow> version_row option" where
  "get_row rid n d = List.find (\<lambda>v. ver_resource v = rid \<and> ver_number v = n) (versions d)"

definition get_download_target :: "uuid \<Rightarrow> int \<Rightarrow> db \<Rightarrow> (key \<times> int option) reply" where
  "get_download_target rid n d =
    (case get_row rid n d of
       None \<Rightarrow> Inl (Failed Not_Found)
     | Some v \<Rightarrow> if ver_state v = ''purged'' then Inl (Failed Not_Found)
                else Inr (ver_storage_key v, ver_size v))"

definition revert_context :: "uuid \<Rightarrow> db \<Rightarrow> int option \<times> uuid option" where
  "revert_context rid d =
    (let row = row_of res_id (resources d) rid;
         standing = live_version rid (Option.bind row res_storage_key) (Option.bind row res_hash) [''active''] d
     in (map_option ver_number (first_by (\<lambda>v. - ver_number v)
           (select_where (\<lambda>v. ver_resource v = rid \<and> ver_state v = ''active''
              \<and> (case standing of None \<Rightarrow> True | Some n \<Rightarrow> ver_number v < n)) (versions d))),
         map_option res_content_revision row))"

subsection \<open>What the history shows\<close>

definition MAX_PARQUET_SOURCE_SIZE :: int where "MAX_PARQUET_SOURCE_SIZE = 100 * 1024 * 1024"

definition no_table_reason :: "version_row \<Rightarrow> string option" where
  "no_table_reason v =
    (if truthy (ver_no_table_reason v) then ver_no_table_reason v
     else if (case ver_size v of None \<Rightarrow> False | Some n \<Rightarrow> MAX_PARQUET_SOURCE_SIZE < n) \<and> ver_schema v = None
     then Some ''too-large'' else None)"

record version_view =
  vw_version :: int
  vw_origin :: string
  vw_state :: string
  vw_is_live :: bool
  vw_purge_falls_back_to :: "int option"
  vw_format :: "string option"
  vw_key_columns :: "string list option"
  vw_size :: "int option"
  vw_hash :: "string option"
  vw_schema :: "json option"
  vw_no_table_reason :: "string option"
  vw_restored_from :: "int option"
  vw_purged_at :: "time option"

definition to_view :: "version_row \<Rightarrow> int option \<Rightarrow> int list \<Rightarrow> bool \<Rightarrow> version_view" where
  "to_view v live standing source_purged =
    (let purged = (ver_state v = ''purged'');
         is_live = (Some (ver_number v) = live)
     in \<lparr>vw_version = ver_number v, vw_origin = ver_origin v, vw_state = ver_state v, vw_is_live = is_live,
         vw_purge_falls_back_to =
           (if is_live then List.find (\<lambda>n. n \<noteq> ver_number v) standing else None),
         vw_format = ver_format v,
         vw_key_columns = (if purged then None else key_columns_of (ver_key_columns v)),
         vw_size = (if purged then None else ver_size v),
         vw_hash = (if purged then None else ver_hash v),
         vw_schema = (if purged then None else ver_schema v),
         vw_no_table_reason = (if purged then None else no_table_reason v),
         vw_restored_from = (if purged \<or> source_purged then None else ver_restored_from v),
         vw_purged_at = ver_purged_at v\<rparr>)"

definition versions_newest_first :: "uuid \<Rightarrow> db \<Rightarrow> version_row list" where
  "versions_newest_first rid d =
    sort_key (\<lambda>v. - ver_number v) (select_where (\<lambda>v. ver_resource v = rid) (versions d))"

definition list_by_resource :: "uuid \<Rightarrow> db \<Rightarrow> version_view list" where
  "list_by_resource rid d =
    (let rows = versions_newest_first rid d;
         standing = map ver_number (select_where (\<lambda>v. ver_state v = ''active'') rows);
         purged = map ver_number (select_where (\<lambda>v. ver_state v = ''purged'') rows)
     in map (\<lambda>v. to_view v (live_version_number rid d) standing
              (case ver_restored_from v of None \<Rightarrow> False | Some n \<Rightarrow> n \<in> set purged)) rows)"

definition source_is_purged :: "uuid \<Rightarrow> int option \<Rightarrow> db \<Rightarrow> bool" where
  "source_is_purged rid from_version d =
    (case from_version of None \<Rightarrow> False
     | Some n \<Rightarrow> map_option ver_state (get_row rid n d) = Some ''purged'')"

definition get_version :: "uuid \<Rightarrow> int \<Rightarrow> db \<Rightarrow> version_view reply" where
  "get_version rid n d =
    (case get_row rid n d of
       None \<Rightarrow> Inl (Failed Not_Found)
     | Some v \<Rightarrow>
         Inr (to_view v (live_version_number rid d)
               (take 2 (map ver_number (sort_key (\<lambda>v. - ver_number v)
                 (select_where (\<lambda>v. ver_resource v = rid \<and> ver_state v = ''active'') (versions d)))))
               (source_is_purged rid (ver_restored_from v) d)))"

subsection \<open>The interpretation that goes with the content\<close>

definition coalesce_object :: "json option \<Rightarrow> json" where
  "coalesce_object j = (case j of None \<Rightarrow> JObj [] | Some j \<Rightarrow> j)"

definition json_of_string :: "string option \<Rightarrow> json" where
  "json_of_string s = (case s of None \<Rightarrow> JNull | Some s \<Rightarrow> JStr s)"

definition adopted_metadata :: "version_row option \<Rightarrow> json option \<Rightarrow> json" where
  "adopted_metadata restored metadata =
    (case Option.bind restored ver_schema of
       Some schema \<Rightarrow>
         json_merge (coalesce_object metadata)
           (JObj [(''schema'', schema), (''sourceHash'', json_of_string (Option.bind restored ver_hash))])
     | None \<Rightarrow> json_remove ''sourceHash'' (json_remove ''schema'' (coalesce_object metadata)))"

definition adopted_row :: "time \<Rightarrow> version_row option \<Rightarrow> pipeline_row \<Rightarrow> pipeline_row" where
  "adopted_row now restored p =
    p\<lparr>pl_metadata := Some (adopted_metadata restored (pl_metadata p)), pl_updated := now\<rparr>"

definition adopt_version_interpretation :: "time \<Rightarrow> uuid \<Rightarrow> version_row option \<Rightarrow> db \<Rightarrow> db" where
  "adopt_version_interpretation now rid restored d =
    (let f = adopted_row now restored;
         renamed = list_ex (\<lambda>p. pl_resource p = rid
             \<and> schema_column_names (pl_metadata p) \<noteq> schema_column_names (pl_metadata (f p))) (pipelines d)
     in d\<lparr>pipelines := update_where (\<lambda>p. pl_resource p = rid) f (pipelines d),
          resources := update_where (\<lambda>r. res_id r = rid \<and> renamed)
            (\<lambda>r. r\<lparr>res_doc_sync_due_at := Some now\<rparr>) (resources d)\<rparr>)"

subsection \<open>Moving the pointer to a version, or to nothing\<close>

definition emptied_content :: "key option \<Rightarrow> string option \<Rightarrow> resource_claim option \<Rightarrow> published_content" where
  "emptied_content k h claim =
    \<lparr>pc_key = None, pc_previous_key = k, pc_hash = None, pc_size = None, pc_previous_hash = h,
     pc_format = None, pc_key_columns = None, pc_claim = claim\<rparr>"

definition clear_live_content ::
  "time \<Rightarrow> uuid \<Rightarrow> uuid \<Rightarrow> key option \<Rightarrow> string option \<Rightarrow> resource_claim option \<Rightarrow> db \<Rightarrow> unit reply \<times> db" where
  "clear_live_content now revision rid k h claim d =
    (let (emptied, d1) = publish_live_content now revision rid (emptied_content k h claim) d
     in if \<not> emptied then (Inl (Conflict ''changed while being emptied'' rid), d1)
        else (Inr (), adopt_version_interpretation now rid None d1))"

definition restored_content :: "version_row \<Rightarrow> key option \<Rightarrow> published_content" where
  "restored_content v previous =
    \<lparr>pc_key = Some (ver_storage_key v), pc_previous_key = previous, pc_hash = ver_hash v,
     pc_size = ver_size v, pc_previous_hash = None, pc_format = Some (ver_format v),
     pc_key_columns = Some (ver_key_columns v), pc_claim = None\<rparr>"

text \<open>
  The pointer's half of \<open>restoreLiveFromVersions\<close>: onto the newest active version, or off
  everything. Its caller runs it outside a transaction, so what the resource then says of its
  content is written by a statement of its own (\<open>adopt_version_interpretation\<close>).
\<close>

definition restore_pointer ::
  "time \<Rightarrow> uuid \<Rightarrow> uuid \<Rightarrow> key option \<Rightarrow> string option \<Rightarrow> db \<Rightarrow> version_row option reply \<times> db" where
  "restore_pointer now revision rid k h d =
    (let prev = newest_active_version rid d;
         (published, d1) = publish_live_content now revision rid
           (case prev of None \<Rightarrow> emptied_content k h None | Some v \<Rightarrow> restored_content v k) d
     in (if published then Inr prev
         else Inl (Conflict (case prev of None \<Rightarrow> ''changed while being emptied''
                             | Some _ \<Rightarrow> ''changed while being restored'') rid), d1))"

text \<open>\<open>retracting\<close> is whether the label and the interpretation move with the bytes.\<close>

definition issued_content ::
  "bool \<Rightarrow> version_row \<Rightarrow> key \<Rightarrow> key option \<Rightarrow> string option \<Rightarrow> resource_claim option \<Rightarrow> published_content" where
  "issued_content retracting v k previous previous_hash claim =
    \<lparr>pc_key = Some k, pc_previous_key = previous, pc_hash = ver_hash v, pc_size = ver_size v,
     pc_previous_hash = previous_hash,
     pc_format = (if retracting then Some (ver_format v) else None),
     pc_key_columns = (if retracting then Some (ver_key_columns v) else None), pc_claim = claim\<rparr>"

definition issued_version :: "uuid \<Rightarrow> int \<Rightarrow> key \<Rightarrow> version_row \<Rightarrow> created_version" where
  "issued_version rid n k v =
    \<lparr>cv_resource = rid, cv_version = n, cv_storage_key = k, cv_size = ver_size v, cv_hash = ver_hash v,
     cv_origin = ''revert'', cv_schema = ver_schema v, cv_restored_from = Some (ver_number v),
     cv_schema_format = Some (ver_format v)\<rparr>"

definition issue_version ::
  "time \<Rightarrow> uuid \<Rightarrow> uuid \<Rightarrow> resource_claim option \<Rightarrow> int \<Rightarrow> key \<Rightarrow> key option \<Rightarrow> string option \<Rightarrow> bool
    \<Rightarrow> db \<Rightarrow> int reply \<times> db" where
  "issue_version now revision rid claim dest k previous previous_hash retracting d =
    (case get_row rid dest d of
       None \<Rightarrow> (Inl (Conflict ''cannot be restored'' rid), d)
     | Some row \<Rightarrow>
         if ver_state row = ''purged'' \<or> ver_state row = ''purging''
         then (Inl (Conflict ''cannot be restored'' rid), d)
         else
           (let n = next_version_number rid d;
                (published, d1) = publish_live_content now revision rid
                  (issued_content retracting row k previous previous_hash claim) d
            in if \<not> published then (Inl (Conflict ''changed while being restored'' rid), d)
               else let (inserted, d2) = insert_version_if_held now claim (issued_version rid n k row) d1
                    in if \<not> inserted then (Inl (Conflict ''changed while being restored'' rid), d)
                       else (Inr n, if retracting then adopt_version_interpretation now rid (Some row) d2 else d2)))"

definition publish_version_content ::
  "time \<Rightarrow> uuid \<Rightarrow> key \<Rightarrow> (db \<Rightarrow> db) \<Rightarrow> uuid \<Rightarrow> resource_claim option \<Rightarrow> int \<Rightarrow> key \<Rightarrow> key option \<Rightarrow> string option
    \<Rightarrow> bool \<Rightarrow> store \<Rightarrow> int reply \<times> store" where
  "publish_version_content now revision fresh_key between rid claim dest dest_key previous previous_hash retracting s =
    (case copy_object now dest_key fresh_key s of
       (Inl e, s1) \<Rightarrow> (Inl e, s1)
     | (Inr _, s1) \<Rightarrow>
         (let (r, d) = issue_version now revision rid claim dest fresh_key previous previous_hash retracting
                         (between (sdb s1))
          in (r, s1\<lparr>sdb := d\<rparr>)))"

end
