(* ===== verification/Version_Purge.thy ===== *)
theory Version_Purge
  imports Version_History
begin

text \<open>
  Taking content away: discarding what was derived from it, claiming a purge and executing
  it, and the revert (\<open>api/src/services/resource-version-service.ts\<close>). A purge is a list of
  steps, each one statement or one backend call over an \<open>attempt\<close>, so that an attempt can
  be cut off after any of them; the worker runs the job again.
\<close>

subsection \<open>What the backends answer\<close>

text \<open>
  A call is answered, refused, or its answer is lost: it took effect and threw. \<open>be_refuses\<close> is
  what a batched delete leaves behind.
\<close>

datatype answer = Answered | Refused | Lost

record backends =
  be_delete :: "key \<Rightarrow> answer"
  be_refuses :: "key list \<Rightarrow> key list"
  be_delete_many :: answer
  be_search :: answer
  be_queue :: answer

definition calling :: "answer \<Rightarrow> string \<Rightarrow> ('a \<Rightarrow> 'a) \<Rightarrow> 'a \<Rightarrow> unit reply \<times> 'a" where
  "calling w what f x =
    (if w = Answered then Inr () else Inl (Failed (Unavailable what)), if w = Refused then x else f x)"

subsection \<open>Discarding what was derived\<close>

text \<open>A pointer is cleared while it still names the key that was read; the profile goes whole.\<close>

definition clear_pipeline_object_keys ::
  "(json \<Rightarrow> string) \<Rightarrow> key option list \<Rightarrow> pipeline_row \<Rightarrow> pipeline_row" where
  "clear_pipeline_object_keys pt read p =
    (let still = (\<lambda>i. pipeline_object_keys pt p ! i = (if i < length read then read ! i else None))
     in p\<lparr>pl_preview_key := (if still 0 then None else pl_preview_key p),
          pl_metadata := map_option
            (\<lambda>m. (if still 2 then json_remove ''documentTextKey'' else id)
                   ((if still 1 then json_remove ''textHeadKey'' else id) m)) (pl_metadata p),
          pl_profile := (if still 3 then None else pl_profile p)\<rparr>)"

definition cleared_row :: "(json \<Rightarrow> string) \<Rightarrow> time \<Rightarrow> key option list \<Rightarrow> pipeline_row \<Rightarrow> pipeline_row" where
  "cleared_row pt now read q = (clear_pipeline_object_keys pt read q)\<lparr>pl_updated := now\<rparr>"

text \<open>
  The statement that detaches: the pointers cleared and their keys parked together, or neither
  where the row is no longer on the revision asked for. It answers the keys left to delete.
\<close>

definition detach_derived ::
  "(json \<Rightarrow> string) \<Rightarrow> time \<Rightarrow> uuid \<Rightarrow> uuid option \<Rightarrow> db \<Rightarrow> key list \<times> db" where
  "detach_derived pt now rid if_revision d =
    (case row_of pl_resource (pipelines d) rid of
       None \<Rightarrow> ([], d)
     | Some p \<Rightarrow>
         (let read = pipeline_object_keys pt p;
              keys = not_null (map (\<lambda>k. if truthy k then k else None) read);
              hit = (\<lambda>q. pl_id q = pl_id p \<and> on_revision d rid if_revision)
          in if keys = [] then ([], d)
             else if select_where hit (pipelines d) = [] then ([], d)
             else (keys, d\<lparr>pipelines := update_where hit (cleared_row pt now read) (pipelines d),
                            orphans := park (PARKED_UNTIL now) keys (orphans d)\<rparr>)))"

text \<open>The objects themselves, where any were detached. They are on the ledger by now, whatever comes back.\<close>

definition delete_derived :: "backends \<Rightarrow> key list \<Rightarrow> store \<Rightarrow> unit reply \<times> store" where
  "delete_derived be keys s =
    (if keys = [] then (Inr (), s)
     else calling (be_delete_many be) ''storage''
       (\<lambda>s. s\<lparr>bucket := bucket s - set (delete_many (be_refuses be) keys)\<rparr>) s)"

definition discard_derived_artifacts ::
  "(json \<Rightarrow> string) \<Rightarrow> time \<Rightarrow> backends \<Rightarrow> uuid \<Rightarrow> uuid option \<Rightarrow> store \<Rightarrow> unit reply \<times> store" where
  "discard_derived_artifacts pt now be rid if_revision s =
    (let (keys, d) = detach_derived pt now rid if_revision (sdb s)
     in delete_derived be keys (s\<lparr>sdb := d\<rparr>))"

definition delete_content :: "backends \<Rightarrow> uuid \<Rightarrow> store \<Rightarrow> unit reply \<times> store" where
  "delete_content be rid = calling (be_search be) ''search'' (\<lambda>s. s\<lparr>indexed := indexed s - {rid}\<rparr>)"

definition delete_object :: "backends \<Rightarrow> key \<Rightarrow> store \<Rightarrow> unit reply \<times> store" where
  "delete_object be k = calling (be_delete be k) ''storage'' (\<lambda>s. s\<lparr>bucket := bucket s - {k}\<rparr>)"

definition merged_metadata :: "(string \<times> json) list \<Rightarrow> pipeline_row \<Rightarrow> pipeline_row" where
  "merged_metadata entries p =
    p\<lparr>pl_metadata := Some (json_merge (coalesce_object (pl_metadata p)) (JObj entries))\<rparr>"

definition merge_pipeline_metadata :: "uuid \<Rightarrow> (string \<times> json) list \<Rightarrow> db \<Rightarrow> db" where
  "merge_pipeline_metadata rid entries d =
    d\<lparr>pipelines := update_where (\<lambda>p. pl_resource p = rid) (merged_metadata entries) (pipelines d)\<rparr>"

definition mark_content_unindexed :: "uuid \<Rightarrow> db \<Rightarrow> db" where
  "mark_content_unindexed rid = merge_pipeline_metadata rid [(''contentIndexed'', JBool False)]"

definition mark_content_index_due :: "time \<Rightarrow> uuid \<Rightarrow> db \<Rightarrow> db" where
  "mark_content_index_due now rid d =
    d\<lparr>resources := update_where (\<lambda>r. res_id r = rid) (\<lambda>r. r\<lparr>res_content_index_due_at := Some now\<rparr>)
        (resources d)\<rparr>"

definition set_purge_rebuild_pending :: "uuid \<Rightarrow> bool \<Rightarrow> db \<Rightarrow> db" where
  "set_purge_rebuild_pending rid pending =
    merge_pipeline_metadata rid [(''purgeRebuildPending'', JBool pending)]"

definition purge_rebuild_pending :: "uuid \<Rightarrow> db \<Rightarrow> bool" where
  "purge_rebuild_pending rid d =
    (Option.bind (Option.bind (row_of pl_resource (pipelines d) rid) pl_metadata)
       (member_of ''purgeRebuildPending'') = Some (JBool True))"

definition has_live_content :: "uuid \<Rightarrow> db \<Rightarrow> bool" where
  "has_live_content rid d = truthy (Option.bind (row_of res_id (resources d) rid) res_storage_key)"

subsection \<open>The abstract of a purged version\<close>

definition SUMMARY_TEXT_META_KEYS :: "string list" where
  "SUMMARY_TEXT_META_KEYS = [''source'', ''version'', ''material'', ''coverage'', ''generatedAt'',
     ''genKey'', ''model'', ''grounded'']"

definition legacy_refusal :: "(json \<Rightarrow> string) \<Rightarrow> json \<Rightarrow> bool" where
  "legacy_refusal pt meta \<longleftrightarrow>
    arrow_text pt (Some meta) ''skipReason'' \<in> {Some ''rejected'', Some ''format-mismatch''}
    \<and> member_of ''skipVersion'' meta = None"

definition restamped :: "(json \<Rightarrow> string) \<Rightarrow> json \<Rightarrow> json" where
  "restamped pt meta =
    (let stamp = (\<lambda>f g. case member_of g meta of None \<Rightarrow> [] | Some JNull \<Rightarrow> [] | Some v \<Rightarrow> [(f, v)])
     in json_merge meta
          (JObj (if legacy_refusal pt meta
                 then stamp ''skipVersion'' ''version'' @ stamp ''skipGenKey'' ''genKey'' else [])))"

definition public_summary :: "(json \<Rightarrow> string) \<Rightarrow> resource_row \<Rightarrow> string option" where
  "public_summary pt r =
    (if arrow_text pt (Some (res_summary_meta r)) ''hidden'' = Some ''true'' then None else res_summary r)"

definition summary_of_version :: "(json \<Rightarrow> string) \<Rightarrow> uuid \<Rightarrow> int \<Rightarrow> resource_row \<Rightarrow> bool" where
  "summary_of_version pt rid n r \<longleftrightarrow> res_id r = rid
    \<and> arrow_text pt (Some (res_summary_meta r)) ''source'' \<noteq> Some ''human''
    \<and> (member_of ''version'' (res_summary_meta r) = Some (JNum (of_int n))
       \<or> legacy_refusal pt (res_summary_meta r))"

definition summary_discarded :: "(json \<Rightarrow> string) \<Rightarrow> time \<Rightarrow> resource_row \<Rightarrow> resource_row" where
  "summary_discarded pt now r =
    r\<lparr>res_summary := None,
      res_summary_meta := fold json_remove SUMMARY_TEXT_META_KEYS (restamped pt (res_summary_meta r)),
      res_doc_sync_due_at := Some now,
      res_embedding_due_at := (if public_summary pt r \<noteq> None then Some now else res_embedding_due_at r)\<rparr>"

definition discard_summary_of :: "(json \<Rightarrow> string) \<Rightarrow> time \<Rightarrow> uuid \<Rightarrow> int \<Rightarrow> db \<Rightarrow> db" where
  "discard_summary_of pt now rid n d =
    d\<lparr>resources := update_where (summary_of_version pt rid n) (summary_discarded pt now) (resources d)\<rparr>"

subsection \<open>Claiming a purge\<close>

definition set_version_state :: "uuid \<Rightarrow> int \<Rightarrow> (version_row \<Rightarrow> version_row) \<Rightarrow> db \<Rightarrow> db" where
  "set_version_state rid n f d = d\<lparr>versions := on_version rid n f (versions d)\<rparr>"

text \<open>The partial unique index refuses a second \<open>purging\<close> row of the resource.\<close>

definition claim_purge :: "time \<Rightarrow> uuid \<Rightarrow> int \<Rightarrow> uuid \<Rightarrow> string \<Rightarrow> store \<Rightarrow> bool reply \<times> store" where
  "claim_purge now rid n user reason s =
    (case get_row rid n (sdb s) of
       None \<Rightarrow> (Inl (Failed Not_Found), s)
     | Some v \<Rightarrow>
         if ver_state v = ''purging'' \<or> ver_state v = ''purged'' then (Inr False, s)
         else if list_ex (\<lambda>w. ver_resource w = rid \<and> ver_state w = ''purging'') (versions (sdb s))
         then (Inl (Conflict ''another version is being purged'' rid), s)
         else (Inr True,
               s\<lparr>sdb := set_version_state rid n
                     (\<lambda>v. v\<lparr>ver_state := ''purging'', ver_purged_by := Some user,
                             ver_purge_reason := Some reason, ver_updated := now\<rparr>) (sdb s),
                 asked := asked s @ [Purge_Version rid n],
                 audit := audit s @ [\<lparr>au_resource = rid, au_action = ''purge_request'', au_user = Some user,
                   au_version = n, au_reason = Some reason, au_rolled_back = None\<rparr>]\<rparr>))"

subsection \<open>Executing it\<close>

text \<open>
  What an attempt carries from statement to statement: the keys it detached, and the version
  it put the resource back on.
\<close>

record attempt =
  at_store :: store
  at_detached :: "key list"
  at_restored :: "version_row option"

definition beginning :: "store \<Rightarrow> attempt" where
  "beginning s = \<lparr>at_store = s, at_detached = [], at_restored = None\<rparr>"

type_synonym step = "attempt \<Rightarrow> service_error failure option \<times> attempt"

definition on_db :: "(db \<Rightarrow> db) \<Rightarrow> step" where
  "on_db f a = (None, a\<lparr>at_store := (at_store a)\<lparr>sdb := f (sdb (at_store a))\<rparr>\<rparr>)"

text \<open>A call that may throw fails the step, in whatever state it left the store.\<close>

definition awaiting :: "(store \<Rightarrow> unit reply \<times> store) \<Rightarrow> step" where
  "awaiting f a =
    (case f (at_store a) of
       (Inl e, s) \<Rightarrow> (Some e, a\<lparr>at_store := s\<rparr>)
     | (Inr _, s) \<Rightarrow> (None, a\<lparr>at_store := s\<rparr>))"

type_synonym lake = "uuid \<Rightarrow> int option \<Rightarrow> db \<Rightarrow> service_error failure option \<times> db"

text \<open>
  What one attempt meets: the clock, the values it mints, the backends' answers, layer 2 and
  what others commit before the pointer is moved.
\<close>

record purge_env =
  pe_now :: time
  pe_revision :: uuid
  pe_fresh :: uuid
  pe_backends :: backends
  pe_lake :: "lake option"
  pe_others :: "db \<Rightarrow> db"

definition purge_from_lake :: "lake option \<Rightarrow> uuid \<Rightarrow> int option \<Rightarrow> step" where
  "purge_from_lake lake rid snapshot a =
    (case lake of None \<Rightarrow> (None, a)
     | Some l \<Rightarrow> (let (e, d) = l rid snapshot (sdb (at_store a))
                in (e, a\<lparr>at_store := (at_store a)\<lparr>sdb := d\<rparr>\<rparr>)))"

definition detach_step :: "(json \<Rightarrow> string) \<Rightarrow> time \<Rightarrow> uuid \<Rightarrow> step" where
  "detach_step pt now rid a =
    (let (keys, d) = detach_derived pt now rid None (sdb (at_store a))
     in (None, a\<lparr>at_store := (at_store a)\<lparr>sdb := d\<rparr>, at_detached := keys\<rparr>))"

definition delete_detached :: "backends \<Rightarrow> step" where
  "delete_detached be a = awaiting (delete_derived be (at_detached a)) a"

definition pointer_step :: "purge_env \<Rightarrow> uuid \<Rightarrow> key option \<Rightarrow> string option \<Rightarrow> step" where
  "pointer_step e rid k h a =
    (let (r, d) = restore_pointer (pe_now e) (pe_revision e) rid k h (pe_others e (sdb (at_store a)));
         a1 = a\<lparr>at_store := (at_store a)\<lparr>sdb := d\<rparr>\<rparr>
     in case r of Inl x \<Rightarrow> (Some x, a1) | Inr v \<Rightarrow> (None, a1\<lparr>at_restored := v\<rparr>))"

definition adopt_step :: "time \<Rightarrow> uuid \<Rightarrow> step" where
  "adopt_step now rid a = on_db (adopt_version_interpretation now rid (at_restored a)) a"

definition restore_live_from_versions :: "purge_env \<Rightarrow> uuid \<Rightarrow> key option \<Rightarrow> string option \<Rightarrow> step list" where
  "restore_live_from_versions e rid k h = [pointer_step e rid k h, adopt_step (pe_now e) rid]"

text \<open>
  The rebuild's row and job and the clearing of the marker, in one transaction: the
  pipeline row is put back to \<open>queued\<close> (\<open>PipelineService.enqueue\<close>).
\<close>

definition mark_queued :: "time \<Rightarrow> uuid \<Rightarrow> uuid \<Rightarrow> db \<Rightarrow> db" where
  "mark_queued now fresh rid d =
    (if row_of res_id (resources d) rid = None then d
     else if rid \<in> pl_resource ` set (pipelines d)
     then d\<lparr>pipelines := update_where (\<lambda>p. pl_resource p = rid)
              (\<lambda>p. p\<lparr>pl_status := Queued, pl_error := None, pl_updated := now\<rparr>) (pipelines d)\<rparr>
     else d\<lparr>pipelines := pipelines d @ [(new_pipeline_row now fresh rid)\<lparr>pl_status := Queued\<rparr>]\<rparr>)"

definition enqueue_rebuild :: "time \<Rightarrow> uuid \<Rightarrow> uuid \<Rightarrow> store \<Rightarrow> unit reply \<times> store" where
  "enqueue_rebuild now fresh rid s =
    (if row_of res_id (resources (sdb s)) rid = None then (Inl (Failed Not_Found), s)
     else (Inr (), s\<lparr>sdb := mark_queued now fresh rid (sdb s), asked := asked s @ [Rebuild rid]\<rparr>))"

definition rebuild_if_owed :: "purge_env \<Rightarrow> uuid \<Rightarrow> step" where
  "rebuild_if_owed e rid a =
    (let s = at_store a;
         clear = (\<lambda>s. s\<lparr>sdb := set_purge_rebuild_pending rid False (sdb s)\<rparr>)
     in if \<not> purge_rebuild_pending rid (sdb s) then (None, a)
        else if has_live_content rid (sdb s)
        then (case enqueue_rebuild (pe_now e) (pe_fresh e) rid s of
                (Inl x, _) \<Rightarrow> (Some x, a)
              | (Inr _, s1) \<Rightarrow> awaiting (calling (be_queue (pe_backends e)) ''queue'' (\<lambda>_. clear s1)) a)
        else awaiting (calling (be_queue (pe_backends e)) ''queue'' clear) a)"

definition entomb :: "time \<Rightarrow> uuid \<Rightarrow> version_row \<Rightarrow> step" where
  "entomb now rid row a =
    (let s = at_store a; n = ver_number row
     in (None, a\<lparr>at_store := s\<lparr>
           sdb := set_version_state rid n
             (\<lambda>v. v\<lparr>ver_state := ''purged'', ver_purged_at := Some now, ver_updated := now,
                    ver_lake_snapshot := None\<rparr>) (sdb s),
           audit := audit s @ [\<lparr>au_resource = rid, au_action = ''purge'',
             au_user = Option.bind (get_row rid n (sdb s)) ver_purged_by, au_version = n,
             au_reason = ver_purge_reason row, au_rolled_back = Some (at_restored a \<noteq> None)\<rparr>]\<rparr>\<rparr>))"

definition purge_steps ::
  "(json \<Rightarrow> string) \<Rightarrow> purge_env \<Rightarrow> uuid \<Rightarrow> version_row \<Rightarrow> db \<Rightarrow> step list" where
  "purge_steps pt e rid row d =
    (let n = ver_number row;
         be = pe_backends e;
         current = row_of res_id (resources d) rid;
         k = Option.bind current res_storage_key;
         h = Option.bind current res_hash;
         is_live = (current \<noteq> None \<and> live_version rid k h SERVING_STATES d = Some n)
     in [awaiting (delete_object be (ver_storage_key row)), on_db (discard_summary_of pt (pe_now e) rid n)]
        @ (if is_live
           then [detach_step pt (pe_now e) rid,
                 delete_detached be,
                 awaiting (delete_content be rid),
                 on_db (mark_content_unindexed rid),
                 on_db (set_purge_rebuild_pending rid True),
                 purge_from_lake (pe_lake e) rid (ver_lake_snapshot row)]
                @ restore_live_from_versions e rid k h
                @ (if truthy k \<and> k \<noteq> Some (ver_storage_key row) then [awaiting (delete_object be (the k))] else [])
           else [purge_from_lake (pe_lake e) rid (ver_lake_snapshot row)])
        @ [rebuild_if_owed e rid, entomb (pe_now e) rid row])"

text \<open>Steps in order, up to the first that fails.\<close>

fun run_plan :: "step list \<Rightarrow> step" where
  "run_plan [] a = (None, a)"
| "run_plan (f # fs) a = (case f a of (Some e, a1) \<Rightarrow> (Some e, a1) | (None, a1) \<Rightarrow> run_plan fs a1)"

definition purge_version ::
  "(json \<Rightarrow> string) \<Rightarrow> purge_env \<Rightarrow> uuid \<Rightarrow> int \<Rightarrow> store \<Rightarrow> (bool \<times> bool) reply \<times> store" where
  "purge_version pt e rid n s =
    (case get_row rid n (sdb s) of
       None \<Rightarrow> (Inr (False, False), s)
     | Some row \<Rightarrow>
         if ver_state row \<noteq> ''purging'' then (Inr (False, False), s)
         else let (x, a) = run_plan (purge_steps pt e rid row (sdb s)) (beginning s)
              in (case x of Some x \<Rightarrow> Inl x | None \<Rightarrow> Inr (True, at_restored a \<noteq> None), at_store a))"

text \<open>What an attempt leaves that is cut off after at most \<open>m\<close> of its steps.\<close>

definition interrupted_purge ::
  "nat \<Rightarrow> (json \<Rightarrow> string) \<Rightarrow> purge_env \<Rightarrow> uuid \<Rightarrow> int \<Rightarrow> store \<Rightarrow> store" where
  "interrupted_purge m pt e rid n s =
    (case get_row rid n (sdb s) of
       None \<Rightarrow> s
     | Some row \<Rightarrow>
         if ver_state row \<noteq> ''purging'' then s
         else at_store (snd (run_plan (take m (purge_steps pt e rid row (sdb s))) (beginning s))))"

definition execute_purge ::
  "(json \<Rightarrow> string) \<Rightarrow> purge_env \<Rightarrow> (uuid \<Rightarrow> uuid) \<Rightarrow> uuid \<Rightarrow> uuid \<Rightarrow> int \<Rightarrow> store \<Rightarrow> (bool \<times> bool) reply \<times> store" where
  "execute_purge pt e mint owner rid n s =
    (case with_resource_claims_or_conflict (pe_now e) mint owner [rid]
            (\<lambda>_ d. let r = purge_version pt e rid n (s\<lparr>sdb := d\<rparr>)
                   in (Inr r, sdb (snd r))) (sdb s) of
       (Inl x, d) \<Rightarrow> (Inl x, s\<lparr>sdb := d\<rparr>)
     | (Inr (r, s1), d) \<Rightarrow> (r, s1\<lparr>sdb := d\<rparr>))"

subsection \<open>Reverting\<close>

record ladder_outcome =
  lo_cancelled :: bool
  lo_restored :: "int option"
  lo_published :: "int option"
  lo_cleared :: "bool option"
  lo_queued :: "bool option"

text \<open>
  \<open>queueRebuild\<close> reports a queue that is down rather than throwing; a resource that is
  gone answers the same.
\<close>

definition queue_rebuild :: "backends \<Rightarrow> time \<Rightarrow> uuid \<Rightarrow> uuid \<Rightarrow> store \<Rightarrow> bool \<times> store" where
  "queue_rebuild be now fresh rid s =
    (case enqueue_rebuild now fresh rid s of
       (Inl _, _) \<Rightarrow> (False, s)
     | (Inr _, s1) \<Rightarrow> apfst (\<lambda>r. r = Inr ()) (calling (be_queue be) ''queue'' (\<lambda>_. s1) s))"

text \<open>The two halves are tried on their own, and each is caught on its own.\<close>

definition discard_retracted ::
  "(json \<Rightarrow> string) \<Rightarrow> time \<Rightarrow> backends \<Rightarrow> uuid \<Rightarrow> uuid option \<Rightarrow> store \<Rightarrow> bool \<times> store" where
  "discard_retracted pt now be rid if_revision s =
    (let (derivatives, s1) = discard_derived_artifacts pt now be rid if_revision s;
         (content, s2) = delete_content be rid s1
     in (derivatives = Inr () \<and> content = Inr (),
         s2\<lparr>sdb := (if content = Inr () then mark_content_unindexed rid (sdb s2)
                     else mark_content_index_due now rid (sdb s2))\<rparr>))"

definition live_is_version_content :: "uuid \<Rightarrow> int \<Rightarrow> version_identity \<Rightarrow> db \<Rightarrow> bool" where
  "live_is_version_content rid n live d =
    (case get_row rid n d of
       None \<Rightarrow> False
     | Some v \<Rightarrow> ver_state v \<noteq> ''purged'' \<and> same_version_identity (frozen_identity v) live)"

definition live_identity :: "resource_row \<Rightarrow> version_identity" where
  "live_identity r = \<lparr>vi_hash = res_hash r, vi_format = res_format r,
     vi_key_columns = primary_key_of (res_column_settings r)\<rparr>"

definition is_settled :: "uuid \<Rightarrow> int option \<Rightarrow> db \<Rightarrow> bool" where
  "is_settled rid restore_to d =
    (case row_of res_id (resources d) rid of
       None \<Rightarrow> False
     | Some r \<Rightarrow>
         (case restore_to of
            None \<Rightarrow> res_storage_key r = None
          | Some n \<Rightarrow>
              (case res_storage_key r of
                 None \<Rightarrow> False
               | Some k \<Rightarrow> live_is_version_content rid n (live_identity r) d \<and> \<not> object_owner_is_purging k d)))"

definition clear_emptied ::
  "(json \<Rightarrow> string) \<Rightarrow> time \<Rightarrow> (uuid \<Rightarrow> uuid) \<Rightarrow> uuid \<Rightarrow> backends \<Rightarrow> uuid \<Rightarrow> uuid
    \<Rightarrow> store \<Rightarrow> bool option \<times> store" where
  "clear_emptied pt now mint owner be rid if_revision s =
    (case with_resource_claims now mint owner [rid]
            (\<lambda>_ d. let r = (case row_of res_id (resources d) rid of
                       Some x \<Rightarrow>
                         (if res_storage_key x \<noteq> None \<or> res_content_revision x \<noteq> if_revision then (None, s\<lparr>sdb := d\<rparr>)
                          else map_prod Some id
                            (discard_retracted pt now be rid (Some if_revision) (s\<lparr>sdb := d\<rparr>)))
                     | None \<Rightarrow> (None, s\<lparr>sdb := d\<rparr>))
                   in (Inr r :: (unit failure + (bool option \<times> store)), sdb (snd r))) (sdb s) of
       (Inr (Ran (r, s1)), d) \<Rightarrow> (r, s1\<lparr>sdb := d\<rparr>)
     | (_, d) \<Rightarrow> (Some False, s\<lparr>sdb := d\<rparr>))"

definition settled_revert ::
  "(json \<Rightarrow> string) \<Rightarrow> time \<Rightarrow> (uuid \<Rightarrow> uuid) \<Rightarrow> uuid \<Rightarrow> uuid \<Rightarrow> backends \<Rightarrow> uuid
    \<Rightarrow> int option \<Rightarrow> store \<Rightarrow> ladder_outcome option \<times> store" where
  "settled_revert pt now mint owner fresh be rid restore_to s =
    (case row_of res_id (resources (sdb s)) rid of
       None \<Rightarrow> (None, s)
     | Some r \<Rightarrow>
         if \<not> is_settled rid restore_to (sdb s) then (None, s)
         else if res_storage_key r \<noteq> None
         then (let (q, s1) = queue_rebuild be now fresh rid s
               in (Some \<lparr>lo_cancelled = False, lo_restored = restore_to, lo_published = None,
                         lo_cleared = None, lo_queued = Some q\<rparr>, s1))
         else (case clear_emptied pt now mint owner be rid (res_content_revision r) s of
                 (None, s1) \<Rightarrow> (None, s1)
               | (Some c, s1) \<Rightarrow>
                   (Some \<lparr>lo_cancelled = False, lo_restored = None, lo_published = None,
                          lo_cleared = Some c, lo_queued = None\<rparr>, s1)))"

text \<open>
  The body under the claim: the generation read again, then the pointer, then the derivatives.
  Uploads and edits take no claim; \<open>between\<close> is what they commit after the generation was read
  and before the pointer moves, after the destination's copy where there is one.
\<close>

definition revert_body ::
  "(json \<Rightarrow> string) \<Rightarrow> time \<Rightarrow> uuid \<Rightarrow> key \<Rightarrow> backends \<Rightarrow> (db \<Rightarrow> db) \<Rightarrow> uuid \<Rightarrow> (int \<times> key) option \<Rightarrow> uuid
    \<Rightarrow> resource_claim option \<Rightarrow> store \<Rightarrow> (int option \<times> bool) reply \<times> store" where
  "revert_body pt now revision fresh_key be between rid dest if_revision claim s =
    (case List.find (\<lambda>r. res_id r = rid \<and> res_content_revision r = if_revision) (resources (sdb s)) of
       None \<Rightarrow> (Inl (Conflict ''has changed since it was read'' rid), s)
     | Some r \<Rightarrow>
         (let (p, s1) =
            (case dest of
               None \<Rightarrow>
                 (let d1 = between (sdb s)
                  in case clear_live_content now revision rid (res_storage_key r) (res_hash r) claim d1 of
                       (Inl x, _) \<Rightarrow> (Inl x, s\<lparr>sdb := d1\<rparr>)
                     | (Inr _, d) \<Rightarrow> (Inr None, s\<lparr>sdb := d\<rparr>))
             | Some (n, k) \<Rightarrow>
                 map_prod (map_sum id Some) id
                   (publish_version_content now revision fresh_key between rid claim n k (res_storage_key r)
                      (res_hash r) True s))
          in case p of
               Inl x \<Rightarrow> (Inl x, s1)
             | Inr v \<Rightarrow>
                 (let (c, s2) = discard_retracted pt now be rid None s1
                  in (Inr (v, c), s2))))"

definition revert_live_content ::
  "(json \<Rightarrow> string) \<Rightarrow> time \<Rightarrow> (uuid \<Rightarrow> uuid) \<Rightarrow> uuid \<Rightarrow> uuid \<Rightarrow> uuid \<Rightarrow> key \<Rightarrow> backends \<Rightarrow> (db \<Rightarrow> db)
    \<Rightarrow> uuid \<Rightarrow> int option \<Rightarrow> uuid \<Rightarrow> store \<Rightarrow> ladder_outcome reply \<times> store" where
  "revert_live_content pt now mint owner revision fresh fresh_key be between rid restore_to if_revision s =
    (let refused = (case restore_to of
           None \<Rightarrow> None
         | Some n \<Rightarrow>
             (case get_row rid n (sdb s) of
                None \<Rightarrow> Some (Failed Not_Found)
              | Some v \<Rightarrow> if ver_state v = ''purged'' \<or> ver_state v = ''purging''
                         then Some (Conflict ''cannot be restored'' rid) else None));
         dest = Option.bind restore_to (\<lambda>n. map_option (\<lambda>v. (n, ver_storage_key v)) (get_row rid n (sdb s)))
     in case refused of
          Some e \<Rightarrow> (Inl e, s)
        | None \<Rightarrow>
            (case settled_revert pt now mint owner fresh be rid restore_to s of
               (Some out, s1) \<Rightarrow> (Inr out, s1)
             | (None, s1) \<Rightarrow>
                 (case with_claim_from_run now mint owner rid ''revert''
                         (\<lambda>claim cancelled d.
                            let r = revert_body pt now revision fresh_key be between rid dest
                                      if_revision claim (s1\<lparr>sdb := d\<rparr>)
                            in (Inr (cancelled, r), sdb (snd r)))
                         (Some if_revision) (sdb s1) of
                    (Inl e, d) \<Rightarrow> (Inl e, s1\<lparr>sdb := d\<rparr>)
                  | (Inr (cancelled, Inl e, s2), d) \<Rightarrow> (Inl e, s2\<lparr>sdb := d\<rparr>)
                  | (Inr (cancelled, Inr (p, c), s2), d) \<Rightarrow>
                      (let s3 = s2\<lparr>sdb := d\<rparr>;
                           (q, s4) = (if p \<noteq> None then map_prod Some id (queue_rebuild be now fresh rid s3)
                                      else (None, s3))
                       in (Inr \<lparr>lo_cancelled = cancelled, lo_restored = restore_to, lo_published = p,
                                lo_cleared = Some c, lo_queued = q\<rparr>, s4)))))"

definition repair_derivatives ::
  "(json \<Rightarrow> string) \<Rightarrow> time \<Rightarrow> (uuid \<Rightarrow> uuid) \<Rightarrow> uuid \<Rightarrow> uuid \<Rightarrow> backends \<Rightarrow> uuid
    \<Rightarrow> store \<Rightarrow> (bool option \<times> bool option) reply \<times> store" where
  "repair_derivatives pt now mint owner fresh be rid s =
    (case row_of res_id (resources (sdb s)) rid of
       None \<Rightarrow> (Inl (Failed Not_Found), s)
     | Some r \<Rightarrow>
         if res_storage_key r \<noteq> None
         then (let (q, s1) = queue_rebuild be now fresh rid s in (Inr (Some q, None), s1))
         else (let (c, s1) = clear_emptied pt now mint owner be rid (res_content_revision r) s
               in (Inr (None, Some (case c of None \<Rightarrow> True | Some b \<Rightarrow> b)), s1)))"

end
