(* ===== verification/Version_Facts.thy ===== *)
theory Version_Facts
  imports Version_Purge Storage_Machine
begin

text \<open>
  Facts about the history that the properties share: what an insert and a publish do to
  the rows, numbers that only grow, the unique indexes of the version table as an
  invariant, and which statements leave content and history alone.
\<close>

subsection \<open>Numbers\<close>

lemma max_version_ge:
  assumes "v \<in> set (versions d)" "ver_resource v = rid"
  shows "\<exists>n. max_version rid d = Some n \<and> ver_number v \<le> n"
proof -
  have mem: "v \<in> set (select_where (\<lambda>w. ver_resource w = rid) (versions d))"
    using assms by (simp add: table_simps)
  then obtain w where w: "first_by (\<lambda>w. - ver_number w) (select_where (\<lambda>w. ver_resource w = rid) (versions d)) = Some w"
    by (cases "first_by (\<lambda>w. - ver_number w) (select_where (\<lambda>w. ver_resource w = rid) (versions d))") auto
  then show ?thesis using first_by_Some(2) [OF w mem] by (simp add: max_version_def)
qed

lemma next_number_above:
  "v \<in> set (versions d) \<Longrightarrow> ver_resource v = rid \<Longrightarrow> ver_number v < next_version_number rid d"
  using max_version_ge [of v d rid] by (auto simp: next_version_number_def)

lemma max_version_append:
  assumes "ver_resource v = rid" "\<And>w. w \<in> set (versions d) \<Longrightarrow> ver_resource w = rid \<Longrightarrow> ver_number w < ver_number v"
    and "versions d' = versions d @ [v]"
  shows "max_version rid d' = Some (ver_number v)"
proof -
  have "first_by (\<lambda>w. - ver_number w) (select_where (\<lambda>w. ver_resource w = rid) (versions d')) = Some v"
    using assms by (intro first_by_least) (auto simp: table_simps)
  then show ?thesis by (simp add: max_version_def)
qed

lemma newest_active_append:
  assumes "ver_resource v = rid" "ver_state v = ''active''"
    and "\<And>w. w \<in> set (versions d) \<Longrightarrow> ver_resource w = rid \<Longrightarrow> ver_number w < ver_number v"
    and "versions d' = versions d @ [v]"
  shows "newest_active_version rid d' = Some v"
  unfolding newest_active_version_def
  using assms by (intro first_by_least) (auto simp: table_simps)

subsection \<open>The unique indexes of the version table\<close>

definition versions_ok :: "version_row list \<Rightarrow> bool" where
  "versions_ok vs \<longleftrightarrow> distinct (map (\<lambda>v. (ver_resource v, ver_number v)) vs)
    \<and> (\<forall>v \<in> set vs. \<forall>w \<in> set vs. ver_storage_key v = ver_storage_key w
         \<and> ver_state v \<noteq> ''purged'' \<and> ver_state w \<noteq> ''purged'' \<longrightarrow> v = w)
    \<and> (\<forall>v \<in> set vs. \<forall>w \<in> set vs. ver_resource v = ver_resource w
         \<and> ver_state v = ''purging'' \<and> ver_state w = ''purging'' \<longrightarrow> v = w)"

lemma versions_ok_key:
  "versions_ok vs \<Longrightarrow> v \<in> set vs \<Longrightarrow> w \<in> set vs \<Longrightarrow> ver_storage_key v = ver_storage_key w
    \<Longrightarrow> ver_state v \<noteq> ''purged'' \<Longrightarrow> ver_state w \<noteq> ''purged'' \<Longrightarrow> v = w"
  unfolding versions_ok_def by blast

lemma get_row_SomeD: "get_row rid n d = Some v \<Longrightarrow> v \<in> set (versions d) \<and> ver_resource v = rid \<and> ver_number v = n"
  by (auto simp: get_row_def find_Some_iff)

lemma get_row_mem:
  assumes "versions_ok (versions d)" "v \<in> set (versions d)"
  shows "get_row (ver_resource v) (ver_number v) d = Some v"
proof -
  obtain w where w: "get_row (ver_resource v) (ver_number v) d = Some w"
    using assms(2) by (cases "get_row (ver_resource v) (ver_number v) d") (auto simp: get_row_def find_None_iff)
  then have "w \<in> set (versions d)" "(ver_resource w, ver_number w) = (ver_resource v, ver_number v)"
    using get_row_SomeD by fastforce+
  with assms have "w = v" by (auto simp: versions_ok_def distinct_map dest: inj_onD)
  with w show ?thesis by simp
qed

lemma versions_ok_append:
  assumes "versions_ok vs" "ver_state v = ''active''"
    and "\<And>w. w \<in> set vs \<Longrightarrow> ver_resource w = ver_resource v \<Longrightarrow> ver_number w < ver_number v"
    and "\<And>w. w \<in> set vs \<Longrightarrow> ver_state w \<noteq> ''purged'' \<Longrightarrow> ver_storage_key w \<noteq> ver_storage_key v"
  shows "versions_ok (vs @ [v])"
  using assms by (fastforce simp: versions_ok_def)

lemma versions_ok_update:
  assumes "versions_ok vs"
    and "\<And>v. ver_resource (f v) = ver_resource v \<and> ver_number (f v) = ver_number v
      \<and> ver_storage_key (f v) = ver_storage_key v"
    and "\<And>v. v \<in> set vs \<Longrightarrow> P v \<Longrightarrow> ver_state (f v) \<noteq> ''purged'' \<Longrightarrow> ver_state v \<noteq> ''purged''"
    and "\<And>v w. v \<in> set vs \<Longrightarrow> w \<in> set vs \<Longrightarrow> P v \<Longrightarrow> ver_state (f v) = ''purging''
      \<Longrightarrow> ver_resource w = ver_resource v \<Longrightarrow> ver_state (if P w then f w else w) = ''purging'' \<Longrightarrow> w = v"
  shows "versions_ok (update_where P f vs)"
proof -
  let ?g = "\<lambda>v. if P v then f v else v"
  have upd: "update_where P f vs = map ?g vs" by (simp add: update_where_def)
  have ids: "map (\<lambda>v. (ver_resource v, ver_number v)) (map ?g vs) = map (\<lambda>v. (ver_resource v, ver_number v)) vs"
    using assms(2) by simp
  have keys: "?g v = ?g w" if "v \<in> set vs" "w \<in> set vs" "ver_storage_key (?g v) = ver_storage_key (?g w)"
    "ver_state (?g v) \<noteq> ''purged''" "ver_state (?g w) \<noteq> ''purged''" for v w
  proof -
    have "ver_storage_key v = ver_storage_key w" using that(3) assms(2) by (auto split: if_splits)
    moreover have "ver_state v \<noteq> ''purged''" "ver_state w \<noteq> ''purged''"
      using that assms(3) [of v] assms(3) [of w] by (auto split: if_splits)
    ultimately have "v = w" using assms(1) that(1,2) by (auto simp: versions_ok_def)
    then show ?thesis by simp
  qed
  have purges: "?g v = ?g w" if "v \<in> set vs" "w \<in> set vs" "ver_resource (?g v) = ver_resource (?g w)"
    "ver_state (?g v) = ''purging''" "ver_state (?g w) = ''purging''" for v w
  proof -
    have same: "ver_resource v = ver_resource w" using that(3) assms(2) by (auto split: if_splits)
    have "v = w"
    proof -
      consider (v) "P v" | (w) "P w" | (no) "\<not> P v" "\<not> P w" by blast
      then show ?thesis
      proof cases
        case v
        have "ver_state (f v) = ''purging''" using that(4) v by simp
        from assms(4) [OF that(1,2) v this same [symmetric] that(5)] show ?thesis by simp
      next
        case w
        have "ver_state (f w) = ''purging''" using that(5) w by simp
        from assms(4) [OF that(2,1) w this same that(4)] show ?thesis by simp
      next
        case no
        then show ?thesis using that same assms(1) by (simp add: versions_ok_def)
      qed
    qed
    then show ?thesis by simp
  qed
  show ?thesis unfolding versions_ok_def upd
  proof (intro conjI ballI impI)
    show "distinct (map (\<lambda>v. (ver_resource v, ver_number v)) (map ?g vs))"
      unfolding ids using assms(1) by (simp add: versions_ok_def)
  next
    fix a b assume "a \<in> set (map ?g vs)" "b \<in> set (map ?g vs)"
    then obtain v w where vw: "v \<in> set vs" "w \<in> set vs" "a = ?g v" "b = ?g w" by fastforce
    show "a = b" if "ver_storage_key a = ver_storage_key b \<and> ver_state a \<noteq> ''purged'' \<and> ver_state b \<noteq> ''purged''"
      using keys [OF vw(1,2)] that unfolding vw(3,4) by blast
    show "a = b" if "ver_resource a = ver_resource b \<and> ver_state a = ''purging'' \<and> ver_state b = ''purging''"
      using purges [OF vw(1,2)] that unfolding vw(3,4) by blast
  qed
qed

subsection \<open>What an insert and a publish do\<close>

lemma insert_version_row:
  assumes "distinct (map res_id (resources d))" "row_of res_id (resources d) (cv_resource v) = Some r"
  shows "insert_version_if_held now c v d = (still_held d c,
    if still_held d c then d\<lparr>versions := versions d @ [version_of now v r],
      orphans := untrack [cv_storage_key v] (orphans d)\<rparr> else d)"
proof -
  have sel: "select_where (\<lambda>x. res_id x = cv_resource v \<and> still_held d c) (resources d) = (if still_held d c then [r] else [])"
    using assms by (intro select_where_row_of)
  have key: "ver_storage_key (version_of now v r) = cv_storage_key v" by (simp add: version_of_def)
  show ?thesis unfolding insert_version_if_held_def Let_def sel
    by (simp add: key untrack_def delete_where_def)
qed

lemma insert_version_none:
  assumes "\<not> still_held d c"
  shows "insert_version_if_held now c v d = (False, d)"
  using assms by (simp add: insert_version_if_held_def select_where_def untrack_def delete_where_def)

lemma publish_tables [simp]:
  "versions (snd (publish_live_content now gen rid c d)) = versions d"
  "pipelines (snd (publish_live_content now gen rid c d)) = pipelines d"
  by (simp_all add: publish_live_content_def Let_def)

lemma publish_ids:
  "ids_ok d \<Longrightarrow> ids_ok (snd (publish_live_content now gen rid c d))"
  by (simp add: ids_ok_def resources_publish_ids)
    (simp add: publish_live_content_def Let_def untrack_distinct park_distinct)

lemma still_held_pipelines: "pipelines d' = pipelines d \<Longrightarrow> still_held d' c = still_held d c"
  by (simp add: still_held_def split: option.split)

lemma publish_row:
  assumes "distinct (map res_id (resources d))" "row_of res_id (resources d) rid = Some r"
    and "publish_live_content now gen rid c d = (True, d')"
  shows "row_of res_id (resources d') rid = Some (published_row now gen c r)"
    and "res_storage_key r = pc_previous_key c" "still_held d (pc_claim c)"
    and "versions d' = versions d" "pipelines d' = pipelines d" "map res_id (resources d') = map res_id (resources d)"
proof -
  let ?Q = "\<lambda>r. res_storage_key r = pc_previous_key c \<and> still_held d (pc_claim c)"
  have d': "d' = snd (publish_live_content now gen rid c d)" and ok: "fst (publish_live_content now gen rid c d)"
    using assms(3) by simp_all
  have "list_ex (\<lambda>r. res_id r = rid \<and> ?Q r) (resources d)" using ok by (simp add: publish_live_content_def Let_def)
  then have q: "?Q r" using list_ex_row_of [of res_id "resources d" rid r ?Q] assms(1,2) by simp
  then show "res_storage_key r = pc_previous_key c" "still_held d (pc_claim c)" by simp_all
  show "row_of res_id (resources d') rid = Some (published_row now gen c r)"
    using row_of_update_key [OF assms(2), of "published_row now gen c" ?Q] q
    unfolding d' by (simp add: publish_live_content_def Let_def published_row_def)
  show "versions d' = versions d" "pipelines d' = pipelines d" unfolding d' by simp_all
  show "map res_id (resources d') = map res_id (resources d)"
    unfolding d' by (simp add: resources_publish_ids)
qed

lemma reserve_tables [simp]:
  "versions (reserve_object now k d) = versions d" "pipelines (reserve_object now k d) = pipelines d"
  "resources (reserve_object now k d) = resources d" "packages (reserve_object now k d) = packages d"
  by (simp_all add: reserve_object_def)

lemma reserve_ids: "ids_ok d \<Longrightarrow> ids_ok (reserve_object now k d)"
  by (auto simp: ids_ok_def reserve_object_def map_update_where)

lemma copy_tables:
  "sdb (snd (copy_object now k k' s)) = reserve_object now k' (sdb s)"
  by (simp add: copy_object_def Let_def)

subsection \<open>A creation\<close>

lemma gate_Created:
  assumes "decide_version_create (gate_of c d) = Created n"
  shows "\<exists>r. row_of res_id (resources d) (cr_resource c) = Some r \<and> res_storage_key r = Some (cr_key c)"
    and "n = next_version_number (cr_resource c) d" "\<not> object_owner_is_purging (cr_key c) d"
proof -
  have "gi_current_key (gate_of c d) = Some (cr_key c)" "\<not> gi_owner_purging (gate_of c d)"
    "n = (case gi_max_version (gate_of c d) of None \<Rightarrow> 0 | Some n \<Rightarrow> n) + 1"
    using assms unfolding decide_version_create_def
    by (simp_all add: gate_of_def Let_def split: if_splits)
  then show "\<exists>r. row_of res_id (resources d) (cr_resource c) = Some r \<and> res_storage_key r = Some (cr_key c)"
    "n = next_version_number (cr_resource c) d" "\<not> object_owner_is_purging (cr_key c) d"
    by (simp_all add: gate_of_def Let_def bind_eq_Some_conv next_version_number_def)
qed

text \<open>The database a creation's last statement meets, however others changed it since the gate read.\<close>

definition filing_meets ::
  "time \<Rightarrow> key \<Rightarrow> (db \<Rightarrow> db) \<Rightarrow> (db \<Rightarrow> db) \<Rightarrow> create_request \<Rightarrow> db \<Rightarrow> db" where
  "filing_meets now fresh between later c d =
    (let d1 = between d
     in later (if object_already_versioned (cr_key c) d1 then reserve_object now fresh d1 else d1))"

lemma inserted_row:
  assumes "insert_version_if_held now c v d = (True, d')" "distinct (map res_id (resources d))"
  obtains r where "row_of res_id (resources d) (cv_resource v) = Some r" "still_held d c"
    "versions d' = versions d @ [version_of now v r]" "resources d' = resources d" "pipelines d' = pipelines d"
proof (cases "row_of res_id (resources d) (cv_resource v)")
  case None
  then have "\<forall>x \<in> set (resources d). res_id x \<noteq> cv_resource v"
    using row_of_None_iff [of res_id "resources d" "cv_resource v"] by (metis image_eqI)
  then have "select_where (\<lambda>x. res_id x = cv_resource v \<and> still_held d c) (resources d) = []"
    by (simp add: select_where_def filter_empty_conv)
  then show ?thesis using assms(1) by (simp add: insert_version_if_held_def)
next
  case (Some r)
  from insert_version_row [OF assms(2) this, of now c] assms(1) show ?thesis
    by (intro that [OF Some]) (auto split: if_splits)
qed

lemma created_version_facts:
  assumes "create_version now gen fresh between later c s = (Inr (Created n), s')"
    and "d = filing_meets now fresh between later c (sdb s)" "distinct (map res_id (resources d))"
  shows "n = next_version_number (cr_resource c) (sdb s)
    \<and> (\<exists>v r r'. row_of res_id (resources d) (cr_resource c) = Some r \<and> still_held d (cr_claim c)
         \<and> versions (sdb s') = versions d @ [v] \<and> ver_resource v = cr_resource c
         \<and> ver_number v = n \<and> ver_state v = ''active'' \<and> ver_size v = Some (cr_size c)
         \<and> ver_hash v = Some (cr_hash c) \<and> ver_format v = res_format r
         \<and> ver_key_columns v = stored_primary_key (res_column_settings r)
         \<and> row_of res_id (resources (sdb s')) (cr_resource c) = Some r'
         \<and> res_format r' = res_format r \<and> res_column_settings r' = res_column_settings r
         \<and> (if object_already_versioned (cr_key c) (between (sdb s))
            then ver_storage_key v = fresh \<and> res_storage_key r = Some (cr_key c) \<and> res_storage_key r' = Some fresh
            else ver_storage_key v = cr_key c \<and> r' = r))"
proof -
  have gate: "decide_version_create (gate_of c (sdb s)) = Created n"
    using assms(1) by (auto simp: create_version_def Let_def split: version_result.splits if_splits prod.splits
        sum.splits option.splits)
  note number = gate_Created(2) [OF gate]
  define org where "org = version_origin (Option.bind (row_of res_id (resources (sdb s)) (cr_resource c)) res_url_type)"
  show ?thesis
  proof (cases "object_already_versioned (cr_key c) (between (sdb s))")
    case False
    let ?cv = "version_to_create c org n (cr_key c)"
    have d: "d = later (between (sdb s))" using assms(2) False by (simp add: filing_meets_def Let_def)
    have ins: "insert_version_if_held now (cr_claim c) ?cv d = (True, sdb s')"
      using assms(1) gate False by (auto simp: create_version_def Let_def d org_def split: prod.splits if_splits)
    from inserted_row [OF ins assms(3)] obtain r where
      r: "row_of res_id (resources d) (cv_resource ?cv) = Some r" "still_held d (cr_claim c)"
        "versions (sdb s') = versions d @ [version_of now ?cv r]" "resources (sdb s') = resources d" by metis
    show ?thesis using r number False
      by (intro conjI exI [of _ "version_of now ?cv r"] exI [of _ r])
        (simp_all add: version_of_def version_to_create_def)
  next
    case True
    let ?cv = "version_to_create c org n fresh"
    have d: "d = later (reserve_object now fresh (between (sdb s)))"
      using assms(2) True by (simp add: filing_meets_def Let_def)
    have filed: "file_copy now gen c ?cv d = Some (sdb s')"
      using assms(1) gate True
      by (auto simp: create_version_def Let_def copy_object_def d org_def split: prod.splits if_splits option.splits sum.splits)
    obtain d3 where d3: "insert_version_if_held now (cr_claim c) ?cv d = (True, d3)"
      "publish_live_content now gen (cr_resource c) (copied_content c fresh) d3 = (True, sdb s')"
      using filed by (auto simp: file_copy_def Let_def version_to_create_def split: if_splits prod.splits)
    from inserted_row [OF d3(1) assms(3)] obtain r where
      r: "row_of res_id (resources d) (cv_resource ?cv) = Some r" "still_held d (cr_claim c)"
        "versions d3 = versions d @ [version_of now ?cv r]" "resources d3 = resources d" by metis
    have ids3: "distinct (map res_id (resources d3))" and
      row3: "row_of res_id (resources d3) (cr_resource c) = Some r"
      using assms(3) r(1,4) by (simp_all add: version_to_create_def)
    note pub = publish_row [OF ids3 row3 d3(2)]
    show ?thesis using pub(1,2,4) r number True
      by (intro conjI exI [of _ "version_of now ?cv r"] exI [of _ r] exI [of _ "published_row now gen (copied_content c fresh) r"])
        (simp_all add: version_of_def version_to_create_def published_row_def copied_content_def)
  qed
qed

end
