(* ===== verification/Version_Frames.thy ===== *)
theory Version_Frames
  imports Version_Facts
begin

text \<open>
  Which statements leave the content and the history alone: \<open>same_content\<close> relates two
  databases with the same versions and the same content pointers, whatever else a
  statement wrote beside them. What the history answers - which version is live, which is
  newest, whether a revert is settled - depends on that alone. Layer 2 is the interface
  \<open>lake_layer\<close>; its law is discharged for the transaction that moves a catalog pointer.
\<close>

definition ver_core ::
  "version_row \<Rightarrow> uuid \<times> int \<times> key \<times> string \<times> string option \<times> string option \<times> string list option" where
  "ver_core v = (ver_resource v, ver_number v, ver_storage_key v, ver_state v, ver_hash v, ver_format v,
     ver_key_columns v)"

definition res_core ::
  "resource_row \<Rightarrow> uuid \<times> key option \<times> string option \<times> string option \<times> json \<times> uuid" where
  "res_core r = (res_id r, res_storage_key r, res_hash r, res_format r, res_column_settings r,
     res_content_revision r)"

definition pl_core ::
  "pipeline_row \<Rightarrow> uuid \<times> uuid \<times> key option \<times> json option \<times> json option" where
  "pl_core p = (pl_id p, pl_resource p, pl_preview_key p, pl_metadata p, pl_profile p)"

definition same_content :: "db \<Rightarrow> db \<Rightarrow> bool" where
  "same_content d d' \<longleftrightarrow> map ver_core (versions d') = map ver_core (versions d)
    \<and> map res_core (resources d') = map res_core (resources d)"

lemma same_content_refl [simp]: "same_content d d"
  by (simp add: same_content_def)

lemma same_content_trans: "same_content d d1 \<Longrightarrow> same_content d1 d2 \<Longrightarrow> same_content d d2"
  by (simp add: same_content_def)

text \<open>Every statement but the lake's keeps the version rows whole.\<close>

definition content_kept :: "db \<Rightarrow> db \<Rightarrow> bool" where
  "content_kept d d' \<longleftrightarrow> versions d' = versions d \<and> map res_core (resources d') = map res_core (resources d)"

lemma kept_refl [simp]: "content_kept d d"
  by (simp add: content_kept_def)

lemma kept_trans: "content_kept d d1 \<Longrightarrow> content_kept d1 d2 \<Longrightarrow> content_kept d d2"
  by (simp add: content_kept_def)

lemma kept_same: "content_kept d d' \<Longrightarrow> same_content d d'"
  by (simp add: content_kept_def same_content_def)

lemma same_res_ids:
  "same_content d d' \<Longrightarrow> map res_id (resources d') = map res_id (resources d)"
proof -
  have ids: "map res_id rs = map fst (map res_core rs)" for rs by (simp add: res_core_def)
  assume "same_content d d'"
  then show ?thesis unfolding same_content_def ids by simp
qed

lemma kept_other [simp]:
  "content_kept d (d\<lparr>pipelines := ps\<rparr>)" "content_kept d (d\<lparr>orphans := os\<rparr>)"
  "content_kept d (d\<lparr>pipelines := ps, orphans := os\<rparr>)" "content_kept d (d\<lparr>steps := ss\<rparr>)"
  by (simp_all add: content_kept_def)

lemma kept_resources:
  "(\<And>r. res_core (f r) = res_core r) \<Longrightarrow> content_kept d (d\<lparr>resources := update_where P f (resources d)\<rparr>)"
  by (simp add: content_kept_def map_update_where)

subsection \<open>What the history answers\<close>

lemma find_core:
  "map_option ver_core (List.find (P \<circ> ver_core) vs) = List.find P (map ver_core vs)"
  by (simp add: find_map)

lemma newest_core:
  "map_option ver_core (first_by (\<lambda>v. - ver_number v) (select_where (P \<circ> ver_core) vs))
    = first_by (\<lambda>c. - fst (snd c)) (filter P (map ver_core vs))"
proof -
  have "(\<lambda>c. - fst (snd c)) \<circ> ver_core = (\<lambda>v. - ver_number v)" by (auto simp: ver_core_def)
  then show ?thesis by (simp add: select_where_def filter_map first_by_map)
qed

definition live_of ::
  "uuid \<Rightarrow> key option \<Rightarrow> string option \<Rightarrow> string list
    \<Rightarrow> (uuid \<times> int \<times> key \<times> string \<times> string option \<times> string option \<times> string list option) list \<Rightarrow> int option" where
  "live_of rid k h states cs =
    (case (if truthy k then List.find (\<lambda>(r, _, x, st, _). r = rid \<and> Some x = k \<and> st \<noteq> ''purged'') cs else None) of
       Some (_, n, _, st, _) \<Rightarrow> if st \<in> set states then Some n else None
     | None \<Rightarrow>
         (if \<not> truthy h then None
          else map_option (\<lambda>c. fst (snd c)) (first_by (\<lambda>c. - fst (snd c))
            (filter (\<lambda>(r, _, _, st, y, _). r = rid \<and> st \<in> set states \<and> y = h) cs))))"

lemma live_version_core: "live_version rid k h states d = live_of rid k h states (map ver_core (versions d))"
proof -
  let ?P = "\<lambda>(r, _, x, st, _). r = rid \<and> Some x = k \<and> st \<noteq> ''purged''"
  let ?Q = "\<lambda>(r, _, _, st, y, _). r = rid \<and> st \<in> set states \<and> y = h"
  have P: "(\<lambda>v. ver_resource v = rid \<and> Some (ver_storage_key v) = k \<and> ver_state v \<noteq> ''purged'') = ?P \<circ> ver_core"
    and Q: "(\<lambda>v. ver_resource v = rid \<and> ver_state v \<in> set states \<and> ver_hash v = h) = ?Q \<circ> ver_core"
    by (auto simp: ver_core_def)
  have "map_option ver_number x = map_option (\<lambda>c. fst (snd c)) (map_option ver_core x)" for x
    by (cases x) (simp_all add: ver_core_def)
  then have N: "map_option ver_number (first_by (\<lambda>v. - ver_number v)
        (select_where (\<lambda>v. ver_resource v = rid \<and> ver_state v \<in> set states \<and> ver_hash v = h) (versions d)))
      = map_option (\<lambda>c. fst (snd c)) (first_by (\<lambda>c. - fst (snd c)) (filter ?Q (map ver_core (versions d))))"
    unfolding Q by (simp only: newest_core)
  have F: "List.find ?P (map ver_core (versions d)) = map_option ver_core
      (List.find (\<lambda>v. ver_resource v = rid \<and> Some (ver_storage_key v) = k \<and> ver_state v \<noteq> ''purged'') (versions d))"
    unfolding P by (simp only: find_core)
  show ?thesis unfolding live_version_def live_of_def N F
    by (auto simp: ver_core_def split: option.split)
qed

lemma same_live:
  "same_content d d' \<Longrightarrow> live_version rid k h states d' = live_version rid k h states d"
  by (simp add: live_version_core same_content_def)

lemma same_row:
  assumes "same_content d d'"
  shows "map_option res_core (row_of res_id (resources d') rid) = map_option res_core (row_of res_id (resources d) rid)"
proof -
  have "(\<lambda>r. res_id r = rid) = (\<lambda>c. fst c = rid) \<circ> res_core" by (auto simp: res_core_def)
  then have "map_option res_core (row_of res_id rs rid) = List.find (\<lambda>c. fst c = rid) (map res_core rs)" for rs
    by (simp add: row_of_def find_map)
  then show ?thesis using assms by (simp add: same_content_def)
qed

lemma same_row_Some:
  assumes "same_content d d'" "row_of res_id (resources d) rid = Some r"
  obtains r' where "row_of res_id (resources d') rid = Some r'" "res_core r' = res_core r"
  using same_row [OF assms(1), of rid] assms(2) by auto

lemma same_live_number: "same_content d d' \<Longrightarrow> live_version_number rid d' = live_version_number rid d"
  using same_row [of d d' rid]
  by (auto simp: live_version_number_def same_live res_core_def split: option.split)

lemma same_get_row:
  assumes "same_content d d'"
  shows "map_option ver_core (get_row rid n d') = map_option ver_core (get_row rid n d)"
proof -
  have "(\<lambda>v. ver_resource v = rid \<and> ver_number v = n) = (\<lambda>(r, m, _). r = rid \<and> m = n) \<circ> ver_core"
    by (auto simp: ver_core_def)
  then have "map_option ver_core (get_row rid n x) = List.find (\<lambda>(r, m, _). r = rid \<and> m = n) (map ver_core (versions x))" for x
    by (simp only: get_row_def find_core)
  then show ?thesis using assms by (simp add: same_content_def)
qed

lemma same_purging:
  assumes "same_content d d'"
  shows "object_owner_is_purging k d' = object_owner_is_purging k d"
proof -
  have "object_owner_is_purging k x = list_ex (\<lambda>(_, _, y, st, _). y = k \<and> st = ''purging'') (map ver_core (versions x))" for x
    by (simp add: object_owner_is_purging_def list_ex_iff ver_core_def)
  then show ?thesis using assms by (simp add: same_content_def)
qed

lemma same_settled:
  assumes "same_content d d'"
  shows "is_settled rid to d' = is_settled rid to d"
proof -
  have "live_is_version_content rid n i d' = live_is_version_content rid n i d" for n i
    using same_get_row [OF assms, of rid n]
    by (auto simp: live_is_version_content_def ver_core_def frozen_identity_def split: option.split)
  then show ?thesis using same_row [OF assms, of rid] same_purging [OF assms]
    by (auto simp: is_settled_def res_core_def live_identity_def split: option.split)
qed

lemma same_newest:
  assumes "same_content d d'"
  shows "map_option ver_core (newest_active_version rid d') = map_option ver_core (newest_active_version rid d)"
proof -
  have "(\<lambda>v. ver_resource v = rid \<and> ver_state v = ''active'') = (\<lambda>(r, _, _, st, _). r = rid \<and> st = ''active'') \<circ> ver_core"
    by (auto simp: ver_core_def)
  then have "map_option ver_core (newest_active_version rid x) = first_by (\<lambda>c. - fst (snd c))
      (filter (\<lambda>(r, _, _, st, _). r = rid \<and> st = ''active'') (map ver_core (versions x)))" for x
    by (simp only: newest_active_version_def newest_core)
  then show ?thesis using assms by (simp add: same_content_def)
qed

lemma same_ids:
  assumes "map ver_core vs' = map ver_core vs"
  shows "map (\<lambda>v. (ver_resource v, ver_number v)) vs' = map (\<lambda>v. (ver_resource v, ver_number v)) vs"
proof -
  have at_core: "map (\<lambda>v. (ver_resource v, ver_number v)) xs = map (\<lambda>c. (fst c, fst (snd c))) (map ver_core xs)" for xs
    by (simp add: ver_core_def)
  show ?thesis unfolding at_core assms ..
qed

lemma same_versions_ok:
  assumes "map ver_core vs' = map ver_core vs" "versions_ok vs"
  shows "versions_ok vs'"
proof -
  have dist: "distinct (map (\<lambda>v. (ver_resource v, ver_number v)) vs')"
    using assms same_ids [OF assms(1)] by (simp add: versions_ok_def)
  have twin: "\<exists>w \<in> set vs. ver_core w = ver_core v" if "v \<in> set vs'" for v
  proof -
    have "ver_core v \<in> set (map ver_core vs)" unfolding assms(1) [symmetric] using that by simp
    then show ?thesis by auto
  qed
  have eq: "v = w" if "v \<in> set vs'" "w \<in> set vs'" "v' \<in> set vs" "ver_core v' = ver_core v" "ver_core v' = ver_core w" for v w v'
    using that dist by (auto simp: ver_core_def distinct_map dest: inj_onD)
  show ?thesis unfolding versions_ok_def
  proof (intro conjI ballI impI)
    show "distinct (map (\<lambda>v. (ver_resource v, ver_number v)) vs')" by (rule dist)
  next
    fix v w assume vw: "v \<in> set vs'" "w \<in> set vs'"
    obtain v1 w1 where 1: "v1 \<in> set vs" "ver_core v1 = ver_core v" "w1 \<in> set vs" "ver_core w1 = ver_core w"
      using twin [OF vw(1)] twin [OF vw(2)] by blast
    have "v1 = w1 \<Longrightarrow> v = w" using eq [OF vw 1(1,2)] 1(4) by simp
    then show "v = w" if "ver_storage_key v = ver_storage_key w \<and> ver_state v \<noteq> ''purged'' \<and> ver_state w \<noteq> ''purged''"
      using that 1 assms(2) unfolding versions_ok_def by (simp add: ver_core_def)
    show "v = w" if "ver_resource v = ver_resource w \<and> ver_state v = ''purging'' \<and> ver_state w = ''purging''"
      using that 1 \<open>v1 = w1 \<Longrightarrow> v = w\<close> assms(2) unfolding versions_ok_def by (simp add: ver_core_def)
  qed
qed

subsection \<open>Statements that keep it\<close>

lemma kept_reserve [simp]: "content_kept d (reserve_object now k d)"
  by (simp add: reserve_object_def)

lemma kept_ensure [simp]: "content_kept d (ensure_claimable now mint rids d)"
  by (simp add: ensure_claimable_eq)

lemma kept_claim [simp]:
  "content_kept d (snd (claim_resources now mint rids w stale k d))"
  "content_kept d (snd (release_resource_claims ids w d))"
  "content_kept d (snd (claim_from_run now mint w rid rev' d))"
proof -
  show "content_kept d (snd (claim_resources now mint rids w stale k d))"
    by (auto simp: claim_resources_def Let_def
        intro: kept_trans [OF kept_ensure kept_other(1)])
  show "content_kept d (snd (release_resource_claims ids w d))"
    by (simp add: release_resource_claims_def Let_def)
  show "content_kept d (snd (claim_from_run now mint w rid rev' d))"
    by (auto simp: claim_from_run_def Let_def split: list.split
        intro: kept_trans [OF kept_ensure kept_other(1)])
qed

lemma kept_merge [simp]:
  "content_kept d (merge_pipeline_metadata rid kvs d)" "content_kept d (mark_content_unindexed rid d)"
  "content_kept d (set_purge_rebuild_pending rid b d)"
  by (simp_all add: merge_pipeline_metadata_def mark_content_unindexed_def set_purge_rebuild_pending_def)

lemma kept_index_due [simp]: "content_kept d (mark_content_index_due now rid d)"
  unfolding mark_content_index_due_def by (rule kept_resources) (simp add: res_core_def)

lemma kept_summary [simp]: "content_kept d (discard_summary_of pt now rid n d)"
  unfolding discard_summary_of_def by (rule kept_resources) (simp add: res_core_def summary_discarded_def)

lemma kept_adopt [simp]: "content_kept d (adopt_version_interpretation now rid v d)"
proof -
  have "content_kept d (d\<lparr>resources := update_where P (\<lambda>r. r\<lparr>res_doc_sync_due_at := Some now\<rparr>) (resources d)\<rparr>)" for P
    by (rule kept_resources) (simp add: res_core_def)
  then show ?thesis by (simp add: adopt_version_interpretation_def Let_def content_kept_def)
qed

lemma kept_queued [simp]: "content_kept d (mark_queued now fresh rid d)"
  by (simp add: mark_queued_def)

lemma kept_detach [simp]: "content_kept d (snd (detach_derived pt now rid rev' d))"
  by (simp add: detach_derived_def Let_def split: option.split)

lemma calling_store:
  assumes "\<And>s. sdb (f s) = sdb s"
  shows "sdb (snd (calling w what f s)) = sdb s"
  using assms by (simp add: calling_def)

lemma backend_tables [simp]:
  "sdb (snd (delete_derived be keys s)) = sdb s" "sdb (snd (delete_content be rid s)) = sdb s"
  "sdb (snd (delete_object be k s)) = sdb s"
  by (simp_all add: delete_derived_def delete_content_def delete_object_def calling_store)

lemma kept_discard [simp]: "content_kept (sdb s) (sdb (snd (discard_derived_artifacts pt now be rid rev' s)))"
  using kept_detach [of "sdb s" pt now rid rev'] by (simp add: discard_derived_artifacts_def case_prod_beta)

subsection \<open>Layer 2\<close>

locale lake_layer =
  fixes lake :: lake
  assumes lake_content: "lake rid n d = (e, d') \<Longrightarrow> same_content d d'"
    and lake_pipelines: "lake rid n d = (e, d') \<Longrightarrow> map pl_core (pipelines d') = map pl_core (pipelines d)"
    and lake_ledger: "lake rid n d = (e, d') \<Longrightarrow> distinct (map orphan_key (orphans d))
      \<Longrightarrow> distinct (map orphan_key (orphans d'))"
begin

lemma lake_ids:
  assumes "lake rid n d = (e, d')" "ids_ok d"
  shows "ids_ok d'"
proof -
  have res: "map res_id rs = map fst (map res_core rs)" for rs by (simp add: res_core_def)
  have pl: "map pl_id ps = map fst (map pl_core ps)" "map pl_resource ps = map (fst \<circ> snd) (map pl_core ps)" for ps
    by (simp_all add: pl_core_def)
  show ?thesis using assms lake_content [OF assms(1)] lake_pipelines [OF assms(1)] lake_ledger [OF assms(1)]
    unfolding ids_ok_def same_content_def by (simp only: res pl)
qed

end

text \<open>The transaction that makes an uploaded catalog current obeys it.\<close>

definition catalog_layer :: "time \<Rightarrow> lake_commit \<Rightarrow> lake" where
  "catalog_layer now c rid n d =
    (case commit_lake_catalog now c d :: (service_error failure + unit) \<times> db of
       (Inl e, d') \<Rightarrow> (Some e, d') | (Inr _, d') \<Rightarrow> (None, d'))"

lemma fold_core:
  "(\<And>x vs. x \<in> set xs \<Longrightarrow> map ver_core (g x vs) = map ver_core vs) \<Longrightarrow> map ver_core (fold g xs vs) = map ver_core vs"
  by (induction xs arbitrary: vs) auto

lemma commit_core:
  "map ver_core (on_version rid n (\<lambda>v. v\<lparr>ver_lake_snapshot := x\<rparr>) vs) = map ver_core vs"
  "map ver_core (record_refusal rid y vs) = map ver_core vs"
  by (simp add: on_version_def map_update_where ver_core_def)
    (cases y; simp add: on_version_def map_update_where ver_core_def)

lemma commit_same:
  assumes "commit_lake_catalog now c d = (r, d')"
  shows "same_content d d'" "map pl_core (pipelines d') = map pl_core (pipelines d)"
    "distinct (map orphan_key (orphans d)) \<Longrightarrow> distinct (map orphan_key (orphans d'))"
proof -
  let ?vs1 = "if lc_rebuilt c then update_where (\<lambda>v. ver_resource v = lc_resource c)
      (\<lambda>v. v\<lparr>ver_lake_snapshot := None\<rparr>) (versions d) else versions d"
  have "map ver_core ?vs1 = map ver_core (versions d)" by (simp add: map_update_where ver_core_def)
  then have "map ver_core (fold (\<lambda>(n, s). on_version (lc_resource c) n (\<lambda>v. v\<lparr>ver_lake_snapshot := Some s\<rparr>))
      (lc_snapshots c) (fold (record_refusal (lc_resource c)) (lc_refused c) ?vs1)) = map ver_core (versions d)"
    by (auto simp: fold_core commit_core split: prod.split)
  then show "same_content d d'" "map pl_core (pipelines d') = map pl_core (pipelines d)"
    "distinct (map orphan_key (orphans d)) \<Longrightarrow> distinct (map orphan_key (orphans d'))"
    using assms by (auto simp: commit_lake_catalog_def Let_def same_content_def map_update_where pl_core_def
        untrack_distinct park_distinct split: if_splits)
qed

interpretation catalog: lake_layer "catalog_layer now c"
  by unfold_locales (auto simp: catalog_layer_def dest: commit_same split: prod.splits sum.splits)

end
