(* ===== verification/Version_Guarantees.thy ===== *)
theory Version_Guarantees
  imports Version_Facts Samples
begin

text \<open>
  What the history promises: a version is filed once, by a run that still holds the
  resource, and what a tombstone still says about its content is nothing.
\<close>

subsection \<open>Helper lemmas\<close>

lemma gate_identity:
  assumes "row_of res_id (resources d) (cr_resource c) = Some r"
    and "newest_active_version (cr_resource c) d = Some v"
    and "ver_hash v = Some (cr_hash c)" "ver_format v = res_format r"
    and "ver_key_columns v = primary_key_of (res_column_settings r)"
  shows "decide_version_create (gate_of c d) = Not_Created"
  using assms by (simp add: decide_version_create_def gate_of_def Let_def frozen_identity_def)

lemma find_take2:
  "distinct xs \<Longrightarrow> List.find (\<lambda>x. x \<noteq> a) (take 2 xs) = List.find (\<lambda>x. x \<noteq> a) xs"
  by (cases xs; cases "tl xs") (auto simp: numeral_2_eq_2)

lemma standing_eq:
  "map ver_number (select_where (\<lambda>v. ver_state v = ''active'') (versions_newest_first rid d))
    = map ver_number (sort_key (\<lambda>v. - ver_number v)
        (select_where (\<lambda>v. ver_resource v = rid \<and> ver_state v = ''active'') (versions d)))"
  by (simp add: versions_newest_first_def select_where_def filter_sort conj_commute)

lemma distinct_standing:
  assumes "versions_ok (versions d)"
  shows "distinct (map ver_number (sort_key (\<lambda>v. - ver_number v)
    (select_where (\<lambda>v. ver_resource v = rid \<and> ver_state v = ''active'') (versions d))))"
proof -
  have "inj_on ver_number {v \<in> set (versions d). ver_resource v = rid}"
    using assms by (auto simp: versions_ok_def distinct_map inj_on_def)
  moreover have "distinct (versions d)"
    using assms by (auto simp: versions_ok_def distinct_map)
  ultimately show ?thesis
    by (auto simp: distinct_map select_where_def intro: inj_on_subset)
qed

subsection \<open>Stores to apply them to\<close>

text \<open>Resource 10 under a run's claim, and a run that brings its bytes.\<close>

definition sample_store :: "json \<Rightarrow> store" where
  "sample_store settings = \<lparr>sdb = (taken_db Run)\<lparr>resources :=
       [(sample_resource 10 (Some ''a''))\<lparr>res_column_settings := settings\<rparr>]\<rparr>,
     bucket = {''a''}, indexed = {}, asked = [], audit = []\<rparr>"

definition sample_creation :: create_request where
  "sample_creation = \<lparr>cr_resource = 10, cr_key = ''a'', cr_hash = ''h'', cr_size = 3, cr_claim = Some sample_claim\<rparr>"

definition all_answer :: backends where
  "all_answer = \<lparr>be_delete = (\<lambda>_. Answered), be_refuses = (\<lambda>_. []), be_delete_many = Answered,
     be_search = Answered, be_queue = Answered\<rparr>"

text \<open>An upload of the bytes of version 3, moving the pointer to an object of its own.\<close>

definition sample_upload :: "db \<Rightarrow> db" where
  "sample_upload d = d\<lparr>resources := update_where (\<lambda>r. res_id r = 10)
     (\<lambda>r. r\<lparr>res_storage_key := Some ''u'', res_hash := Some ''a'', res_content_revision := 77\<rparr>) (resources d)\<rparr>"

text \<open>A history of three: the first purged, the second a revert to it, the third live.\<close>

definition sample_version :: "int \<Rightarrow> key \<Rightarrow> string \<Rightarrow> version_row" where
  "sample_version n k st =
    (version_of 0 \<lparr>cv_resource = 10, cv_version = n, cv_storage_key = k, cv_size = Some 3, cv_hash = Some k,
       cv_origin = ''upload'', cv_schema = None, cv_restored_from = (if n = 2 then Some 1 else None),
       cv_schema_format = None\<rparr> (sample_resource 10 None))\<lparr>ver_state := st\<rparr>"

definition sample_history :: db where
  "sample_history = sample_db\<lparr>versions :=
     [sample_version 1 ''x'' ''purged'', sample_version 2 ''y'' ''active'', sample_version 3 ''a'' ''active'']\<rparr>"

lemma sample_history_ok: "versions_ok (versions sample_history)"
  by (simp add: versions_ok_def sample_history_def sample_version_def version_of_def)

lemma sample_store_ids: "ids_ok (sdb (sample_store j))"
  by (simp add: sample_store_def taken_db_def sample_db_def sample_resource_def ids_ok_def)

lemma sample_store_row:
  "row_of res_id (resources (sdb (sample_store j))) (cr_resource sample_creation)
    = Some ((sample_resource 10 (Some ''a''))\<lparr>res_column_settings := j\<rparr>)"
  by (simp add: sample_store_def sample_creation_def sample_resource_def)

subsection \<open>Properties\<close>

text \<open>
  C18. A version is filed once. Whatever others commit between the gate and the filing, when
  \<open>createVersion\<close> answers that it filed version \<open>n\<close>, then \<open>n\<close> is above every number the gate saw
  the resource use, tombstones included; one row was appended to the history the others left,
  active, with the run's bytes under the label and key setting the resource has by then, owning
  the run's object or, where a version owned that already, the copy; and in the latter case the
  resource was still standing on the object and now stands on the copy. If the resource stands
  on the run's object by then, no one has numbered a version of it from \<open>n\<close> on and its key
  setting is not stored as an empty list, the version is the newest active one and the one the
  live pointer names, and it settles the content: a later run that brings the same bytes, under
  whatever object key, files nothing.
\<close>

theorem created_version_settles:
  assumes "create_version now gen fresh between later c s = (Inr (Created n), s')"
    and "d = filing_meets now fresh between later c (sdb s)" "distinct (map res_id (resources d))"
  shows "(\<forall>w \<in> set (versions (sdb s)). ver_resource w = cr_resource c \<longrightarrow> ver_number w < n)
    \<and> (\<exists>v r r'. row_of res_id (resources d) (cr_resource c) = Some r
         \<and> row_of res_id (resources (sdb s')) (cr_resource c) = Some r'
         \<and> versions (sdb s') = versions d @ [v] \<and> ver_resource v = cr_resource c \<and> ver_number v = n
         \<and> ver_state v = ''active'' \<and> ver_hash v = Some (cr_hash c) \<and> ver_size v = Some (cr_size c)
         \<and> ver_format v = res_format r \<and> ver_key_columns v = stored_primary_key (res_column_settings r)
         \<and> (if object_already_versioned (cr_key c) (between (sdb s))
            then ver_storage_key v = fresh \<and> res_storage_key r = Some (cr_key c) \<and> res_storage_key r' = Some fresh
            else ver_storage_key v = cr_key c \<and> r' = r)
         \<and> (res_storage_key r = Some (cr_key c)
            \<and> (\<forall>w \<in> set (versions d). ver_resource w = cr_resource c \<longrightarrow> ver_number w < n)
            \<and> stored_primary_key (res_column_settings r) \<noteq> Some []
            \<longrightarrow> newest_active_version (cr_resource c) (sdb s') = Some v
              \<and> res_storage_key r' = Some (ver_storage_key v)
              \<and> (\<forall>k. decide_version_create (gate_of (c\<lparr>cr_key := k\<rparr>) (sdb s')) = Not_Created)))"
proof -
  from created_version_facts [OF assms] obtain v r r' where
    n: "n = next_version_number (cr_resource c) (sdb s)"
    and v: "versions (sdb s') = versions d @ [v]" "ver_resource v = cr_resource c" "ver_number v = n"
      "ver_state v = ''active''" "ver_size v = Some (cr_size c)" "ver_hash v = Some (cr_hash c)"
      "ver_format v = res_format r" "ver_key_columns v = stored_primary_key (res_column_settings r)"
    and r: "row_of res_id (resources d) (cr_resource c) = Some r"
      "row_of res_id (resources (sdb s')) (cr_resource c) = Some r'"
      "res_format r' = res_format r" "res_column_settings r' = res_column_settings r"
    and key: "if object_already_versioned (cr_key c) (between (sdb s))
       then ver_storage_key v = fresh \<and> res_storage_key r = Some (cr_key c) \<and> res_storage_key r' = Some fresh
       else ver_storage_key v = cr_key c \<and> r' = r" by blast
  have "newest_active_version (cr_resource c) (sdb s') = Some v
      \<and> res_storage_key r' = Some (ver_storage_key v)
      \<and> (\<forall>k. decide_version_create (gate_of (c\<lparr>cr_key := k\<rparr>) (sdb s')) = Not_Created)"
    if quiet: "res_storage_key r = Some (cr_key c)" "stored_primary_key (res_column_settings r) \<noteq> Some []"
      "\<forall>w \<in> set (versions d). ver_resource w = cr_resource c \<longrightarrow> ver_number w < n"
  proof -
    have newest: "newest_active_version (cr_resource c) (sdb s') = Some v"
      using v(1-4) quiet(3) by (intro newest_active_append) auto
    have "ver_key_columns v = primary_key_of (res_column_settings r')"
      using v(8) r(4) quiet(2) by (auto simp: primary_key_of_def key_columns_of_def split: option.split)
    then have "decide_version_create (gate_of (c\<lparr>cr_key := k\<rparr>) (sdb s')) = Not_Created" for k
      using r(2,3) newest v(6,7) by (intro gate_identity [of "sdb s'" _ r' v]) simp_all
    then show ?thesis using newest key quiet(1) by (simp split: if_splits)
  qed
  moreover have "\<forall>w \<in> set (versions (sdb s)). ver_resource w = cr_resource c \<longrightarrow> ver_number w < n"
    using next_number_above n by blast
  ultimately show ?thesis using v r key by (intro conjI exI [of _ v] exI [of _ r] exI [of _ r']) simp_all
qed

text \<open>Others put another label on the resource between the gate and the filing.\<close>

definition sample_relabel :: "db \<Rightarrow> db" where
  "sample_relabel d = d\<lparr>resources := map (\<lambda>r. r\<lparr>res_format := Some ''TSV''\<rparr>) (resources d)\<rparr>"

lemma created_version_settles_witness:
  "\<exists>v. newest_active_version 10 (sdb (snd (create_version 6 9 ''n'' sample_relabel id sample_creation
      (sample_store (JObj []))))) = Some v \<and> ver_format v = Some ''TSV''"
proof -
  let ?run = "create_version 6 9 ''n'' sample_relabel id sample_creation (sample_store (JObj []))"
  let ?d = "filing_meets 6 ''n'' sample_relabel id sample_creation (sdb (sample_store (JObj [])))"
  have "fst ?run = Inr (Created 1)" by code_simp
  then have e: "?run = (Inr (Created 1), snd ?run)" by (metis prod.collapse)
  have d: "distinct (map res_id (resources ?d))" "versions ?d = []" by code_simp+
  have row: "map_option (\<lambda>r. (res_storage_key r, res_format r, stored_primary_key (res_column_settings r)))
      (row_of res_id (resources ?d) (cr_resource sample_creation)) = Some (Some ''a'', Some ''TSV'', None)"
    by code_simp
  have key: "cr_key sample_creation = ''a''" "cr_resource sample_creation = 10" by (simp_all add: sample_creation_def)
  from created_version_settles [OF e refl d(1)] d(2) row show ?thesis unfolding key by auto
qed

text \<open>
  C40. A run that has lost its claim files nothing. However the database was changed between
  the run's statements, if the claim no longer holds in the one its filing meets, no version is
  created, and the history and every resource are what the others left.
\<close>

theorem displaced_run_files_nothing:
  assumes "create_version now gen fresh between later c s = (reply, s')"
    and "\<not> still_held (filing_meets now fresh between later c (sdb s)) (cr_claim c)"
    and "d = (if decide_version_create (gate_of c (sdb s)) = Not_Created then sdb s
              else if object_already_versioned (cr_key c) (between (sdb s)) \<and> cr_key c \<notin> bucket s
              then between (sdb s) else filing_meets now fresh between later c (sdb s))"
  shows "(\<forall>n. reply \<noteq> Inr (Created n)) \<and> versions (sdb s') = versions d \<and> resources (sdb s') = resources d"
proof (cases "decide_version_create (gate_of c (sdb s))")
  case Not_Created
  then show ?thesis using assms(1,3) by (auto simp: create_version_def)
next
  case (Created m)
  let ?d = "filing_meets now fresh between later c (sdb s)"
  show ?thesis
  proof (cases "object_already_versioned (cr_key c) (between (sdb s))")
    case False
    then have "?d = later (between (sdb s))" by (simp add: filing_meets_def Let_def)
    then show ?thesis using assms Created False by (auto simp: create_version_def Let_def insert_version_none)
  next
    case True
    then have d: "?d = later (reserve_object now fresh (between (sdb s)))" by (simp add: filing_meets_def Let_def)
    have "file_copy now gen c v ?d = None" for v
      using assms(2) by (simp add: file_copy_def insert_version_none)
    then show ?thesis using assms(1,3) Created True unfolding d
      by (auto simp: create_version_def Let_def copy_object_def split: if_splits)
  qed
qed

lemma displaced_run_files_nothing_witness:
  "versions (sdb (snd (create_version 6 9 ''n'' id (\<lambda>d. snd (cancel_resource_run 6 10 d)) sample_creation
     (sample_store (JObj []))))) = []"
proof -
  let ?l = "\<lambda>d. snd (cancel_resource_run 6 10 d)"
  let ?d = "filing_meets 6 ''n'' id ?l sample_creation (sdb (sample_store (JObj [])))"
  have lost: "\<not> still_held ?d (cr_claim sample_creation)"
    and none: "versions (sdb (sample_store (JObj []))) = []" "versions ?d = []"
    by code_simp+
  from displaced_run_files_nothing [where later = ?l and between = id and c = sample_creation
      and s = "sample_store (JObj [])" and now = 6 and gen = 9 and fresh = "''n''", OF surjective_pairing lost refl] none
  show ?thesis by (simp split: if_splits)
qed

text \<open>
  A row whose key setting is stored as an empty list is filed again by every run. The
  gate collapses the setting's empty list to no key but compares it with the list the
  version froze uncollapsed, so the bytes never count as settled: right after the version is
  created the gate would file the same bytes again.
\<close>

theorem empty_key_refiled:
  assumes "ids_ok (sdb s)" "create_version now gen fresh id id c s = (Inr (Created n), s')"
    and "row_of res_id (resources (sdb s)) (cr_resource c) = Some r"
    and "stored_primary_key (res_column_settings r) = Some []" "fresh \<notin> version_keys (sdb s)"
    and "Option.bind (row_of res_id (resources (sdb s')) (cr_resource c)) res_storage_key = Some k"
  shows "decide_version_create (gate_of (c\<lparr>cr_key := k\<rparr>) (sdb s')) = Created (n + 1)"
proof -
  define d where "d = filing_meets now fresh id id c (sdb s)"
  have d: "resources d = resources (sdb s)" "versions d = versions (sdb s)" by (simp_all add: d_def filing_meets_def Let_def)
  have ids: "distinct (map res_id (resources d))" using assms(1) d by (simp add: ids_ok_def)
  from created_version_facts [OF assms(2) d_def ids] obtain v r' where
    v: "versions (sdb s') = versions (sdb s) @ [v]" "ver_resource v = cr_resource c" "ver_number v = n"
      "n = next_version_number (cr_resource c) (sdb s)" "ver_state v = ''active''"
      "ver_key_columns v = stored_primary_key (res_column_settings r)"
    and r': "row_of res_id (resources (sdb s')) (cr_resource c) = Some r'"
      "res_column_settings r' = res_column_settings r"
    and key: "if object_already_versioned (cr_key c) (sdb s)
       then ver_storage_key v = fresh \<and> res_storage_key r = Some (cr_key c) \<and> res_storage_key r' = Some fresh
       else ver_storage_key v = cr_key c \<and> r' = r"
    unfolding d using assms(3) by auto
  have "decide_version_create (gate_of c (sdb s)) = Created n"
    using assms(2) by (auto simp: create_version_def Let_def split: version_result.splits if_splits prod.splits
        sum.splits option.splits)
  then have "res_storage_key r = Some (cr_key c)" using gate_Created(1) assms(3) by fastforce
  then have live: "res_storage_key r' = Some (ver_storage_key v)" using key by (auto split: if_splits)
  have below: "ver_number w < n" if "w \<in> set (versions (sdb s))" "ver_resource w = cr_resource c" for w
    using next_number_above [OF that] v(4) by simp
  have newest: "newest_active_version (cr_resource c) (sdb s') = Some v"
    using v below by (intro newest_active_append) auto
  have top: "max_version (cr_resource c) (sdb s') = Some n"
    using max_version_append [OF v(2) _ v(1)] below v(3) by auto
  have k: "k = ver_storage_key v" using assms(6) r' live by simp
  have "\<not> object_owner_is_purging k (sdb s')"
  proof
    assume "object_owner_is_purging k (sdb s')"
    then obtain w where w: "w \<in> set (versions (sdb s'))" "ver_storage_key w = k" "ver_state w = ''purging''"
      by (auto simp: object_owner_is_purging_def list_ex_iff)
    then have "w \<in> set (versions (sdb s))" using v(1,5) by auto
    with w show False using key k assms(5)
      by (auto simp: object_already_versioned_def owned_by_version_def list_ex_iff version_keys_def split: if_splits)
  qed
  moreover have "ver_key_columns v \<noteq> primary_key_of (res_column_settings r')"
    using v(6) r'(2) assms(4) by (simp add: primary_key_of_def key_columns_of_def)
  ultimately show ?thesis using r' live newest top k
    by (simp add: decide_version_create_def gate_of_def Let_def frozen_identity_def)
qed

lemma empty_key_refiled_witness:
  "decide_version_create (gate_of sample_creation
     (sdb (snd (create_version 6 9 ''n'' id id sample_creation (sample_store (JObj [(''primaryKey'', JArr [])]))))))
   = Created 2"
proof -
  let ?j = "JObj [(''primaryKey'', JArr [])]"
  let ?s = "snd (create_version 6 9 ''n'' id id sample_creation (sample_store ?j))"
  have "fst (create_version 6 9 ''n'' id id sample_creation (sample_store ?j)) = Inr (Created 1)"
    by code_simp
  then have e: "create_version 6 9 ''n'' id id sample_creation (sample_store ?j) = (Inr (Created 1), ?s)"
    by (metis prod.collapse)
  have h: "stored_primary_key (res_column_settings ((sample_resource 10 (Some ''a''))\<lparr>res_column_settings := ?j\<rparr>))
      = Some []" by code_simp
  have f: "''n'' \<notin> version_keys (sdb (sample_store ?j))"
    by (simp add: version_keys_def sample_store_def taken_db_def sample_db_def)
  have "Option.bind (row_of res_id (resources (sdb ?s)) (cr_resource sample_creation)) res_storage_key = Some ''a''"
    by code_simp
  from empty_key_refiled [OF sample_store_ids e sample_store_row h f this] show ?thesis
    by (simp add: sample_creation_def)
qed

text \<open>
  C32. A tombstone discloses nothing of its content: in the history and in a version's own
  view, a purged version shows no key columns, size, hash, schema, reason for having no table,
  or version that it re-published; no view names a purged version as the one it re-published,
  and a purged version cannot be downloaded. What a view does show of a version, purged or
  not, is its number, state, origin and format.
\<close>

theorem tombstone_discloses_nothing:
  assumes "versions_ok (versions d)"
    and "vw \<in> set (list_by_resource rid d) \<or> get_version rid n d = Inr vw"
  shows "(vw_state vw = ''purged'' \<longrightarrow> vw_key_columns vw = None \<and> vw_size vw = None \<and> vw_hash vw = None
      \<and> vw_schema vw = None \<and> vw_no_table_reason vw = None \<and> vw_restored_from vw = None
      \<and> get_download_target rid (vw_version vw) d = Inl (Failed Not_Found))
    \<and> (\<forall>m w. vw_restored_from vw = Some m \<and> get_row rid m d = Some w \<longrightarrow> ver_state w \<noteq> ''purged'')
    \<and> (\<exists>w. get_row rid (vw_version vw) d = Some w \<and> vw_state vw = ver_state w \<and> vw_origin vw = ver_origin w
         \<and> vw_format vw = ver_format w)"
proof -
  obtain v live standing purged where v: "v \<in> set (versions d)" "ver_resource v = rid"
    "vw = to_view v live standing purged"
    "\<And>m w. ver_restored_from v = Some m \<Longrightarrow> get_row rid m d = Some w \<Longrightarrow> ver_state w = ''purged'' \<Longrightarrow> purged"
  proof (cases "vw \<in> set (list_by_resource rid d)")
    case True
    let ?rows = "versions_newest_first rid d"
    let ?gone = "map ver_number (select_where (\<lambda>v. ver_state v = ''purged'') ?rows)"
    from True obtain v where v: "v \<in> set ?rows"
      "vw = to_view v (live_version_number rid d)
        (map ver_number (select_where (\<lambda>v. ver_state v = ''active'') ?rows))
        (case ver_restored_from v of None \<Rightarrow> False | Some n \<Rightarrow> n \<in> set ?gone)"
      by (auto simp: list_by_resource_def Let_def)
    have gone: "m \<in> set ?gone" if "get_row rid m d = Some w" "ver_state w = ''purged''" for m w
      using get_row_SomeD [OF that(1)] that(2) by (auto simp: versions_newest_first_def table_simps)
    have row: "v \<in> set (versions d)" "ver_resource v = rid"
      using v(1) by (simp_all add: versions_newest_first_def table_simps)
    show ?thesis by (rule that [OF row v(2)]) (use gone in simp)
  next
    case False
    then obtain v where v: "get_row rid n d = Some v"
      "vw = to_view v (live_version_number rid d)
        (take 2 (map ver_number (sort_key (\<lambda>v. - ver_number v)
          (select_where (\<lambda>v. ver_resource v = rid \<and> ver_state v = ''active'') (versions d)))))
        (source_is_purged rid (ver_restored_from v) d)"
      using assms(2) by (auto simp: get_version_def split: option.splits)
    have row: "v \<in> set (versions d)" "ver_resource v = rid" using get_row_SomeD [OF v(1)] by simp_all
    show ?thesis by (rule that [OF row v(2)]) (simp add: source_is_purged_def)
  qed
  have row: "get_row rid (ver_number v) d = Some v" using get_row_mem [OF assms(1) v(1)] v(2) by simp
  show ?thesis using v(4) row unfolding v(3)
    by (auto simp: to_view_def Let_def get_download_target_def)
qed

lemma tombstone_discloses_nothing_witness:
  "vw_restored_from (to_view (sample_version 2 ''y'' ''active'') (Some 3) [3, 2] True) = None
   \<and> get_download_target 10 1 sample_history = Inl (Failed Not_Found)"
proof -
  let ?one = "to_view (sample_version 1 ''x'' ''purged'') (Some 3) [3, 2] False"
  let ?two = "to_view (sample_version 2 ''y'' ''active'') (Some 3) [3, 2] True"
  have v: "get_version 10 1 sample_history = Inr ?one" "get_version 10 2 sample_history = Inr ?two"
    by code_simp+
  have g: "get_row 10 1 sample_history = Some (sample_version 1 ''x'' ''purged'')" by code_simp
  have s: "vw_state ?one = ''purged''" "vw_version ?one = 1" "ver_state (sample_version 1 ''x'' ''purged'') = ''purged''"
    "vw_restored_from ?two = None \<or> vw_restored_from ?two = Some 1" by code_simp+
  from tombstone_discloses_nothing [OF sample_history_ok disjI2 [OF v(1)]]
    tombstone_discloses_nothing [OF sample_history_ok disjI2 [OF v(2)]] g s
  show ?thesis by auto
qed

text \<open>
  A version looks the same from both sides: the view of a single version, which reads
  only the two newest standing versions, is the one the history lists for it.
\<close>

theorem views_agree:
  assumes "versions_ok (versions d)" "get_version rid n d = Inr vw"
  shows "vw \<in> set (list_by_resource rid d)
    \<and> (\<forall>vw' \<in> set (list_by_resource rid d). vw_version vw' = n \<longrightarrow> vw' = vw)"
proof -
  let ?st = "map ver_number (sort_key (\<lambda>v. - ver_number v)
        (select_where (\<lambda>v. ver_resource v = rid \<and> ver_state v = ''active'') (versions d)))"
  let ?gone = "map ver_number (select_where (\<lambda>v. ver_state v = ''purged'') (versions_newest_first rid d))"
  obtain v where v: "get_row rid n d = Some v"
    "vw = to_view v (live_version_number rid d) (take 2 ?st) (source_is_purged rid (ver_restored_from v) d)"
    using assms(2) by (auto simp: get_version_def split: option.splits)
  note mem = get_row_SomeD [OF v(1)]
  have src: "source_is_purged rid (ver_restored_from v) d
      = (case ver_restored_from v of None \<Rightarrow> False | Some m \<Rightarrow> m \<in> set ?gone)"
  proof (cases "ver_restored_from v")
    case (Some m)
    have "map_option ver_state (get_row rid m d) = Some ''purged'' \<longleftrightarrow> m \<in> set ?gone"
    proof
      assume "m \<in> set ?gone"
      then obtain w where "w \<in> set (versions d)" "ver_resource w = rid" "ver_number w = m" "ver_state w = ''purged''"
        by (auto simp: versions_newest_first_def table_simps)
      then show "map_option ver_state (get_row rid m d) = Some ''purged''"
        using get_row_mem [OF assms(1), of w] by auto
    next
      assume "map_option ver_state (get_row rid m d) = Some ''purged''"
      then obtain w where "get_row rid m d = Some w" "ver_state w = ''purged''" by auto
      then show "m \<in> set ?gone"
        using get_row_SomeD by (fastforce simp: versions_newest_first_def table_simps)
    qed
    then show ?thesis using Some by (simp add: source_is_purged_def)
  qed (simp add: source_is_purged_def)
  have view: "to_view v l (take 2 ?st) p = to_view v l ?st p" for l p
    using find_take2 [OF distinct_standing [OF assms(1)]] by (simp add: to_view_def Let_def)
  have row: "v \<in> set (versions_newest_first rid d)" using mem by (simp add: versions_newest_first_def table_simps)
  have listed: "list_by_resource rid d = map (\<lambda>w. to_view w (live_version_number rid d) ?st
      (case ver_restored_from w of None \<Rightarrow> False | Some m \<Rightarrow> m \<in> set ?gone)) (versions_newest_first rid d)"
    by (simp add: list_by_resource_def Let_def standing_eq)
  have "vw \<in> set (list_by_resource rid d)"
    unfolding listed v(2) view src using row by simp
  moreover have "vw' = vw" if vw': "vw' \<in> set (list_by_resource rid d)" "vw_version vw' = n" for vw'
  proof -
    from vw'(1) obtain w where w: "w \<in> set (versions_newest_first rid d)"
      "vw' = to_view w (live_version_number rid d) ?st
        (case ver_restored_from w of None \<Rightarrow> False | Some m \<Rightarrow> m \<in> set ?gone)"
      unfolding listed by auto
    then have "w \<in> set (versions d)" "ver_resource w = rid" "ver_number w = n"
      using vw'(2) by (auto simp: versions_newest_first_def table_simps to_view_def Let_def)
    then have "w = v" using get_row_mem [OF assms(1), of w] v(1) by simp
    then show ?thesis unfolding w(2) v(2) view src by simp
  qed
  ultimately show ?thesis by blast
qed

lemma views_agree_witness:
  "to_view (sample_version 3 ''a'' ''active'') (Some 3) [3, 2] False \<in> set (list_by_resource 10 sample_history)"
proof -
  have "get_version 10 3 sample_history = Inr (to_view (sample_version 3 ''a'' ''active'') (Some 3) [3, 2] False)"
    by code_simp
  from views_agree [OF sample_history_ok this] show ?thesis by blast
qed

end
