(* ===== verification/Version_Revert.thy ===== *)
theory Version_Revert
  imports Version_Frames Version_Guarantees
begin

text \<open>
  What a revert promises: it lands on the destination it names, by a version added on top,
  and the same request sent again finds itself answered.
\<close>

subsection \<open>Claims around a body\<close>

lemma with_claim_from_run_body:
  assumes "with_claim_from_run now mint owner rid action fn rev' d = (Inr x, d')"
  obtains c b d1 d2 where "content_kept d d1" "fn c b d1 = (Inr x, d2)" "content_kept d2 d'"
proof -
  obtain c b d1 where c: "claim_from_run now mint owner rid rev' d = (Claimed c b, d1)"
    using assms by (auto simp: with_claim_from_run_def split: prod.splits takeover.splits)
  then have "content_kept d d1" by (metis kept_claim(3) snd_conv)
  moreover obtain d2 where "fn c b d1 = (Inr x, d2)"
    "d' = (case c of None \<Rightarrow> d2 | Some c \<Rightarrow> snd (release_resource_claims [claim_id c] (claim_owner c) d2))"
    using assms c by (auto simp: with_claim_from_run_def split: prod.splits)
  ultimately show ?thesis by (intro that [of d1 c b d2]) (auto split: option.split)
qed

lemma with_resource_claims_body:
  assumes "with_resource_claims now mint owner rids fn d = (r, d')"
    and "\<And>c d1. content_kept d d1 \<Longrightarrow> content_kept d1 (snd (fn c d1))"
  shows "content_kept d d'"
proof -
  obtain taken held d1 where c: "claim_resources now mint rids owner CLAIM_STALE_AFTER_MS Job d = ((taken, held), d1)"
    by (metis prod.collapse)
  then have "content_kept d d1" by (metis kept_claim(1) snd_conv)
  then show ?thesis using assms(1) assms(2) [of d1 taken] c
    by (auto simp: with_resource_claims_def Let_def split: prod.splits if_splits
        intro: kept_trans [OF kept_trans [OF _ _] kept_claim(2)])
qed

lemma kept_rebuild [simp]:
  "content_kept (sdb s) (sdb (snd (queue_rebuild be now fresh rid s)))"
  by (simp add: queue_rebuild_def enqueue_rebuild_def calling_def apfst_def)

lemma kept_retracted [simp]:
  "content_kept (sdb s) (sdb (snd (discard_retracted pt now be rid rev' s)))"
  by (simp add: discard_retracted_def case_prod_beta Let_def kept_trans [OF kept_discard kept_merge(2)]
      kept_trans [OF kept_discard kept_index_due])

lemma kept_emptied:
  assumes "clear_emptied pt now mint owner be rid rev' s = (r, s')"
  shows "content_kept (sdb s) (sdb s')"
proof -
  define body where "body d = (case row_of res_id (resources d) rid of
       Some x \<Rightarrow> (if res_storage_key x \<noteq> None \<or> res_content_revision x \<noteq> rev' then (None, s\<lparr>sdb := d\<rparr>)
          else map_prod Some id (discard_retracted pt now be rid (Some rev') (s\<lparr>sdb := d\<rparr>)))
     | None \<Rightarrow> (None, s\<lparr>sdb := d\<rparr>))" for d
  define fn where "fn = (\<lambda>(_ :: resource_claim list) d.
      (Inr (body d) :: unit failure + (bool option \<times> store), sdb (snd (body d))))"
  have eq: "clear_emptied pt now mint owner be rid rev' s =
      (case with_resource_claims now mint owner [rid] fn (sdb s) of
         (Inr (Ran (r, s1)), d) \<Rightarrow> (r, s1\<lparr>sdb := d\<rparr>) | (_, d) \<Rightarrow> (Some False, s\<lparr>sdb := d\<rparr>))"
    by (simp add: clear_emptied_def fn_def body_def Let_def)
  have "content_kept d (sdb (snd (body d)))" for d
    using kept_retracted [of "s\<lparr>sdb := d\<rparr>" pt now be rid "Some rev'"]
    by (simp add: body_def split: option.split)
  then have fn: "content_kept d (snd (fn c d))" for c d by (simp add: fn_def)
  obtain x d' where x: "with_resource_claims now mint owner [rid] fn (sdb s) = (x, d')" by (metis prod.collapse)
  have "content_kept (sdb s) d'" by (rule with_resource_claims_body [OF x fn])
  moreover have "sdb s' = d'" using assms unfolding eq x
    by (auto split: sum.splits claim_outcome.splits prod.splits)
  ultimately show ?thesis by simp
qed

lemma settled_kept:
  assumes "settled_revert pt now mint owner fresh be rid to s = (x, s')"
  shows "content_kept (sdb s) (sdb s')"
    and "x = Some out \<Longrightarrow> is_settled rid to (sdb s) \<and> lo_published out = None"
proof -
  have q: "queue_rebuild be now fresh rid s = (b, s1) \<Longrightarrow> content_kept (sdb s) (sdb s1)" for b s1
    using kept_rebuild [of s be now fresh rid] by simp
  show "content_kept (sdb s) (sdb s')"
    using assms q kept_emptied
    by (auto simp: settled_revert_def Let_def split: option.splits if_splits prod.splits)
  show "x = Some out \<Longrightarrow> is_settled rid to (sdb s) \<and> lo_published out = None"
    using assms by (auto simp: settled_revert_def Let_def split: option.splits if_splits prod.splits)
qed

subsection \<open>Issuing a version\<close>

lemma map_filter_strings: "List.map_filter json_string (map JStr xs) = xs"
  by (induction xs) (simp_all add: List.map_filter_def)

lemma stored_key_setting:
  "stored_primary_key (key_setting ks (JObj kvs)) = key_columns_of ks"
proof (cases "key_columns_of ks")
  case None
  then have "ks = None \<or> ks = Some []" by (auto simp: key_columns_of_def split: option.splits if_splits)
  moreover have "map_of (filter (\<lambda>(k, _). k \<noteq> ''primaryKey'') kvs) ''primaryKey'' = None"
    by (auto simp: map_of_eq_None_iff)
  ultimately show ?thesis
    using None by (auto simp: key_setting_def json_remove_def stored_primary_key_def member_of_def)
next
  case (Some cs)
  then obtain c cs' where cs: "ks = Some cs" "cs = c # cs'"
    by (cases cs) (auto simp: key_columns_of_def split: option.splits if_splits)
  have "stored_primary_key (key_setting ks (JObj kvs)) = Some (List.map_filter json_string (map JStr cs))"
    using cs by (simp add: key_setting_def json_set_def stored_primary_key_def member_of_def update_conv')
  then show ?thesis using Some unfolding map_filter_strings by simp
qed

lemma adopt_settled:
  "is_settled rid to (adopt_version_interpretation now rid v d) = is_settled rid to d"
  by (rule same_settled [OF kept_same]) simp

lemma settled_append:
  assumes "row_of res_id (resources d) rid = Some r" "res_storage_key r = Some k"
    and "get_row rid n d = Some v" "ver_state v \<noteq> ''purged''" "live_identity r = frozen_identity v"
    and "\<And>w. w \<in> set (versions d) \<Longrightarrow> ver_storage_key w = k \<Longrightarrow> ver_state w \<noteq> ''purging''"
  shows "is_settled rid (Some n) d"
  using assms by (auto simp: is_settled_def live_is_version_content_def object_owner_is_purging_def list_ex_iff)

lemma issue_lands:
  assumes "issue_version now gen rid claim n k prev prevh True d = (Inr m, d')"
    and "distinct (map res_id (resources d))" "row_of res_id (resources d) rid = Some r"
    and "get_row rid n d = Some v" "res_column_settings r = JObj kvs" "ver_key_columns v \<noteq> Some []"
    and "k \<notin> version_keys d"
  shows "\<exists>w. versions d' = versions d @ [w] \<and> ver_resource w = rid \<and> ver_number w = m
    \<and> m = next_version_number rid d \<and> ver_state w = ''active'' \<and> ver_storage_key w = k
    \<and> ver_restored_from w = Some n \<and> frozen_identity w = frozen_identity v \<and> is_settled rid (Some n) d'"
proof -
  have st: "ver_state v \<noteq> ''purged'' \<and> ver_state v \<noteq> ''purging''" and m: "m = next_version_number rid d"
    using assms(1,4) by (auto simp: issue_version_def Let_def split: if_splits prod.splits)
  let ?cv = "issued_version rid m k v" and ?c = "issued_content True v k prev prevh claim"
  obtain d1 d2 where steps: "publish_live_content now gen rid ?c d = (True, d1)"
    "insert_version_if_held now claim ?cv d1 = (True, d2)"
    "d' = adopt_version_interpretation now rid (Some v) d2"
    using assms(1,4) st m by (auto simp: issue_version_def Let_def split: if_splits prod.splits)
  note pub = publish_row [OF assms(2,3) steps(1)]
  let ?r = "published_row now gen ?c r" and ?w = "version_of now ?cv (published_row now gen ?c r)"
  have d1: "distinct (map res_id (resources d1))" "row_of res_id (resources d1) (cv_resource ?cv) = Some ?r"
    using pub(1,6) assms(2) by (simp_all add: issued_version_def)
  have d2: "versions d2 = versions d @ [?w]" "resources d2 = resources d1"
    using insert_version_row [OF d1, of now claim] steps(2) pub(4) by (auto split: if_splits)
  have keys: "key_columns_of (ver_key_columns v) = ver_key_columns v"
    using assms(6) by (auto simp: key_columns_of_def split: option.split)
  have ident: "live_identity ?r = frozen_identity v"
    by (simp add: live_identity_def frozen_identity_def published_row_def issued_content_def primary_key_of_def
        assms(5) stored_key_setting keys)
  have "get_row rid n d2 = Some v" using assms(4) unfolding get_row_def d2(1) by (simp add: find_append)
  moreover have "ver_state w \<noteq> ''purging''" if "w \<in> set (versions d2)" "ver_storage_key w = k" for w
  proof -
    have "w \<notin> set (versions d)" using that(2) assms(7) by (auto simp: version_keys_def)
    then have "w = ?w" using that(1) d2(1) by simp
    then show ?thesis by (simp add: version_of_def)
  qed
  moreover have "row_of res_id (resources d2) rid = Some ?r" "res_storage_key ?r = Some k"
    using pub(1) d2(2) by (simp_all add: published_row_def issued_content_def)
  ultimately have "is_settled rid (Some n) d2" using st ident settled_append by blast
  then have "is_settled rid (Some n) d'" by (simp add: steps(3) adopt_settled)
  moreover have "versions d' = versions d2" using kept_adopt [of d2 now rid "Some v"]
    unfolding steps(3) content_kept_def by simp
  moreover have "ver_number v = n" using get_row_SomeD [OF assms(4)] by simp
  ultimately show ?thesis using d2(1) m
    by (intro exI [of _ ?w]) (simp add: version_of_def issued_version_def frozen_identity_def published_row_def
        issued_content_def assms(5) stored_key_setting keys)
qed

lemma clear_lands:
  assumes "clear_live_content now gen rid k h claim d = (Inr x, d')"
    and "distinct (map res_id (resources d))" "row_of res_id (resources d) rid = Some r"
  shows "versions d' = versions d" "is_settled rid None d'"
proof -
  obtain d1 where d1: "publish_live_content now gen rid (emptied_content k h claim) d = (True, d1)"
    "d' = adopt_version_interpretation now rid None d1"
    using assms(1) by (auto simp: clear_live_content_def Let_def split: if_splits prod.splits)
  note pub = publish_row [OF assms(2,3) d1(1)]
  show "versions d' = versions d" using pub(4) kept_adopt [of d1 now rid None] unfolding d1(2) content_kept_def by simp
  have "is_settled rid None d1" using pub(1) by (simp add: is_settled_def published_row_def emptied_content_def)
  then show "is_settled rid None d'" by (simp add: d1(2) adopt_settled)
qed

subsection \<open>The revert\<close>

text \<open>What others commit without a claim: uploads and edits, which file and purge no version.\<close>

definition edits_only :: "uuid \<Rightarrow> (db \<Rightarrow> db) \<Rightarrow> bool" where
  "edits_only rid f \<longleftrightarrow> (\<forall>d. versions (f d) = versions d
     \<and> (distinct (map res_id (resources d)) \<longrightarrow> distinct (map res_id (resources (f d))))
     \<and> (\<forall>r kvs. row_of res_id (resources d) rid = Some r \<and> res_column_settings r = JObj kvs \<longrightarrow>
          (\<exists>r' kvs'. row_of res_id (resources (f d)) rid = Some r' \<and> res_column_settings r' = JObj kvs')))"

lemma edits_only_id [simp]: "edits_only rid id"
  by (simp add: edits_only_def)

lemma edits_keep:
  assumes "edits_only rid f"
  shows "versions (f d) = versions d" "distinct (map res_id (resources d)) \<Longrightarrow> distinct (map res_id (resources (f d)))"
    "row_of res_id (resources d) rid = Some r \<Longrightarrow> res_column_settings r = JObj kvs \<Longrightarrow>
      \<exists>r' kvs'. row_of res_id (resources (f d)) rid = Some r' \<and> res_column_settings r' = JObj kvs'"
  using spec [OF assms [unfolded edits_only_def], of d] by blast+

lemma revert_body_lands:
  assumes "revert_body pt now gen k be between rid dest rev' claim s = (Inr (p, c), s')"
    and "distinct (map res_id (resources (sdb s)))" "row_of res_id (resources (sdb s)) rid = Some r"
    and "res_column_settings r = JObj kvs" "k \<notin> version_keys (sdb s)"
    and "dest = map_option (\<lambda>n. (n, ver_storage_key v)) to"
    and "\<And>n. to = Some n \<Longrightarrow> get_row rid n (sdb s) = Some v \<and> ver_key_columns v \<noteq> Some []"
    and "edits_only rid between"
  shows "is_settled rid to (sdb s') \<and>
    (case p of None \<Rightarrow> versions (sdb s') = versions (sdb s)
     | Some m \<Rightarrow> \<exists>w n. to = Some n \<and> versions (sdb s') = versions (sdb s) @ [w] \<and> ver_resource w = rid
         \<and> ver_number w = m \<and> m = next_version_number rid (sdb s) \<and> ver_state w = ''active''
         \<and> ver_storage_key w = k \<and> ver_restored_from w = Some n \<and> frozen_identity w = frozen_identity v)"
proof -
  obtain x where x: "List.find (\<lambda>r. res_id r = rid \<and> res_content_revision r = rev') (resources (sdb s)) = Some x"
    using assms(1) by (auto simp: revert_body_def split: option.splits)
  obtain s1 :: store where s1: "content_kept (sdb s1) (sdb s')"
    "case dest of
       None \<Rightarrow> p = None \<and> (\<exists>y. clear_live_content now gen rid (res_storage_key x) (res_hash x) claim (between (sdb s)) = (Inr y, sdb s1))
     | Some (n, key) \<Rightarrow> \<exists>m. p = Some m \<and> issue_version now gen rid claim n k (res_storage_key x) (res_hash x) True
         (between (reserve_object now k (sdb s))) = (Inr m, sdb s1)"
  proof (cases dest)
    case None
    obtain y d where y: "clear_live_content now gen rid (res_storage_key x) (res_hash x) claim (between (sdb s)) = (Inr y, d)"
      using assms(1) x None by (auto simp: revert_body_def Let_def split: sum.splits prod.splits)
    then have "p = None" "s' = snd (discard_retracted pt now be rid None (s\<lparr>sdb := d\<rparr>))"
      using assms(1) x None by (auto simp: revert_body_def Let_def split: sum.splits prod.splits)
    then show ?thesis using y None kept_retracted [of "s\<lparr>sdb := d\<rparr>"] by (intro that [of "s\<lparr>sdb := d\<rparr>"]) simp_all
  next
    case (Some nk)
    obtain n key where nk: "nk = (n, key)" by (cases nk)
    obtain y s1 where y: "publish_version_content now gen k between rid claim n key (res_storage_key x) (res_hash x) True s
        = (y, s1)" by (metis prod.collapse)
    have out: "map_sum id Some y = Inr p" "s' = snd (discard_retracted pt now be rid None s1)"
      using assms(1) x Some nk y by (auto simp: revert_body_def split: sum.splits prod.splits)
    obtain m where "y = Inr m" "p = Some m" using out(1) by (cases y) auto
    note m = y [unfolded this(1)] this(2) out(2)
    have "issue_version now gen rid claim n k (res_storage_key x) (res_hash x) True
        (between (reserve_object now k (sdb s))) = (Inr m, sdb s1)"
      using m(1) copy_tables [of now key k s]
      by (auto simp: publish_version_content_def split: sum.splits prod.splits)
    then show ?thesis using m(2,3) Some nk by (intro that [of s1]) simp_all
  qed
  note same = kept_same [OF s1(1)] s1(1) [unfolded content_kept_def, THEN conjunct1]
  note edits = edits_keep [OF assms(8)]
  show ?thesis
  proof (cases to)
    case None
    then have "dest = None" using assms(6) by simp
    then obtain y where y: "p = None" "clear_live_content now gen rid (res_storage_key x) (res_hash x) claim (between (sdb s)) = (Inr y, sdb s1)"
      using s1(2) by auto
    obtain r' where "row_of res_id (resources (between (sdb s))) rid = Some r'" using edits(3) [OF assms(3,4)] by blast
    from clear_lands [OF y(2) edits(2) [OF assms(2)] this]
    show ?thesis using None y(1) same(2) edits(1) by (simp add: same_settled [OF same(1)])
  next
    case (Some n)
    let ?d = "reserve_object now k (sdb s)"
    have "dest = Some (n, ver_storage_key v)" using assms(6) Some by simp
    then obtain m where m: "p = Some m" "issue_version now gen rid claim n k (res_storage_key x) (res_hash x) True
         (between ?d) = (Inr m, sdb s1)" using s1(2) by auto
    have v: "get_row rid n (between ?d) = Some v" "ver_key_columns v \<noteq> Some []"
      using assms(7) [OF Some] edits(1) by (simp_all add: get_row_def)
    have k: "k \<notin> version_keys (between ?d)" using assms(5) edits(1) by (simp add: version_keys_def)
    have "row_of res_id (resources ?d) rid = Some r" "distinct (map res_id (resources ?d))" using assms(2,3) by simp_all
    then obtain r' kvs' where r': "row_of res_id (resources (between ?d)) rid = Some r'" "res_column_settings r' = JObj kvs'"
      "distinct (map res_id (resources (between ?d)))" using edits(2,3) assms(4) by blast
    have number: "next_version_number rid (between ?d) = next_version_number rid (sdb s)"
      using edits(1) [of ?d] by (simp add: next_version_number_def max_version_def)
    from issue_lands [OF m(2) r'(3,1) v(1) r'(2) v(2) k]
    show ?thesis using m(1) same(2) Some edits(1) [of ?d] by (simp add: same_settled [OF same(1)] number) blast
  qed
qed

lemma revert_lands_facts:
  assumes "revert_live_content pt now mint owner gen fresh k be between rid to rev' s = (Inr out, s')"
    and "ids_ok (sdb s)" "row_of res_id (resources (sdb s)) rid = Some r"
    and "res_column_settings r = JObj kvs" "k \<notin> version_keys (sdb s)"
    and "\<forall>n v. to = Some n \<and> get_row rid n (sdb s) = Some v \<longrightarrow> ver_key_columns v \<noteq> Some []"
    and "edits_only rid between"
  shows "is_settled rid to (sdb s') \<and>
    (case lo_published out of None \<Rightarrow> versions (sdb s') = versions (sdb s)
     | Some m \<Rightarrow> \<exists>v w n. to = Some n \<and> get_row rid n (sdb s) = Some v
         \<and> versions (sdb s') = versions (sdb s) @ [w] \<and> ver_resource w = rid
         \<and> ver_number w = m \<and> m = next_version_number rid (sdb s) \<and> ver_state w = ''active''
         \<and> ver_storage_key w = k \<and> ver_restored_from w = Some n \<and> frozen_identity w = frozen_identity v)"
proof -
  define dest where "dest = Option.bind to (\<lambda>n. map_option (\<lambda>v. (n, ver_storage_key v)) (get_row rid n (sdb s)))"
  define v where "v = the (get_row rid (the to) (sdb s))"
  obtain x s1 where settled: "settled_revert pt now mint owner fresh be rid to s = (x, s1)"
    by (metis prod.collapse)
  note kept1 = settled_kept(1) [OF settled]
  have v: "get_row rid n (sdb s) = Some v \<and> ver_key_columns v \<noteq> Some []" if "to = Some n" for n
  proof -
    have "get_row rid n (sdb s) \<noteq> None" using assms(1) that by (auto simp: revert_live_content_def split: option.splits)
    then show ?thesis using assms(6) that by (auto simp: v_def)
  qed
  then have dest: "dest = map_option (\<lambda>n. (n, ver_storage_key v)) to" by (cases to) (simp_all add: dest_def)
  show ?thesis
  proof (cases x)
    case (Some y)
    then have "y = out" "s' = s1" using assms(1) settled
      by (auto simp: revert_live_content_def Let_def split: option.splits if_splits)
    then show ?thesis using settled_kept(2) [OF settled, of out] kept1 Some
      by (simp add: same_settled [OF kept_same [OF kept1]] content_kept_def)
  next
    case None
    define fn :: "resource_claim option \<Rightarrow> bool \<Rightarrow> db
        \<Rightarrow> (service_error failure + bool \<times> (int option \<times> bool) reply \<times> store) \<times> db"
      where "fn = (\<lambda>claim cancelled d.
        let r = revert_body pt now gen k be between rid dest rev' claim (s1\<lparr>sdb := d\<rparr>)
        in (Inr (cancelled, r), sdb (snd r)))"
    obtain y0 d where y0: "with_claim_from_run now mint owner rid ''revert'' fn (Some rev') (sdb s1) = (y0, d)"
      by (metis prod.collapse)
    have out: "(case y0 of Inl e \<Rightarrow> (Inl e, s1\<lparr>sdb := d\<rparr>)
        | Inr (cancelled, Inl e, s2) \<Rightarrow> (Inl e, s2\<lparr>sdb := d\<rparr>)
        | Inr (cancelled, Inr (p, c), s2) \<Rightarrow>
           (let s3 = s2\<lparr>sdb := d\<rparr>;
                (q, s4) = (if p \<noteq> None then map_prod Some id (queue_rebuild be now fresh rid s3) else (None, s3))
            in (Inr \<lparr>lo_cancelled = cancelled, lo_restored = to, lo_published = p,
                     lo_cleared = Some c, lo_queued = q\<rparr>, s4))) = (Inr out, s')"
      using assms(1) settled None y0 unfolding fn_def dest_def
      by (simp add: revert_live_content_def Let_def split: option.splits if_splits)
    obtain cancelled q s2 where y0': "y0 = Inr (cancelled, q, s2)" using out by (cases y0) auto
    then obtain p c where q: "q = Inr (p, c)" using out by (cases q) auto
    note w = y0 [unfolded y0' q]
    have w': "lo_published out = p"
      "sdb s' = sdb (if p \<noteq> None then snd (queue_rebuild be now fresh rid (s2\<lparr>sdb := d\<rparr>)) else s2\<lparr>sdb := d\<rparr>)"
      using out unfolding y0' q
      by (cases "queue_rebuild be now fresh rid (s2\<lparr>sdb := d\<rparr>)"; auto simp: Let_def split: prod.splits if_splits)+
    obtain cl b d1 d2 where body: "content_kept (sdb s1) d1" "fn cl b d1 = (Inr (cancelled, Inr (p, c), s2), d2)"
      "content_kept d2 d"
      by (rule with_claim_from_run_body [OF w])
    have kept2: "content_kept (sdb s) d1" by (rule kept_trans [OF kept1 body(1)])
    then have vs: "versions d1 = versions (sdb s)" by (simp add: content_kept_def)
    obtain r1 where r1: "row_of res_id (resources d1) rid = Some r1" "res_core r1 = res_core r"
      by (rule same_row_Some [OF kept_same [OF kept2] assms(3)])
    have "revert_body pt now gen k be between rid dest rev' cl (s1\<lparr>sdb := d1\<rparr>) = (Inr (p, c), s2)" "d2 = sdb s2"
      using body(2) by (auto simp: fn_def Let_def)
    note land = revert_body_lands [OF this(1) _ _ _ _ dest _ assms(7)] this(2)
    have "content_kept d2 (sdb s')"
      using body(3) w'(2) kept_rebuild [of "s2\<lparr>sdb := d\<rparr>" be now fresh rid] kept_trans [OF body(3)] by simp
    note kept3 = same_settled [OF kept_same [OF this]] this
    have "distinct (map res_id (resources d1))"
      using same_res_ids [OF kept_same [OF kept2]] assms(2) by (simp add: ids_ok_def)
    moreover have "res_column_settings r1 = JObj kvs" using r1(2) assms(4) by (simp add: res_core_def)
    moreover have "get_row rid n d1 = get_row rid n (sdb s)" "next_version_number rid d1 = next_version_number rid (sdb s)" for n
      using vs by (simp_all add: get_row_def next_version_number_def max_version_def)
    moreover have "k \<notin> version_keys d1" using assms(5) vs by (simp add: version_keys_def)
    ultimately have "is_settled rid to (sdb s2) \<and>
      (case p of None \<Rightarrow> versions (sdb s2) = versions d1
       | Some m \<Rightarrow> \<exists>w n. to = Some n \<and> versions (sdb s2) = versions d1 @ [w] \<and> ver_resource w = rid
         \<and> ver_number w = m \<and> m = next_version_number rid (sdb s) \<and> ver_state w = ''active''
         \<and> ver_storage_key w = k \<and> ver_restored_from w = Some n \<and> frozen_identity w = frozen_identity v)"
      using land(1) [of r1 kvs] r1(1) v by (cases p) simp_all
    then show ?thesis using kept3 land(2) w'(1) vs v
      by (auto simp: content_kept_def split: option.split_asm)
  qed
qed

subsection \<open>A request sent again\<close>

lemma clear_emptied_answers:
  assumes "row_of res_id (resources (sdb s)) rid = Some r" "res_storage_key r = None"
    and "clear_emptied pt now mint owner be rid (res_content_revision r) s = (x, s')"
  shows "x \<noteq> None"
proof -
  define body where "body d = (case row_of res_id (resources d) rid of
       Some x \<Rightarrow> (if res_storage_key x \<noteq> None \<or> res_content_revision x \<noteq> res_content_revision r then (None, s\<lparr>sdb := d\<rparr>)
          else map_prod Some id (discard_retracted pt now be rid (Some (res_content_revision r)) (s\<lparr>sdb := d\<rparr>)))
     | None \<Rightarrow> (None, s\<lparr>sdb := d\<rparr>))" for d
  define fn where "fn = (\<lambda>(_ :: resource_claim list) d.
      (Inr (body d) :: unit failure + (bool option \<times> store), sdb (snd (body d))))"
  have eq: "clear_emptied pt now mint owner be rid (res_content_revision r) s =
      (case with_resource_claims now mint owner [rid] fn (sdb s) of
         (Inr (Ran (r, s1)), d) \<Rightarrow> (r, s1\<lparr>sdb := d\<rparr>) | (_, d) \<Rightarrow> (Some False, s\<lparr>sdb := d\<rparr>))"
    by (simp add: clear_emptied_def fn_def body_def Let_def)
  obtain taken held d1 where c: "claim_resources now mint [rid] owner CLAIM_STALE_AFTER_MS Job (sdb s) = ((taken, held), d1)"
    by (metis prod.collapse)
  then have "content_kept (sdb s) d1" by (metis kept_claim(1) snd_conv)
  then obtain r1 where r1: "row_of res_id (resources d1) rid = Some r1" "res_core r1 = res_core r"
    using same_row_Some [OF kept_same assms(1)] by blast
  have "fst (body d1) \<noteq> None"
    using r1 assms(2) unfolding body_def r1(1) by (simp add: res_core_def)
  then show ?thesis using assms(3) c unfolding eq
    by (cases "body d1") (auto simp: with_resource_claims_def fn_def Let_def split: if_splits prod.splits)
qed

lemma settled_resend:
  assumes "is_settled rid to (sdb s)"
    and "\<And>n. to = Some n \<Longrightarrow> \<exists>v. get_row rid n (sdb s) = Some v \<and> ver_state v \<noteq> ''purged'' \<and> ver_state v \<noteq> ''purging''"
  shows "\<exists>out s'. revert_live_content pt now mint owner gen fresh k be between rid to rev' s = (Inr out, s')
    \<and> lo_published out = None \<and> lo_restored out = to \<and> content_kept (sdb s) (sdb s')"
proof -
  obtain x s1 where settled: "settled_revert pt now mint owner fresh be rid to s = (x, s1)"
    by (metis prod.collapse)
  obtain r where r: "row_of res_id (resources (sdb s)) rid = Some r"
    using assms(1) by (auto simp: is_settled_def split: option.splits)
  have "\<exists>out. x = Some out \<and> lo_restored out = to"
  proof (cases "res_storage_key r")
    case (Some key)
    then show ?thesis using settled r assms(1) by (auto simp: settled_revert_def split: prod.splits)
  next
    case None
    then have "to = None" using assms(1) r by (cases to) (simp_all add: is_settled_def)
    moreover obtain c s2 where c: "clear_emptied pt now mint owner be rid (res_content_revision r) s = (c, s2)"
      by (metis prod.collapse)
    ultimately show ?thesis using clear_emptied_answers [OF r None c] settled r assms(1) None
      by (auto simp: settled_revert_def split: option.splits prod.splits)
  qed
  then obtain out where out: "x = Some out" "lo_restored out = to" by blast
  have "revert_live_content pt now mint owner gen fresh k be between rid to rev' s = (Inr out, s1)"
    using settled out assms(2) by (cases to) (auto simp: revert_live_content_def Let_def)
  then show ?thesis using settled_kept [OF settled] out by blast
qed

subsection \<open>A store to apply them to\<close>

definition sample_stocked :: store where
  "sample_stocked = \<lparr>sdb = sample_history\<lparr>resources := [sample_resource 10 (Some ''a'')]\<rparr>,
     bucket = {''a'', ''y''}, indexed = {10}, asked = [], audit = []\<rparr>"

definition sample_revert :: "ladder_outcome reply \<times> store" where
  "sample_revert = revert_live_content (\<lambda>_. []) 5 (\<lambda>r. 100 + r) 7 8 9 ''z'' all_answer sample_relabel 10 (Some 2)
     (res_content_revision (sample_resource 10 None)) sample_stocked"

lemma sample_reverted:
  "fst sample_revert = Inr \<lparr>lo_cancelled = False, lo_restored = Some 2, lo_published = Some 4,
     lo_cleared = Some True, lo_queued = Some True\<rparr>"
  by code_simp

lemma sample_stocked_facts:
  "ids_ok (sdb sample_stocked)" "row_of res_id (resources (sdb sample_stocked)) 10 = Some (sample_resource 10 (Some ''a''))"
  "res_column_settings (sample_resource 10 (Some ''a'')) = JObj []" "''z'' \<notin> version_keys (sdb sample_stocked)"
  "get_row 10 2 (sdb sample_stocked) = Some (sample_version 2 ''y'' ''active'')"
  "ver_key_columns (sample_version 2 ''y'' ''active'') = None"
  by (simp_all add: sample_stocked_def sample_history_def sample_db_def sample_resource_def ids_ok_def
      version_keys_def sample_version_def version_of_def get_row_def new_pipeline_row_def stored_primary_key_def
      member_of_def)

lemma sample_revert_run:
  "revert_live_content (\<lambda>_. []) 5 (\<lambda>r. 100 + r) 7 8 9 ''z'' all_answer sample_relabel 10 (Some 2)
     (res_content_revision (sample_resource 10 None)) sample_stocked
   = (Inr \<lparr>lo_cancelled = False, lo_restored = Some 2, lo_published = Some 4, lo_cleared = Some True,
        lo_queued = Some True\<rparr>, snd sample_revert)"
  using sample_reverted unfolding sample_revert_def by (metis prod.collapse)

lemma sample_relabel_edits: "edits_only rid sample_relabel"
proof -
  have "row_of res_id (map f rs) rid = map_option f (row_of res_id rs rid)"
    if "\<And>r. res_id (f r) = res_id r" for f :: "resource_row \<Rightarrow> resource_row" and rs
    using that by (induction rs) (simp_all add: row_of_def)
  moreover have "map res_id (map (\<lambda>r. r\<lparr>res_format := Some x\<rparr>) rs) = map res_id rs" for x and rs :: "resource_row list"
    by simp
  ultimately show ?thesis by (simp add: edits_only_def sample_relabel_def o_def)
qed

lemma sample_destination_keyed:
  "\<forall>n v. Some 2 = Some n \<and> get_row 10 n (sdb sample_stocked) = Some v \<longrightarrow> ver_key_columns v \<noteq> Some []"
  using sample_stocked_facts(5,6) by auto

subsection \<open>Properties\<close>

text \<open>
  C21. A revert lands where it was told to. Whatever uploads and edits commit between its
  reading of the generation and its pointer move, when \<open>revertLiveContent\<close> answers, the resource is
  settled on its destination - emptied, or serving the destination's bytes, format and key -
  and the history either is what it was or has grown by one version: on top, active, owning a
  key of its own, marked as restored from the destination and with the destination's identity.
\<close>

theorem revert_lands:
  assumes "revert_live_content pt now mint owner gen fresh k be between rid to rev' s = (Inr out, s')"
    and "ids_ok (sdb s)" "row_of res_id (resources (sdb s)) rid = Some r"
    and "res_column_settings r = JObj kvs" "k \<notin> version_keys (sdb s)"
    and "\<forall>n v. to = Some n \<and> get_row rid n (sdb s) = Some v \<longrightarrow> ver_key_columns v \<noteq> Some []"
    and "edits_only rid between"
  shows "is_settled rid to (sdb s') \<and>
    (case lo_published out of None \<Rightarrow> versions (sdb s') = versions (sdb s)
     | Some m \<Rightarrow> \<exists>v w n. to = Some n \<and> get_row rid n (sdb s) = Some v
         \<and> versions (sdb s') = versions (sdb s) @ [w] \<and> ver_resource w = rid
         \<and> ver_number w = m \<and> m = next_version_number rid (sdb s) \<and> ver_state w = ''active''
         \<and> ver_storage_key w = k \<and> ver_restored_from w = Some n \<and> frozen_identity w = frozen_identity v)"
  by (rule revert_lands_facts [OF assms])

lemma revert_lands_witness:
  "is_settled 10 (Some 2) (sdb (snd sample_revert))
   \<and> (\<exists>w. versions (sdb (snd sample_revert)) = versions sample_history @ [w] \<and> ver_number w = 4)"
  using revert_lands [OF sample_revert_run sample_stocked_facts(1,2,3,4) sample_destination_keyed sample_relabel_edits]
  by (auto simp: sample_stocked_def)

text \<open>
  C22. A revert sent again publishes nothing. Once a revert has answered, the same request -
  with whatever generation its caller names - is answered as done: no version is issued, the
  history and what every resource serves stay as they are.
\<close>

theorem revert_resent:
  assumes "revert_live_content pt now mint owner gen fresh k be between rid to rev' s = (Inr out, s')"
    and "ids_ok (sdb s)" "row_of res_id (resources (sdb s)) rid = Some r"
    and "res_column_settings r = JObj kvs" "k \<notin> version_keys (sdb s)"
    and "\<forall>n v. to = Some n \<and> get_row rid n (sdb s) = Some v \<longrightarrow> ver_key_columns v \<noteq> Some []"
    and "edits_only rid between"
  shows "\<exists>out' s''. revert_live_content pt now2 mint2 owner2 gen2 fresh2 k2 be2 between2 rid to any_rev s' = (Inr out', s'')
    \<and> lo_published out' = None \<and> lo_restored out' = to \<and> versions (sdb s'') = versions (sdb s')
    \<and> map res_core (resources (sdb s'')) = map res_core (resources (sdb s'))"
proof -
  note facts = revert_lands_facts [OF assms]
  have stays: "get_row rid n (sdb s') = Some v" if "get_row rid n (sdb s) = Some v" for n v
    using facts that by (auto simp: get_row_def find_append split: option.splits)
  have "\<exists>v. get_row rid n (sdb s') = Some v \<and> ver_state v \<noteq> ''purged'' \<and> ver_state v \<noteq> ''purging''"
    if "to = Some n" for n
    using assms(1) that stays by (auto simp: revert_live_content_def split: option.splits if_splits)
  from settled_resend [OF conjunct1 [OF facts] this]
  show ?thesis by (simp add: content_kept_def)
qed

lemma revert_resent_witness:
  "\<exists>out s''. revert_live_content (\<lambda>_. []) 6 (\<lambda>r. 100 + r) 17 18 19 ''w'' (all_answer\<lparr>be_queue := Refused\<rparr>) id 10 (Some 2) 0
      (snd sample_revert) = (Inr out, s'') \<and> lo_published out = None \<and> versions (sdb s'') = versions (sdb (snd sample_revert))"
  using revert_resent [OF sample_revert_run sample_stocked_facts(1,2,3,4) sample_destination_keyed sample_relabel_edits]
  by blast

text \<open>
  C39. A revert takes back no upload. If the resource's pointer is moved between the revert's
  reading of the generation and its own pointer move, the revert fails, and the database is what
  the others left, or what it was where the revert did not get so far: no pointer moved, no
  version filed, nothing derived detached. The index and what was asked for are untouched, and
  the bucket has gained at most the copy of the destination.
\<close>

theorem revert_spares_upload:
  assumes "met = (case dest of None \<Rightarrow> sdb s | Some _ \<Rightarrow> reserve_object now k (sdb s))"
    and "distinct (map res_id (resources (sdb s)))" "distinct (map res_id (resources (between met)))"
    and "map_option res_storage_key (row_of res_id (resources (between met)) rid)
       \<noteq> map_option res_storage_key (row_of res_id (resources (sdb s)) rid)"
  shows "\<exists>e s'. revert_body pt now gen k be between rid dest rev' claim s = (Inl e, s')
    \<and> sdb s' \<in> {sdb s, met, between met} \<and> indexed s' = indexed s \<and> asked s' = asked s
    \<and> bucket s \<subseteq> bucket s' \<and> bucket s' \<subseteq> insert k (bucket s)"
proof (cases "List.find (\<lambda>r. res_id r = rid \<and> res_content_revision r = rev') (resources (sdb s))")
  case None
  then show ?thesis by (auto simp: revert_body_def)
next
  case (Some r)
  then have "r \<in> set (resources (sdb s))" "res_id r = rid" by (auto simp: find_Some_iff)
  then have "row_of res_id (resources (sdb s)) rid = Some r" using row_of_distinct [OF assms(2)] by blast
  then have moved: "\<not> list_ex (\<lambda>x. res_id x = rid \<and> res_storage_key x = res_storage_key r) (resources (between met))"
    using assms(4) row_of_distinct [OF assms(3)] by (auto simp: list_ex_iff)
  have refused: "fst (publish_live_content now gen rid c (between met)) = False"
    if "pc_previous_key c = res_storage_key r" for c
    using moved that by (auto simp: publish_live_content_def Let_def list_ex_iff)
  show ?thesis
  proof (cases dest)
    case None
    then show ?thesis using Some assms(1) refused [of "emptied_content (res_storage_key r) (res_hash r) claim"]
      by (auto simp: revert_body_def clear_live_content_def emptied_content_def Let_def split: prod.splits)
  next
    case dest: (Some nk)
    obtain n key where nk: "nk = (n, key)" by (cases nk)
    have lost: False if "publish_live_content now gen rid (issued_content True v k (res_storage_key r) (res_hash r) claim)
        (between met) = (True, d')" for v d'
      using refused [of "issued_content True v k (res_storage_key r) (res_hash r) claim"] that
      by (simp add: issued_content_def)
    have "\<exists>e. issue_version now gen rid claim n k (res_storage_key r) (res_hash r) True (between met) = (Inl e, between met)"
      by (auto simp: issue_version_def Let_def split: option.splits prod.splits dest: lost)
    then obtain e where e: "issue_version now gen rid claim n k (res_storage_key r) (res_hash r) True (between met)
        = (Inl e, between met)" by blast
    show ?thesis using Some dest nk assms(1) e
      by (auto simp: revert_body_def publish_version_content_def copy_object_def Let_def)
  qed
qed

lemma revert_spares_upload_witness:
  "\<exists>e. fst (revert_body (\<lambda>_. []) 5 8 ''z'' all_answer sample_upload 10 (Some (2, ''y''))
      (res_content_revision (sample_resource 10 None)) None sample_stocked) = Inl e"
proof -
  let ?d = "reserve_object 5 ''z'' (sdb sample_stocked)"
  have "map_option res_storage_key (row_of res_id (resources (sample_upload ?d)) 10) = Some (Some ''u'')"
    "map_option res_storage_key (row_of res_id (resources (sdb sample_stocked)) 10) = Some (Some ''a'')"
    "distinct (map res_id (resources (sample_upload ?d)))" "distinct (map res_id (resources (sdb sample_stocked)))"
    by code_simp+
  with revert_spares_upload [where s = sample_stocked and between = sample_upload and rid = 10 and now = 5
      and k = "''z''" and dest = "Some (2, ''y'')" and met = "?d" and pt = "\<lambda>_. []" and gen = 8 and be = all_answer
      and rev' = "res_content_revision (sample_resource 10 None)" and claim = None]
  show ?thesis by fastforce
qed

end
