(* ===== verification/Purge_Run.thy ===== *)
theory Purge_Run
  imports Version_Frames
begin

text \<open>
  A purge as a plan of steps: a rule that carries an assertion through the plan, step by
  step, so that what holds at every point of it also holds after an attempt that was cut
  off there, and what each step of \<open>purgeVersion\<close> does to the assertions.
\<close>

subsection \<open>Assertions along a plan\<close>

text \<open>From \<open>P\<close> a step ends in \<open>Q\<close>, or fails where \<open>E\<close> holds.\<close>

definition step_ok :: "(store \<Rightarrow> bool) \<Rightarrow> step \<Rightarrow> (store \<Rightarrow> bool) \<Rightarrow> (store \<Rightarrow> bool) \<Rightarrow> bool" where
  "step_ok E f P Q \<longleftrightarrow> (\<forall>a. P (at_store a) \<longrightarrow>
     (case f a of (None, a1) \<Rightarrow> Q (at_store a1) | (Some _, a1) \<Rightarrow> E (at_store a1)))"

text \<open>
  \<open>J\<close> holds at every point of the plan, \<open>E\<close> where it fails, \<open>P\<close> before it and \<open>R\<close> after it.
\<close>

inductive outlined ::
  "(store \<Rightarrow> bool) \<Rightarrow> (store \<Rightarrow> bool) \<Rightarrow> (store \<Rightarrow> bool) \<Rightarrow> step list \<Rightarrow> (store \<Rightarrow> bool) \<Rightarrow> bool" for J E where
  Done: "(\<And>s. P s \<Longrightarrow> J s) \<Longrightarrow> (\<And>s. P s \<Longrightarrow> R s) \<Longrightarrow> outlined J E P [] R"
| Step: "(\<And>s. P s \<Longrightarrow> J s) \<Longrightarrow> step_ok E f P Q \<Longrightarrow> outlined J E Q fs R \<Longrightarrow> outlined J E P (f # fs) R"

lemma outlined_cut:
  assumes "outlined J J P fs R" "P (at_store a)"
  shows "J (at_store (snd (run_plan (take m fs) a)))"
  using assms
proof (induction arbitrary: a m rule: outlined.induct)
  case (Step P f Q fs R)
  then show ?case
    by (cases m) (auto simp: step_ok_def split: prod.split option.split)
qed simp

lemma outlined_done:
  assumes "outlined J E P fs R" "P (at_store a)" "run_plan fs a = (None, a')"
  shows "R (at_store a')"
  using assms
proof (induction arbitrary: a rule: outlined.induct)
  case (Step P f Q fs R)
  then show ?case by (fastforce simp: step_ok_def split: prod.splits option.splits)
qed auto

lemma outlined_total:
  assumes "outlined J (\<lambda>_. False) P fs R" "P (at_store a)"
  shows "\<exists>a'. run_plan fs a = (None, a')"
  using assms
proof (induction arbitrary: a rule: outlined.induct)
  case (Step P f Q fs R)
  then show ?case by (fastforce simp: step_ok_def split: prod.splits option.splits)
qed auto

lemma outlined_cons:
  "step_ok E f P Q \<Longrightarrow> outlined J E Q fs R \<Longrightarrow> (\<And>s. P s \<Longrightarrow> J s) \<Longrightarrow> outlined J E P (f # fs) R"
  by (rule outlined.Step)

lemma outlined_weaken:
  "outlined J E P fs R \<Longrightarrow> (\<And>s. P' s \<Longrightarrow> P s) \<Longrightarrow> outlined J E P' fs R"
  by (erule outlined.cases) (auto intro!: outlined.intros simp: step_ok_def)

lemma outlined_append:
  "outlined J E P fs Q \<Longrightarrow> outlined J E Q gs R \<Longrightarrow> outlined J E P (fs @ gs) R"
  by (induction rule: outlined.induct) (auto intro: outlined_weaken outlined.Step)

lemma step_on_db:
  "(\<And>s. P s \<Longrightarrow> Q (s\<lparr>sdb := f (sdb s)\<rparr>)) \<Longrightarrow> step_ok E (on_db f) P Q"
  by (simp add: step_ok_def on_db_def)

text \<open>
  A backend call: what it does when it takes effect ends in \<open>Q\<close>; where it may be refused or
  its answer lost, \<open>E\<close> must cover both.
\<close>

lemma step_calling:
  assumes "\<And>s. P s \<Longrightarrow> Q (g s)" "w \<noteq> Answered \<Longrightarrow> (\<forall>s. P s \<longrightarrow> E s) \<and> (\<forall>s. Q s \<longrightarrow> E s)"
  shows "step_ok E (awaiting (calling w what g)) P Q"
  using assms by (cases w) (auto simp: step_ok_def awaiting_def calling_def)

subsection \<open>What a calm step keeps\<close>

definition no_pointers :: "(json \<Rightarrow> string) \<Rightarrow> uuid \<Rightarrow> db \<Rightarrow> bool" where
  "no_pointers pt rid d \<longleftrightarrow> (\<forall>p \<in> set (pipelines d). pl_resource p = rid \<longrightarrow>
     list_all (\<lambda>k. \<not> truthy k) (pipeline_object_keys pt p))"

definition rebuild_marked :: "uuid \<Rightarrow> db \<Rightarrow> bool" where
  "rebuild_marked rid d \<longleftrightarrow> (\<forall>p \<in> set (pipelines d). pl_resource p = rid \<longrightarrow>
     Option.bind (pl_metadata p) (member_of ''purgeRebuildPending'') = Some (JBool True))"

definition calm :: "bool \<Rightarrow> (json \<Rightarrow> string) \<Rightarrow> uuid \<Rightarrow> store \<Rightarrow> store \<Rightarrow> bool" where
  "calm keeps pt rid s s' \<longleftrightarrow> bucket s' \<subseteq> bucket s \<and> indexed s' \<subseteq> indexed s \<and> set (asked s) \<subseteq> set (asked s')
    \<and> map pl_id (pipelines (sdb s')) = map pl_id (pipelines (sdb s))
    \<and> map pl_resource (pipelines (sdb s')) = map pl_resource (pipelines (sdb s))
    \<and> map ver_core (versions (sdb s')) = map ver_core (versions (sdb s))
    \<and> (no_pointers pt rid (sdb s) \<longrightarrow> no_pointers pt rid (sdb s'))
    \<and> (keeps \<longrightarrow> rebuild_marked rid (sdb s) \<longrightarrow> rebuild_marked rid (sdb s'))"

text \<open>
  An update of the pipeline rows that only drops pointers is calm; \<open>keeps\<close> is whether the
  marker of an owed rebuild stays as well.
\<close>

definition tame :: "bool \<Rightarrow> (json \<Rightarrow> string) \<Rightarrow> (pipeline_row \<Rightarrow> pipeline_row) \<Rightarrow> bool" where
  "tame keeps pt f \<longleftrightarrow> (\<forall>p. pl_id (f p) = pl_id p \<and> pl_resource (f p) = pl_resource p
     \<and> (list_all (\<lambda>k. \<not> truthy k) (pipeline_object_keys pt p)
          \<longrightarrow> list_all (\<lambda>k. \<not> truthy k) (pipeline_object_keys pt (f p)))
     \<and> (keeps \<longrightarrow> Option.bind (pl_metadata p) (member_of ''purgeRebuildPending'') = Some (JBool True)
          \<longrightarrow> Option.bind (pl_metadata (f p)) (member_of ''purgeRebuildPending'') = Some (JBool True)))"

lemma calm_update:
  assumes "tame keeps pt f" "pipelines (sdb s') = update_where P f (pipelines (sdb s))"
    and "bucket s' \<subseteq> bucket s" "indexed s' \<subseteq> indexed s" "set (asked s) \<subseteq> set (asked s')"
    and "map ver_core (versions (sdb s')) = map ver_core (versions (sdb s))"
  shows "calm keeps pt rid s s'"
  using assms unfolding calm_def tame_def no_pointers_def rebuild_marked_def
  by (simp add: map_update_where) (auto simp: update_where_def)

lemma calm_pipelines:
  assumes "map pl_core (pipelines (sdb s')) = map pl_core (pipelines (sdb s))"
    and "bucket s' \<subseteq> bucket s" "indexed s' \<subseteq> indexed s" "set (asked s) \<subseteq> set (asked s')"
    and "map ver_core (versions (sdb s')) = map ver_core (versions (sdb s))"
  shows "calm keeps pt rid s s'"
proof -
  have ids: "map pl_id ps = map fst (map pl_core ps)" "map pl_resource ps = map (fst \<circ> snd) (map pl_core ps)" for ps
    by (simp_all add: pl_core_def)
  have lift: "\<forall>p \<in> set (pipelines (sdb s')). pl_resource p = rid \<longrightarrow> F (pl_core p)"
    if "\<forall>p \<in> set (pipelines (sdb s)). pl_resource p = rid \<longrightarrow> F (pl_core p)" for F
  proof -
    have "\<forall>c \<in> set (map pl_core (pipelines (sdb s))). fst (snd c) = rid \<longrightarrow> F c"
      using that by (simp add: pl_core_def)
    then have "\<forall>c \<in> set (map pl_core (pipelines (sdb s'))). fst (snd c) = rid \<longrightarrow> F c"
      unfolding assms(1) .
    then show ?thesis by (simp add: pl_core_def)
  qed
  have np: "no_pointers pt rid (sdb s) \<Longrightarrow> no_pointers pt rid (sdb s')"
    using lift [of "\<lambda>(_, _, k, m, pr). list_all (\<lambda>k. \<not> truthy k)
      [k, arrow_text pt m ''textHeadKey'', arrow_text pt m ''documentTextKey'', arrow_text pt pr ''key'']"]
    by (simp add: no_pointers_def pipeline_object_keys_def pl_core_def)
  have rm: "rebuild_marked rid (sdb s) \<Longrightarrow> rebuild_marked rid (sdb s')"
    using lift [of "\<lambda>(_, _, _, m, _). Option.bind m (member_of ''purgeRebuildPending'') = Some (JBool True)"]
    by (simp add: rebuild_marked_def pl_core_def)
  have "map pl_id (pipelines (sdb s')) = map pl_id (pipelines (sdb s))"
    "map pl_resource (pipelines (sdb s')) = map pl_resource (pipelines (sdb s))"
    unfolding ids assms(1) by (rule refl)+
  then show ?thesis using np rm assms(2-5) by (simp add: calm_def)
qed

subsection \<open>Which updates are tame\<close>

lemma map_of_filter_key: "map_of (filter (\<lambda>(k, v). Q k) xs) f = (if Q f then map_of xs f else None)"
  by (induction xs) auto

lemma member_of_merge:
  "member_of f (json_merge a (JObj kvs)) = (case map_of kvs f of Some v \<Rightarrow> Some v | None \<Rightarrow> member_of f a)"
proof (cases a)
  case (JObj xs)
  have "map_of kvs f = None \<Longrightarrow> f \<notin> fst ` set kvs" by (simp add: map_of_eq_None_iff)
  then show ?thesis using JObj map_of_filter_key [of "\<lambda>k. k \<notin> fst ` set kvs" xs f]
    by (simp add: member_of_def json_merge_def map_add_def split: option.split)
qed (simp_all add: member_of_def json_merge_def split: option.split)

lemma member_of_remove: "member_of f (json_remove g j) = (if f = g then None else member_of f j)"
  by (cases j) (simp_all add: member_of_def json_remove_def map_of_filter_key [where Q = "\<lambda>k. k \<noteq> g"])

lemma member_of_coalesce: "member_of f (coalesce_object m) = Option.bind m (member_of f)"
  by (cases m) (simp_all add: coalesce_object_def member_of_def)

lemma arrow_of_member:
  "arrow_text pt m f = (case Option.bind m (member_of f) of
     None \<Rightarrow> None | Some JNull \<Rightarrow> None | Some (JStr s) \<Rightarrow> Some s | Some v \<Rightarrow> Some (pt v))"
  by (cases m) (simp_all add: arrow_text_def)

lemmas member_simps = member_of_merge member_of_remove member_of_coalesce

lemma tame_metadata:
  assumes "\<And>m f. f \<in> {''textHeadKey'', ''documentTextKey''} \<Longrightarrow>
      member_of f (g m) = None \<or> member_of f (g m) = Option.bind m (member_of f)"
    and "keeps \<Longrightarrow> (\<And>m. Option.bind m (member_of ''purgeRebuildPending'') = Some (JBool True)
      \<Longrightarrow> member_of ''purgeRebuildPending'' (g m) = Some (JBool True))"
    and "\<And>p. pl_id (h p) = pl_id p \<and> pl_resource (h p) = pl_resource p \<and> pl_preview_key (h p) = pl_preview_key p
      \<and> pl_profile (h p) = pl_profile p \<and> pl_metadata (h p) = Some (g (pl_metadata p))"
  shows "tame keeps pt h"
proof -
  have "arrow_text pt (Some (g m)) f = None \<or> arrow_text pt (Some (g m)) f = arrow_text pt m f"
    if "f \<in> {''textHeadKey'', ''documentTextKey''}" for m f
    using assms(1) [OF that, of m] by (auto simp: arrow_of_member)
  then have "\<not> truthy (arrow_text pt m f) \<Longrightarrow> \<not> truthy (arrow_text pt (Some (g m)) f)"
    if "f \<in> {''textHeadKey'', ''documentTextKey''}" for m f
    using that by (metis option.simps(4) truthy_def)
  then show ?thesis using assms(2,3)
    by (simp add: tame_def pipeline_object_keys_def)
qed

lemma tame_merge:
  assumes "map_of kvs ''textHeadKey'' = None" "map_of kvs ''documentTextKey'' = None"
    and "keeps \<Longrightarrow> map_of kvs ''purgeRebuildPending'' \<in> {None, Some (JBool True)}"
  shows "tame keeps pt (merged_metadata kvs)"
  using assms by (intro tame_metadata [where g = "\<lambda>m. json_merge (coalesce_object m) (JObj kvs)"])
    (auto simp: member_simps merged_metadata_def)

lemma tame_adopt:
  "tame keeps pt (adopted_row now v)"
  by (rule tame_metadata [where g = "adopted_metadata v"])
    (auto simp: adopted_row_def adopted_metadata_def member_simps split: option.split)

subsection \<open>Discarding what was derived\<close>

lemma all_pointers: "list_all Q (pipeline_object_keys pt p) \<longleftrightarrow> (\<forall>i < 4. Q (pipeline_object_keys pt p ! i))"
proof -
  have len: "length (pipeline_object_keys pt p) = 4" by (simp add: pipeline_object_keys_def)
  show ?thesis unfolding list_all_length len by (rule refl)
qed

lemma clear_pointer:
  assumes "i < 4"
  shows "pipeline_object_keys pt (clear_pipeline_object_keys pt read p) ! i
    = (if pipeline_object_keys pt p ! i = (if i < length read then read ! i else None) then None
       else pipeline_object_keys pt p ! i)"
proof -
  have "i = 0 \<or> i = 1 \<or> i = 2 \<or> i = 3" using assms by auto
  then show ?thesis
    by (elim disjE) (cases "pl_metadata p"; simp add: clear_pipeline_object_keys_def pipeline_object_keys_def
        arrow_of_member member_simps Let_def)+
qed

lemma clear_no_pointer:
  "list_all (\<lambda>k. \<not> truthy k) (pipeline_object_keys pt (clear_pipeline_object_keys pt (pipeline_object_keys pt p) p))"
proof -
  have len: "length (pipeline_object_keys pt p) = 4" by (simp add: pipeline_object_keys_def)
  show ?thesis unfolding all_pointers by (simp add: clear_pointer len truthy_def)
qed

lemma tame_clear:
  "tame True pt (cleared_row pt now read)"
proof -
  have upd: "pipeline_object_keys pt (q\<lparr>pl_updated := now\<rparr>) = pipeline_object_keys pt q" for q
    by (simp add: pipeline_object_keys_def)
  have "list_all (\<lambda>k. \<not> truthy k) (pipeline_object_keys pt (clear_pipeline_object_keys pt read q))"
    if "list_all (\<lambda>k. \<not> truthy k) (pipeline_object_keys pt q)" for q
    using that unfolding all_pointers by (simp add: clear_pointer truthy_def)
  moreover have "Option.bind (pl_metadata (clear_pipeline_object_keys pt read q)) (member_of ''purgeRebuildPending'')
      = Option.bind (pl_metadata q) (member_of ''purgeRebuildPending'')" for q
    by (cases "pl_metadata q") (simp_all add: clear_pipeline_object_keys_def Let_def member_simps)
  ultimately show ?thesis
    unfolding tame_def cleared_row_def upd by (simp add: clear_pipeline_object_keys_def Let_def)
qed

lemma detach_calm:
  "calm True pt rid s (s\<lparr>sdb := snd (detach_derived pt now rid' rev' (sdb s))\<rparr>)"
proof -
  have refl: "calm True pt rid s s" by (simp add: calm_def)
  show ?thesis
  proof (cases "row_of pl_resource (pipelines (sdb s)) rid'")
    case (Some p)
    let ?read = "pipeline_object_keys pt p"
    show ?thesis using refl Some
      by (auto simp: detach_derived_def Let_def intro!: calm_update [OF tame_clear [where read = ?read and now = now]])
  qed (simp add: detach_derived_def refl)
qed

lemma not_null_Nil: "not_null xs = [] \<longleftrightarrow> (\<forall>x \<in> set xs. x = None)"
  by (induction xs) (auto simp: not_null_def List.map_filter_def split: option.splits)

lemma detach_clears:
  assumes "distinct (map pl_resource (pipelines d))"
  shows "no_pointers pt rid (snd (detach_derived pt now rid None d))"
proof (cases "row_of pl_resource (pipelines d) rid")
  case None
  then show ?thesis
    using row_of_None_iff [of pl_resource "pipelines d" rid]
    by (auto simp: detach_derived_def no_pointers_def)
next
  case (Some p)
  let ?read = "pipeline_object_keys pt p"
  let ?keys = "not_null (map (\<lambda>k. if truthy k then k else None) ?read)"
  have only: "q = p" if "q \<in> set (pipelines d)" "pl_resource q = rid" for q
    using row_of_distinct [OF assms that(1)] that(2) Some by simp
  show ?thesis
  proof (cases "?keys = []")
    case True
    then have "\<forall>k \<in> set ?read. (if truthy k then k else None) = None" unfolding not_null_Nil by simp
    moreover have "\<not> truthy None" by (simp add: truthy_def)
    ultimately have "list_all (\<lambda>k. \<not> truthy k) ?read" unfolding list_all_iff by metis
    then have "no_pointers pt rid d" using only unfolding no_pointers_def by blast
    moreover have "snd (detach_derived pt now rid None d) = d"
      using True Some by (simp add: detach_derived_def Let_def)
    ultimately show ?thesis by simp
  next
    case False
    have hit: "p \<in> set (select_where (\<lambda>q. pl_id q = pl_id p \<and> on_revision d rid None) (pipelines d))"
      using row_of_SomeD [OF Some] by (simp add: table_simps on_revision_def)
    have upd: "pipeline_object_keys pt (q\<lparr>pl_updated := now\<rparr>) = pipeline_object_keys pt q" for q
      by (simp add: pipeline_object_keys_def)
    have res: "pl_resource (clear_pipeline_object_keys pt r q) = pl_resource q" for r q
      by (simp add: clear_pipeline_object_keys_def Let_def)
    have "pipelines (snd (detach_derived pt now rid None d))
      = update_where (\<lambda>q. pl_id q = pl_id p \<and> on_revision d rid None)
          (cleared_row pt now ?read) (pipelines d)"
      using Some False hit by (simp add: detach_derived_def Let_def) (metis empty_iff empty_set)
    moreover have "list_all (\<lambda>k. \<not> truthy k) (pipeline_object_keys pt q')"
      if "q \<in> set (pipelines d)" "pl_resource q' = rid"
        "q' = (if pl_id q = pl_id p then cleared_row pt now ?read q else q)" for q q'
    proof -
      have "pl_resource q = rid" using that(2,3) by (simp add: res cleared_row_def split: if_splits)
      then have "q = p" by (rule only [OF that(1)])
      then show ?thesis using clear_no_pointer [of pt p] by (simp add: that(3) upd cleared_row_def)
    qed
    ultimately show ?thesis by (fastforce simp: no_pointers_def update_where_def on_revision_def)
  qed
qed

end
