(* ===== verification/Purge_Finishes.thy ===== *)
theory Purge_Finishes
  imports Purge_Run Version_Guarantees
begin

text \<open>
  A purge finishes, however often it is cut off: the assertions of \<open>purgeVersion\<close> along its
  plan, and the property they give. Between two attempts nothing else writes: the purge
  holds the resource's claim, and the attempt that takes it over is the next purge.
\<close>

subsection \<open>The assertions\<close>

text \<open>The version is being purged, and the tables are in order.\<close>

definition well :: "uuid \<Rightarrow> int \<Rightarrow> key \<Rightarrow> store \<Rightarrow> bool" where
  "well rid n k s \<longleftrightarrow> distinct (map res_id (resources (sdb s))) \<and> distinct (map pl_resource (pipelines (sdb s)))
    \<and> rid \<in> set (map pl_resource (pipelines (sdb s))) \<and> versions_ok (versions (sdb s))
    \<and> (\<forall>v \<in> set (versions (sdb s)). ver_storage_key v \<noteq> [])
    \<and> map_option (\<lambda>v. (ver_state v, ver_storage_key v)) (get_row rid n (sdb s)) = Some (''purging'', k)"

definition serves :: "uuid \<Rightarrow> int \<Rightarrow> store \<Rightarrow> bool" where
  "serves rid n s \<longleftrightarrow> live_version_number rid (sdb s) = Some n"

definition rebuilt :: "uuid \<Rightarrow> store \<Rightarrow> bool" where
  "rebuilt rid s \<longleftrightarrow> (has_live_content rid (sdb s) \<longrightarrow> Rebuild rid \<in> set (asked s))"

definition cleaned :: "(json \<Rightarrow> string) \<Rightarrow> uuid \<Rightarrow> store \<Rightarrow> bool" where
  "cleaned pt rid s \<longleftrightarrow> no_pointers pt rid (sdb s) \<and> rid \<notin> indexed s"

definition tomb :: "uuid \<Rightarrow> int \<Rightarrow> store \<Rightarrow> bool" where
  "tomb rid n s \<longleftrightarrow> map_option (\<lambda>v. (ver_state v, ver_lake_snapshot v)) (get_row rid n (sdb s)) = Some (''purged'', None)"

text \<open>\<open>live\<close> is whether the purge began on the version the resource was serving.\<close>

definition owing :: "bool \<Rightarrow> (json \<Rightarrow> string) \<Rightarrow> uuid \<Rightarrow> int \<Rightarrow> key \<Rightarrow> store \<Rightarrow> bool" where
  "owing live pt rid n k s \<longleftrightarrow> well rid n k s \<and> \<not> serves rid n s
    \<and> (live \<longrightarrow> cleaned pt rid s \<and> (rebuild_marked rid (sdb s) \<or> rebuilt rid s))"

definition purge_inv :: "bool \<Rightarrow> (json \<Rightarrow> string) \<Rightarrow> uuid \<Rightarrow> int \<Rightarrow> key \<Rightarrow> store \<Rightarrow> bool" where
  "purge_inv live pt rid n k s \<longleftrightarrow> tomb rid n s \<or> well rid n k s \<and> serves rid n s \<or> owing live pt rid n k s"

definition still :: "bool \<Rightarrow> (json \<Rightarrow> string) \<Rightarrow> uuid \<Rightarrow> store \<Rightarrow> store \<Rightarrow> bool" where
  "still keeps pt rid s s' \<longleftrightarrow> calm keeps pt rid s s'
    \<and> map res_core (resources (sdb s')) = map res_core (resources (sdb s))"

lemma still_same: "still keeps pt rid s s' \<Longrightarrow> same_content (sdb s) (sdb s')"
  by (simp add: still_def calm_def same_content_def)

lemma well_calm:
  assumes "calm keeps pt rid s s'" "map res_id (resources (sdb s')) = map res_id (resources (sdb s))" "well rid n k s"
  shows "well rid n k s'"
proof -
  have core: "map ver_core (versions (sdb s')) = map ver_core (versions (sdb s))"
    using assms(1) by (simp add: calm_def)
  have "same_content (sdb s) ((sdb s)\<lparr>versions := versions (sdb s')\<rparr>)" using core by (simp add: same_content_def)
  from same_get_row [OF this, of rid n] have
    "map_option ver_core (get_row rid n (sdb s')) = map_option ver_core (get_row rid n (sdb s))"
    by (simp add: get_row_def)
  then have "map_option (\<lambda>v. (ver_state v, ver_storage_key v)) (get_row rid n (sdb s'))
      = map_option (\<lambda>v. (ver_state v, ver_storage_key v)) (get_row rid n (sdb s))"
    by (cases "get_row rid n (sdb s')"; cases "get_row rid n (sdb s)") (simp_all add: ver_core_def)
  moreover have "map ver_storage_key (versions (sdb s')) = map ver_storage_key (versions (sdb s))"
  proof -
    have "map ver_storage_key vs = map (\<lambda>c. fst (snd (snd c))) (map ver_core vs)" for vs by (simp add: ver_core_def)
    then show ?thesis using core by metis
  qed
  then have "\<forall>v \<in> set (versions (sdb s')). ver_storage_key v \<noteq> []"
    using assms(3) unfolding well_def by (metis (no_types, lifting) image_iff image_set)
  moreover have "versions_ok (versions (sdb s'))"
    using same_versions_ok [OF core] assms(3) by (simp add: well_def)
  ultimately show ?thesis using assms by (simp add: well_def calm_def)
qed

lemma still_keeps:
  assumes "still keeps pt rid s s'"
  shows "well rid n k s \<Longrightarrow> well rid n k s'" "serves rid n s' = serves rid n s"
    "x \<notin> bucket s \<Longrightarrow> x \<notin> bucket s'" "cleaned pt rid s \<Longrightarrow> cleaned pt rid s'" "rid \<notin> indexed s \<Longrightarrow> rid \<notin> indexed s'"
    "no_pointers pt rid (sdb s) \<Longrightarrow> no_pointers pt rid (sdb s')"
    "keeps \<Longrightarrow> rebuild_marked rid (sdb s) \<Longrightarrow> rebuild_marked rid (sdb s')" "rebuilt rid s \<Longrightarrow> rebuilt rid s'"
    "map_option res_core (row_of res_id (resources (sdb s')) rid) = map_option res_core (row_of res_id (resources (sdb s)) rid)"
proof -
  have c: "calm keeps pt rid s s'" using assms by (simp add: still_def)
  note same = still_same [OF assms]
  show "well rid n k s \<Longrightarrow> well rid n k s'" by (rule well_calm [OF c same_res_ids [OF same]])
  show "serves rid n s' = serves rid n s" by (simp add: serves_def same_live_number [OF same])
  show row: "map_option res_core (row_of res_id (resources (sdb s')) rid) = map_option res_core (row_of res_id (resources (sdb s)) rid)"
    by (rule same_row [OF same])
  have "has_live_content rid (sdb s') = has_live_content rid (sdb s)"
    using row by (cases "row_of res_id (resources (sdb s')) rid"; cases "row_of res_id (resources (sdb s)) rid")
      (simp_all add: has_live_content_def res_core_def)
  then show "rebuilt rid s \<Longrightarrow> rebuilt rid s'" using c by (auto simp: rebuilt_def calm_def)
  show "x \<notin> bucket s \<Longrightarrow> x \<notin> bucket s'" "cleaned pt rid s \<Longrightarrow> cleaned pt rid s'" "rid \<notin> indexed s \<Longrightarrow> rid \<notin> indexed s'"
    "no_pointers pt rid (sdb s) \<Longrightarrow> no_pointers pt rid (sdb s')"
    "keeps \<Longrightarrow> rebuild_marked rid (sdb s) \<Longrightarrow> rebuild_marked rid (sdb s')"
    using c by (auto simp: calm_def cleaned_def)
qed

subsection \<open>What each step does to them\<close>

lemma still_stores:
  "still True pt rid s (s\<lparr>bucket := bucket s - X\<rparr>)" "still True pt rid s (s\<lparr>indexed := indexed s - Y\<rparr>)"
  by (auto simp: still_def calm_def)

lemma still_merge:
  assumes "map_of kvs ''textHeadKey'' = None" "map_of kvs ''documentTextKey'' = None"
    and "keeps \<Longrightarrow> map_of kvs ''purgeRebuildPending'' \<in> {None, Some (JBool True)}"
  shows "still keeps pt rid s (s\<lparr>sdb := merge_pipeline_metadata rid kvs (sdb s)\<rparr>)"
proof -
  let ?f = "merged_metadata kvs"
  have "tame keeps pt ?f" by (rule tame_merge) (use assms in simp_all)
  then have "calm keeps pt rid s (s\<lparr>sdb := merge_pipeline_metadata rid kvs (sdb s)\<rparr>)"
    by (rule calm_update [where P = "\<lambda>p. pl_resource p = rid"]) (simp_all add: merge_pipeline_metadata_def)
  then show ?thesis by (simp add: still_def merge_pipeline_metadata_def)
qed

lemma still_marks:
  "still True pt rid s (s\<lparr>sdb := mark_content_unindexed rid (sdb s)\<rparr>)"
  "still True pt rid s (s\<lparr>sdb := set_purge_rebuild_pending rid True (sdb s)\<rparr>)"
  "still False pt rid s (s\<lparr>sdb := set_purge_rebuild_pending rid False (sdb s)\<rparr>)"
  unfolding mark_content_unindexed_def set_purge_rebuild_pending_def by (rule still_merge; simp)+

lemma still_summary: "still True pt rid s (s\<lparr>sdb := discard_summary_of pt' now rid n (sdb s)\<rparr>)"
proof -
  have "calm True pt rid s (s\<lparr>sdb := discard_summary_of pt' now rid n (sdb s)\<rparr>)"
    by (rule calm_pipelines) (simp_all add: discard_summary_of_def)
  then show ?thesis using kept_summary [of "sdb s" pt' now rid n] by (simp add: still_def content_kept_def)
qed

lemma still_detach: "still True pt rid s (s\<lparr>sdb := snd (detach_derived pt now rid' rev' (sdb s))\<rparr>)"
  using kept_detach [of "sdb s" pt now rid' rev'] detach_calm [of pt rid s now rid' rev']
  by (simp add: still_def content_kept_def)

lemma still_adopt: "still True pt rid s (s\<lparr>sdb := adopt_version_interpretation now rid v (sdb s)\<rparr>)"
proof -
  have "pipelines (adopt_version_interpretation now rid v (sdb s))
      = update_where (\<lambda>p. pl_resource p = rid) (adopted_row now v) (pipelines (sdb s))"
    by (simp add: adopt_version_interpretation_def Let_def)
  moreover have "versions (adopt_version_interpretation now rid v (sdb s)) = versions (sdb s)"
    using kept_adopt [of "sdb s" now rid v] by (simp add: content_kept_def)
  ultimately have "calm True pt rid s (s\<lparr>sdb := adopt_version_interpretation now rid v (sdb s)\<rparr>)"
    by (intro calm_update [OF tame_adopt]) simp_all
  then show ?thesis using kept_adopt [of "sdb s" now rid v] by (simp add: still_def content_kept_def)
qed

lemma still_lake:
  assumes "\<And>l. lake = Some l \<Longrightarrow> lake_layer l" "purge_from_lake lake rid sn a = (e, a')"
  shows "still True pt rid (at_store a) (at_store a')"
proof (cases lake)
  case None
  then show ?thesis using assms(2) by (auto simp: purge_from_lake_def still_def calm_def)
next
  case (Some l)
  then obtain d where d: "l rid sn (sdb (at_store a)) = (e, d)" "at_store a' = (at_store a)\<lparr>sdb := d\<rparr>"
    using assms(2) by (auto simp: purge_from_lake_def split: prod.splits)
  note laws = lake_layer.lake_content [OF assms(1) [OF Some] d(1)] lake_layer.lake_pipelines [OF assms(1) [OF Some] d(1)]
  have "calm True pt rid (at_store a) ((at_store a)\<lparr>sdb := d\<rparr>)"
    using laws by (intro calm_pipelines) (simp_all add: same_content_def)
  then show ?thesis using laws(1) unfolding d(2) by (simp add: still_def same_content_def)
qed

lemma marks_rebuild:
  "rebuild_marked rid (set_purge_rebuild_pending rid True d)"
  by (simp add: rebuild_marked_def set_purge_rebuild_pending_def merge_pipeline_metadata_def merged_metadata_def
      update_where_def ball_Un member_simps)

lemma marked_pending:
  assumes "rebuild_marked rid d" "rid \<in> set (map pl_resource (pipelines d))"
  shows "purge_rebuild_pending rid d"
proof -
  obtain p where "row_of pl_resource (pipelines d) rid = Some p"
    using assms(2) row_of_None_iff [of pl_resource "pipelines d" rid] by auto
  then show ?thesis using assms(1) row_of_SomeD [of pl_resource "pipelines d" rid p]
    by (simp add: purge_rebuild_pending_def rebuild_marked_def)
qed

text \<open>A surviving version that owns the live object is the one the resource serves.\<close>

lemma owner_found:
  assumes "versions_ok vs" "v \<in> set vs" "ver_resource v = rid" "ver_state v \<noteq> ''purged''"
  shows "List.find (\<lambda>w. ver_resource w = rid \<and> Some (ver_storage_key w) = Some (ver_storage_key v)
    \<and> ver_state w \<noteq> ''purged'') vs = Some v"
proof -
  let ?P = "\<lambda>w. ver_resource w = rid \<and> Some (ver_storage_key w) = Some (ver_storage_key v) \<and> ver_state w \<noteq> ''purged''"
  obtain w where w: "List.find ?P vs = Some w"
    using assms by (cases "List.find ?P vs") (auto simp: find_None_iff)
  have "w = v" using find_SomeD [OF w] assms by (intro versions_ok_key [OF assms(1)]) simp_all
  with w show ?thesis by simp
qed

lemma owner_serves:
  assumes "well rid n k s" "row_of res_id (resources (sdb s)) rid = Some r" "res_storage_key r = Some k"
  shows "serves rid n s"
proof -
  obtain v where v: "get_row rid n (sdb s) = Some v" "ver_state v = ''purging''" "ver_storage_key v = k"
    using assms(1) by (auto simp: well_def)
  note mem = get_row_SomeD [OF v(1)]
  have "k \<noteq> []" "versions_ok (versions (sdb s))" using assms(1) mem v(3) by (auto simp: well_def)
  then show ?thesis using owner_found [of "versions (sdb s)" v rid] assms(2,3) v(2,3) mem
    by (simp add: serves_def live_version_number_def live_version_def truthy_def SERVING_STATES_def)
qed

lemma publish_succeeds:
  assumes "distinct (map res_id (resources d))" "row_of res_id (resources d) rid = Some r"
    and "pc_previous_key c = res_storage_key r" "pc_claim c = None"
  shows "publish_live_content now gen rid c d = (True, snd (publish_live_content now gen rid c d))"
  using list_ex_row_of [OF assms(1,2), of "\<lambda>r. res_storage_key r = pc_previous_key c \<and> still_held d (pc_claim c)"]
    assms(3,4) by (simp add: publish_live_content_def Let_def still_held_def)

lemma restore_pointer_frame:
  assumes "restore_pointer now gen rid kk hh d = (x, d')"
  shows "versions d' = versions d" "pipelines d' = pipelines d" "\<exists>z. x = Inl z \<Longrightarrow> resources d' = resources d"
proof -
  obtain ok d1 where pub: "publish_live_content now gen rid (case newest_active_version rid d of
      None \<Rightarrow> emptied_content kk hh None | Some v \<Rightarrow> restored_content v kk) d = (ok, d1)" by (metis prod.collapse)
  have x: "d' = d1" "(\<exists>z. x = Inl z) = (\<not> ok)"
    using assms pub by (auto simp: restore_pointer_def Let_def)
  show "versions d' = versions d" "pipelines d' = pipelines d" using pub x(1) publish_tables by (metis snd_conv)+
  show "resources d' = resources d" if "\<exists>z. x = Inl z"
  proof -
    have "\<not> ok" using that x(2) by blast
    then have "\<not> fst (publish_live_content now gen rid (case newest_active_version rid d of
        None \<Rightarrow> emptied_content kk hh None | Some v \<Rightarrow> restored_content v kk) d)" by (simp add: pub)
    from publish_refused [OF this] show ?thesis unfolding pub using x(1) by simp
  qed
qed

lemma restored_elsewhere:
  assumes "well rid n k s" "row_of res_id (resources (sdb s)) rid = Some r"
    and "restore_pointer now gen rid (res_storage_key r) hh (sdb s) = (x, d')"
  shows "(\<exists>y. x = Inr y) \<and> well rid n k (s\<lparr>sdb := d'\<rparr>) \<and> \<not> serves rid n (s\<lparr>sdb := d'\<rparr>)"
proof -
  let ?best = "newest_active_version rid (sdb s)"
  let ?c = "case ?best of None \<Rightarrow> emptied_content (res_storage_key r) hh None
    | Some v \<Rightarrow> restored_content v (res_storage_key r)"
  have dist: "distinct (map res_id (resources (sdb s)))" using assms(1) by (simp add: well_def)
  have pub: "publish_live_content now gen rid ?c (sdb s) = (True, snd (publish_live_content now gen rid ?c (sdb s)))"
    by (rule publish_succeeds [OF dist assms(2)])
      (simp_all add: emptied_content_def restored_content_def split: option.split)
  have x: "\<exists>y. x = Inr y" and d': "d' = snd (publish_live_content now gen rid ?c (sdb s))"
    using assms(3) pub by (auto simp: restore_pointer_def Let_def split: prod.splits)
  note row = publish_row [OF dist assms(2) pub, folded d']
  have "calm True pt rid s (s\<lparr>sdb := d'\<rparr>)" for pt
    using row(4,5) by (intro calm_pipelines) simp_all
  then have well: "well rid n k (s\<lparr>sdb := d'\<rparr>)" using row(6) by (intro well_calm [OF _ _ assms(1)]) simp_all
  have "live_version_number rid d' \<noteq> Some n"
  proof (cases ?best)
    case None
    then show ?thesis using row(1)
      by (simp add: live_version_number_def live_version_def published_row_def emptied_content_def truthy_def)
  next
    case (Some v)
    then have v: "v \<in> set (versions (sdb s))" "ver_resource v = rid" "ver_state v = ''active''"
      by (auto simp: newest_active_version_def table_simps dest: first_by_Some)
    have ok: "versions_ok (versions (sdb s))" "ver_storage_key v \<noteq> []"
      using assms(1) v(1) by (simp_all add: well_def)
    have "live_version_number rid d' = Some (ver_number v)"
      using row(1) owner_found [OF ok(1) v(1,2)] v(3) Some ok(2) row(4)
      by (simp add: live_version_number_def live_version_def published_row_def restored_content_def truthy_def
          SERVING_STATES_def)
    moreover have "ver_number v \<noteq> n"
      using get_row_mem [OF ok(1) v(1)] v(2,3) assms(1) by (auto simp: well_def)
    ultimately show ?thesis by simp
  qed
  then show ?thesis using x well by (simp add: serves_def)
qed

subsection \<open>What others may do meanwhile\<close>

text \<open>
  They may do what the tables allow to any resource, and move this one's pointer; its versions
  and what its pipeline row keeps of derived objects are the claim's, which the purge holds.
\<close>

definition minds_claim :: "uuid \<Rightarrow> (db \<Rightarrow> db) \<Rightarrow> bool" where
  "minds_claim rid f \<longleftrightarrow> (\<forall>d.
     (distinct (map res_id (resources d)) \<longrightarrow> distinct (map res_id (resources (f d))))
   \<and> (distinct (map pl_resource (pipelines d)) \<longrightarrow> distinct (map pl_resource (pipelines (f d))))
   \<and> (versions_ok (versions d) \<longrightarrow> versions_ok (versions (f d)))
   \<and> ((\<forall>v \<in> set (versions d). ver_storage_key v \<noteq> []) \<longrightarrow> (\<forall>v \<in> set (versions (f d)). ver_storage_key v \<noteq> []))
   \<and> filter (\<lambda>v. ver_resource v = rid) (versions (f d)) = filter (\<lambda>v. ver_resource v = rid) (versions d)
   \<and> map pl_core (filter (\<lambda>p. pl_resource p = rid) (pipelines (f d)))
       = map pl_core (filter (\<lambda>p. pl_resource p = rid) (pipelines d)))"

lemma minds_claim_id [simp]: "minds_claim rid id"
  by (simp add: minds_claim_def)

lemma find_filter: "List.find (\<lambda>x. Q x \<and> P x) xs = List.find P (filter Q xs)"
  by (induction xs) auto

lemma meanwhile_keeps:
  assumes "minds_claim rid f"
  shows "well rid n k s \<Longrightarrow> well rid n k (s\<lparr>sdb := f (sdb s)\<rparr>)"
    and "no_pointers pt rid (sdb s) \<Longrightarrow> no_pointers pt rid (f (sdb s))"
    and "rebuild_marked rid (sdb s) \<Longrightarrow> rebuild_marked rid (f (sdb s))"
proof -
  let ?mine = "\<lambda>ps. filter (\<lambda>p. pl_resource p = rid) ps"
  have core: "map pl_core (?mine (pipelines (f (sdb s)))) = map pl_core (?mine (pipelines (sdb s)))"
    using assms by (simp add: minds_claim_def)
  have lift: "\<forall>p \<in> set (pipelines (f (sdb s))). pl_resource p = rid \<longrightarrow> F (pl_core p)"
    if "\<forall>p \<in> set (pipelines (sdb s)). pl_resource p = rid \<longrightarrow> F (pl_core p)" for F
  proof -
    have "\<forall>c \<in> set (map pl_core (?mine (pipelines (sdb s)))). F c" using that by simp
    then show ?thesis unfolding core [symmetric] by simp
  qed
  show "no_pointers pt rid (sdb s) \<Longrightarrow> no_pointers pt rid (f (sdb s))"
    using lift [of "\<lambda>(_, _, k, m, pr). list_all (\<lambda>k. \<not> truthy k)
      [k, arrow_text pt m ''textHeadKey'', arrow_text pt m ''documentTextKey'', arrow_text pt pr ''key'']"]
    by (simp add: no_pointers_def pipeline_object_keys_def pl_core_def)
  show "rebuild_marked rid (sdb s) \<Longrightarrow> rebuild_marked rid (f (sdb s))"
    using lift [of "\<lambda>(_, _, _, m, _). Option.bind m (member_of ''purgeRebuildPending'') = Some (JBool True)"]
    by (simp add: rebuild_marked_def pl_core_def)
  assume w: "well rid n k s"
  have "get_row rid n (f (sdb s)) = get_row rid n (sdb s)"
    using assms by (simp add: get_row_def find_filter minds_claim_def)
  moreover have "rid \<in> set (map pl_resource (pipelines (f (sdb s))))"
  proof -
    have "?mine (pipelines (sdb s)) \<noteq> []" using w by (auto simp: well_def filter_empty_conv)
    then have "?mine (pipelines (f (sdb s))) \<noteq> []" using core by (metis map_is_Nil_conv)
    then show ?thesis by (auto simp: filter_empty_conv)
  qed
  moreover note spec [OF assms [unfolded minds_claim_def], of "sdb s"]
  ultimately show "well rid n k (s\<lparr>sdb := f (sdb s)\<rparr>)" using w by (simp add: well_def)
qed

subsection \<open>The last steps\<close>

text \<open>What is left once the rebuild has been asked for, and once the tombstone stands.\<close>

definition settled_purge :: "bool \<Rightarrow> (json \<Rightarrow> string) \<Rightarrow> uuid \<Rightarrow> int \<Rightarrow> key \<Rightarrow> store \<Rightarrow> bool" where
  "settled_purge live pt rid n k s \<longleftrightarrow> well rid n k s \<and> \<not> serves rid n s \<and> k \<notin> bucket s
    \<and> (live \<longrightarrow> cleaned pt rid s \<and> rebuilt rid s)"

definition retracted :: "bool \<Rightarrow> (json \<Rightarrow> string) \<Rightarrow> uuid \<Rightarrow> int \<Rightarrow> key \<Rightarrow> store \<Rightarrow> bool" where
  "retracted live pt rid n k s \<longleftrightarrow> tomb rid n s \<and> k \<notin> bucket s
    \<and> Option.bind (row_of res_id (resources (sdb s)) rid) res_storage_key \<noteq> Some k
    \<and> (live \<longrightarrow> cleaned pt rid s \<and> rebuilt rid s)"

lemma owing_inv: "owing live pt rid n k s \<Longrightarrow> purge_inv live pt rid n k s"
  by (simp add: purge_inv_def)

lemma marker_cleared:
  assumes "well rid n k s" "\<not> serves rid n s" "live \<Longrightarrow> cleaned pt rid s" "k \<notin> bucket s"
    and "still False pt rid s s'" "live \<Longrightarrow> rebuilt rid s'"
  shows "settled_purge live pt rid n k s'"
  using still_keeps [OF assms(5)] assms(1-4,6) by (simp add: settled_purge_def)

lemma settled_purge_inv: "settled_purge live pt rid n k s \<Longrightarrow> purge_inv live pt rid n k s"
  by (auto simp: settled_purge_def purge_inv_def owing_def)

text \<open>The rebuild is asked for and the marker cleared in one transaction, or neither.\<close>

lemma rebuild_step:
  assumes "be_queue (pe_backends e) \<noteq> Answered \<Longrightarrow> E = purge_inv live pt rid n k"
  shows "step_ok E (rebuild_if_owed e rid) (\<lambda>s. owing live pt rid n k s \<and> k \<notin> bucket s)
    (settled_purge live pt rid n k)"
  unfolding step_ok_def
proof (intro allI impI)
  fix a :: attempt
  assume a: "owing live pt rid n k (at_store a) \<and> k \<notin> bucket (at_store a)"
  let ?s = "at_store a" and ?w = "be_queue (pe_backends e)"
  have w: "well rid n k ?s" "\<not> serves rid n ?s" "live \<Longrightarrow> cleaned pt rid ?s" "k \<notin> bucket ?s"
    "live \<Longrightarrow> rebuild_marked rid (sdb ?s) \<or> rebuilt rid ?s"
    using a by (auto simp: owing_def)
  have row: "rid \<in> set (map pl_resource (pipelines (sdb ?s)))" using w(1) by (simp add: well_def)
  let ?out = "\<lambda>(x, a1). case x of None \<Rightarrow> settled_purge live pt rid n k (at_store a1) | Some _ \<Rightarrow> E (at_store a1)"
  have called: "?out (awaiting (calling ?w ''queue'' g) a)" if "settled_purge live pt rid n k (g ?s)" for g
    using that assms owing_inv [OF conjunct1 [OF a]] settled_purge_inv [OF that]
    by (cases ?w) (auto simp: awaiting_def calling_def)
  have "?out (rebuild_if_owed e rid a)"
  proof (cases "purge_rebuild_pending rid (sdb ?s)")
    case False
    then have "live \<Longrightarrow> rebuilt rid ?s" using w(5) marked_pending [OF _ row] by blast
    then have "settled_purge live pt rid n k ?s" by (intro marker_cleared [OF w(1-4)]) (simp_all add: still_def calm_def)
    then show ?thesis using False by (simp add: rebuild_if_owed_def Let_def)
  next
    case pending: True
    show ?thesis
    proof (cases "has_live_content rid (sdb ?s)")
      case False
      have "rebuilt rid (?s\<lparr>sdb := set_purge_rebuild_pending rid False (sdb ?s)\<rparr>)"
        using False by (simp add: rebuilt_def has_live_content_def set_purge_rebuild_pending_def
            merge_pipeline_metadata_def)
      then have "settled_purge live pt rid n k (?s\<lparr>sdb := set_purge_rebuild_pending rid False (sdb ?s)\<rparr>)"
        by (intro marker_cleared [OF w(1-4) still_marks(3)])
      from called [of "\<lambda>s. s\<lparr>sdb := set_purge_rebuild_pending rid False (sdb s)\<rparr>", OF this]
      show ?thesis using pending False by (simp add: rebuild_if_owed_def Let_def)
    next
      case content: True
      then have res: "row_of res_id (resources (sdb ?s)) rid \<noteq> None"
        by (cases "row_of res_id (resources (sdb ?s)) rid") (simp_all add: has_live_content_def truthy_def)
      let ?s1 = "?s\<lparr>sdb := mark_queued (pe_now e) (pe_fresh e) rid (sdb ?s), asked := asked ?s @ [Rebuild rid]\<rparr>"
      let ?s2 = "?s1\<lparr>sdb := set_purge_rebuild_pending rid False (sdb ?s1)\<rparr>"
      have "still True pt rid ?s ?s1"
        using res row by (auto simp: still_def mark_queued_def map_update_where pl_core_def intro!: calm_pipelines)
      moreover have "still False pt rid ?s1 ?s2" by (rule still_marks)
      ultimately have "still False pt rid ?s ?s2" by (auto simp: still_def calm_def)
      then have "settled_purge live pt rid n k ?s2"
        by (intro marker_cleared [OF w(1-4)]) (simp_all add: rebuilt_def)
      from called [of "\<lambda>_. ?s2", OF this] show ?thesis
        using pending content res by (auto simp: rebuild_if_owed_def enqueue_rebuild_def Let_def)
    qed
  qed
  then show "case rebuild_if_owed e rid a of (None, a1) \<Rightarrow> settled_purge live pt rid n k (at_store a1)
      | (Some _, a1) \<Rightarrow> E (at_store a1)"
    by (simp add: case_prod_beta)
qed

lemma entomb_retracts:
  assumes "settled_purge live pt rid n k (at_store a)" "ver_number row = n" "entomb now rid row a = (e, a')"
  shows "e = None \<and> retracted live pt rid n k (at_store a')"
proof -
  let ?s = "at_store a" and ?f = "\<lambda>v. v\<lparr>ver_state := ''purged'', ver_purged_at := Some now, ver_updated := now,
    ver_lake_snapshot := None\<rparr>"
  have s: "well rid n k ?s" "\<not> serves rid n ?s" "k \<notin> bucket ?s" "live \<Longrightarrow> cleaned pt rid ?s \<and> rebuilt rid ?s"
    using assms(1) by (auto simp: settled_purge_def)
  have a': "e = None" "sdb (at_store a') = set_version_state rid n ?f (sdb ?s)" "bucket (at_store a') = bucket ?s"
    "indexed (at_store a') = indexed ?s" "asked (at_store a') = asked ?s"
    using assms(2,3) by (auto simp: entomb_def Let_def)
  obtain v where v: "get_row rid n (sdb ?s) = Some v" using s(1) by (auto simp: well_def)
  have "map_option ?f (get_row rid n (sdb ?s)) = get_row rid n (sdb (at_store a'))"
    unfolding a'(2) get_row_def set_version_state_def on_version_def
    by (simp add: find_update_where)
  then have "get_row rid n (sdb (at_store a')) = Some (?f v)" using v by simp
  then have "tomb rid n (at_store a')" by (simp add: tomb_def)
  moreover have "Option.bind (row_of res_id (resources (sdb ?s)) rid) res_storage_key \<noteq> Some k"
    using owner_serves [OF s(1)] s(2) by (auto simp: bind_eq_Some_conv)
  ultimately show ?thesis using a' s(3,4)
    by (simp add: retracted_def cleaned_def rebuilt_def no_pointers_def has_live_content_def set_version_state_def)
qed

subsection \<open>The plan\<close>

definition standing :: "uuid \<Rightarrow> int \<Rightarrow> key \<Rightarrow> key option \<Rightarrow> string option \<Rightarrow> store \<Rightarrow> bool" where
  "standing rid n k kk hh s \<longleftrightarrow> well rid n k s \<and> serves rid n s
    \<and> map_option (\<lambda>r. (res_storage_key r, res_hash r)) (row_of res_id (resources (sdb s)) rid) = Some (kk, hh)"

lemma standing_still:
  assumes "still keeps pt rid s s'" "standing rid n k kk hh s"
  shows "standing rid n k kk hh s'"
proof -
  have "map_option (\<lambda>r. (res_storage_key r, res_hash r)) x = map_option (\<lambda>(_, a, b, _). (a, b)) (map_option res_core x)" for x
    by (cases x) (simp_all add: res_core_def)
  then show ?thesis using assms(2) still_keeps(1,2,9) [OF assms(1)] by (simp add: standing_def)
qed

lemma standing_inv: "standing rid n k kk hh s \<Longrightarrow> purge_inv live pt rid n k s"
  by (simp add: standing_def purge_inv_def)

lemma owing_still:
  "still True pt rid s s' \<Longrightarrow> owing live pt rid n k s \<Longrightarrow> owing live pt rid n k s'"
  using still_keeps [of True pt rid s s'] by (auto simp: owing_def)

text \<open>
  What an attempt needs to get through: layer 2, the storage, the search index and the queue
  answer, and nobody moves the resource's pointer before it does.
\<close>

definition env_answers :: "uuid \<Rightarrow> purge_env \<Rightarrow> bool" where
  "env_answers rid e \<longleftrightarrow> (\<forall>l sn d. pe_lake e = Some l \<longrightarrow> fst (l rid sn d) = None)
    \<and> (\<forall>x. be_delete (pe_backends e) x = Answered) \<and> be_delete_many (pe_backends e) = Answered
    \<and> be_search (pe_backends e) = Answered \<and> be_queue (pe_backends e) = Answered
    \<and> (\<forall>d. map_option res_storage_key (row_of res_id (resources (pe_others e d)) rid)
           = map_option res_storage_key (row_of res_id (resources d) rid))"

text \<open>What others hold to: layer 2 its laws, the rest the claim.\<close>

definition env_laws :: "uuid \<Rightarrow> purge_env \<Rightarrow> bool" where
  "env_laws rid e \<longleftrightarrow> (\<forall>l. pe_lake e = Some l \<longrightarrow> lake_layer l) \<and> minds_claim rid (pe_others e)"

text \<open>\<open>E\<close> is where a step may fail: under the invariant, or nowhere, everything answering.\<close>

lemma lake_step:
  assumes "env_laws rid e" "(\<forall>s. P s \<longrightarrow> E s) \<or> env_answers rid e"
    and "\<And>s s'. still True pt rid s s' \<Longrightarrow> P s \<Longrightarrow> P s'"
  shows "step_ok E (purge_from_lake (pe_lake e) rid sn) P P"
  unfolding step_ok_def
proof (intro allI impI)
  fix a :: attempt assume P: "P (at_store a)"
  obtain x a' where x: "purge_from_lake (pe_lake e) rid sn a = (x, a')" by (metis prod.collapse)
  have "still True pt rid (at_store a) (at_store a')"
    using assms(1) by (intro still_lake [OF _ x]) (simp add: env_laws_def)
  then have "P (at_store a')" by (rule assms(3) [OF _ P])
  moreover have "x = None" if "env_answers rid e"
    using that x by (auto simp: env_answers_def purge_from_lake_def split: option.splits prod.splits)
      (metis fst_conv)
  ultimately show "case purge_from_lake (pe_lake e) rid sn a of (None, a1) \<Rightarrow> P (at_store a1) | (Some _, a1) \<Rightarrow> E (at_store a1)"
    using assms(2) x by (auto split: option.split)
qed

lemma outlined_tail:
  assumes "ver_number row = n" "E = purge_inv live pt rid n k \<or> env_answers rid e"
  shows "outlined (purge_inv live pt rid n k) E (\<lambda>s. owing live pt rid n k s \<and> k \<notin> bucket s)
    [rebuild_if_owed e rid, entomb (pe_now e) rid row] (retracted live pt rid n k)"
proof (rule outlined.Step [where Q = "settled_purge live pt rid n k"])
  show "step_ok E (rebuild_if_owed e rid)
      (\<lambda>s. owing live pt rid n k s \<and> k \<notin> bucket s) (settled_purge live pt rid n k)"
    using assms(2) by (intro rebuild_step) (auto simp: env_answers_def)
  show "outlined (purge_inv live pt rid n k) E (settled_purge live pt rid n k) [entomb (pe_now e) rid row]
      (retracted live pt rid n k)"
  proof (rule outlined.Step [where Q = "retracted live pt rid n k"])
    show "step_ok E (entomb (pe_now e) rid row) (settled_purge live pt rid n k) (retracted live pt rid n k)"
      using entomb_retracts [OF _ assms(1)] by (fastforce simp: step_ok_def split: prod.split option.split)
  qed (auto simp: settled_purge_def purge_inv_def owing_def retracted_def intro: outlined.Done)
qed (simp add: owing_inv)

lemma delete_step:
  assumes "\<And>s. P s \<Longrightarrow> Q (s\<lparr>bucket := bucket s - {x}\<rparr>)" "\<And>s. P s \<Longrightarrow> purge_inv live pt rid n k s"
    and "\<And>s. Q s \<Longrightarrow> purge_inv live pt rid n k s" "E = purge_inv live pt rid n k \<or> env_answers rid e"
  shows "step_ok E (awaiting (delete_object (pe_backends e) x)) P Q"
  unfolding delete_object_def using assms by (intro step_calling) (auto simp: env_answers_def)

text \<open>A version the resource is not serving.\<close>

lemma outlined_middle:
  assumes "env_laws rid e" "E = purge_inv live pt rid n k \<or> env_answers rid e"
  shows "outlined (purge_inv live pt rid n k) E (owing live pt rid n k)
    [awaiting (delete_object (pe_backends e) k), on_db (discard_summary_of pt' now rid n),
     purge_from_lake (pe_lake e) rid sn]
    (\<lambda>s. owing live pt rid n k s \<and> k \<notin> bucket s)"
proof -
  let ?J = "purge_inv live pt rid n k" and ?Q = "\<lambda>s. owing live pt rid n k s \<and> k \<notin> bucket s"
  have J: "?Q s \<Longrightarrow> ?J s" for s by (simp add: owing_inv)
  have keep: "still True pt rid s s' \<Longrightarrow> ?Q s \<Longrightarrow> ?Q s'" for s s'
    using owing_still still_keeps(3) by blast
  have "step_ok E (awaiting (delete_object (pe_backends e) k)) (owing live pt rid n k) ?Q"
    by (rule delete_step [OF _ owing_inv J assms(2)]) (simp add: owing_still [OF still_stores(1)])
  moreover have "step_ok E (on_db (discard_summary_of pt' now rid n)) ?Q ?Q"
    by (rule step_on_db) (rule keep [OF still_summary])
  moreover have "step_ok E (purge_from_lake (pe_lake e) rid sn) ?Q ?Q"
    using J assms(2) by (intro lake_step [OF assms(1) _ keep]) auto
  ultimately show ?thesis using J owing_inv by (intro outlined.intros) blast+
qed

text \<open>The version the resource is serving: everything derived goes before the pointer moves.\<close>

lemma restore_pointer_hit:
  assumes "restore_pointer now gen rid kk hh d = (Inr v, d')" "distinct (map res_id (resources d))"
  shows "\<exists>r. row_of res_id (resources d) rid = Some r \<and> res_storage_key r = kk"
proof -
  let ?c = "case newest_active_version rid d of None \<Rightarrow> emptied_content kk hh None | Some v \<Rightarrow> restored_content v kk"
  have "fst (publish_live_content now gen rid ?c d)"
    using assms(1) by (auto simp: restore_pointer_def Let_def split: prod.splits if_splits)
  then have "list_ex (\<lambda>r. res_id r = rid \<and> res_storage_key r = pc_previous_key ?c) (resources d)"
    by (auto simp: publish_live_content_def Let_def list_ex_iff)
  moreover have "pc_previous_key ?c = kk"
    by (simp add: emptied_content_def restored_content_def split: option.split)
  ultimately show ?thesis using row_of_distinct [OF assms(2)] by (auto simp: list_ex_iff)
qed

lemma delete_detached_step:
  assumes "\<And>s s'. still True pt rid s s' \<Longrightarrow> P s \<Longrightarrow> P s'"
    and "be_delete_many be \<noteq> Answered \<Longrightarrow> (\<forall>s. P s \<longrightarrow> E s)"
  shows "step_ok E (delete_detached be) P P"
proof -
  have "P (s\<lparr>bucket := bucket s - X\<rparr>)" if "P s" for s X by (rule assms(1) [OF still_stores(1) that])
  then show ?thesis using assms(2)
    by (cases "be_delete_many be")
      (auto simp: step_ok_def delete_detached_def awaiting_def delete_derived_def calling_def split: prod.splits sum.splits)
qed

lemma pointer_step_ok:
  assumes "env_laws rid e" "E = purge_inv live pt rid n k \<or> env_answers rid e"
  shows "step_ok E (pointer_step e rid kk hh)
     (\<lambda>s. standing rid n k kk hh s \<and> k \<notin> bucket s \<and> cleaned pt rid s \<and> rebuild_marked rid (sdb s))
     (\<lambda>s. owing live pt rid n k s \<and> k \<notin> bucket s)"
  unfolding step_ok_def
proof (intro allI impI)
  fix a :: attempt
  assume a: "standing rid n k kk hh (at_store a) \<and> k \<notin> bucket (at_store a) \<and> cleaned pt rid (at_store a)
    \<and> rebuild_marked rid (sdb (at_store a))"
  let ?s = "(at_store a)\<lparr>sdb := pe_others e (sdb (at_store a))\<rparr>"
  have "minds_claim rid (pe_others e)" using assms(1) by (simp add: env_laws_def)
  note met = meanwhile_keeps [OF this]
  have s: "well rid n k ?s" "no_pointers pt rid (sdb ?s)" "rid \<notin> indexed ?s" "rebuild_marked rid (sdb ?s)" "k \<notin> bucket ?s"
    using a met by (auto simp: standing_def cleaned_def)
  obtain x d' where x: "restore_pointer (pe_now e) (pe_revision e) rid kk hh (sdb ?s) = (x, d')" by (metis prod.collapse)
  let ?s' = "?s\<lparr>sdb := d'\<rparr>"
  note frame = restore_pointer_frame [OF x]
  have c: "cleaned pt rid ?s'" "rebuild_marked rid (sdb ?s')"
    using s(2-4) frame(2) by (simp_all add: cleaned_def no_pointers_def rebuild_marked_def)
  have step: "pointer_step e rid kk hh a = (case x of Inl z \<Rightarrow> (Some z, a\<lparr>at_store := ?s'\<rparr>)
      | Inr v \<Rightarrow> (None, a\<lparr>at_store := ?s', at_restored := v\<rparr>))"
    using x by (cases x) (simp_all add: pointer_step_def)
  show "case pointer_step e rid kk hh a of
      (None, a1) \<Rightarrow> owing live pt rid n k (at_store a1) \<and> k \<notin> bucket (at_store a1) | (Some _, a1) \<Rightarrow> E (at_store a1)"
  proof (cases "\<exists>r. row_of res_id (resources (sdb ?s)) rid = Some r \<and> res_storage_key r = kk")
    case True
    then obtain r where r: "row_of res_id (resources (sdb ?s)) rid = Some r" "res_storage_key r = kk" by blast
    note moved = restored_elsewhere [OF s(1) r(1) x [folded r(2)]]
    then obtain v where "x = Inr v" by blast
    then show ?thesis using step moved c s(5) by (simp add: owing_def)
  next
    case False
    have "\<not> env_answers rid e"
    proof
      assume "env_answers rid e"
      then have "map_option res_storage_key (row_of res_id (resources (sdb ?s)) rid)
          = map_option res_storage_key (row_of res_id (resources (sdb (at_store a))) rid)"
        by (simp add: env_answers_def)
      then show False using False a by (auto simp: standing_def)
    qed
    then have E: "E = purge_inv live pt rid n k" using assms(2) by blast
    show ?thesis
    proof (cases x)
      case (Inl z)
      then have "same_content (sdb ?s) d'" using frame by (simp add: same_content_def)
      then have "well rid n k ?s'"
        using frame s(1) Inl by (auto simp: well_def get_row_def)
      then have "purge_inv live pt rid n k ?s'" using c by (auto simp: purge_inv_def owing_def)
      then show ?thesis using step Inl E by simp
    next
      case (Inr v)
      have "distinct (map res_id (resources (sdb ?s)))" using s(1) by (simp add: well_def)
      from restore_pointer_hit [OF x [unfolded Inr] this] False show ?thesis by blast
    qed
  qed
qed

lemma outlined_live:
  assumes "env_laws rid e" "E = purge_inv live pt rid n k \<or> env_answers rid e"
  shows "outlined (purge_inv live pt rid n k) E (standing rid n k kk hh)
    ([awaiting (delete_object (pe_backends e) k), on_db (discard_summary_of pt' now rid n),
      detach_step pt now rid, delete_detached (pe_backends e), awaiting (delete_content (pe_backends e) rid),
      on_db (mark_content_unindexed rid), on_db (set_purge_rebuild_pending rid True),
      purge_from_lake (pe_lake e) rid sn] @ restore_live_from_versions e rid kk hh)
    (\<lambda>s. owing live pt rid n k s \<and> k \<notin> bucket s)"
proof -
  let ?J = "purge_inv live pt rid n k"
  let ?Q1 = "\<lambda>s. standing rid n k kk hh s \<and> k \<notin> bucket s"
  let ?Q3 = "\<lambda>s. ?Q1 s \<and> no_pointers pt rid (sdb s)"
  let ?Q4 = "\<lambda>s. ?Q1 s \<and> cleaned pt rid s"
  let ?Q6 = "\<lambda>s. standing rid n k kk hh s \<and> k \<notin> bucket s \<and> cleaned pt rid s \<and> rebuild_marked rid (sdb s)"
  let ?Q8 = "\<lambda>s. owing live pt rid n k s \<and> k \<notin> bucket s"
  have J: "?Q1 s \<Longrightarrow> ?J s" for s using standing_inv by blast
  have keep1: "still True pt rid s s' \<Longrightarrow> ?Q1 s \<Longrightarrow> ?Q1 s'" for s s'
    using standing_still still_keeps(3) by blast
  have keep3: "still True pt rid s s' \<Longrightarrow> ?Q3 s \<Longrightarrow> ?Q3 s'" for s s'
    using keep1 still_keeps(6) by blast
  have keep4: "still True pt rid s s' \<Longrightarrow> ?Q4 s \<Longrightarrow> ?Q4 s'" for s s'
    using keep1 still_keeps(4) by blast
  have keep6: "still True pt rid s s' \<Longrightarrow> ?Q6 s \<Longrightarrow> ?Q6 s'" for s s'
    using keep4 [of s s'] still_keeps(7) [of True pt rid s s'] by simp
  have keep8: "still True pt rid s s' \<Longrightarrow> ?Q8 s \<Longrightarrow> ?Q8 s'" for s s'
    using owing_still still_keeps(3) by blast
  have res: "distinct (map pl_resource (pipelines (sdb s)))" if "?Q1 s" for s
    using that by (simp add: standing_def well_def)
  have s1: "step_ok E (awaiting (delete_object (pe_backends e) k)) (standing rid n k kk hh) ?Q1"
    by (rule delete_step [OF _ standing_inv J assms(2)]) (simp add: standing_still [OF still_stores(1)])
  have s2: "step_ok E (on_db (discard_summary_of pt' now rid n)) ?Q1 ?Q1"
    by (rule step_on_db) (rule keep1 [OF still_summary])
  have s3: "step_ok E (detach_step pt now rid) ?Q1 ?Q3"
    unfolding step_ok_def using keep1 [OF still_detach] detach_clears [OF res]
    by (simp add: detach_step_def case_prod_beta)
  have s3': "step_ok E (delete_detached (pe_backends e)) ?Q3 ?Q3"
    by (rule delete_detached_step [OF keep3]) (use J assms(2) in \<open>auto simp: env_answers_def\<close>)
  have s4: "step_ok E (awaiting (delete_content (pe_backends e) rid)) ?Q3 ?Q4"
    unfolding delete_content_def
  proof (rule step_calling)
    show "?Q4 (s\<lparr>indexed := indexed s - {rid}\<rparr>)" if "?Q3 s" for s
      using keep3 [OF still_stores(2) that] by (simp add: cleaned_def)
  qed (use J assms(2) in \<open>auto simp: env_answers_def\<close>)
  have s5: "step_ok E (on_db (mark_content_unindexed rid)) ?Q4 ?Q4"
    by (rule step_on_db) (rule keep4 [OF still_marks(1)])
  have s6: "step_ok E (on_db (set_purge_rebuild_pending rid True)) ?Q4 ?Q6"
    by (rule step_on_db) (use keep4 [OF still_marks(2)] in \<open>simp add: marks_rebuild\<close>)
  have s7: "step_ok E (purge_from_lake (pe_lake e) rid sn) ?Q6 ?Q6"
    using J assms(2) by (intro lake_step [OF assms(1) _ keep6]) auto
  have s8: "step_ok E (pointer_step e rid kk hh) ?Q6 ?Q8"
    by (rule pointer_step_ok [OF assms])
  have s9: "step_ok E (adopt_step (pe_now e) rid) ?Q8 ?Q8"
    unfolding step_ok_def using keep8 [OF still_adopt] by (simp add: adopt_step_def on_db_def)
  have fin: "outlined ?J E ?Q8 [] ?Q8"
    by (rule outlined.Done) (simp_all add: owing_inv)
  have tail: "outlined ?J E ?Q6 (restore_live_from_versions e rid kk hh) ?Q8"
    unfolding restore_live_from_versions_def
    by (rule outlined_cons [OF s8 outlined_cons [OF s9 fin]]) (use J owing_inv in blast)+
  show ?thesis unfolding append_Cons append_Nil
    by (rule outlined_cons [OF s1 outlined_cons [OF s2 outlined_cons [OF s3 outlined_cons [OF s3' outlined_cons [OF s4
        outlined_cons [OF s5 outlined_cons [OF s6 outlined_cons [OF s7 tail]]]]]]]])
      (use J standing_inv in blast)+
qed

lemma purge_outlined:
  assumes "env_laws rid e" "get_row rid n (sdb s) = Some row" "well rid n k s"
    and "purge_inv live pt rid n k s" "E = purge_inv live pt rid n k \<or> env_answers rid e"
  shows "outlined (purge_inv live pt rid n k) E (\<lambda>x. x = s)
    (purge_steps pt e rid row (sdb s)) (retracted live pt rid n k)"
proof -
  let ?J = "purge_inv live pt rid n k"
  have row: "ver_number row = n" "ver_storage_key row = k" "ver_state row = ''purging''"
    using get_row_SomeD [OF assms(2)] assms(2,3) by (simp_all add: well_def)
  note tail = outlined_tail [OF row(1) assms(5)]
  let ?res = "row_of res_id (resources (sdb s)) rid"
  let ?finish = "[rebuild_if_owed e rid, entomb (pe_now e) rid row]"
  let ?start = "[awaiting (delete_object (pe_backends e) k), on_db (discard_summary_of pt (pe_now e) rid n)]"
  let ?lake = "purge_from_lake (pe_lake e) rid (ver_lake_snapshot row)"
  show ?thesis
  proof (cases "serves rid n s")
    case True
    obtain r where r: "?res = Some r" "live_version rid (res_storage_key r) (res_hash r) SERVING_STATES (sdb s) = Some n"
      using True by (auto simp: serves_def live_version_number_def split: option.splits)
    let ?old = "if truthy (res_storage_key r) \<and> res_storage_key r \<noteq> Some k
      then [awaiting (delete_object (pe_backends e) (the (res_storage_key r)))] else []"
    have plan: "purge_steps pt e rid row (sdb s) = (?start @ [detach_step pt (pe_now e) rid,
        delete_detached (pe_backends e), awaiting (delete_content (pe_backends e) rid),
        on_db (mark_content_unindexed rid), on_db (set_purge_rebuild_pending rid True), ?lake]
        @ restore_live_from_versions e rid (res_storage_key r) (res_hash r)) @ (?old @ ?finish)"
      using r row by (simp add: purge_steps_def Let_def)
    have "outlined ?J E (\<lambda>s. owing live pt rid n k s \<and> k \<notin> bucket s) (?old @ ?finish) (retracted live pt rid n k)"
    proof (cases "truthy (res_storage_key r) \<and> res_storage_key r \<noteq> Some k")
      case True
      have "step_ok E (awaiting (delete_object (pe_backends e) (the (res_storage_key r))))
          (\<lambda>s. owing live pt rid n k s \<and> k \<notin> bucket s) (\<lambda>s. owing live pt rid n k s \<and> k \<notin> bucket s)"
        by (rule delete_step [OF _ _ _ assms(5)]) (simp_all add: owing_still [OF still_stores(1)] owing_inv)
      from outlined.Step [OF _ this tail] show ?thesis using True owing_inv by simp
    next
      case False
      then have "?old = []" by (rule if_not_P)
      then show ?thesis using tail by simp
    qed
    from outlined_append [OF outlined_live [OF assms(1,5)] this]
    have whole: "outlined ?J E (standing rid n k (res_storage_key r) (res_hash r))
        (purge_steps pt e rid row (sdb s)) (retracted live pt rid n k)"
      unfolding plan by simp
    have "standing rid n k (res_storage_key r) (res_hash r) s"
      using True assms(3) r(1) by (simp add: standing_def)
    then show ?thesis by (intro outlined_weaken [OF whole]) simp
  next
    case False
    have plan: "purge_steps pt e rid row (sdb s) = (?start @ [?lake]) @ ?finish"
      using False row by (auto simp: purge_steps_def Let_def serves_def live_version_number_def split: option.splits)
    have "owing live pt rid n k s" using assms(3,4) False by (auto simp: purge_inv_def tomb_def well_def)
    moreover have "outlined ?J E (owing live pt rid n k) (purge_steps pt e rid row (sdb s)) (retracted live pt rid n k)"
      unfolding plan using outlined_append [OF outlined_middle [OF assms(1,5)] tail] by simp
    ultimately show ?thesis by (simp add: outlined_weaken)
  qed
qed

lemma purge_inv_interrupted:
  assumes "env_laws rid e" "purge_inv live pt rid n k s"
  shows "purge_inv live pt rid n k (interrupted_purge m pt e rid n s)"
proof (cases "\<exists>row. get_row rid n (sdb s) = Some row \<and> ver_state row = ''purging''")
  case True
  then obtain row where row: "get_row rid n (sdb s) = Some row" "ver_state row = ''purging''" by blast
  then have "well rid n k s" using assms(2) by (auto simp: purge_inv_def owing_def tomb_def)
  from outlined_cut [OF purge_outlined [OF assms(1) row(1) this assms(2) disjI1 [OF refl]], where a = "beginning s"]
  show ?thesis using row by (simp add: interrupted_purge_def beginning_def)
next
  case False
  then show ?thesis using assms(2) by (auto simp: interrupted_purge_def split: option.split)
qed

lemma purge_completed:
  assumes "env_laws rid e" "purge_inv live pt rid n k s"
    and "purge_version pt e rid n s = (Inr (True, back), s')"
  shows "retracted live pt rid n k s'"
proof -
  obtain row where row: "get_row rid n (sdb s) = Some row" "ver_state row = ''purging''"
    using assms(3) by (auto simp: purge_version_def split: option.splits if_splits)
  then have well: "well rid n k s" using assms(2) by (auto simp: purge_inv_def owing_def tomb_def)
  obtain x a where run: "run_plan (purge_steps pt e rid row (sdb s)) (beginning s) = (x, a)" by (metis prod.collapse)
  then have "x = None" "s' = at_store a"
    using assms(3) row by (auto simp: purge_version_def Let_def split: option.splits)
  then show ?thesis
    using outlined_done [OF purge_outlined [OF assms(1) row(1) well assms(2) disjI1 [OF refl]] _ run [unfolded \<open>x = None\<close>]]
    by (simp add: beginning_def)
qed

lemma purge_answers:
  assumes "env_laws rid e" "purge_inv live pt rid n k s" "env_answers rid e"
  shows "\<exists>back s'. purge_version pt e rid n s = (Inr (\<not> tomb rid n s, back), s')"
proof (cases "tomb rid n s")
  case True
  then show ?thesis by (auto simp: purge_version_def tomb_def)
next
  case False
  then have well: "well rid n k s" using assms(2) by (auto simp: purge_inv_def owing_def)
  then obtain row where row: "get_row rid n (sdb s) = Some row" "ver_state row = ''purging''"
    by (auto simp: well_def)
  have "\<exists>a'. run_plan (purge_steps pt e rid row (sdb s)) (beginning s) = (None, a')"
    by (rule outlined_total [OF purge_outlined [OF assms(1) row(1) well assms(2) disjI2 [OF assms(3)]]])
      (simp_all add: beginning_def)
  then show ?thesis using row False by (auto simp: purge_version_def)
qed

subsection \<open>Attempts\<close>

text \<open>
  Attempts that did not get through: each cut off after as many steps, or failed at the first
  of them that its surroundings refused.
\<close>

record cut_attempt =
  ct_steps :: nat
  ct_env :: purge_env

definition cut_off :: "(json \<Rightarrow> string) \<Rightarrow> uuid \<Rightarrow> int \<Rightarrow> cut_attempt \<Rightarrow> store \<Rightarrow> store" where
  "cut_off pt rid n c = interrupted_purge (ct_steps c) pt (ct_env c) rid n"

lemma purge_inv_cut_off:
  assumes "\<forall>c \<in> set cs. env_laws rid (ct_env c)" "purge_inv live pt rid n k s"
  shows "purge_inv live pt rid n k (fold (cut_off pt rid n) cs s)"
  using assms
proof (induction cs arbitrary: s)
  case (Cons c cs)
  have "purge_inv live pt rid n k (cut_off pt rid n c s)"
    unfolding cut_off_def using Cons.prems by (intro purge_inv_interrupted) auto
  then show ?case using Cons by simp
qed simp

lemma purge_begins:
  assumes "well rid n k s"
  shows "purge_inv (serves rid n s) pt rid n k s"
  using assms by (auto simp: purge_inv_def owing_def)

subsection \<open>A purge to apply it to\<close>

text \<open>
  Version 3 of resource 10 is live and being purged. A first attempt dies after five steps, its
  storage having refused the preview; in a second one the pointer is moved by \<open>sample_upload\<close>, which
  brings the very bytes that are being purged, so that the purge finds itself on them again.
\<close>

definition sample_purging :: store where
  "sample_purging = \<lparr>sdb = sample_history\<lparr>resources := [sample_resource 10 (Some ''a'')],
     pipelines := [(new_pipeline_row 0 100 10)\<lparr>pl_preview_key := Some ''p'',
       pl_metadata := Some (JObj [(''contentIndexed'', JBool True)])\<rparr>],
     versions := [sample_version 1 ''x'' ''purged'', sample_version 2 ''y'' ''active'', sample_version 3 ''a'' ''purging'']\<rparr>,
     bucket = {''a'', ''y'', ''p''}, indexed = {10}, asked = [Purge_Version 10 3], audit = []\<rparr>"

definition sample_lake :: lake where
  "sample_lake = catalog_layer 5 \<lparr>lc_resource = 10, lc_from = None, lc_to = Some ''c'', lc_snapshots = [(2, 1)],
     lc_rebuilt = True, lc_refused = [], lc_claim = None\<rparr>"

definition sample_env :: purge_env where
  "sample_env = \<lparr>pe_now = 6, pe_revision = 18, pe_fresh = 19, pe_backends = all_answer, pe_lake = None, pe_others = id\<rparr>"

definition sample_cuts :: "cut_attempt list" where
  "sample_cuts =
    [\<lparr>ct_steps = 5, ct_env = sample_env\<lparr>pe_backends := all_answer\<lparr>be_refuses := (\<lambda>ks. ks)\<rparr>, pe_lake := Some sample_lake\<rparr>\<rparr>,
     \<lparr>ct_steps = 99, ct_env = sample_env\<lparr>pe_others := sample_upload\<rparr>\<rparr>]"

definition sample_left :: store where
  "sample_left = fold (cut_off (\<lambda>_. []) 10 3) sample_cuts sample_purging"

lemma sample_purging_well: "well 10 3 ''a'' sample_purging"
  by (simp add: well_def sample_purging_def sample_history_def sample_db_def sample_resource_def new_pipeline_row_def
      sample_version_def version_of_def versions_ok_def get_row_def)

lemma sample_upload_minds: "minds_claim 10 sample_upload"
  by (simp add: minds_claim_def sample_upload_def map_update_where)

lemma sample_laws:
  "\<forall>c \<in> set sample_cuts. env_laws 10 (ct_env c)" "env_laws 10 sample_env" "env_answers 10 sample_env"
  using catalog.lake_layer_axioms sample_upload_minds
  by (simp_all add: sample_cuts_def sample_lake_def env_laws_def env_answers_def sample_env_def all_answer_def)

lemma sample_live: "live_version_number 10 (sdb sample_purging) = Some 3"
  by code_simp

lemma sample_not_yet: "live_version_number 10 (sdb sample_left) = Some 3" "\<not> tomb 10 3 sample_left"
  by code_simp+

lemma sample_purge_answers:
  "\<exists>back s'. purge_version (\<lambda>_. []) sample_env 10 3 sample_left = (Inr (True, back), s')"
proof -
  have "purge_inv (serves 10 3 sample_purging) (\<lambda>_. []) 10 3 ''a'' sample_left"
    unfolding sample_left_def by (rule purge_inv_cut_off [OF sample_laws(1) purge_begins [OF sample_purging_well]])
  from purge_answers [OF sample_laws(2) this sample_laws(3)] show ?thesis
    using sample_not_yet by simp
qed

subsection \<open>The property\<close>

text \<open>
  C19. A purge takes the content away, however often it was cut off. Once a purge reports that
  it is done - after any attempts before it, each cut off anywhere, or failed in the storage,
  the search index, the queue or the lake, or because others moved the pointer just before the
  purge did, and nothing else written in between - the version is a tombstone with no snapshot, its object is deleted and the
  resource does not point at it; and if it was what the resource served when the purge began,
  no key derived from it is left in the pipeline row, the content is out of the index, and a
  rebuild was asked for unless the resource is now empty.
\<close>

theorem purge_finishes:
  assumes "well rid n k s" "\<forall>c \<in> set cs. env_laws rid (ct_env c)" "env_laws rid e"
    and "purge_version pt e rid n (fold (cut_off pt rid n) cs s) = (Inr (True, back), s')"
  shows "tomb rid n s' \<and> k \<notin> bucket s'
    \<and> Option.bind (row_of res_id (resources (sdb s')) rid) res_storage_key \<noteq> Some k
    \<and> (live_version_number rid (sdb s) = Some n \<longrightarrow> no_pointers pt rid (sdb s') \<and> rid \<notin> indexed s'
         \<and> (has_live_content rid (sdb s') \<longrightarrow> Rebuild rid \<in> set (asked s')))"
proof -
  have "purge_inv (serves rid n s) pt rid n k (fold (cut_off pt rid n) cs s)"
    by (rule purge_inv_cut_off [OF assms(2) purge_begins [OF assms(1)]])
  from purge_completed [OF assms(3) this assms(4)]
  have "retracted (serves rid n s) pt rid n k s'" .
  then show ?thesis by (simp add: retracted_def cleaned_def rebuilt_def serves_def)
qed

lemma purge_finishes_witness:
  "\<exists>s'. tomb 10 3 s' \<and> ''a'' \<notin> bucket s' \<and> 10 \<notin> indexed s'"
proof -
  obtain rb s' where "purge_version (\<lambda>_. []) sample_env 10 3 (fold (cut_off (\<lambda>_. []) 10 3) sample_cuts sample_purging)
      = (Inr (True, rb), s')"
    using sample_purge_answers unfolding sample_left_def by blast
  from purge_finishes [OF sample_purging_well sample_laws(1,2) this] sample_live show ?thesis by blast
qed

text \<open>
  C20. A purge gets done. However many attempts were cut off or failed before it, an attempt
  during which the storage takes its deletes, the search index, the queue and the lake answer,
  and nobody moves the resource's pointer before the purge does, does not fail: it reports an
  end, and the version is then a tombstone.
\<close>

theorem purge_converges:
  assumes "well rid n k s" "\<forall>c \<in> set cs. env_laws rid (ct_env c)" "env_laws rid e" "env_answers rid e"
  shows "\<exists>finished back s'. purge_version pt e rid n (fold (cut_off pt rid n) cs s)
      = (Inr (finished, back), s') \<and> tomb rid n s'"
proof -
  let ?s = "fold (cut_off pt rid n) cs s"
  have inv: "purge_inv (serves rid n s) pt rid n k ?s"
    by (rule purge_inv_cut_off [OF assms(2) purge_begins [OF assms(1)]])
  obtain rb s' where s': "purge_version pt e rid n ?s = (Inr (\<not> tomb rid n ?s, rb), s')"
    using purge_answers [OF assms(3) inv assms(4)] by blast
  have "tomb rid n s'"
  proof (cases "tomb rid n ?s")
    case True
    then show ?thesis using s' by (auto simp: purge_version_def tomb_def)
  next
    case False
    then show ?thesis using purge_completed [OF assms(3) inv] s' by (simp add: retracted_def)
  qed
  then show ?thesis using s' by blast
qed

lemma purge_converges_witness:
  "\<exists>finished back s'. purge_version (\<lambda>_. []) sample_env 10 3
     (fold (cut_off (\<lambda>_. []) 10 3) sample_cuts sample_purging) = (Inr (finished, back), s') \<and> tomb 10 3 s'"
  by (rule purge_converges [OF sample_purging_well sample_laws])

subsection \<open>A purge cut off inside the restore\<close>

text \<open>
  The pointer's move and the adoption of what goes with it are two statements. Cut off between
  them, a purge that empties the resource is finished by an attempt that finds the version
  already off the pointer: it clears no metadata, and the purged version's column names outlive
  its content, which an attempt that is not cut off takes away.
\<close>

definition sample_only_version :: store where
  "sample_only_version = sample_purging\<lparr>sdb := (sdb sample_purging)\<lparr>
     versions := [sample_version 3 ''a'' ''purging''],
     pipelines := [(new_pipeline_row 0 100 10)\<lparr>pl_metadata := Some (JObj [(''schema'',
       JObj [(''columns'', JArr [JObj [(''name'', JStr ''ssn'')]])])])\<rparr>]\<rparr>\<rparr>"

definition columns_left :: "store \<Rightarrow> json list" where
  "columns_left s = concat (map (\<lambda>p. schema_column_names (pl_metadata p)) (pipelines (sdb s)))"

theorem cut_restore_keeps_columns:
  "let cut = interrupted_purge 9 (\<lambda>_. []) sample_env 10 3 sample_only_version;
       again = purge_version (\<lambda>_. []) sample_env 10 3 cut;
       whole = purge_version (\<lambda>_. []) sample_env 10 3 sample_only_version
   in fst again = Inr (True, False) \<and> columns_left (snd again) = [JStr ''ssn'']
      \<and> fst whole = Inr (True, False) \<and> columns_left (snd whole) = []"
  by code_simp

end
