(* ===== verification/Compound_File.thy ===== *)
theory Compound_File
  imports Prelude "HOL-Library.Word" "HOL-Library.While_Combinator" "HOL-Library.AList"
begin

text \<open>
  The container of the legacy Office formats: \<open>readCompoundFile\<close> of
  \<open>worker/src/pipeline/interpret/document/legacy/compound-file.ts\<close>, over the bytes of a
  file. A file is untrusted, and what the reader follows in it - the FAT's chains, the
  DIFAT's, the tree of the directory - may loop. So each of its three loops is a
  \<open>while_option\<close>: an \<open>outcome\<close> is \<open>None\<close> where a loop does not end, and otherwise what the
  code throws or returns. A string is the list of its UTF-16 code units, and JavaScript's
  \<open>toLowerCase\<close> the argument \<open>lower\<close>.
\<close>

subsection \<open>Bytes and outcomes\<close>

type_synonym bytes = "8 word list"
type_synonym ustring = "nat list"

datatype cfb_error = Not_Compound | Bad_Sectors nat | Past_End nat | Broken_Chain | Too_Many_Fat nat nat
  | Broken_Difat | Not_In_Fat nat | Sector_Past_End | Entry_Past_End nat | No_Root | Directory_Loop | Too_Deep
  | Not_In_Mini_Fat nat | Mini_Past_End | Short_Stream

type_synonym 'a checked = "cfb_error + 'a"
type_synonym 'a outcome = "'a checked option"

definition and_then :: "'a outcome \<Rightarrow> ('a \<Rightarrow> 'b outcome) \<Rightarrow> 'b outcome" where
  "and_then m f = (case m of None \<Rightarrow> None | Some (Inl e) \<Rightarrow> Some (Inl e) | Some (Inr x) \<Rightarrow> f x)"

definition guarded :: "bool \<Rightarrow> cfb_error \<Rightarrow> 'a outcome \<Rightarrow> 'a outcome" where
  "guarded b e m = (if b then Some (Inl e) else m)"

fun le :: "bytes \<Rightarrow> nat" where
  "le [] = 0"
| "le (b # bs) = unat b + 256 * le bs"

definition slice :: "nat \<Rightarrow> nat \<Rightarrow> 'a list \<Rightarrow> 'a list" where
  "slice start n bs = take n (drop start bs)"

definition u16 :: "bytes \<Rightarrow> nat \<Rightarrow> nat" where "u16 bs off = le (slice off 2 bs)"

definition u32 :: "bytes \<Rightarrow> nat \<Rightarrow> nat" where "u32 bs off = le (slice off 4 bs)"

subsection \<open>The format's constants\<close>

definition COMPOUND_FILE_SIGNATURE :: bytes where
  "COMPOUND_FILE_SIGNATURE = [0xD0, 0xCF, 0x11, 0xE0, 0xA1, 0xB1, 0x1A, 0xE1]"

definition MAX_REGULAR_SECTOR :: nat where "MAX_REGULAR_SECTOR = 0xfffffffa"
definition END_OF_CHAIN :: nat where "END_OF_CHAIN = 0xfffffffe"
definition HEADER_BYTES :: nat where "HEADER_BYTES = 512"
definition MINI_SECTOR_BYTES :: nat where "MINI_SECTOR_BYTES = 64"
definition DIRECTORY_ENTRY_BYTES :: nat where "DIRECTORY_ENTRY_BYTES = 128"
definition HEADER_DIFAT_ENTRIES :: nat where "HEADER_DIFAT_ENTRIES = 109"
definition NO_STREAM :: nat where "NO_STREAM = 0xffffffff"
definition MAX_DEPTH :: nat where "MAX_DEPTH = 32"
definition STORAGE :: nat where "STORAGE = 1"
definition STREAM :: nat where "STREAM = 2"
definition ROOT :: nat where "ROOT = 5"

definition ceil_div :: "nat \<Rightarrow> nat \<Rightarrow> nat" where "ceil_div n k = (n + (k - 1)) div k"

subsection \<open>Sectors\<close>

definition sector_count :: "nat \<Rightarrow> bytes \<Rightarrow> nat" where
  "sector_count sz bs = ceil_div (length bs - sz) sz"

text \<open>A sector of the FAT or DIFAT, padded with zeros where the file ends inside it.\<close>

definition sector :: "nat \<Rightarrow> bytes \<Rightarrow> nat \<Rightarrow> bytes checked" where
  "sector sz bs n =
    (if sector_count sz bs \<le> n then Inl (Past_End n)
     else let s = slice ((n + 1) * sz) sz bs in Inr (s @ replicate (sz - length s) 0))"

text \<open>
  The loop of \<open>chain\<close>: what was thrown, the sector next, the sectors so far. \<open>wanted\<close> is
  \<open>None\<close> for \<open>Infinity\<close>; the next sector is looked up before the loop asks again.
\<close>

definition chain_going :: "nat option \<Rightarrow> cfb_error option \<times> nat \<times> nat list \<Rightarrow> bool" where
  "chain_going wanted = (\<lambda>(e, n, ss). e = None \<and> n \<noteq> END_OF_CHAIN
     \<and> (case wanted of None \<Rightarrow> True | Some w \<Rightarrow> length ss < w))"

definition chain_step ::
  "(nat \<Rightarrow> nat checked) \<Rightarrow> nat \<Rightarrow> cfb_error option \<times> nat \<times> nat list \<Rightarrow> cfb_error option \<times> nat \<times> nat list" where
  "chain_step nxt limit = (\<lambda>(e, n, ss).
     if MAX_REGULAR_SECTOR < n \<or> limit \<le> length ss then (Some Broken_Chain, n, ss)
     else case nxt n of Inl e \<Rightarrow> (Some e, n, ss @ [n]) | Inr m \<Rightarrow> (None, m, ss @ [n]))"

definition chain :: "nat \<Rightarrow> (nat \<Rightarrow> nat checked) \<Rightarrow> nat \<Rightarrow> nat option \<Rightarrow> nat list outcome" where
  "chain first nxt limit wanted =
    (case while_option (chain_going wanted) (chain_step nxt limit) (None, first, []) of
       None \<Rightarrow> None
     | Some (Some e, _, _) \<Rightarrow> Some (Inl e)
     | Some (None, _, ss) \<Rightarrow> Some (Inr ss))"

text \<open>\<open>gather\<close>: the sectors that run on are one part; what is short is made up at the end.\<close>

fun run_on :: "nat \<Rightarrow> nat list \<Rightarrow> nat" where
  "run_on s [] = 0"
| "run_on s (x # xs) = (if x = s + 1 then 1 + run_on x xs else 0)"

lemma run_on_le: "run_on s xs \<le> length xs"
  by (induction s xs rule: run_on.induct) auto

function gather_parts :: "bytes \<Rightarrow> nat \<Rightarrow> nat \<Rightarrow> nat list \<Rightarrow> bytes list" where
  "gather_parts source unit base [] = []"
| "gather_parts source unit base (s # ss) =
    slice (base + s * unit) ((1 + run_on s ss) * unit) source # gather_parts source unit base (drop (run_on s ss) ss)"
  by pat_completeness auto
termination by (relation "measure (\<lambda>(_, _, _, ss). length ss)") auto

definition gather :: "bytes \<Rightarrow> nat list \<Rightarrow> nat \<Rightarrow> nat \<Rightarrow> bytes" where
  "gather source ss unit base =
    (let parts = concat (gather_parts source unit base ss)
     in parts @ replicate (length ss * unit - length parts) 0)"

definition fitted :: "nat \<Rightarrow> bytes \<Rightarrow> bytes outcome" where
  "fitted sz data = guarded (length data < sz) Short_Stream (Some (Inr (take sz data)))"

subsection \<open>The FAT\<close>

definition add_fat :: "nat \<Rightarrow> nat \<Rightarrow> nat list \<Rightarrow> nat list" where
  "add_fat fat_count n fs = (if n \<le> MAX_REGULAR_SECTOR \<and> length fs < fat_count then fs @ [n] else fs)"

text \<open>The DIFAT's loop: what was thrown, sectors seen, the sector next, the FAT's sectors so far.\<close>

definition difat_going :: "nat \<Rightarrow> cfb_error option \<times> nat \<times> nat \<times> nat list \<Rightarrow> bool" where
  "difat_going fat_count = (\<lambda>(e, seen, n, fs). e = None \<and> n \<le> MAX_REGULAR_SECTOR \<and> length fs < fat_count)"

definition difat_step ::
  "nat \<Rightarrow> bytes \<Rightarrow> nat \<Rightarrow> cfb_error option \<times> nat \<times> nat \<times> nat list \<Rightarrow> cfb_error option \<times> nat \<times> nat \<times> nat list" where
  "difat_step sz bs fat_count = (\<lambda>(e, seen, n, fs).
     if sector_count sz bs \<le> seen then (Some Broken_Difat, seen, n, fs)
     else case sector sz bs n of
       Inl e \<Rightarrow> (Some e, seen, n, fs)
     | Inr s \<Rightarrow> (None, seen + 1, u32 s (sz - 4),
         fold (\<lambda>i. add_fat fat_count (u32 s (i * 4))) [0..<sz div 4 - 1] fs))"

definition fat_sectors :: "nat \<Rightarrow> bytes \<Rightarrow> nat \<Rightarrow> nat list outcome" where
  "fat_sectors sz bs fat_count =
    (case while_option (difat_going fat_count) (difat_step sz bs fat_count)
        (None, 0, u32 bs 0x44,
         fold (\<lambda>i. add_fat fat_count (u32 bs (0x4c + i * 4))) [0..<HEADER_DIFAT_ENTRIES] []) of
       None \<Rightarrow> None
     | Some (Some e, _) \<Rightarrow> Some (Inl e)
     | Some (None, _, _, fs) \<Rightarrow> Some (Inr fs))"

fun all_sectors :: "nat \<Rightarrow> bytes \<Rightarrow> nat list \<Rightarrow> bytes outcome" where
  "all_sectors sz bs [] = Some (Inr [])"
| "all_sectors sz bs (n # ns) =
    (case sector sz bs n of Inl e \<Rightarrow> Some (Inl e)
     | Inr s \<Rightarrow> and_then (all_sectors sz bs ns) (\<lambda>rest. Some (Inr (s @ rest))))"

definition next_in :: "bytes \<Rightarrow> (nat \<Rightarrow> cfb_error) \<Rightarrow> nat \<Rightarrow> nat checked" where
  "next_in fat e n = (if length fat < n * 4 + 4 then Inl (e n) else Inr (u32 fat (n * 4)))"

definition chain_bytes :: "nat \<Rightarrow> bytes \<Rightarrow> bytes \<Rightarrow> nat \<Rightarrow> nat option \<Rightarrow> bytes outcome" where
  "chain_bytes sz bs fat first wanted =
    and_then (chain first (next_in fat Not_In_Fat) (sector_count sz bs) wanted)
      (\<lambda>ss. guarded (list_ex (\<lambda>n. sector_count sz bs \<le> n) ss) Sector_Past_End
              (Some (Inr (gather bs ss sz sz))))"

definition read_stream :: "nat \<Rightarrow> bytes \<Rightarrow> bytes \<Rightarrow> nat \<Rightarrow> nat \<Rightarrow> bytes outcome" where
  "read_stream sz bs fat first n =
    and_then (chain_bytes sz bs fat first (Some (ceil_div n sz))) (fitted n)"

subsection \<open>The directory\<close>

record dir_entry =
  de_name :: ustring
  de_type :: nat
  de_left :: nat
  de_right :: nat
  de_child :: nat
  de_start :: nat
  de_size :: nat

fun utf16 :: "bytes \<Rightarrow> ustring" where
  "utf16 (a # b # bs) = (unat a + 256 * unat b) # utf16 bs"
| "utf16 _ = []"

definition dir_entry_at :: "bytes \<Rightarrow> nat \<Rightarrow> dir_entry checked" where
  "dir_entry_at directory i =
    (if length directory div DIRECTORY_ENTRY_BYTES \<le> i then Inl (Entry_Past_End i)
     else let e = slice (i * DIRECTORY_ENTRY_BYTES) DIRECTORY_ENTRY_BYTES directory;
              name_bytes = min 64 (u16 e 0x40)
          in Inr \<lparr>de_name = utf16 (take (name_bytes - 2) e), de_type = unat (e ! 0x42),
                  de_left = u32 e 0x44, de_right = u32 e 0x48, de_child = u32 e 0x4c,
                  de_start = u32 e 0x74, de_size = u32 e 0x78\<rparr>)"

record stream_entry =
  se_path :: ustring
  se_start :: nat
  se_size :: nat

type_synonym directory_walk =
  "cfb_error option \<times> (nat \<times> ustring \<times> nat) list \<times> nat list \<times> (ustring \<times> stream_entry) list"

text \<open>What \<open>if (n !== NO_STREAM) pending.push(...)\<close> does to the stack, its top first.\<close>

definition push_entry :: "nat \<Rightarrow> ustring \<Rightarrow> nat \<Rightarrow> (nat \<times> ustring \<times> nat) list \<Rightarrow> (nat \<times> ustring \<times> nat) list" where
  "push_entry n parent depth pending = (if n \<noteq> NO_STREAM then (n, parent, depth) # pending else pending)"

definition walk_going :: "directory_walk \<Rightarrow> bool" where
  "walk_going = (\<lambda>(e, pending, _, _). e = None \<and> pending \<noteq> [])"

definition walk_step :: "(ustring \<Rightarrow> ustring) \<Rightarrow> bytes \<Rightarrow> directory_walk \<Rightarrow> directory_walk" where
  "walk_step lower directory = (\<lambda>(e0, stack, visited, streams).
     (case stack of
        [] \<Rightarrow> (e0, [], visited, streams)
      | (i, parent, depth) # pending \<Rightarrow>
          if i \<in> set visited then (Some Directory_Loop, pending, visited, streams)
          else case dir_entry_at directory i of
            Inl e \<Rightarrow> (Some e, pending, i # visited, streams)
          | Inr e \<Rightarrow>
              (let path = parent @ de_name e;
                   streams1 = (if de_type e = STREAM
                     then AList.update (lower path)
                            \<lparr>se_path = path, se_start = de_start e, se_size = de_size e\<rparr> streams
                     else streams)
               in if de_type e = STORAGE \<and> de_child e \<noteq> NO_STREAM \<and> MAX_DEPTH \<le> depth
                  then (Some Too_Deep, pending, i # visited, streams1)
                  else let pending1 = (if de_type e = STORAGE \<and> de_child e \<noteq> NO_STREAM
                                       then (de_child e, path @ [47], depth + 1) # pending else pending)
                       in (None, push_entry (de_right e) parent depth (push_entry (de_left e) parent depth pending1),
                           i # visited, streams1))))"

definition walk_directory :: "(ustring \<Rightarrow> ustring) \<Rightarrow> bytes \<Rightarrow> nat \<Rightarrow> (ustring \<times> stream_entry) list outcome" where
  "walk_directory lower directory child =
    (case while_option walk_going (walk_step lower directory)
        (None, (if child = NO_STREAM then [] else [(child, [], 0)]), [], []) of
       None \<Rightarrow> None
     | Some (Some e, _) \<Rightarrow> Some (Inl e)
     | Some (None, _, _, streams) \<Rightarrow> Some (Inr streams))"

subsection \<open>The file\<close>

record compound_file =
  cf_bytes :: bytes
  cf_sector_size :: nat
  cf_fat :: bytes
  cf_root :: dir_entry
  cf_streams :: "(ustring \<times> stream_entry) list"

definition read_compound_file :: "(ustring \<Rightarrow> ustring) \<Rightarrow> bytes \<Rightarrow> compound_file outcome" where
  "read_compound_file lower bs =
    guarded (length bs < HEADER_BYTES \<or> slice 0 (length COMPOUND_FILE_SIGNATURE) bs \<noteq> COMPOUND_FILE_SIGNATURE)
      Not_Compound
    (let sector_shift = u16 bs 0x1e
     in guarded (sector_shift \<noteq> 9 \<and> sector_shift \<noteq> 12 \<or> u16 bs 0x20 \<noteq> 6) (Bad_Sectors sector_shift)
     (let sz = 2 ^ sector_shift; fat_count = u32 bs 0x2c
      in guarded (sector_count sz bs < fat_count) (Too_Many_Fat fat_count (sector_count sz bs))
      (and_then (fat_sectors sz bs fat_count) (\<lambda>fs.
       and_then (all_sectors sz bs fs) (\<lambda>fat.
       and_then (chain_bytes sz bs fat (u32 bs 0x30) None) (\<lambda>directory.
         case dir_entry_at directory 0 of
           Inl e \<Rightarrow> Some (Inl e)
         | Inr root \<Rightarrow>
             guarded (de_type root \<noteq> ROOT) No_Root
             (and_then (walk_directory lower directory (de_child root)) (\<lambda>streams.
                Some (Inr \<lparr>cf_bytes = bs, cf_sector_size = sz, cf_fat = fat, cf_root = root,
                           cf_streams = streams\<rparr>)))))))))"

text \<open>\<open>miniParts\<close>, whose memory only saves work.\<close>

definition mini_parts :: "compound_file \<Rightarrow> (bytes \<times> bytes) outcome" where
  "mini_parts f =
    (let bs = cf_bytes f; sz = cf_sector_size f; fat = cf_fat f; root = cf_root f; first = u32 bs 0x3c
     in and_then (if MAX_REGULAR_SECTOR < de_start root then Some (Inr [])
                  else read_stream sz bs fat (de_start root) (de_size root)) (\<lambda>stream.
        and_then (if MAX_REGULAR_SECTOR < first then Some (Inr []) else chain_bytes sz bs fat first None)
          (\<lambda>mini_fat. Some (Inr (stream, mini_fat)))))"

definition read_mini :: "compound_file \<Rightarrow> nat \<Rightarrow> nat \<Rightarrow> bytes outcome" where
  "read_mini f first n =
    and_then (mini_parts f) (\<lambda>(stream, mini_fat).
      (let limit = length stream div MINI_SECTOR_BYTES
       in and_then (chain first (next_in mini_fat Not_In_Mini_Fat) limit (Some (ceil_div n MINI_SECTOR_BYTES)))
            (\<lambda>ss. guarded (list_ex (\<lambda>m. limit \<le> m) ss) Mini_Past_End
                    (fitted n (gather stream ss MINI_SECTOR_BYTES 0)))))"

definition stream_of :: "(ustring \<Rightarrow> ustring) \<Rightarrow> compound_file \<Rightarrow> ustring \<Rightarrow> bytes option outcome" where
  "stream_of lower f path =
    (case map_of (cf_streams f) (lower path) of
       None \<Rightarrow> Some (Inr None)
     | Some e \<Rightarrow>
         if se_size e = 0 then Some (Inr (Some []))
         else and_then (if se_size e < u32 (cf_bytes f) 0x38 then read_mini f (se_start e) (se_size e)
                        else read_stream (cf_sector_size f) (cf_bytes f) (cf_fat f) (se_start e) (se_size e))
                (\<lambda>data. Some (Inr (Some data))))"

definition paths :: "compound_file \<Rightarrow> ustring list" where
  "paths f = map (se_path \<circ> snd) (cf_streams f)"

end
