(* ===== verification/Compound_Guarantees.thy ===== *)
theory Compound_Guarantees
  imports Compound_File
begin

text \<open>
  What the container reader promises of untrusted bytes: every loop ends, nothing it gives
  back is longer than the file, and a stream is the bytes of its sectors in order.
\<close>

subsection \<open>Loops that end\<close>

lemma while_ends:
  assumes "\<And>s. b s \<Longrightarrow> f (c s) < (f s :: nat)"
  shows "\<exists>t. while_option b c s = Some t"
  using assms by (intro measure_while_option_Some [where P = "\<lambda>_. True" and f = f]) auto

lemma chain_ends: "\<exists>r. chain first nxt limit wanted = Some r"
proof -
  have "\<exists>t. while_option (chain_going wanted) (chain_step nxt limit) (None, first, []) = Some t"
    by (rule while_ends [where f = "\<lambda>(e, _, ss). if e = None then Suc (limit - length ss) else 0"])
      (auto simp: chain_going_def chain_step_def split: sum.splits if_splits)
  then show ?thesis by (auto simp: chain_def split: option.splits prod.splits)
qed

lemma difat_ends: "\<exists>r. fat_sectors sz bs fat_count = Some r"
proof -
  have "\<exists>t. while_option (difat_going fat_count) (difat_step sz bs fat_count) s = Some t" for s
    by (rule while_ends [where f = "\<lambda>(e, seen, _). if e = None then Suc (sector_count sz bs - seen) else 0"])
      (auto simp: difat_going_def difat_step_def split: sum.splits if_splits)
  then show ?thesis unfolding fat_sectors_def by (auto split: option.split prod.split)
qed

text \<open>An entry is read once at most, so the walk has no more steps than the directory entries.\<close>

definition unread :: "bytes \<Rightarrow> nat list \<Rightarrow> nat" where
  "unread directory visited = card ({..<length directory div DIRECTORY_ENTRY_BYTES} - set visited)"

lemma unread_less:
  assumes "i < length directory div DIRECTORY_ENTRY_BYTES" "i \<notin> set visited"
  shows "unread directory (i # visited) < unread directory visited"
proof -
  let ?all = "{..<length directory div DIRECTORY_ENTRY_BYTES}"
  have "?all - set (i # visited) \<subset> ?all - set visited" using assms by auto
  then show ?thesis unfolding unread_def by (rule psubset_card_mono [rotated]) simp
qed

lemma dir_entry_within: "dir_entry_at directory i = Inr e \<Longrightarrow> i < length directory div DIRECTORY_ENTRY_BYTES"
  by (simp add: dir_entry_at_def split: if_splits)

lemma walk_step_cases:
  assumes "walk_going (e0, stack, visited, streams)" "walk_step lower directory (e0, stack, visited, streams) = (e, rest)"
  obtains (threw) x where "e = Some x"
    | (read) i parent depth pending entry pending' streams' where "stack = (i, parent, depth) # pending"
      "i \<notin> set visited" "dir_entry_at directory i = Inr entry" "e = None" "rest = (pending', i # visited, streams')"
      "length streams' \<le> Suc (length streams)"
proof -
  obtain i parent depth pending where stack: "stack = (i, parent, depth) # pending"
    using assms(1) by (cases stack) (auto simp: walk_going_def)
  have upd: "length (AList.update k v xs) \<le> Suc (length xs)" for k :: ustring and v :: stream_entry and xs
    by (induction xs) auto
  show ?thesis
  proof (cases "i \<in> set visited")
    case True
    then show ?thesis using assms(2) stack threw by (auto simp: walk_step_def)
  next
    case fresh: False
    show ?thesis
    proof (cases "dir_entry_at directory i")
      case (Inl x)
      then show ?thesis using assms(2) stack fresh threw by (auto simp: walk_step_def)
    next
      case (Inr entry)
      let ?deep = "de_type entry = STORAGE \<and> de_child entry \<noteq> NO_STREAM \<and> MAX_DEPTH \<le> depth"
      show ?thesis
      proof (cases ?deep)
        case True
        then show ?thesis using assms(2) stack fresh Inr threw by (auto simp: walk_step_def Let_def)
      next
        case False
        obtain pending' visited' streams' where rest: "rest = (pending', visited', streams')" by (cases rest)
        have "e = None \<and> visited' = i # visited \<and> length streams' \<le> Suc (length streams)"
          using assms(2) stack fresh Inr False upd unfolding rest
          by (simp add: walk_step_def Let_def split: if_splits) (metis lessI less_or_eq_imp_le)+
        then show ?thesis using read [OF stack fresh Inr] rest by blast
      qed
    qed
  qed
qed

lemma walk_ends: "\<exists>r. walk_directory lower directory child = Some r"
proof -
  have "\<exists>t. while_option walk_going (walk_step lower directory) s = Some t" for s
  proof (rule while_ends [where f = "\<lambda>(e, _, visited, _). if e = None then Suc (unread directory visited) else 0"])
    fix s :: directory_walk assume going: "walk_going s"
    obtain e0 stack visited streams where s: "s = (e0, stack, visited, streams)" by (cases s)
    obtain e rest where step: "walk_step lower directory s = (e, rest)" by (cases "walk_step lower directory s")
    have "e0 = None" using going s by (simp add: walk_going_def)
    show "(\<lambda>(e, _, visited, _). if e = None then Suc (unread directory visited) else 0) (walk_step lower directory s)
        < (\<lambda>(e, _, visited, _). if e = None then Suc (unread directory visited) else 0) s"
      unfolding step unfolding s using \<open>e0 = None\<close>
      by (cases rule: walk_step_cases [OF going [unfolded s] step [unfolded s]])
        (auto simp: unread_less dir_entry_within split: prod.split)
  qed
  from this [of "(None, (if child = NO_STREAM then [] else [(child, [], 0)]), [], [])"]
  obtain e rest where "while_option walk_going (walk_step lower directory)
      (None, (if child = NO_STREAM then [] else [(child, [], 0)]), [], []) = Some (e, rest)" by auto
  then show ?thesis unfolding walk_directory_def by (cases rest) (simp split: option.split)
qed

subsection \<open>Outcomes\<close>

lemma and_then_ends:
  "\<exists>r. m = Some r \<Longrightarrow> (\<And>x. m = Some (Inr x) \<Longrightarrow> \<exists>r. f x = Some r) \<Longrightarrow> \<exists>r. and_then m f = Some r"
  by (auto simp: and_then_def split: sum.split)

lemma guarded_ends: "\<exists>r. m = Some r \<Longrightarrow> \<exists>r. guarded b e m = Some r"
  by (simp add: guarded_def)

lemma and_then_Inr: "and_then m f = Some (Inr y) \<longleftrightarrow> (\<exists>x. m = Some (Inr x) \<and> f x = Some (Inr y))"
  by (auto simp: and_then_def split: option.split sum.split)

lemma guarded_Inr [simp]: "guarded b e m = Some (Inr y) \<longleftrightarrow> \<not> b \<and> m = Some (Inr y)"
  by (simp add: guarded_def)

lemma all_sectors_ends: "\<exists>r. all_sectors sz bs ns = Some r"
  by (induction ns) (auto split: sum.split intro: and_then_ends)

lemma chain_bytes_ends: "\<exists>r. chain_bytes sz bs fat first wanted = Some r"
  unfolding chain_bytes_def by (intro and_then_ends chain_ends guarded_ends) simp

lemma read_stream_ends: "\<exists>r. read_stream sz bs fat first n = Some r"
  unfolding read_stream_def fitted_def by (intro and_then_ends chain_bytes_ends guarded_ends) simp

lemma read_mini_ends: "\<exists>r. read_mini f first n = Some r"
  unfolding read_mini_def mini_parts_def Let_def fitted_def
  by (auto intro!: and_then_ends chain_ends guarded_ends read_stream_ends chain_bytes_ends split: prod.split)

subsection \<open>What a walked chain is\<close>

text \<open>\<open>ss\<close> leads from the sector \<open>n\<close> to the number \<open>m\<close>.\<close>

fun leads :: "(nat \<Rightarrow> nat checked) \<Rightarrow> nat \<Rightarrow> nat list \<Rightarrow> nat \<Rightarrow> bool" where
  "leads nxt n [] m \<longleftrightarrow> n = m"
| "leads nxt n (s # ss) m \<longleftrightarrow> s = n \<and> s \<le> MAX_REGULAR_SECTOR \<and> (\<exists>k. nxt s = Inr k \<and> leads nxt k ss m)"

lemma leads_snoc:
  "leads nxt n (ss @ [s]) m \<longleftrightarrow> leads nxt n ss s \<and> s \<le> MAX_REGULAR_SECTOR \<and> nxt s = Inr m"
  by (induction ss arbitrary: n) auto

lemma leads_append: "leads nxt n (us @ vs) m \<longleftrightarrow> (\<exists>k. leads nxt n us k \<and> leads nxt k vs m)"
  by (induction us arbitrary: n) auto

lemma leads_unique:
  "leads nxt n us m \<Longrightarrow> leads nxt n vs m \<Longrightarrow> MAX_REGULAR_SECTOR < m \<Longrightarrow> us = vs"
proof (induction us arbitrary: n vs)
  case Nil
  then show ?case by (cases vs) auto
next
  case (Cons u us)
  then show ?case by (cases vs) auto
qed

lemma leads_distinct:
  "leads nxt n ss m \<Longrightarrow> MAX_REGULAR_SECTOR < m \<Longrightarrow> distinct ss"
proof (induction ss arbitrary: n)
  case (Cons s ss)
  then obtain k where k: "s = n" "nxt s = Inr k" "leads nxt k ss m" by auto
  have "n \<notin> set ss"
  proof
    assume "n \<in> set ss"
    then obtain us vs where ss: "ss = us @ n # vs" by (auto simp: in_set_conv_decomp)
    then obtain k' where "leads nxt k' (n # vs) m" using k(3) by (auto simp: leads_append simp del: leads.simps)
    then have "leads nxt n (n # vs) m" by auto
    from leads_unique [OF this Cons.prems(1,2)] show False using ss k(1) by auto
  qed
  then show ?case using Cons k by auto
qed simp

lemma chain_walks:
  assumes "chain first nxt limit wanted = Some (Inr ss)"
  shows "\<exists>m. leads nxt first ss m \<and> (m = END_OF_CHAIN \<or> wanted = Some (length ss))"
    and "length ss \<le> limit" "wanted = Some w \<Longrightarrow> length ss \<le> w"
proof -
  obtain m where t: "while_option (chain_going wanted) (chain_step nxt limit) (None, first, []) = Some (None, m, ss)"
    using assms by (auto simp: chain_def split: option.splits prod.splits)
  let ?P = "\<lambda>(e :: cfb_error option, n, ss). e = None \<longrightarrow> leads nxt first ss n \<and> length ss \<le> limit
      \<and> (case wanted of None \<Rightarrow> True | Some w \<Rightarrow> length ss \<le> w)"
  have "?P (None, m, ss)"
  proof (rule while_option_rule [where P = ?P, OF _ t])
    fix s assume "?P s" "chain_going wanted s"
    then show "?P (chain_step nxt limit s)"
      by (cases s) (auto simp: chain_going_def chain_step_def leads_snoc split: sum.splits option.splits if_splits)
  qed (simp split: option.split)
  moreover have "\<not> chain_going wanted (None, m, ss)" by (rule while_option_stop [OF t])
  ultimately show "\<exists>m. leads nxt first ss m \<and> (m = END_OF_CHAIN \<or> wanted = Some (length ss))"
    "length ss \<le> limit" "wanted = Some w \<Longrightarrow> length ss \<le> w"
    by (auto simp: chain_going_def split: option.splits)
qed

text \<open>Conversely, sectors that lead to the end of the chain are what the walk returns.\<close>

lemma chain_of_invariant:
  assumes "P (None, first, [])"
    and "\<And>s. P s \<Longrightarrow> chain_going wanted s \<Longrightarrow> P (chain_step nxt limit s)"
    and "\<And>e n ss. P (e, n, ss) \<Longrightarrow> \<not> chain_going wanted (e, n, ss) \<Longrightarrow> e = None \<and> ss = result"
  shows "chain first nxt limit wanted = Some (Inr result)"
proof -
  obtain r where "chain first nxt limit wanted = Some r" using chain_ends by blast
  then obtain e n ss where t: "while_option (chain_going wanted) (chain_step nxt limit) (None, first, []) = Some (e, n, ss)"
    by (auto simp: chain_def split: option.splits)
  have "P (e, n, ss)" by (rule while_option_rule [where P = P, OF assms(2) t assms(1)])
  from assms(3) [OF this while_option_stop [OF t]] show ?thesis using t by (simp add: chain_def)
qed

lemma chain_of_leads:
  assumes "leads nxt first ss END_OF_CHAIN" "length ss \<le> limit"
  shows "chain first nxt limit (Some w) = Some (Inr (take w ss))"
proof (rule chain_of_invariant [where P = "\<lambda>(e, n, qs). e = None \<and> length qs \<le> w
    \<and> (\<exists>rest. ss = qs @ rest \<and> leads nxt n rest END_OF_CHAIN)"])
  fix s :: "cfb_error option \<times> nat \<times> nat list"
  assume P: "case s of (e, n, qs) \<Rightarrow> e = None \<and> length qs \<le> w
      \<and> (\<exists>rest. ss = qs @ rest \<and> leads nxt n rest END_OF_CHAIN)" and going: "chain_going (Some w) s"
  obtain n qs rest where s: "s = (None, n, qs)" "ss = qs @ rest" "leads nxt n rest END_OF_CHAIN" "length qs < w" "n \<noteq> END_OF_CHAIN"
    using P going by (auto simp: chain_going_def)
  then obtain k rest' where "rest = n # rest'" "n \<le> MAX_REGULAR_SECTOR" "nxt n = Inr k" "leads nxt k rest' END_OF_CHAIN"
    by (cases rest) auto
  then show "case chain_step nxt limit s of (e, n, qs) \<Rightarrow> e = None \<and> length qs \<le> w
      \<and> (\<exists>rest. ss = qs @ rest \<and> leads nxt n rest END_OF_CHAIN)"
    using s assms(2) by (simp add: chain_step_def)
next
  fix e n qs
  assume "case (e, n, qs) of (e, n, qs) \<Rightarrow> e = None \<and> length qs \<le> w
      \<and> (\<exists>rest. ss = qs @ rest \<and> leads nxt n rest END_OF_CHAIN)" and stop: "\<not> chain_going (Some w) (e, n, qs)"
  then obtain rest where P: "e = None" "length qs \<le> w" "ss = qs @ rest" "leads nxt n rest END_OF_CHAIN" by auto
  have "qs = take w ss"
  proof (cases "n = END_OF_CHAIN")
    case True
    then have "rest = []" using P(4) by (cases rest) (auto simp: END_OF_CHAIN_def MAX_REGULAR_SECTOR_def)
    then show ?thesis using P by simp
  next
    case False
    then show ?thesis using stop P by (auto simp: chain_going_def)
  qed
  then show "e = None \<and> qs = take w ss" using P by simp
qed (use assms in auto)

text \<open>
  A sector that leads back to itself is walked as often as the size asks: a loop is
  only found where it outlasts the file's sectors.
\<close>

lemma loop_read_on:
  assumes "nxt n = Inr n" "n \<le> MAX_REGULAR_SECTOR" "w \<le> limit"
  shows "chain n nxt limit (Some w) = Some (Inr (replicate w n))"
proof (rule chain_of_invariant [where P = "\<lambda>(e, m, qs). e = None \<and> m = n \<and> length qs \<le> w \<and> qs = replicate (length qs) n"])
  fix s :: "cfb_error option \<times> nat \<times> nat list"
  assume "case s of (e, m, qs) \<Rightarrow> e = None \<and> m = n \<and> length qs \<le> w \<and> qs = replicate (length qs) n" "chain_going (Some w) s"
  then show "case chain_step nxt limit s of (e, m, qs) \<Rightarrow> e = None \<and> m = n \<and> length qs \<le> w \<and> qs = replicate (length qs) n"
    using assms by (auto simp: chain_going_def chain_step_def) (metis replicate_append_same replicate_Suc)
next
  fix e m qs
  assume "case (e, m, qs) of (e, m, qs) \<Rightarrow> e = None \<and> m = n \<and> length qs \<le> w \<and> qs = replicate (length qs) n"
    "\<not> chain_going (Some w) (e, m, qs)"
  then show "e = None \<and> qs = replicate w n"
    using assms(2) by (auto simp: chain_going_def END_OF_CHAIN_def MAX_REGULAR_SECTOR_def)
qed simp

subsection \<open>Gathering sectors\<close>

lemma slice_add: "slice a (m + n) xs = slice a m xs @ slice (a + m) n xs"
  by (simp add: slice_def take_add add.commute)

lemma length_slice: "length (slice a n xs) \<le> n"
  by (simp add: slice_def)

lemma slice_run: "slice (base + s * unit) (k * unit) src = concat (map (\<lambda>s. slice (base + s * unit) unit src) [s..<s + k])"
proof (induction k)
  case (Suc k)
  have "slice (base + s * unit) (Suc k * unit) src = slice (base + s * unit) (k * unit + unit) src"
    by (simp add: add.commute)
  then show ?case unfolding slice_add Suc by (simp add: algebra_simps)
qed (simp add: slice_def)

lemma run_on_take: "take (run_on s ss) ss = [s + 1..<s + 1 + run_on s ss]"
proof (induction s ss rule: run_on.induct)
  case (2 s x xs)
  then show ?case by (auto simp: upt_conv_Cons simp del: upt_Suc)
qed simp

lemma gather_parts_sectors:
  "concat (gather_parts src unit base ss) = concat (map (\<lambda>s. slice (base + s * unit) unit src) ss)"
proof (induction src unit base ss rule: gather_parts.induct)
  case (2 src unit base s ss)
  let ?r = "run_on s ss" and ?f = "\<lambda>s. slice (base + s * unit) unit src"
  have "ss = take ?r ss @ drop ?r ss" by simp
  then have "concat (map ?f (s # ss)) = concat (map ?f (s # take ?r ss)) @ concat (map ?f (drop ?r ss))"
    by (metis append_Cons concat_append map_append)
  moreover have "s # take ?r ss = [s..<s + (1 + ?r)]"
    unfolding run_on_take by (simp add: upt_conv_Cons del: upt_Suc)
  ultimately show ?case using 2 slice_run [of base s unit "1 + ?r" src] by (simp del: upt_Suc)
qed simp

lemma length_concat_sectors:
  "length (concat (map (\<lambda>s. slice (base + s * unit) unit src) ss)) \<le> length ss * unit"
  by (induction ss) (auto simp: slice_def intro: add_mono)

lemma length_gather: "length (gather src ss unit base) = length ss * unit"
  using length_concat_sectors [of base unit src ss] by (simp add: gather_def gather_parts_sectors Let_def)

lemma gather_whole:
  assumes "\<forall>s \<in> set ss. base + s * unit + unit \<le> length src"
  shows "gather src ss unit base = concat (map (\<lambda>s. slice (base + s * unit) unit src) ss)"
proof -
  have "length (concat (map (\<lambda>s. slice (base + s * unit) unit src) ss)) = length ss * unit"
    using assms by (induction ss) (auto simp: slice_def)
  then show ?thesis by (simp add: gather_def gather_parts_sectors Let_def)
qed

subsection \<open>How long what is read can be\<close>

lemma sector_count_le: "0 < sz \<Longrightarrow> sector_count sz bs * sz \<le> length bs"
proof -
  assume sz: "0 < sz"
  show ?thesis
  proof (cases "length bs \<le> sz")
    case True
    then show ?thesis using sz by (simp add: sector_count_def ceil_div_def)
  next
    case False
    have "(length bs - sz + (sz - 1)) div sz * sz \<le> length bs - sz + (sz - 1)" by (rule div_times_less_eq_dividend)
    also have "\<dots> \<le> length bs" using False by linarith
    finally show ?thesis by (simp only: sector_count_def ceil_div_def)
  qed
qed

lemma fitted_length: "fitted n data = Some (Inr x) \<Longrightarrow> length x = n \<and> n \<le> length data"
  by (auto simp: fitted_def)

lemma chain_bytes_length:
  assumes "chain_bytes sz bs fat first wanted = Some (Inr data)" "0 < sz"
  shows "length data \<le> length bs"
proof -
  obtain ss where "chain first (next_in fat Not_In_Fat) (sector_count sz bs) wanted = Some (Inr ss)"
    "data = gather bs ss sz sz"
    using assms(1) by (auto simp: chain_bytes_def and_then_Inr)
  then have "length data \<le> sector_count sz bs * sz"
    using chain_walks(2) by (simp add: length_gather)
  then show ?thesis using sector_count_le [OF assms(2), of bs] by linarith
qed

lemma read_stream_length:
  assumes "read_stream sz bs fat first n = Some (Inr data)" "0 < sz"
  shows "length data = n" "n \<le> length bs"
proof -
  obtain d where d: "chain_bytes sz bs fat first (Some (ceil_div n sz)) = Some (Inr d)" "fitted n d = Some (Inr data)"
    using assms(1) by (auto simp: read_stream_def and_then_Inr)
  show "length data = n" "n \<le> length bs"
    using fitted_length [OF d(2)] chain_bytes_length [OF d(1) assms(2)] by simp_all
qed

lemma read_mini_length:
  assumes "read_mini f first n = Some (Inr data)" "0 < cf_sector_size f"
  shows "length data = n" "n \<le> length (cf_bytes f)"
proof -
  obtain stream mini ss where m: "mini_parts f = Some (Inr (stream, mini))"
    "chain first (next_in mini Not_In_Mini_Fat) (length stream div MINI_SECTOR_BYTES) (Some (ceil_div n MINI_SECTOR_BYTES)) = Some (Inr ss)"
    "fitted n (gather stream ss MINI_SECTOR_BYTES 0) = Some (Inr data)"
    using assms(1) by (auto simp: read_mini_def and_then_Inr Let_def)
  have "length stream \<le> length (cf_bytes f)"
    using m(1) read_stream_length [OF _ assms(2)] by (auto simp: mini_parts_def and_then_Inr Let_def split: if_splits)
  moreover have "length ss * MINI_SECTOR_BYTES \<le> length stream"
    using chain_walks(2) [OF m(2)] by (simp add: MINI_SECTOR_BYTES_def)
  ultimately show "length data = n" "n \<le> length (cf_bytes f)"
    using fitted_length [OF m(3)] by (simp_all add: length_gather)
qed

subsection \<open>What the directory walk finds\<close>

definition below :: "bytes \<Rightarrow> nat \<times> ustring \<times> nat \<Rightarrow> (nat \<times> ustring \<times> nat) set" where
  "below directory = (\<lambda>(i, parent, depth).
    (case dir_entry_at directory i of
       Inl _ \<Rightarrow> {}
     | Inr e \<Rightarrow> {(n, parent, depth) | n. n \<in> {de_left e, de_right e} \<and> n \<noteq> NO_STREAM}
         \<union> {(n, parent @ de_name e @ [47], depth + 1) | n. n = de_child e \<and> n \<noteq> NO_STREAM \<and> de_type e = STORAGE}))"

inductive listed :: "bytes \<Rightarrow> nat \<Rightarrow> nat \<times> ustring \<times> nat \<Rightarrow> bool" for directory child where
  listed_top: "child \<noteq> NO_STREAM \<Longrightarrow> listed directory child (child, [], 0)"
| listed_below: "listed directory child t \<Longrightarrow> t' \<in> below directory t \<Longrightarrow> listed directory child t'"

definition stream_at :: "(ustring \<Rightarrow> ustring) \<Rightarrow> bytes \<Rightarrow> nat \<times> ustring \<times> nat \<Rightarrow> ustring \<Rightarrow> stream_entry \<Rightarrow> bool" where
  "stream_at lower directory = (\<lambda>(i, parent, depth) k s. \<exists>e. dir_entry_at directory i = Inr e \<and> de_type e = STREAM
     \<and> k = lower (parent @ de_name e) \<and> s = \<lparr>se_path = parent @ de_name e, se_start = de_start e, se_size = de_size e\<rparr>)"

text \<open>
  The walk's state, \<open>V\<close> the entries it has read with the way it came to them: what they lead to
  is read or waits, and the streams are theirs.
\<close>

definition walked :: "(ustring \<Rightarrow> ustring) \<Rightarrow> bytes \<Rightarrow> nat \<Rightarrow> (nat \<times> ustring \<times> nat) list \<Rightarrow> directory_walk \<Rightarrow> bool" where
  "walked lower directory child V = (\<lambda>(e, stack, visited, streams). e = None \<longrightarrow>
     map fst V = visited \<and> distinct visited \<and> set visited \<subseteq> {..<length directory div DIRECTORY_ENTRY_BYTES}
   \<and> length streams \<le> length visited
   \<and> (child \<noteq> NO_STREAM \<longrightarrow> (child, [], 0) \<in> set V \<union> set stack)
   \<and> (\<forall>t \<in> set V \<union> set stack. listed directory child t)
   \<and> (\<forall>t \<in> set V. below directory t \<subseteq> set V \<union> set stack)
   \<and> (\<forall>t \<in> set V. \<forall>k s. stream_at lower directory t k s \<longrightarrow> k \<in> fst ` set streams)
   \<and> (\<forall>k s. map_of streams k = Some s \<longrightarrow> (\<exists>t \<in> set V. stream_at lower directory t k s)))"

lemma set_push_entry: "set (push_entry n parent depth pending) = {(n', parent, depth) | n'. n' = n \<and> n \<noteq> NO_STREAM} \<union> set pending"
  by (auto simp: push_entry_def)

lemma walk_reads:
  assumes "walk_going (e0, stack, visited, streams)" "walk_step lower directory (e0, stack, visited, streams) = (None, rest)"
  obtains i parent depth pending entry stack' where "stack = (i, parent, depth) # pending" "i \<notin> set visited"
    "dir_entry_at directory i = Inr entry" "set stack' = below directory (i, parent, depth) \<union> set pending"
    "rest = (stack', i # visited, if de_type entry = STREAM
       then AList.update (lower (parent @ de_name entry))
         \<lparr>se_path = parent @ de_name entry, se_start = de_start entry, se_size = de_size entry\<rparr> streams else streams)"
proof -
  obtain i parent depth pending where stack: "stack = (i, parent, depth) # pending"
    using assms(1) by (cases stack) (auto simp: walk_going_def)
  have fresh: "i \<notin> set visited" using assms(2) stack by (auto simp: walk_step_def)
  obtain entry where entry: "dir_entry_at directory i = Inr entry"
    using assms(2) stack fresh by (cases "dir_entry_at directory i") (auto simp: walk_step_def)
  let ?down = "de_type entry = STORAGE \<and> de_child entry \<noteq> NO_STREAM"
  let ?stack = "push_entry (de_right entry) parent depth (push_entry (de_left entry) parent depth
    (if ?down then (de_child entry, (parent @ de_name entry) @ [47], depth + 1) # pending else pending))"
  have "\<not> (?down \<and> MAX_DEPTH \<le> depth)" using assms(2) stack fresh entry by (auto simp: walk_step_def Let_def)
  then have "rest = (?stack, i # visited, if de_type entry = STREAM
       then AList.update (lower (parent @ de_name entry))
         \<lparr>se_path = parent @ de_name entry, se_start = de_start entry, se_size = de_size entry\<rparr> streams else streams)"
    using assms(2) stack fresh entry by (cases ?down; cases "de_type entry = STREAM") (auto simp: walk_step_def Let_def)
  moreover have "set ?stack = below directory (i, parent, depth) \<union> set pending"
    by (auto simp: set_push_entry below_def entry)
  ultimately show ?thesis using that stack fresh entry by blast
qed

lemma length_alist_update: "length (AList.update k v xs) \<le> Suc (length xs)"
  by (induction xs) auto

lemma walked_step:
  assumes "walked lower directory child V s" "walk_going s"
  shows "\<exists>V'. walked lower directory child V' (walk_step lower directory s)"
proof -
  obtain e0 stack visited streams where s: "s = (e0, stack, visited, streams)" by (cases s)
  obtain e rest where step: "walk_step lower directory s = (e, rest)" by (cases "walk_step lower directory s")
  show ?thesis
  proof (cases e)
    case (Some x)
    then show ?thesis unfolding step by (cases rest) (simp add: walked_def)
  next
    case None
    have e0: "e0 = None" using assms(2) s by (simp add: walk_going_def)
    obtain i parent depth pending entry stack' where r: "stack = (i, parent, depth) # pending" "i \<notin> set visited"
      "dir_entry_at directory i = Inr entry" "set stack' = below directory (i, parent, depth) \<union> set pending"
      "rest = (stack', i # visited, if de_type entry = STREAM
         then AList.update (lower (parent @ de_name entry))
           \<lparr>se_path = parent @ de_name entry, se_start = de_start entry, se_size = de_size entry\<rparr> streams else streams)"
      using walk_reads [OF assms(2) [unfolded s] step [unfolded s None]] by metis
    let ?t = "(i, parent, depth)" and ?streams = "snd (snd rest)"
    let ?s = "\<lparr>se_path = parent @ de_name entry, se_start = de_start entry, se_size = de_size entry\<rparr>"
    let ?k = "lower (parent @ de_name entry)"
    have old: "map fst V = visited" "distinct visited" "set visited \<subseteq> {..<length directory div DIRECTORY_ENTRY_BYTES}"
      "length streams \<le> length visited" "child \<noteq> NO_STREAM \<longrightarrow> (child, [], 0) \<in> set V \<union> set stack"
      "\<forall>t \<in> set V \<union> set stack. listed directory child t" "\<forall>t \<in> set V. below directory t \<subseteq> set V \<union> set stack"
      "\<forall>t \<in> set V. \<forall>k s. stream_at lower directory t k s \<longrightarrow> k \<in> fst ` set streams"
      "\<forall>k s. map_of streams k = Some s \<longrightarrow> (\<exists>t \<in> set V. stream_at lower directory t k s)"
      using assms(1) unfolding s e0 walked_def by auto
    have at: "stream_at lower directory ?t k s \<longleftrightarrow> de_type entry = STREAM \<and> k = ?k \<and> s = ?s" for k s
      by (simp add: stream_at_def r(3))
    have streams: "?streams = (if de_type entry = STREAM then AList.update ?k ?s streams else streams)" using r(5) by simp
    have within: "i < length directory div DIRECTORY_ENTRY_BYTES" by (rule dir_entry_within [OF r(3)])
    have listed: "\<forall>t \<in> set (?t # V) \<union> set stack'. listed directory child t"
      using old(6) r(1,4) listed_below by auto
    have dom: "fst ` set streams \<subseteq> fst ` set ?streams" "de_type entry = STREAM \<Longrightarrow> ?k \<in> fst ` set ?streams"
      unfolding streams by (simp_all add: dom_update subset_insertI)
    have keys: "\<forall>t \<in> set (?t # V). \<forall>k s. stream_at lower directory t k s \<longrightarrow> k \<in> fst ` set ?streams"
    proof (intro ballI allI impI)
      fix t k s assume t: "t \<in> set (?t # V)" "stream_at lower directory t k s"
      show "k \<in> fst ` set ?streams"
      proof (cases "t = ?t")
        case True
        then show ?thesis using t(2) at dom(2) by simp
      next
        case False
        then have "t \<in> set V" using t(1) by simp
        then show ?thesis using t(2) old(8) dom(1) by blast
      qed
    qed
    have found: "\<forall>k s. map_of ?streams k = Some s \<longrightarrow> (\<exists>t \<in> set (?t # V). stream_at lower directory t k s)"
      using old(9) by (auto simp: at streams update_conv split: if_splits)
    have count: "length ?streams \<le> length (i # visited)"
      using old(4) length_alist_update [of ?k ?s streams] by (simp add: streams)
    have closed: "\<forall>t \<in> set (?t # V). below directory t \<subseteq> set (?t # V) \<union> set stack'"
      using old(7) r(1,4) by auto
    have top: "child \<noteq> NO_STREAM \<longrightarrow> (child, [], 0) \<in> set (?t # V) \<union> set stack'"
      using old(5) r(1,4) by auto
    have "walked lower directory child (?t # V) (None, stack', i # visited, ?streams)"
      unfolding walked_def prod.case
    proof (rule impI, intro conjI)
      show "map fst (?t # V) = i # visited" "distinct (i # visited)"
        "set (i # visited) \<subseteq> {..<length directory div DIRECTORY_ENTRY_BYTES}"
        using old(1-3) r(2) within by auto
    qed (rule count top listed closed keys found)+
    then show ?thesis unfolding step None using r(5) by (metis snd_conv)
  qed
qed

lemma walk_finds:
  assumes "walk_directory lower directory child = Some (Inr streams)"
  obtains V visited where "walked lower directory child V (None, [], visited, streams)"
proof -
  let ?s = "(None, (if child = NO_STREAM then [] else [(child, [], 0)]), [], [])"
  obtain pending visited where t: "while_option walk_going (walk_step lower directory) ?s = Some (None, pending, visited, streams)"
    using assms by (auto simp: walk_directory_def split: option.splits prod.splits)
  have "\<exists>V. walked lower directory child V (None, pending, visited, streams)"
  proof (rule while_option_rule [OF _ t, where P = "\<lambda>s. \<exists>V. walked lower directory child V s"])
    show "\<exists>V. walked lower directory child V ?s"
      by (rule exI [of _ "[]"]) (auto simp: walked_def listed_top)
  qed (use walked_step in blast)
  moreover have "pending = []" using while_option_stop [OF t] by (simp add: walk_going_def)
  ultimately show ?thesis using that by blast
qed

lemma listed_walked:
  assumes "walked lower directory child V (None, [], visited, streams)"
  shows "listed directory child t \<longleftrightarrow> t \<in> set V"
proof
  show "t \<in> set V" if "listed directory child t"
    using that assms by (induction rule: listed.induct) (auto simp: walked_def)
qed (use assms in \<open>auto simp: walked_def\<close>)

lemma listed_once:
  assumes "walk_directory lower directory child = Some (Inr streams)"
    "listed directory child (i, p, d)" "listed directory child (i, p', d')"
  shows "p = p' \<and> d = d'"
proof -
  obtain V visited where w: "walked lower directory child V (None, [], visited, streams)"
    by (rule walk_finds [OF assms(1)])
  then have "distinct (map fst V)" by (auto simp: walked_def)
  moreover have "(i, p, d) \<in> set V" "(i, p', d') \<in> set V" using assms(2,3) listed_walked [OF w] by blast+
  ultimately show ?thesis using eq_key_imp_eq_value by fastforce
qed

lemma walk_streams:
  assumes "walk_directory lower directory child = Some (Inr streams)"
  shows "map_of streams k = Some s \<Longrightarrow> \<exists>t. listed directory child t \<and> stream_at lower directory t k s"
    and "listed directory child t \<Longrightarrow> stream_at lower directory t k s \<Longrightarrow> k \<in> fst ` set streams"
    and "length streams * DIRECTORY_ENTRY_BYTES \<le> length directory"
proof -
  obtain V visited where w: "walked lower directory child V (None, [], visited, streams)"
    by (rule walk_finds [OF assms])
  have keys: "\<forall>t \<in> set V. \<forall>k s. stream_at lower directory t k s \<longrightarrow> k \<in> fst ` set streams"
    and found: "\<forall>k s. map_of streams k = Some s \<longrightarrow> (\<exists>t \<in> set V. stream_at lower directory t k s)"
    using w unfolding walked_def prod.case by blast+
  show "map_of streams k = Some s \<Longrightarrow> \<exists>t. listed directory child t \<and> stream_at lower directory t k s"
    and "listed directory child t \<Longrightarrow> stream_at lower directory t k s \<Longrightarrow> k \<in> fst ` set streams"
    using keys found listed_walked [OF w] by blast+
  have visited: "length streams \<le> length visited" "distinct visited" "set visited \<subseteq> {..<length directory div DIRECTORY_ENTRY_BYTES}"
    using w by (auto simp: walked_def)
  then have "length visited \<le> length directory div DIRECTORY_ENTRY_BYTES"
    by (metis card_lessThan card_mono distinct_card finite_lessThan)
  with visited(1) have "length streams \<le> length directory div DIRECTORY_ENTRY_BYTES" by linarith
  then show "length streams * DIRECTORY_ENTRY_BYTES \<le> length directory"
    by (simp add: DIRECTORY_ENTRY_BYTES_def)
qed

end
