(* ===== verification/Compound_Streams.thy ===== *)
theory Compound_Streams
  imports Compound_Guarantees
begin

text \<open>
  The properties of the container reader: it returns on any bytes, it lists the streams the
  directory leads to and no others, and a stream is its sectors' bytes, within the file. The
  sample is a whole file: its FAT in one sector, its directory in the next, and a stream of 600
  bytes in the last two, the file ending inside the last.
\<close>

lemma read_compound_fileE:
  assumes "read_compound_file lower bs = Some (Inr f)"
  obtains directory fs where "cf_bytes f = bs" "cf_sector_size f = 2 ^ u16 bs 0x1e" "u16 bs 0x1e \<in> {9, 12}"
    "fat_sectors (cf_sector_size f) bs (u32 bs 0x2c) = Some (Inr fs)"
    "all_sectors (cf_sector_size f) bs fs = Some (Inr (cf_fat f))"
    "chain_bytes (cf_sector_size f) bs (cf_fat f) (u32 bs 0x30) None = Some (Inr directory)"
    "dir_entry_at directory 0 = Inr (cf_root f)" "de_type (cf_root f) = ROOT"
    "walk_directory lower directory (de_child (cf_root f)) = Some (Inr (cf_streams f))"
proof -
  let ?sz = "2 ^ u16 bs 0x1e"
  obtain fs fat directory where r: "u16 bs 0x1e \<in> {9, 12}"
    "fat_sectors ?sz bs (u32 bs 0x2c) = Some (Inr fs)" "all_sectors ?sz bs fs = Some (Inr fat)"
    "chain_bytes ?sz bs fat (u32 bs 0x30) None = Some (Inr directory)"
    "(case dir_entry_at directory 0 of Inl e \<Rightarrow> Some (Inl e)
      | Inr root \<Rightarrow> guarded (de_type root \<noteq> ROOT) No_Root
          (and_then (walk_directory lower directory (de_child root)) (\<lambda>streams.
            Some (Inr \<lparr>cf_bytes = bs, cf_sector_size = ?sz, cf_fat = fat, cf_root = root, cf_streams = streams\<rparr>))))
      = Some (Inr f)"
    using assms unfolding read_compound_file_def Let_def guarded_Inr and_then_Inr by auto
  then obtain root where root: "dir_entry_at directory 0 = Inr root" by (cases "dir_entry_at directory 0") auto
  show ?thesis
    using r(5) unfolding root sum.case guarded_Inr and_then_Inr
    by (elim conjE exE, intro that [of fs directory]) (use r root in auto)
qed

text \<open>C28. Whatever bytes it is given, the reader of a compound file returns or throws.\<close>

theorem compound_file_returns:
  "(\<exists>r. read_compound_file lower bs = Some r) \<and> (\<exists>s. stream_of lower f path = Some s)"
proof
  show "\<exists>r. read_compound_file lower bs = Some r"
    unfolding read_compound_file_def Let_def
    by (intro guarded_ends and_then_ends difat_ends all_sectors_ends chain_bytes_ends)
      (auto split: sum.split intro!: guarded_ends and_then_ends walk_ends)
  show "\<exists>s. stream_of lower f path = Some s"
    unfolding stream_of_def
    by (auto split: option.split intro!: and_then_ends read_mini_ends read_stream_ends)
qed

text \<open>C30. 
  The streams of a compound file are the stream entries its directory leads to, each under the one
  path it has there; there are at most as many as the file has room for directory entries.
\<close>

theorem compound_file_lists:
  assumes "read_compound_file lower bs = Some (Inr f)"
  shows "\<exists>directory. chain_bytes (cf_sector_size f) bs (cf_fat f) (u32 bs 0x30) None = Some (Inr directory)
      \<and> (\<forall>k s. map_of (cf_streams f) k = Some s \<longrightarrow>
           (\<exists>t. listed directory (de_child (cf_root f)) t \<and> stream_at lower directory t k s))
      \<and> (\<forall>t k s. listed directory (de_child (cf_root f)) t \<and> stream_at lower directory t k s \<longrightarrow>
           map_of (cf_streams f) k \<noteq> None)
      \<and> (\<forall>i p d p' d'. listed directory (de_child (cf_root f)) (i, p, d)
           \<and> listed directory (de_child (cf_root f)) (i, p', d') \<longrightarrow> p = p' \<and> d = d')
      \<and> length (paths f) * DIRECTORY_ENTRY_BYTES \<le> length bs"
proof -
  obtain directory where d: "chain_bytes (cf_sector_size f) bs (cf_fat f) (u32 bs 0x30) None = Some (Inr directory)"
    "walk_directory lower directory (de_child (cf_root f)) = Some (Inr (cf_streams f))" "cf_sector_size f = 2 ^ u16 bs 0x1e"
    by (rule read_compound_fileE [OF assms])
  have "length directory \<le> length bs" by (rule chain_bytes_length [OF d(1)]) (simp add: d(3))
  then have "length (paths f) * DIRECTORY_ENTRY_BYTES \<le> length bs"
    using walk_streams(3) [OF d(2)] by (simp add: paths_def)
  moreover have "map_of (cf_streams f) k \<noteq> None"
    if "listed directory (de_child (cf_root f)) t \<and> stream_at lower directory t k s" for t k s
    using walk_streams(2) [OF d(2) conjunct1 [OF that] conjunct2 [OF that]] by (simp add: map_of_eq_None_iff)
  ultimately show ?thesis
    using d(1) walk_streams(1) [OF d(2)] listed_once [OF d(2)] by (intro exI [of _ directory]) blast
qed

text \<open>C31. A stream is as long as its directory entry says, and never longer than the file.\<close>

theorem stream_within_file:
  assumes "read_compound_file lower bs = Some (Inr f)" "stream_of lower f path = Some (Inr (Some data))"
  shows "\<exists>e. map_of (cf_streams f) (lower path) = Some e \<and> length data = se_size e \<and> se_size e \<le> length bs"
proof -
  have f: "cf_bytes f = bs" "0 < cf_sector_size f" by (rule read_compound_fileE [OF assms(1)], simp)+
  obtain e where e: "map_of (cf_streams f) (lower path) = Some e"
    using assms(2) by (auto simp: stream_of_def split: option.splits)
  then show ?thesis
    using assms(2) read_mini_length [OF _ f(2)] read_stream_length [OF _ f(2)] f(1)
    by (auto simp: stream_of_def and_then_Inr split: if_splits)
qed

text \<open>The bytes of a chain whose last sector alone may be cut short.\<close>

lemma gather_padded:
  assumes "\<forall>s \<in> set ss. sector sz bs s = Inr (body s)" "\<forall>s \<in> set (butlast ss). (s + 2) * sz \<le> length bs"
  shows "gather bs ss sz sz = concat (map body ss)"
proof (cases ss rule: rev_cases)
  case Nil
  then show ?thesis by (simp add: gather_def)
next
  case (snoc us s)
  let ?f = "\<lambda>s. slice (sz + s * sz) sz bs"
  have body: "body s = ?f s @ replicate (sz - length (?f s)) 0" if "s \<in> set ss" for s
    using assms(1) that by (auto simp: sector_def Let_def split: if_splits)
  have whole: "length (?f s) = sz" if "s \<in> set us" for s
    using assms(2) that snoc by (auto simp: slice_def algebra_simps)
  then have us: "map body us = map ?f us" using body snoc by simp
  have "length (concat (map ?f us)) = length us * sz" using whole by (induction us) auto
  then show ?thesis using body [of s] by (simp add: us gather_def gather_parts_sectors Let_def snoc)
qed

lemma take_whole_sectors:
  assumes "\<forall>s \<in> set ss. length (body s) = sz" "n \<le> w * sz"
  shows "take n (concat (map body (take w ss))) = take n (concat (map body ss))"
proof (cases "w \<le> length ss")
  case True
  have "length (concat (map body (take w ss))) = w * sz"
    using assms(1) True
  proof (induction ss arbitrary: w)
    case (Cons s ss)
    then show ?case by (cases w) auto
  qed simp
  moreover have "concat (map body ss) = concat (map body (take w ss)) @ concat (map body (drop w ss))"
    by (metis append_take_drop_id concat_append map_append)
  ultimately show ?thesis using assms(2) by simp
qed simp

lemma ceil_div_least: "0 < k \<Longrightarrow> ceil_div n k \<le> m \<longleftrightarrow> n \<le> m * k"
  by (auto simp: ceil_div_def less_Suc_eq_le [symmetric] div_less_iff_less_mult)

text \<open>
  A chain that leads to its end is read as far as the size asks: \<open>units\<close> are the bytes of its
  sectors, and a size past the last of them is refused.
\<close>

lemma fitted_chain:
  assumes "leads nxt first ss END_OF_CHAIN" "\<forall>s \<in> set ss. s < limit" "\<forall>s \<in> set ss. length (body s) = sz" "0 < sz"
    and "\<And>qs. set qs \<subseteq> set ss \<Longrightarrow> set (butlast qs) \<subseteq> set (butlast ss) \<Longrightarrow> gather src qs sz base = concat (map body qs)"
  shows "and_then (chain first nxt limit (Some (ceil_div n sz)))
      (\<lambda>qs. guarded (list_ex (\<lambda>s. limit \<le> s) qs) e (fitted n (gather src qs sz base)))
    = Some (if n \<le> length ss * sz then Inr (take n (concat (map body ss))) else Inl Short_Stream)"
proof -
  let ?w = "ceil_div n sz"
  have "distinct ss" by (rule leads_distinct [OF assms(1)]) (simp add: MAX_REGULAR_SECTOR_def END_OF_CHAIN_def)
  then have "length ss \<le> limit"
    using assms(2) by (metis card_lessThan card_mono distinct_card finite_lessThan lessThan_iff subsetI)
  then have chain: "chain first nxt limit (Some ?w) = Some (Inr (take ?w ss))"
    by (rule chain_of_leads [OF assms(1)])
  have inside: "\<not> list_ex (\<lambda>s. limit \<le> s) (take ?w ss)"
    using assms(2) by (auto simp: list_ex_iff not_le dest: in_set_takeD)
  have "set (butlast (take ?w ss)) \<subseteq> set (butlast ss)"
    by (cases "?w \<le> length ss") (simp_all add: butlast_take butlast_conv_take set_take_subset_set_take)
  then have gather: "gather src (take ?w ss) sz base = concat (map body (take ?w ss))"
    using set_take_subset [of ?w ss] by (intro assms(5))
  have len: "length (concat (map body qs)) = length qs * sz" if "set qs \<subseteq> set ss" for qs
    using that assms(3) by (induction qs) auto
  have "n \<le> ?w * sz" using ceil_div_least [OF assms(4), of n ?w] by simp
  then have same: "take n (concat (map body (take ?w ss))) = take n (concat (map body ss))"
    by (rule take_whole_sectors [OF assms(3)])
  have "length (concat (map body (take ?w ss))) = min ?w (length ss) * sz"
    by (subst len) (simp_all add: set_take_subset min.commute)
  moreover have "?w \<le> length ss \<longleftrightarrow> n \<le> length ss * sz" by (rule ceil_div_least [OF assms(4)])
  ultimately have "n \<le> length (concat (map body (take ?w ss))) \<longleftrightarrow> n \<le> length ss * sz"
    using \<open>n \<le> ?w * sz\<close> by (cases "?w \<le> length ss") (simp_all add: min_def)
  then show ?thesis
    using inside same by (auto simp: chain and_then_def guarded_def fitted_def gather not_le)
qed

lemma read_stream_chain:
  assumes "leads (next_in fat Not_In_Fat) first ss END_OF_CHAIN" "\<forall>s \<in> set ss. sector sz bs s = Inr (body s)"
    "\<forall>s \<in> set (butlast ss). (s + 2) * sz \<le> length bs" "0 < sz"
  shows "read_stream sz bs fat first n
    = Some (if n \<le> length ss * sz then Inr (take n (concat (map body ss))) else Inl Short_Stream)"
proof -
  have size: "\<forall>s \<in> set ss. length (body s) = sz"
  proof
    fix s assume "s \<in> set ss"
    then have "sector sz bs s = Inr (body s)" using assms(2) by blast
    then have "body s = slice ((s + 1) * sz) sz bs @ replicate (sz - length (slice ((s + 1) * sz) sz bs)) 0"
      by (simp add: sector_def Let_def split: if_splits)
    then show "length (body s) = sz" using length_slice [of "(s + 1) * sz" sz bs] by simp
  qed
  have inside: "\<forall>s \<in> set ss. s < sector_count sz bs" using assms(2) by (auto simp: sector_def split: if_splits)
  have "read_stream sz bs fat first n = and_then (chain first (next_in fat Not_In_Fat) (sector_count sz bs) (Some (ceil_div n sz)))
      (\<lambda>qs. guarded (list_ex (\<lambda>s. sector_count sz bs \<le> s) qs) Sector_Past_End (fitted n (gather bs qs sz sz)))"
    by (auto simp: read_stream_def chain_bytes_def and_then_def guarded_def split: option.split sum.split)
  also have "\<dots> = Some (if n \<le> length ss * sz then Inr (take n (concat (map body ss))) else Inl Short_Stream)"
    by (rule fitted_chain [OF assms(1) inside size assms(4)]) (rule gather_padded; use assms(2,3) in blast)
  finally show ?thesis .
qed

lemma read_stream_sectors:
  assumes "leads (next_in fat Not_In_Fat) first ss END_OF_CHAIN" "\<forall>s \<in> set ss. sector sz bs s = Inr (body s)"
    "\<forall>s \<in> set (butlast ss). (s + 2) * sz \<le> length bs" "n \<le> length ss * sz" "0 < sz"
  shows "read_stream sz bs fat first n = Some (Inr (take n (concat (map body ss))))"
  using read_stream_chain [OF assms(1-3,5), of n] assms(4) by simp

text \<open>The sectors of the mini stream are whole: their number is rounded down.\<close>

definition mini_sector :: "bytes \<Rightarrow> nat \<Rightarrow> bytes" where
  "mini_sector stream m = slice (m * MINI_SECTOR_BYTES) MINI_SECTOR_BYTES stream"

lemma mini_sector_length:
  assumes "m < length stream div MINI_SECTOR_BYTES"
  shows "length (mini_sector stream m) = MINI_SECTOR_BYTES"
proof -
  have "(m + 1) * MINI_SECTOR_BYTES \<le> length stream"
    using assms by (metis Suc_eq_plus1 Suc_leI div_times_less_eq_dividend le_trans mult_le_mono1)
  then show ?thesis by (simp add: mini_sector_def slice_def)
qed

lemma gather_minis:
  assumes "\<forall>m \<in> set ms. m < length stream div MINI_SECTOR_BYTES"
  shows "gather stream ms MINI_SECTOR_BYTES 0 = concat (map (mini_sector stream) ms)"
proof -
  have "length (concat (map (mini_sector stream) ms)) = length ms * MINI_SECTOR_BYTES"
    using assms by (induction ms) (auto simp: mini_sector_length)
  then show ?thesis by (simp add: gather_def gather_parts_sectors mini_sector_def [abs_def] Let_def)
qed

lemma read_mini_chain:
  assumes "mini_parts f = Some (Inr (stream, mini_fat))"
    and "leads (next_in mini_fat Not_In_Mini_Fat) first ms END_OF_CHAIN"
    and "\<forall>m \<in> set ms. m < length stream div MINI_SECTOR_BYTES"
  shows "read_mini f first n = Some (if n \<le> length ms * MINI_SECTOR_BYTES
    then Inr (take n (concat (map (mini_sector stream) ms))) else Inl Short_Stream)"
proof -
  have size: "\<forall>m \<in> set ms. length (mini_sector stream m) = MINI_SECTOR_BYTES"
    using assms(3) mini_sector_length by blast
  have "0 < MINI_SECTOR_BYTES" by (simp add: MINI_SECTOR_BYTES_def)
  from fitted_chain [OF assms(2,3) size this, where src = stream and base = 0 and n = n and e = Mini_Past_End]
  show ?thesis using gather_minis assms(3) by (simp add: read_mini_def assms(1) and_then_def subset_iff)
qed

text \<open>C29. 
  What a stream's bytes are. An empty one has none. One no smaller than the header's cutoff is
  read through the FAT: where that leads from its first sector over \<open>ss\<close> to the end of the
  chain, sectors of the file of which only the last may be cut short, the stream is their bytes
  in order, cut to its size, and it is refused as too short where they hold less. A smaller one
  is read the same way out of the mini stream, in mini sectors and through the mini FAT.
\<close>

theorem stream_is_its_sectors:
  assumes "map_of (cf_streams f) (lower path) = Some e" "0 < cf_sector_size f"
  shows "(se_size e = 0 \<longrightarrow> stream_of lower f path = Some (Inr (Some [])))
    \<and> (\<forall>ss body. se_size e \<noteq> 0 \<and> u32 (cf_bytes f) 0x38 \<le> se_size e
        \<and> leads (next_in (cf_fat f) Not_In_Fat) (se_start e) ss END_OF_CHAIN
        \<and> (\<forall>s \<in> set ss. sector (cf_sector_size f) (cf_bytes f) s = Inr (body s))
        \<and> (\<forall>s \<in> set (butlast ss). (s + 2) * cf_sector_size f \<le> length (cf_bytes f))
        \<longrightarrow> stream_of lower f path = Some (if se_size e \<le> length ss * cf_sector_size f
              then Inr (Some (take (se_size e) (concat (map body ss)))) else Inl Short_Stream))
    \<and> (\<forall>ms stream mini_fat. se_size e \<noteq> 0 \<and> se_size e < u32 (cf_bytes f) 0x38
        \<and> mini_parts f = Some (Inr (stream, mini_fat))
        \<and> leads (next_in mini_fat Not_In_Mini_Fat) (se_start e) ms END_OF_CHAIN
        \<and> (\<forall>m \<in> set ms. m < length stream div MINI_SECTOR_BYTES)
        \<longrightarrow> stream_of lower f path = Some (if se_size e \<le> length ms * MINI_SECTOR_BYTES
              then Inr (Some (take (se_size e) (concat (map (\<lambda>m. slice (m * MINI_SECTOR_BYTES) MINI_SECTOR_BYTES stream) ms))))
              else Inl Short_Stream))"
proof (intro conjI allI impI)
  show "stream_of lower f path = Some (Inr (Some []))" if "se_size e = 0"
    using assms(1) that by (simp add: stream_of_def)
next
  fix ss body
  assume h: "se_size e \<noteq> 0 \<and> u32 (cf_bytes f) 0x38 \<le> se_size e
      \<and> leads (next_in (cf_fat f) Not_In_Fat) (se_start e) ss END_OF_CHAIN
      \<and> (\<forall>s \<in> set ss. sector (cf_sector_size f) (cf_bytes f) s = Inr (body s))
      \<and> (\<forall>s \<in> set (butlast ss). (s + 2) * cf_sector_size f \<le> length (cf_bytes f))"
  then show "stream_of lower f path = Some (if se_size e \<le> length ss * cf_sector_size f
      then Inr (Some (take (se_size e) (concat (map body ss)))) else Inl Short_Stream)"
    using assms read_stream_chain [of "cf_fat f" "se_start e" ss "cf_sector_size f" "cf_bytes f" body "se_size e"]
    by (simp add: stream_of_def and_then_def)
next
  fix ms stream mini_fat
  assume h: "se_size e \<noteq> 0 \<and> se_size e < u32 (cf_bytes f) 0x38 \<and> mini_parts f = Some (Inr (stream, mini_fat))
      \<and> leads (next_in mini_fat Not_In_Mini_Fat) (se_start e) ms END_OF_CHAIN
      \<and> (\<forall>m \<in> set ms. m < length stream div MINI_SECTOR_BYTES)"
  then have "read_mini f (se_start e) (se_size e) = Some (if se_size e \<le> length ms * MINI_SECTOR_BYTES
      then Inr (take (se_size e) (concat (map (mini_sector stream) ms))) else Inl Short_Stream)"
    by (elim conjE) (rule read_mini_chain)
  then show "stream_of lower f path = Some (if se_size e \<le> length ms * MINI_SECTOR_BYTES
      then Inr (Some (take (se_size e) (concat (map (\<lambda>m. slice (m * MINI_SECTOR_BYTES) MINI_SECTOR_BYTES stream) ms))))
      else Inl Short_Stream)"
    using assms h by (simp add: stream_of_def and_then_def mini_sector_def [abs_def])
qed

subsection \<open>A file\<close>

definition sample_header :: bytes where
  "sample_header =
    COMPOUND_FILE_SIGNATURE @ replicate 22 0 @ [9, 0, 6, 0] @ replicate 10 0 @ [1, 0, 0, 0, 1, 0, 0, 0] @ replicate 8 0
    @ [0xFE, 0xFF, 0xFF, 0xFF, 0, 0, 0, 0, 0xFE, 0xFF, 0xFF, 0xFF, 0, 0, 0, 0, 0, 0, 0, 0] @ replicate 432 0xFF"

definition sample_fat :: bytes where
  "sample_fat =
    [0xFD, 0xFF, 0xFF, 0xFF, 0xFE, 0xFF, 0xFF, 0xFF, 3, 0, 0, 0, 0xFE, 0xFF, 0xFF, 0xFF] @ replicate 496 0xFF"

definition sample_directory :: bytes where
  "sample_directory =
    ([82, 0] @ replicate 62 0 @ [4, 0, 5, 1] @ replicate 8 0xFF @ [1, 0, 0, 0] @ replicate 48 0)
    @ ([65, 0] @ replicate 62 0 @ [4, 0, 2, 1] @ replicate 12 0xFF @ replicate 36 0 @ [2, 0, 0, 0, 88, 2, 0, 0, 0, 0, 0, 0])
    @ replicate 256 0"

definition sample_bytes :: bytes where
  "sample_bytes = sample_header @ sample_fat @ sample_directory @ replicate 512 7 @ replicate 100 8"

lemma sample_lengths: "length sample_header = 512" "length sample_fat = 512" "length sample_directory = 512"
  "length sample_bytes = 2148"
  by (simp_all add: sample_header_def sample_fat_def sample_directory_def sample_bytes_def COMPOUND_FILE_SIGNATURE_def)

lemma slice_replicate: "slice a n (replicate m x) = replicate (min n (m - a)) x" 
  by (simp add: slice_def take_replicate min.commute)

lemma slice_left: "a + n \<le> length xs \<Longrightarrow> slice a n (xs @ ys) = slice a n xs"
  by (simp add: slice_def)

lemma slice_right: "length xs \<le> a \<Longrightarrow> slice a n (xs @ ys) = slice (a - length xs) n ys"
  by (simp add: slice_def)

lemma u_left: "a + 4 \<le> length xs \<Longrightarrow> u32 (xs @ ys) a = u32 xs a" "a + 2 \<le> length xs \<Longrightarrow> u16 (xs @ ys) a = u16 xs a"
  by (simp_all add: u32_def u16_def slice_left)

lemma replicate_four: "replicate 4 x = [x, x, x, x]"
  by (simp add: numeral_eq_Suc)

lemma replicate_eight: "replicate 8 x = [x, x, x, x, x, x, x, x]"
  by (simp add: numeral_eq_Suc)

lemma while_once: "b s \<Longrightarrow> c s = t \<Longrightarrow> while_option b c s = while_option b c t"
  by (subst while_option_unfold) simp

lemma while_stop: "\<not> b s \<Longrightarrow> while_option b c s = Some s"
  by (subst while_option_unfold) simp

lemma sample_head:
  "slice 0 8 sample_header = COMPOUND_FILE_SIGNATURE" "u16 sample_header 0x1e = 9" "u16 sample_header 0x20 = 6"
  "u32 sample_header 0x2c = 1" "u32 sample_header 0x30 = 1" "u32 sample_header 0x38 = 0" "u32 sample_header 0x44 = 0xFFFFFFFE"
  "u32 sample_header 0x4c = 0"
  by (simp_all add: u16_def u32_def slice_def sample_header_def COMPOUND_FILE_SIGNATURE_def replicate_four)

lemma sample_count: "sector_count 512 sample_bytes = 4"
  by (simp add: sector_count_def ceil_div_def sample_lengths)

lemma sample_sectors:
  "sector 512 sample_bytes 0 = Inr sample_fat" "sector 512 sample_bytes 1 = Inr sample_directory"
  "sector 512 sample_bytes 2 = Inr (replicate 512 7)" 
  "sector 512 sample_bytes 3 = Inr (replicate 100 8 @ replicate 412 0)"
  unfolding sector_def sample_count
  by (simp_all add: sample_bytes_def slice_def sample_lengths Let_def take_replicate)

lemma add_fat_full: "length fs = k \<Longrightarrow> add_fat k n fs = fs"
  by (simp add: add_fat_def)

lemma fold_add_fat_full: "length fs = k \<Longrightarrow> fold (\<lambda>i. add_fat k (g i)) is fs = fs"
  by (induction "is") (simp_all add: add_fat_full)

lemma sample_head':
  "slice 0 8 sample_bytes = COMPOUND_FILE_SIGNATURE" "u16 sample_bytes 0x1e = 9" "u16 sample_bytes 0x20 = 6"
  "u32 sample_bytes 0x2c = 1" "u32 sample_bytes 0x30 = 1" "u32 sample_bytes 0x38 = 0" "u32 sample_bytes 0x44 = 0xFFFFFFFE"
  "u32 sample_bytes 0x4c = 0"
  by (simp_all add: sample_bytes_def u_left slice_left sample_lengths sample_head)

lemma sample_fat_sectors: "fat_sectors 512 sample_bytes 1 = Some (Inr [0])"
proof -
  have upt: "[0..<HEADER_DIFAT_ENTRIES] = 0 # [1..<109]" by (simp add: HEADER_DIFAT_ENTRIES_def upt_conv_Cons)
  have "fold (\<lambda>i. add_fat 1 (u32 sample_bytes (0x4c + i * 4))) [0..<HEADER_DIFAT_ENTRIES] [] =
      fold (\<lambda>i. add_fat 1 (u32 sample_bytes (0x4c + i * 4))) [1..<109] [0]"
    unfolding upt by (simp add: sample_head' add_fat_def [of _ _ "[]"] MAX_REGULAR_SECTOR_def del: upt_Suc upt_rec_numeral)
  also have "\<dots> = [0]" by (rule fold_add_fat_full) simp
  finally show ?thesis
    unfolding fat_sectors_def by (subst while_stop) (simp_all add: difat_going_def)
qed

lemma sample_next: "next_in sample_fat Not_In_Fat 1 = Inr END_OF_CHAIN" "next_in sample_fat Not_In_Fat 2 = Inr 3"
  "next_in sample_fat Not_In_Fat 3 = Inr END_OF_CHAIN"
  unfolding next_in_def sample_lengths
  by (simp_all add: sample_fat_def u32_def slice_def END_OF_CHAIN_def)

lemma sample_directory_bytes: "chain_bytes 512 sample_bytes sample_fat 1 None = Some (Inr sample_directory)"
proof -
  let ?step = "chain_step (next_in sample_fat Not_In_Fat) 4"
  have "while_option (chain_going None) ?step (None, 1, []) = while_option (chain_going None) ?step (None, END_OF_CHAIN, [1])"
    by (rule while_once) (simp_all add: chain_going_def chain_step_def sample_next [simplified] END_OF_CHAIN_def MAX_REGULAR_SECTOR_def)
  also have "\<dots> = Some (None, END_OF_CHAIN, [1])"
    by (rule while_stop) (simp add: chain_going_def)
  finally have "chain 1 (next_in sample_fat Not_In_Fat) 4 None = Some (Inr [1])" by (simp add: chain_def)
  moreover have "gather sample_bytes [1] 512 512 = sample_directory"
    using gather_padded [of "[1]" 512 sample_bytes "\<lambda>_. sample_directory"] by (simp add: sample_sectors [simplified])
  ultimately show ?thesis by (simp add: chain_bytes_def sample_count and_then_def guarded_def)
qed

definition sample_root :: dir_entry where
  "sample_root = \<lparr>de_name = [82], de_type = 5, de_left = NO_STREAM, de_right = NO_STREAM, de_child = 1,
     de_start = 0, de_size = 0\<rparr>"

definition sample_entry :: dir_entry where
  "sample_entry = \<lparr>de_name = [65], de_type = 2, de_left = NO_STREAM, de_right = NO_STREAM, de_child = NO_STREAM,
     de_start = 2, de_size = 600\<rparr>"

lemma sample_entries: "dir_entry_at sample_directory 0 = Inr sample_root" "dir_entry_at sample_directory 1 = Inr sample_entry"
  unfolding dir_entry_at_def sample_lengths
  by (simp_all add: sample_directory_def u32_def u16_def slice_def DIRECTORY_ENTRY_BYTES_def sample_root_def
      sample_entry_def NO_STREAM_def replicate_four replicate_eight nth_append Let_def)

definition sample_streams :: "(ustring \<times> stream_entry) list" where
  "sample_streams = [([65], \<lparr>se_path = [65], se_start = 2, se_size = 600\<rparr>)]"

lemma sample_walk: "walk_directory id sample_directory 1 = Some (Inr sample_streams)"
proof -
  let ?step = "walk_step id sample_directory"
  have "while_option walk_going ?step (None, [(1, [], 0)], [], []) = while_option walk_going ?step (None, [], [1], sample_streams)"
    by (rule while_once) (simp_all add: walk_going_def walk_step_def sample_entries [simplified] sample_entry_def
      NO_STREAM_def STREAM_def STORAGE_def push_entry_def Let_def sample_streams_def)
  also have "\<dots> = Some (None, [], [1], sample_streams)" by (rule while_stop) (simp add: walk_going_def)
  finally show ?thesis by (simp add: walk_directory_def NO_STREAM_def)
qed

definition sample_file :: compound_file where
  "sample_file = \<lparr>cf_bytes = sample_bytes, cf_sector_size = 512, cf_fat = sample_fat, cf_root = sample_root,
     cf_streams = sample_streams\<rparr>"

lemma sample_read: "read_compound_file id sample_bytes = Some (Inr sample_file)"
proof -
  have "length COMPOUND_FILE_SIGNATURE = 8" by (simp add: COMPOUND_FILE_SIGNATURE_def)
  moreover have "de_type sample_root = ROOT" "de_child sample_root = 1" by (simp_all add: sample_root_def ROOT_def)
  moreover have "all_sectors 512 sample_bytes [0] = Some (Inr sample_fat)" by (simp add: sample_sectors and_then_def)
  moreover have "(2 :: nat) ^ 9 = 512" by simp
  ultimately show ?thesis
    unfolding read_compound_file_def sample_head' Let_def
    by (simp add: guarded_def and_then_def sample_lengths HEADER_BYTES_def sample_head'
      sample_count sample_fat_sectors [simplified] sample_directory_bytes [simplified]
      sample_entries sample_walk [simplified] sample_file_def)
qed

definition sample_body :: "nat \<Rightarrow> bytes" where
  "sample_body s = (if s = 2 then replicate 512 7 else replicate 100 8 @ replicate 412 0)"

lemma sample_stream_leads: "leads (next_in sample_fat Not_In_Fat) 2 [2, 3] END_OF_CHAIN"
  by (simp add: sample_next MAX_REGULAR_SECTOR_def)

lemma sample_stream_sectors:
  "\<forall>s \<in> set [2, 3]. sector 512 sample_bytes s = Inr (sample_body s)"
  "\<forall>s \<in> set (butlast [2, 3]). (s + 2) * 512 \<le> length sample_bytes"
  by (simp_all add: sample_sectors sample_body_def sample_lengths)

lemma sample_stream: "stream_of id sample_file [65] = Some (Inr (Some (replicate 512 7 @ replicate 88 8)))"
  using read_stream_sectors [OF sample_stream_leads sample_stream_sectors, of 600]
  by (simp add: stream_of_def sample_file_def sample_streams_def sample_head' and_then_def sample_body_def take_replicate)

theorem compound_file_lists_witness:
  "length (paths sample_file) * DIRECTORY_ENTRY_BYTES \<le> length sample_bytes
    \<and> (\<exists>directory t. chain_bytes 512 sample_bytes sample_fat 1 None = Some (Inr directory) \<and> listed directory 1 t
        \<and> stream_at id directory t [65] \<lparr>se_path = [65], se_start = 2, se_size = 600\<rparr>)"
proof -
  have "cf_sector_size sample_file = 512" "cf_fat sample_file = sample_fat" "de_child (cf_root sample_file) = 1"
    "map_of (cf_streams sample_file) [65] = Some \<lparr>se_path = [65], se_start = 2, se_size = 600\<rparr>"
    by (simp_all add: sample_file_def sample_root_def sample_streams_def)
  then show ?thesis
    using compound_file_lists [OF sample_read] unfolding sample_head'(5) by metis
qed

theorem stream_within_file_witness: "\<exists>e. map_of (cf_streams sample_file) [65] = Some e \<and> 600 = se_size e \<and> se_size e \<le> 2148"
  using stream_within_file [OF sample_read sample_stream] by (simp add: sample_lengths)

theorem stream_is_its_sectors_witness:
  "stream_of id sample_file [65] = Some (Inr (Some (take 600 (concat (map sample_body [2, 3])))))"
proof -
  have f: "map_of (cf_streams sample_file) (id [65]) = Some \<lparr>se_path = [65], se_start = 2, se_size = 600\<rparr>"
    "0 < cf_sector_size sample_file" by (simp_all add: sample_file_def sample_streams_def)
  show ?thesis
    using stream_is_its_sectors [where lower = id and path = "[65]", OF f, THEN conjunct2, THEN conjunct1, rule_format, of "[2, 3]" sample_body]
      sample_stream_leads sample_stream_sectors
    by (simp add: sample_file_def sample_head')
qed

end
