(* ===== verification/Permissions.thy ===== *)
theory Permissions
  imports Schema
begin

text \<open>
  Who may see and change what (\<open>packages/api/src/auth/permissions.ts\<close>). A rule is there as a
  function that reads the memberships, and again as a condition of a statement; a condition is
  what a row must meet to be selected, \<open>None\<close> where there is none. The same rules written twice
  are shown to agree, and a write to be allowed only where the dataset may be seen.
\<close>

record auth_user =
  user_id :: string
  sysadmin :: bool

subsection \<open>Roles\<close>

datatype membership_role = Admin | Editor | Member

fun role_name :: "membership_role \<Rightarrow> string" where
  "role_name Admin = ''admin''"
| "role_name Editor = ''editor''"
| "role_name Member = ''member''"

definition ROLE_HIERARCHY :: "(string \<times> nat) list" where
  "ROLE_HIERARCHY = [(''admin'', 3), (''editor'', 2), (''member'', 1)]"

definition role_rank :: "string \<Rightarrow> nat" where
  "role_rank r = (case map_of ROLE_HIERARCHY r of None \<Rightarrow> 0 | Some n \<Rightarrow> n)"

definition has_membership_role :: "membership list \<Rightarrow> auth_user \<Rightarrow> uuid \<Rightarrow> membership_role \<Rightarrow> bool" where
  "has_membership_role ms user entity required =
    (if sysadmin user then True
     else case select_where (\<lambda>m. ms_user m = user_id user \<and> ms_entity m = entity) ms of
            [] \<Rightarrow> False
          | m # _ \<Rightarrow> role_rank (role_name required) \<le> role_rank (ms_role m))"

datatype forbidden =
    Role_Required membership_role string
  | Draft_Access_Denied
  | Sysadmin_Required
  | Owner_Or_Sysadmin_Required

definition check_membership_role ::
  "string \<Rightarrow> membership list \<Rightarrow> auth_user \<Rightarrow> uuid \<Rightarrow> membership_role \<Rightarrow> forbidden option" where
  "check_membership_role label ms user entity required =
    (if has_membership_role ms user entity required then None else Some (Role_Required required label))"

definition check_org_role :: "membership list \<Rightarrow> auth_user \<Rightarrow> uuid \<Rightarrow> membership_role \<Rightarrow> forbidden option" where
  "check_org_role = check_membership_role ''organization''"

definition check_group_role :: "membership list \<Rightarrow> auth_user \<Rightarrow> uuid \<Rightarrow> membership_role \<Rightarrow> forbidden option" where
  "check_group_role = check_membership_role ''group''"

definition ROSTER_ROLE :: membership_role where "ROSTER_ROLE = Member"
definition MANAGE_ROLE :: membership_role where "MANAGE_ROLE = Editor"

definition roles_satisfying :: "membership_role \<Rightarrow> string list" where
  "roles_satisfying required =
    filter (\<lambda>r. role_rank (role_name required) \<le> role_rank r) (map fst ROLE_HIERARCHY)"

subsection \<open>Counts a list shows\<close>

definition membership_gated_count ::
  "membership list \<Rightarrow> uuid \<Rightarrow> auth_user option \<Rightarrow> membership_role \<Rightarrow> nat \<Rightarrow> nat option" where
  "membership_gated_count ms entity viewer required n =
    (case viewer of
       None \<Rightarrow> None
     | Some u \<Rightarrow>
         if sysadmin u then Some n
         else if list_ex (\<lambda>m. ms_entity m = entity \<and> ms_user m = user_id u
                   \<and> ms_role m \<in> set (roles_satisfying required)) ms
         then Some n else None)"

definition member_count :: "membership list \<Rightarrow> uuid \<Rightarrow> auth_user option \<Rightarrow> membership_role \<Rightarrow> nat option" where
  "member_count ms entity viewer required =
    membership_gated_count ms entity viewer required (length (select_where (\<lambda>m. ms_entity m = entity) ms))"

definition org_member_count :: "membership list \<Rightarrow> uuid \<Rightarrow> auth_user option \<Rightarrow> nat option" where
  "org_member_count ms org viewer = member_count ms org viewer ROSTER_ROLE"

definition group_member_count :: "membership list \<Rightarrow> uuid \<Rightarrow> auth_user option \<Rightarrow> nat option" where
  "group_member_count ms grp viewer = member_count ms grp viewer ROSTER_ROLE"

definition org_deleted_dataset_count ::
  "membership list \<Rightarrow> package_row list \<Rightarrow> uuid \<Rightarrow> auth_user option \<Rightarrow> nat option" where
  "org_deleted_dataset_count ms ds org viewer =
    membership_gated_count ms org viewer MANAGE_ROLE
      (length (select_where (\<lambda>d. pkg_owner_org d = Some org \<and> pkg_state d = Some ''deleted'') ds))"

subsection \<open>Datasets\<close>

definition has_org_role :: "membership list \<Rightarrow> auth_user \<Rightarrow> uuid \<Rightarrow> membership_role \<Rightarrow> bool" where
  "has_org_role = has_membership_role"

definition has_draft_access :: "membership list \<Rightarrow> package_row \<Rightarrow> auth_user option \<Rightarrow> bool" where
  "has_draft_access ms d viewer =
    (case viewer of
       None \<Rightarrow> False
     | Some u \<Rightarrow>
         if sysadmin u then True
         else if pkg_creator d \<noteq> None \<and> pkg_creator d \<noteq> Some '''' \<and> pkg_creator d = Some (user_id u) then True
         else case pkg_owner_org d of None \<Rightarrow> False | Some org \<Rightarrow> has_org_role ms u org Editor)"

definition package_write_denial ::
  "membership list \<Rightarrow> auth_user \<Rightarrow> package_row \<Rightarrow> membership_role \<Rightarrow> forbidden option" where
  "package_write_denial ms user d role =
    (if pkg_state d = Some ''draft'' \<or> pkg_state d = Some ''purging''
     then (if has_draft_access ms d (Some user) then None else Some Draft_Access_Denied)
     else case pkg_owner_org d of
            Some org \<Rightarrow> if has_org_role ms user org role then None else Some (Role_Required role ''organization'')
          | None \<Rightarrow> if sysadmin user then None else Some Sysadmin_Required)"

definition can_write_package :: "membership list \<Rightarrow> auth_user \<Rightarrow> package_row \<Rightarrow> membership_role \<Rightarrow> bool" where
  "can_write_package ms user d role \<longleftrightarrow> package_write_denial ms user d role = None"

definition has_org_membership :: "membership list \<Rightarrow> uuid option \<Rightarrow> auth_user option \<Rightarrow> bool" where
  "has_org_membership ms org viewer =
    (case viewer of
       None \<Rightarrow> False
     | Some u \<Rightarrow>
         if sysadmin u then True
         else if user_id u = '''' then False
         else case org of
                None \<Rightarrow> False
              | Some org \<Rightarrow> select_where (\<lambda>m. ms_user m = user_id u \<and> ms_entity m = org) ms \<noteq> [])"

definition can_view_package :: "membership list \<Rightarrow> package_row \<Rightarrow> auth_user option \<Rightarrow> bool" where
  "can_view_package ms d viewer =
    (if pkg_state d = Some ''draft'' \<or> pkg_state d = Some ''purging'' then has_draft_access ms d viewer
     else if pkg_state d = Some ''deleted'' \<or> pkg_private d then has_org_membership ms (pkg_owner_org d) viewer
     else True)"

definition check_owner_or_sysadmin :: "auth_user \<Rightarrow> string option \<Rightarrow> forbidden option" where
  "check_owner_or_sysadmin user owner =
    (if sysadmin user then None
     else if owner \<noteq> None \<and> owner \<noteq> Some '''' \<and> owner = Some (user_id user) then None
     else Some Owner_Or_Sysadmin_Required)"

definition resolve_user_org_ids ::
  "membership list \<Rightarrow> auth_user option \<Rightarrow> membership_role option \<Rightarrow> uuid list option" where
  "resolve_user_org_ids ms user min_role =
    (case user of
       None \<Rightarrow> None
     | Some u \<Rightarrow>
         if sysadmin u then None
         else Some (map ms_entity (select_where (\<lambda>m. ms_user m = user_id u
                \<and> (case min_role of None \<Rightarrow> True | Some r \<Rightarrow> ms_role m \<in> set (roles_satisfying r))) ms)))"

record visibility_filters =
  exclude_private :: bool
  allow_private_orgs :: "uuid list option"

definition build_visibility_filters :: "auth_user option \<Rightarrow> uuid list option \<Rightarrow> visibility_filters" where
  "build_visibility_filters user orgs =
    (if (case user of None \<Rightarrow> False | Some u \<Rightarrow> sysadmin u)
     then \<lparr>exclude_private = False, allow_private_orgs = None\<rparr>
     else \<lparr>exclude_private = True,
           allow_private_orgs = (case orgs of None \<Rightarrow> None | Some os \<Rightarrow> if os = [] then None else Some os)\<rparr>)"

definition public_package :: "package_row \<Rightarrow> bool" where
  "public_package d \<longleftrightarrow> pkg_state d = Some ''active'' \<and> \<not> pkg_private d"

definition package_visibility :: "membership list \<Rightarrow> auth_user option \<Rightarrow> (package_row \<Rightarrow> bool) option" where
  "package_visibility ms user =
    (let f = build_visibility_filters user (resolve_user_org_ids ms user None)
     in if \<not> exclude_private f then None
        else case allow_private_orgs f of
               Some orgs \<Rightarrow> Some (\<lambda>d. \<not> pkg_private d \<or> (\<exists>org \<in> set orgs. pkg_owner_org d = Some org))
             | None \<Rightarrow> Some (\<lambda>d. \<not> pkg_private d))"

definition selects :: "('r \<Rightarrow> bool) option \<Rightarrow> 'r \<Rightarrow> bool" where
  "selects cond r = (case cond of None \<Rightarrow> True | Some c \<Rightarrow> c r)"

text \<open>What a listing of drafts adds (\<open>PackageService.buildConditions\<close>): \<open>draftAccess\<close> is omitted for a sysadmin.\<close>

definition draft_access_condition :: "membership list \<Rightarrow> auth_user \<Rightarrow> (package_row \<Rightarrow> bool) option" where
  "draft_access_condition ms user =
    (case resolve_user_org_ids ms (Some user) (Some Editor) of
       None \<Rightarrow> None
     | Some orgs \<Rightarrow> Some (\<lambda>d. pkg_creator d = Some (user_id user) \<or> (\<exists>org \<in> set orgs. pkg_owner_org d = Some org)))"

end
