(* ===== verification/Permission_Guarantees.thy ===== *)
theory Permission_Guarantees
  imports Permissions Samples
begin

text \<open>
  The rules of \<open>permissions.ts\<close> that are written twice agree, and whoever may write a dataset may
  view it. Both rest on the unique constraint of the membership tables and on a user's id not
  being empty, which the code tests for in one place and not in the others.
\<close>

text \<open>The unique constraint of a membership table (\<open>uq_user_org\<close>, \<open>uq_user_group\<close>).\<close>

definition one_membership_each :: "membership list \<Rightarrow> bool" where
  "one_membership_each ms \<longleftrightarrow> distinct (map (\<lambda>m. (ms_user m, ms_entity m)) ms)"

lemma the_membership:
  "one_membership_each ms \<Longrightarrow> m \<in> set ms \<Longrightarrow> m' \<in> set ms \<Longrightarrow> ms_user m = ms_user m'
    \<Longrightarrow> ms_entity m = ms_entity m' \<Longrightarrow> m = m'"
  unfolding one_membership_each_def distinct_map by (auto dest: inj_onD)

lemma role_rank_simps [simp]:
  "role_rank ''admin'' = 3" "role_rank ''editor'' = 2" "role_rank ''member'' = 1"
  by (simp_all add: role_rank_def ROLE_HIERARCHY_def)

lemma role_rank_pos: "0 < role_rank (role_name r)"
  by (cases r) simp_all

lemma role_rank_known: "0 < role_rank s \<longleftrightarrow> s \<in> {''admin'', ''editor'', ''member''}"
  by (auto simp: role_rank_def ROLE_HIERARCHY_def split: if_splits)

lemma roles_satisfying_iff: "s \<in> set (roles_satisfying r) \<longleftrightarrow> role_rank (role_name r) \<le> role_rank s"
proof -
  have "role_rank (role_name r) \<le> role_rank s \<Longrightarrow> s \<in> {''admin'', ''editor'', ''member''}"
    using role_rank_pos [of r] role_rank_known [of s] by linarith
  then show ?thesis by (auto simp: roles_satisfying_def ROLE_HIERARCHY_def)
qed

lemma has_membership_role_iff:
  assumes "one_membership_each ms"
  shows "has_membership_role ms u org r \<longleftrightarrow>
    sysadmin u \<or> (\<exists>m \<in> set ms. ms_user m = user_id u \<and> ms_entity m = org \<and> ms_role m \<in> set (roles_satisfying r))"
proof (cases "sysadmin u")
  case False
  show ?thesis
  proof (cases "select_where (\<lambda>m. ms_user m = user_id u \<and> ms_entity m = org) ms")
    case Nil
    then show ?thesis using False by (auto simp: has_membership_role_def select_where_def filter_empty_conv)
  next
    case (Cons m rest)
    then have "m \<in> {m \<in> set ms. ms_user m = user_id u \<and> ms_entity m = org}"
      by (metis list.set_intros(1) set_select_where)
    then have m: "m \<in> set ms" "ms_user m = user_id u" "ms_entity m = org" by auto
    have one: "x = m" if "x \<in> set ms" "ms_user x = user_id u" "ms_entity x = org" for x
      by (rule the_membership [OF assms]) (simp_all add: that m)
    have "has_membership_role ms u org r \<longleftrightarrow> ms_role m \<in> set (roles_satisfying r)"
      using False Cons by (simp add: has_membership_role_def roles_satisfying_iff)
    then show ?thesis using False m one by metis
  qed
qed (simp add: has_membership_role_def)

lemma has_org_membership_iff:
  "has_org_membership ms org (Some u) \<longleftrightarrow> sysadmin u
    \<or> (user_id u \<noteq> '''' \<and> (\<exists>m \<in> set ms. ms_user m = user_id u \<and> Some (ms_entity m) = org))"
  by (auto simp: has_org_membership_def select_where_def filter_empty_conv split: option.split)

lemma org_role_membership:
  "one_membership_each ms \<Longrightarrow> user_id u \<noteq> '''' \<Longrightarrow> has_org_role ms u org r \<Longrightarrow> has_org_membership ms (Some org) (Some u)"
  by (auto simp: has_org_role_def has_membership_role_iff has_org_membership_iff)

lemma resolve_user_org_ids_iff:
  "resolve_user_org_ids ms (Some u) r = Some orgs \<Longrightarrow> org \<in> set orgs \<longleftrightarrow>
    (\<exists>m \<in> set ms. ms_user m = user_id u \<and> ms_entity m = org
      \<and> (case r of None \<Rightarrow> True | Some r \<Rightarrow> ms_role m \<in> set (roles_satisfying r)))"
  by (auto simp: resolve_user_org_ids_def set_select_where split: if_splits)

lemma resolve_user_org_ids_None: "resolve_user_org_ids ms (Some u) r = None \<longleftrightarrow> sysadmin u"
  by (simp add: resolve_user_org_ids_def)

lemma package_visibility_iff:
  "selects (package_visibility ms viewer) d \<longleftrightarrow> \<not> pkg_private d
    \<or> (\<exists>u. viewer = Some u \<and> (sysadmin u \<or> (\<exists>m \<in> set ms. ms_user m = user_id u \<and> pkg_owner_org d = Some (ms_entity m))))"
proof (cases viewer)
  case None
  then show ?thesis by (simp add: package_visibility_def build_visibility_filters_def resolve_user_org_ids_def selects_def)
next
  case (Some u)
  show ?thesis
  proof (cases "sysadmin u")
    case True
    then show ?thesis using Some
      by (simp add: package_visibility_def build_visibility_filters_def selects_def)
  next
    case False
    then obtain orgs where o: "resolve_user_org_ids ms (Some u) None = Some orgs"
      using resolve_user_org_ids_None by (cases "resolve_user_org_ids ms (Some u) None") auto
    have "selects (package_visibility ms viewer) d \<longleftrightarrow> \<not> pkg_private d \<or> (\<exists>org \<in> set orgs. pkg_owner_org d = Some org)"
      using Some False o by (auto simp: package_visibility_def build_visibility_filters_def selects_def Let_def)
    then show ?thesis using Some False resolve_user_org_ids_iff [OF o] by auto
  qed
qed

text \<open>C6. 
  The rules are written as functions and again as conditions of statements, and they agree: on a
  published dataset who may view it, for a draft who sees it listed, and for the counts of a list
  who holds the role that gates them.
\<close>

theorem permissions_agree:
  assumes "one_membership_each ms" "\<forall>u. viewer = Some u \<longrightarrow> user_id u \<noteq> ''''"
  shows "(pkg_state d = Some ''active'' \<longrightarrow> selects (package_visibility ms viewer) d = can_view_package ms d viewer)
    \<and> (public_package d \<longleftrightarrow> pkg_state d = Some ''active'' \<and> can_view_package ms d None)
    \<and> (\<forall>u. viewer = Some u \<and> pkg_state d \<in> {Some ''draft'', Some ''purging''} \<longrightarrow>
         selects (draft_access_condition ms u) d = can_view_package ms d viewer)
    \<and> (\<forall>org r n. membership_gated_count ms org viewer r n =
         (if \<exists>u. viewer = Some u \<and> has_membership_role ms u org r then Some n else None))"
proof (intro conjI)
  show "pkg_state d = Some ''active'' \<longrightarrow> selects (package_visibility ms viewer) d = can_view_package ms d viewer"
    using assms(2) by (cases viewer) (auto simp: package_visibility_iff can_view_package_def has_org_membership_iff has_org_membership_def [of _ _ None])
  show "public_package d \<longleftrightarrow> pkg_state d = Some ''active'' \<and> can_view_package ms d None"
    by (auto simp: public_package_def can_view_package_def has_org_membership_def)
  show "\<forall>u. viewer = Some u \<and> pkg_state d \<in> {Some ''draft'', Some ''purging''} \<longrightarrow>
      selects (draft_access_condition ms u) d = can_view_package ms d viewer"
  proof (intro allI impI)
    fix u assume u: "viewer = Some u \<and> pkg_state d \<in> {Some ''draft'', Some ''purging''}"
    then have view: "can_view_package ms d viewer = has_draft_access ms d (Some u)" by (auto simp: can_view_package_def)
    show "selects (draft_access_condition ms u) d = can_view_package ms d viewer"
    proof (cases "resolve_user_org_ids ms (Some u) (Some Editor)")
      case None
      moreover from this have "sysadmin u" by (simp add: resolve_user_org_ids_None)
      ultimately show ?thesis unfolding view
        by (simp add: draft_access_condition_def selects_def has_draft_access_def)
    next
      case (Some orgs)
      then have "\<not> sysadmin u" using resolve_user_org_ids_None by (metis option.discI)
      then show ?thesis unfolding view using Some assms u resolve_user_org_ids_iff [OF Some]
        by (cases "pkg_owner_org d")
          (auto simp: draft_access_condition_def selects_def has_draft_access_def has_org_role_def has_membership_role_iff)
    qed
  qed
  show "\<forall>org r n. membership_gated_count ms org viewer r n =
      (if \<exists>u. viewer = Some u \<and> has_membership_role ms u org r then Some n else None)"
    using has_membership_role_iff [OF assms(1)]
    by (cases viewer) (auto simp: membership_gated_count_def list_ex_iff)
qed

text \<open>C5. 
  Whoever may write a dataset may view it, and nobody else is let near one that is not
  published: not anonymous callers, and not users without a membership in its organization, the
  creator of a draft apart.
\<close>

theorem writers_may_view:
  assumes "one_membership_each ms" "user_id u \<noteq> ''''"
  shows "(can_write_package ms u d role \<longrightarrow> can_view_package ms d (Some u))
    \<and> (pkg_state d \<in> {Some ''draft'', Some ''purging'', Some ''deleted''} \<or> pkg_private d \<longrightarrow>
         \<not> can_view_package ms d None
         \<and> (can_view_package ms d (Some u) \<longrightarrow> sysadmin u \<or> has_org_membership ms (pkg_owner_org d) (Some u)
              \<or> pkg_state d \<in> {Some ''draft'', Some ''purging''} \<and> pkg_creator d = Some (user_id u)))"
proof -
  have "can_write_package ms u d role \<Longrightarrow> can_view_package ms d (Some u)"
    using org_role_membership [OF assms]
    by (auto simp: can_write_package_def package_write_denial_def can_view_package_def has_org_membership_def
        split: option.splits if_splits)
  moreover have "has_draft_access ms d (Some u) \<Longrightarrow> sysadmin u \<or> has_org_membership ms (pkg_owner_org d) (Some u)
      \<or> pkg_creator d = Some (user_id u)"
    using org_role_membership [OF assms] by (auto simp: has_draft_access_def split: option.splits if_splits)
  ultimately show ?thesis
    by (auto simp: can_view_package_def has_org_membership_def [of _ _ None] has_draft_access_def [of _ _ None])
qed

definition sample_roster :: "membership list" where
  "sample_roster = [\<lparr>ms_user = ''bob'', ms_entity = 7, ms_role = ''editor''\<rparr>, \<lparr>ms_user = ''eve'', ms_entity = 8, ms_role = ''admin''\<rparr>]"

theorem permissions_agree_witness:
  "selects (package_visibility sample_roster (Some \<lparr>user_id = ''bob'', sysadmin = False\<rparr>)) sample_package
    \<and> \<not> selects (package_visibility sample_roster (Some \<lparr>user_id = ''eve'', sysadmin = False\<rparr>)) sample_package"
proof -
  have "can_view_package sample_roster sample_package (Some \<lparr>user_id = ''bob'', sysadmin = False\<rparr>)"
    "\<not> can_view_package sample_roster sample_package (Some \<lparr>user_id = ''eve'', sysadmin = False\<rparr>)" by code_simp+
  moreover have "one_membership_each sample_roster" "pkg_state sample_package = Some ''active''" by code_simp+
  ultimately show ?thesis
    using permissions_agree [of sample_roster "Some \<lparr>user_id = ''bob'', sysadmin = False\<rparr>" sample_package]
      permissions_agree [of sample_roster "Some \<lparr>user_id = ''eve'', sysadmin = False\<rparr>" sample_package] by simp
qed

theorem writers_may_view_witness:
  "can_view_package sample_roster sample_package (Some \<lparr>user_id = ''bob'', sysadmin = False\<rparr>)
    \<and> \<not> can_view_package sample_roster sample_package None"
proof -
  have "can_write_package sample_roster \<lparr>user_id = ''bob'', sysadmin = False\<rparr> sample_package Editor"
    "one_membership_each sample_roster" "pkg_private sample_package" by code_simp+
  then show ?thesis
    using writers_may_view [of sample_roster "\<lparr>user_id = ''bob'', sysadmin = False\<rparr>" sample_package Editor] by simp
qed

end
