(* ===== verification/Resource_Service.thy ===== *)
theory Resource_Service
  imports Permissions
begin

text \<open>
  The metadata of a dataset's resources: \<open>create\<close>, \<open>createMany\<close>, \<open>update\<close>, \<open>reorder\<close> and \<open>delete\<close>
  of \<open>packages/api/src/services/resource-service.ts\<close>, with the sections they are filed under
  (\<open>splitSection\<close>, \<open>packages/shared/src/validators/resource.ts\<close>). A position is written under the
  dataset's advisory lock, so a method is one step. \<open>normal\<close> is \<open>normalizeFormat\<close>; the ids and
  revisions a row is born with are arguments.
\<close>

datatype blocker = Block_Name | Block_Org | Block_License

datatype catalog_error =
    Package_Missing string
  | Parent_Missing uuid
  | Resource_Missing uuid
  | Organization_Missing uuid
  | Organization_Unknown string
  | Group_Missing string
  | User_Missing string
  | Membership_Missing string uuid
  | Section_Split string
  | Incomplete_Order string
  | Foreign_Resource uuid
  | Name_Taken string
  | Name_And_Org_Required
  | Names_Exhausted
  | Organization_Inactive
  | Publish_Blocked "blocker list"
  | State_Changed
  | Still_Linked
  | Unique_Violation
  | Foreign_Key_Violation
  | Being_Processed uuid
  | Search_Unavailable
  | Search_Failed
  | Storage_Failed
  | Denied forbidden

text \<open>A field of a request: left out, or there - null, where the field's type has a \<open>None\<close>.\<close>

datatype 'a sent = Unsent | Sent 'a

fun or_else :: "'a \<Rightarrow> 'a sent \<Rightarrow> 'a" where
  "or_else x Unsent = x"
| "or_else x (Sent y) = y"

record resource_input =
  ri_url :: "string option"
  ri_url_type :: "string option"
  ri_name :: "string option"
  ri_description :: "string option"
  ri_format :: "string option"
  ri_mimetype :: "string option"
  ri_type :: "string option"
  ri_section :: "string option sent"
  ri_extras :: "json sent"

subsection \<open>Sections\<close>

fun split_from :: "string list \<Rightarrow> string option \<Rightarrow> string option list \<Rightarrow> string option" where
  "split_from seen previous [] = None"
| "split_from seen previous (None # ls) = split_from seen None ls"
| "split_from seen previous (Some s # ls) =
    (if Some s \<noteq> previous
     then if s \<in> set seen then Some s else split_from (s # seen) (Some s) ls
     else split_from seen (Some s) ls)"

definition split_section :: "string option list \<Rightarrow> string option" where
  "split_section = split_from [] None"

definition assert_unsplit :: "string option list \<Rightarrow> catalog_error option" where
  "assert_unsplit labels = map_option Section_Split (split_section labels)"

definition active_sections :: "uuid \<Rightarrow> db \<Rightarrow> (uuid \<times> string option) list" where
  "active_sections pid d =
    map (\<lambda>r. (res_id r, res_section r))
      (sort_key res_position (select_where (\<lambda>r. res_package r = pid \<and> res_state r = Some ''active'') (resources d)))"

subsection \<open>Creating\<close>

definition present :: "string option \<Rightarrow> bool" where
  "present s \<longleftrightarrow> s \<noteq> None \<and> s \<noteq> Some ''''"

definition to_row ::
  "(string \<Rightarrow> string) \<Rightarrow> time \<Rightarrow> uuid \<times> uuid \<Rightarrow> uuid \<Rightarrow> resource_input \<Rightarrow> int \<Rightarrow> resource_row" where
  "to_row normal now ids pid item position =
    \<lparr>res_id = fst ids, res_package = pid, res_url = ri_url item, res_url_type = ri_url_type item,
     res_name = ri_name item,
     res_format = (if present (ri_format item) then map_option normal (ri_format item) else None),
     res_mimetype = ri_mimetype item, res_size = None, res_hash = None, res_storage_key = None,
     res_content_revision = snd ids, res_pending_key = None, res_pending_at = None,
     res_pending_metadata = None, res_state = Some ''active'', res_column_settings = JObj [],
     res_doc_sync_due_at = Some now, res_health_status = Some ''unknown'', res_health_checked_at = None,
     res_health_check_state = Some (JObj []), res_embedding_due_at = Some now,
     res_content_index_due_at = None, res_created = now, res_updated = now, res_last_modified = None,
     res_summary = None, res_summary_meta = JObj [], res_description = ri_description item,
     res_position = position, res_section = or_else None (ri_section item), res_type = ri_type item,
     res_extras = or_else (JObj []) (ri_extras item)\<rparr>"

definition next_position :: "uuid \<Rightarrow> db \<Rightarrow> int" where
  "next_position pid d =
    Max (insert (- 1) (res_position ` set (select_where (\<lambda>r. res_package r = pid) (resources d)))) + 1"

definition create_resource ::
  "(string \<Rightarrow> string) \<Rightarrow> time \<Rightarrow> uuid \<times> uuid \<Rightarrow> uuid \<Rightarrow> resource_input \<Rightarrow> db
    \<Rightarrow> (catalog_error + resource_row) \<times> db" where
  "create_resource normal now ids pid item d =
    (if select_where (\<lambda>p. pkg_id p = pid \<and> pkg_state p \<in> {Some ''active'', Some ''draft''}) (packages d) = []
     then (Inl (Parent_Missing pid), d)
     else case (if present (or_else None (ri_section item))
                then assert_unsplit (map snd (active_sections pid d) @ [or_else None (ri_section item)])
                else None) of
            Some e \<Rightarrow> (Inl e, d)
          | None \<Rightarrow> let r = to_row normal now ids pid item (next_position pid d)
                    in (Inr r, d\<lparr>resources := resources d @ [r]\<rparr>))"

definition create_many ::
  "(string \<Rightarrow> string) \<Rightarrow> time \<Rightarrow> (uuid \<times> uuid) list \<Rightarrow> uuid \<Rightarrow> resource_input list \<Rightarrow> db
    \<Rightarrow> (catalog_error + resource_row list) \<times> db" where
  "create_many normal now ids pid items d =
    (if items = [] then (Inr [], d)
     else case assert_unsplit (map (\<lambda>item. or_else None (ri_section item)) items) of
            Some e \<Rightarrow> (Inl e, d)
          | None \<Rightarrow> let rs = map (\<lambda>(i, item). to_row normal now (ids ! i) pid item (int i)) (enumerate 0 items)
                    in (Inr rs, d\<lparr>resources := resources d @ rs\<rparr>))"

subsection \<open>Changing\<close>

definition updated_resource ::
  "(string \<Rightarrow> string) \<Rightarrow> time \<Rightarrow> resource_input \<Rightarrow> resource_row \<Rightarrow> resource_row" where
  "updated_resource normal now input r =
    (let url_changed = (res_url r \<noteq> ri_url input \<or> res_url_type r \<noteq> ri_url_type input);
         text_changed = (res_name r \<noteq> ri_name input \<or> res_description r \<noteq> ri_description input
            \<or> (case ri_section input of Unsent \<Rightarrow> False | Sent s \<Rightarrow> res_section r \<noteq> s))
     in r\<lparr>res_url := ri_url input, res_url_type := ri_url_type input,
          res_health_status := (if url_changed then Some ''unknown'' else res_health_status r),
          res_health_checked_at := (if url_changed then None else res_health_checked_at r),
          res_health_check_state := (if url_changed then Some (JObj []) else res_health_check_state r),
          res_name := ri_name input, res_description := ri_description input,
          res_format := (if present (ri_format input) then map_option normal (ri_format input) else None),
          res_mimetype := ri_mimetype input, res_type := ri_type input,
          res_extras := or_else (JObj []) (ri_extras input),
          res_section := or_else (res_section r) (ri_section input),
          res_updated := now, res_doc_sync_due_at := Some now,
          res_embedding_due_at := (if text_changed then Some now else res_embedding_due_at r)\<rparr>)"

definition write_resource ::
  "(string \<Rightarrow> string) \<Rightarrow> time \<Rightarrow> uuid \<Rightarrow> resource_input \<Rightarrow> db \<Rightarrow> (catalog_error + resource_row) \<times> db" where
  "write_resource normal now i input d =
    (case select_where (\<lambda>r. res_id r = i) (resources d) of
       [] \<Rightarrow> (Inl (Resource_Missing i), d)
     | r # _ \<Rightarrow> (Inr (updated_resource normal now input r),
         d\<lparr>resources := update_where (\<lambda>r. res_id r = i) (updated_resource normal now input) (resources d)\<rparr>))"

definition update_resource ::
  "(string \<Rightarrow> string) \<Rightarrow> time \<Rightarrow> uuid \<Rightarrow> resource_input \<Rightarrow> db \<Rightarrow> (catalog_error + resource_row) \<times> db" where
  "update_resource normal now i input d =
    (case ri_section input of
       Unsent \<Rightarrow> write_resource normal now i input d
     | Sent section \<Rightarrow>
         (case select_where (\<lambda>r. res_id r = i) (resources d) of
            [] \<Rightarrow> (Inl (Resource_Missing i), d)
          | r # _ \<Rightarrow>
              (case assert_unsplit (map (\<lambda>(j, s). if j = i then section else s) (active_sections (res_package r) d)) of
                 Some e \<Rightarrow> (Inl e, d)
               | None \<Rightarrow> write_resource normal now i input d)))"

definition delete_resource :: "time \<Rightarrow> uuid \<Rightarrow> db \<Rightarrow> (catalog_error + resource_row) \<times> db" where
  "delete_resource now i d =
    (let gone = (\<lambda>r. r\<lparr>res_state := Some ''deleted'', res_updated := now, res_doc_sync_due_at := Some now,
                       res_content_index_due_at := Some now\<rparr>)
     in case select_where (\<lambda>r. res_id r = i \<and> res_state r = Some ''active'') (resources d) of
          [] \<Rightarrow> (Inl (Resource_Missing i), d)
        | r # _ \<Rightarrow> (Inr (gone r), d\<lparr>resources := update_where (\<lambda>r. res_id r = i) gone (resources d)\<rparr>))"

subsection \<open>Arranging\<close>

definition covers_active :: "string \<Rightarrow> uuid list \<Rightarrow> uuid list \<Rightarrow> catalog_error option" where
  "covers_active what existing ids =
    (if length ids \<noteq> card (set existing) \<or> card (set ids) \<noteq> length ids then Some (Incomplete_Order what)
     else map_option Foreign_Resource (List.find (\<lambda>i. i \<notin> set existing) ids))"

definition first_error :: "catalog_error option list \<Rightarrow> catalog_error option" where
  "first_error es = (case List.map_filter id es of [] \<Rightarrow> None | e # _ \<Rightarrow> Some e)"

definition label_in :: "(uuid \<times> string option) list \<Rightarrow> uuid \<Rightarrow> string option" where
  "label_in labels i = (case map_of labels i of None \<Rightarrow> None | Some s \<Rightarrow> s)"

text \<open>\<open>new Map(entries)\<close>: of two entries of one key the later one stays.\<close>

definition section_of :: "(uuid \<times> string option) list \<Rightarrow> uuid \<Rightarrow> string option" where
  "section_of entries = label_in (rev entries)"

definition arranged_row ::
  "time \<Rightarrow> uuid list \<Rightarrow> (uuid \<times> string option) list option \<Rightarrow> (uuid \<times> string option) list \<Rightarrow> resource_row \<Rightarrow> resource_row" where
  "arranged_row now ids sections existing r =
    (let placed = r\<lparr>res_position := int (length (takeWhile (\<lambda>i. i \<noteq> res_id r) ids)), res_updated := now\<rparr>
     in case sections of
          None \<Rightarrow> placed
        | Some ss \<Rightarrow>
            (let section = section_of ss (res_id r)
             in if section \<noteq> label_in existing (res_id r)
                then placed\<lparr>res_section := section, res_doc_sync_due_at := Some now, res_embedding_due_at := Some now\<rparr>
                else placed\<lparr>res_section := section\<rparr>))"

definition reorder ::
  "time \<Rightarrow> uuid \<Rightarrow> uuid list \<Rightarrow> (uuid \<times> string option) list option \<Rightarrow> db \<Rightarrow> (catalog_error + resource_row list) \<times> db" where
  "reorder now pid ids sections d =
    (let existing = active_sections pid d;
         label = (case sections of None \<Rightarrow> label_in existing | Some ss \<Rightarrow> section_of ss)
     in case first_error
          [covers_active ''resource_ids'' (map fst existing) ids,
           (case sections of None \<Rightarrow> None | Some ss \<Rightarrow> covers_active ''sections'' (map fst existing) (map fst ss)),
           assert_unsplit (map label ids)] of
          Some e \<Rightarrow> (Inl e, d)
        | None \<Rightarrow>
            (let d1 = d\<lparr>resources := update_where (\<lambda>r. res_id r \<in> set ids) (arranged_row now ids sections existing) (resources d)\<rparr>
             in (Inr (sort_key res_position (select_where (\<lambda>r. res_package r = pid \<and> res_state r = Some ''active'') (resources d1))), d1)))"

end
