(* ===== verification/Resource_Guarantees.thy ===== *)
theory Resource_Guarantees
  imports Resource_Service Samples
begin

text \<open>
  Sections (ADR-050) are labels of rows, and nothing in the tables keeps a section's rows
  together: the methods do. A dataset is \<open>arranged\<close> when its live resources have places of their
  own and each label heads one run; every method keeps it so.
\<close>

subsection \<open>Labels in runs\<close>

text \<open>A name heads one run where nothing but it lies between two of its places.\<close>

definition in_runs :: "string option list \<Rightarrow> bool" where
  "in_runs ls \<longleftrightarrow> (\<forall>s us vs ws. ls = us @ Some s # vs @ Some s # ws \<longrightarrow> set vs \<subseteq> {Some s})"

definition once_more :: "string \<Rightarrow> string option list \<Rightarrow> bool" where
  "once_more s ls \<longleftrightarrow> Some s \<notin> set (dropWhile (\<lambda>l. l = Some s) ls)"

lemma once_more_simps [simp]:
  "once_more s []" "once_more s (None # ls) \<longleftrightarrow> Some s \<notin> set ls"
  "once_more s (Some t # ls) \<longleftrightarrow> (if t = s then once_more s ls else Some s \<notin> set ls)"
  by (auto simp: once_more_def)

definition before_all :: "string \<Rightarrow> string option list \<Rightarrow> bool" where
  "before_all s ls \<longleftrightarrow> (\<forall>vs ws. ls = vs @ Some s # ws \<longrightarrow> set vs \<subseteq> {Some s})"

lemma before_all_Cons: "before_all s (l # ls) \<longleftrightarrow> (if l = Some s then before_all s ls else Some s \<notin> set ls)"
proof (cases "l = Some s")
  case True
  have "before_all s (l # ls)" if "before_all s ls"
    unfolding before_all_def
  proof (intro allI impI)
    fix vs ws assume "l # ls = vs @ Some s # ws"
    then consider "vs = []" | vs' where "vs = l # vs'" "ls = vs' @ Some s # ws" by (auto simp: Cons_eq_append_conv)
    then show "set vs \<subseteq> {Some s}"
    proof cases
      case 2
      then have "set vs' \<subseteq> {Some s}" using \<open>before_all s ls\<close> unfolding before_all_def by blast
      then show ?thesis using 2 True by simp
    qed simp
  qed
  moreover have "before_all s ls" if b: "before_all s (l # ls)"
    unfolding before_all_def
  proof (intro allI impI)
    fix vs ws assume "ls = vs @ Some s # ws"
    then have "l # ls = (l # vs) @ Some s # ws" by simp
    then have "set (l # vs) \<subseteq> {Some s}" using b unfolding before_all_def by blast
    then show "set vs \<subseteq> {Some s}" by simp
  qed
  ultimately show ?thesis using True by auto
next
  case False
  have "before_all s (l # ls)" if "Some s \<notin> set ls"
    using that False unfolding before_all_def by (auto simp: Cons_eq_append_conv)
  moreover have "Some s \<notin> set ls" if b: "before_all s (l # ls)"
  proof
    assume "Some s \<in> set ls"
    then obtain vs ws where "l # ls = (l # vs) @ Some s # ws" by (auto simp: in_set_conv_decomp)
    then have "set (l # vs) \<subseteq> {Some s}" using b unfolding before_all_def by blast
    then show False using False by simp
  qed
  ultimately show ?thesis using False by auto
qed

lemma once_more_iff: "once_more s ls = before_all s ls"
proof (induction ls)
  case Nil
  then show ?case by (simp add: before_all_def)
next
  case (Cons l ls)
  then show ?case by (cases l) (auto simp: before_all_Cons)
qed

lemma in_runs_Cons: "in_runs (l # ls) \<longleftrightarrow> in_runs ls \<and> (\<forall>s. l = Some s \<longrightarrow> before_all s ls)"
proof (intro iffI conjI allI impI)
  assume r: "in_runs (l # ls)"
  show "in_runs ls" unfolding in_runs_def
  proof (intro allI impI)
    fix s us vs ws assume "ls = us @ Some s # vs @ Some s # ws"
    then have "l # ls = (l # us) @ Some s # vs @ Some s # ws" by simp
    then show "set vs \<subseteq> {Some s}" using r unfolding in_runs_def by blast
  qed
  show "before_all s ls" if "l = Some s" for s unfolding before_all_def
  proof (intro allI impI)
    fix vs ws assume "ls = vs @ Some s # ws"
    then have "l # ls = [] @ Some s # vs @ Some s # ws" using that by simp
    then show "set vs \<subseteq> {Some s}" using r unfolding in_runs_def by blast
  qed
next
  assume r: "in_runs ls \<and> (\<forall>s. l = Some s \<longrightarrow> before_all s ls)"
  show "in_runs (l # ls)" unfolding in_runs_def
  proof (intro allI impI)
    fix s us vs ws assume e: "l # ls = us @ Some s # vs @ Some s # ws"
    show "set vs \<subseteq> {Some s}"
    proof (cases us)
      case Nil
      then show ?thesis using e r unfolding before_all_def by auto
    next
      case (Cons u us')
      then have "ls = us' @ Some s # vs @ Some s # ws" using e by simp
      then show ?thesis using r unfolding in_runs_def by blast
    qed
  qed
qed

lemma in_runs_simps [simp]:
  "in_runs []" "in_runs (None # ls) = in_runs ls" "in_runs (Some s # ls) \<longleftrightarrow> once_more s ls \<and> in_runs ls"
  by (auto simp: in_runs_Cons once_more_iff) (simp add: in_runs_def)

lemma split_from_None_iff:
  "(\<forall>s. prev = Some s \<longrightarrow> s \<in> set seen) \<Longrightarrow>
    split_from seen prev ls = None \<longleftrightarrow>
      in_runs ls \<and> (\<forall>s \<in> set seen. if prev = Some s then once_more s ls else Some s \<notin> set ls)"
proof (induction seen prev ls rule: split_from.induct)
  case (3 seen prev s ls)
  show ?case
  proof (cases "Some s = prev \<or> s \<notin> set seen")
    case True
    then show ?thesis using 3 by auto
  next
    case False
    then show ?thesis by force
  qed
qed auto

lemma split_section_None_iff: "split_section ls = None \<longleftrightarrow> in_runs ls"
  by (simp add: split_section_def split_from_None_iff)

lemma once_more_absent: "Some s \<notin> set ls \<Longrightarrow> once_more s ls"
  by (auto simp: once_more_def dest: set_dropWhileD)

lemma once_more_filter: "once_more s (map f xs) \<Longrightarrow> once_more s (map f (filter P xs))"
proof (induction xs)
  case (Cons x xs)
  then show ?case by (cases "f x") (auto split: if_splits simp: image_iff intro: once_more_absent)
qed simp

lemma in_runs_filter: "in_runs (map f xs) \<Longrightarrow> in_runs (map f (filter P xs))"
proof (induction xs)
  case (Cons x xs)
  then show ?case by (cases "f x") (auto simp: once_more_filter)
qed simp

lemma once_more_snoc_None: "once_more s ls \<Longrightarrow> once_more s (ls @ [None])"
proof (induction ls)
  case (Cons l ls)
  then show ?case by (cases l) (auto split: if_splits)
qed simp

lemma in_runs_snoc_None: "in_runs ls \<Longrightarrow> in_runs (ls @ [None])"
proof (induction ls)
  case (Cons l ls)
  then show ?case by (cases l) (auto simp: once_more_snoc_None)
qed simp

subsection \<open>A dataset's resources in order\<close>

definition active_of :: "uuid \<Rightarrow> resource_row \<Rightarrow> bool" where
  "active_of pid r \<longleftrightarrow> res_package r = pid \<and> res_state r = Some ''active''"

definition active_rows :: "uuid \<Rightarrow> db \<Rightarrow> resource_row list" where
  "active_rows pid d = sort_key res_position (select_where (active_of pid) (resources d))"

definition arranged :: "db \<Rightarrow> bool" where
  "arranged d \<longleftrightarrow> distinct (map res_id (resources d))
    \<and> (\<forall>pid. distinct (map res_position (active_rows pid d)) \<and> in_runs (map res_section (active_rows pid d)))"

lemma active_sections_rows: "active_sections pid d = map (\<lambda>r. (res_id r, res_section r)) (active_rows pid d)"
  by (simp add: active_sections_def active_rows_def active_of_def [abs_def])

lemma set_active_rows: "set (active_rows pid d) = {r \<in> set (resources d). active_of pid r}"
  by (simp add: active_rows_def set_select_where)

lemma insort_key_snoc: "f x \<le> f y \<Longrightarrow> insort_key f x (zs @ [y]) = insort_key f x zs @ [y]"
  by (induction zs) auto

lemma sort_key_snoc:
  assumes "\<And>x. x \<in> set xs \<Longrightarrow> f x \<le> f y"
  shows "sort_key f (xs @ [y]) = sort_key f xs @ [y]"
  using assms by (induction xs) (auto simp: insort_key_snoc)

lemma sort_key_update_where:
  assumes "\<And>r. f (g r) = f r"
  shows "sort_key f (update_where P g rs) = update_where P g (sort_key f rs)"
proof -
  have "insort_key f (if P r then g r else r) (update_where P g xs) = update_where P g (insort_key f r xs)" for r xs
    by (induction xs) (auto simp: assms)
  then show ?thesis by (induction rs) (auto simp: assms)
qed

lemma select_update_where:
  assumes "\<And>r. A (g r) = A r"
  shows "select_where A (update_where P g rs) = update_where P g (select_where A rs)"
  by (induction rs) (auto simp: select_where_def assms)

lemma active_rows_update:
  assumes "\<And>r. res_package (g r) = res_package r" "\<And>r. res_state (g r) = res_state r" "\<And>r. res_position (g r) = res_position r"
  shows "active_rows pid (d\<lparr>resources := update_where P g (resources d)\<rparr>) = update_where P g (active_rows pid d)"
  unfolding active_rows_def by (simp add: select_update_where active_of_def assms sort_key_update_where)

lemma active_rows_append:
  "active_rows pid (d\<lparr>resources := resources d @ rs\<rparr>) = sort_key res_position
     (select_where (active_of pid) (resources d) @ select_where (active_of pid) rs)"
  by (simp add: active_rows_def select_where_def)

subsection \<open>Each operation\<close>

lemma next_position_greater:
  assumes "r \<in> set (resources d)" "res_package r = pid"
  shows "res_position r < next_position pid d"
proof -
  have "res_position r \<le> Max (insert (- 1) (res_position ` set (select_where (\<lambda>r. res_package r = pid) (resources d))))"
    using assms by (intro Max_ge) (auto simp: set_select_where)
  then show ?thesis by (simp add: next_position_def)
qed

lemma to_row_simps [simp]:
  "res_id (to_row normal now ids pid item p) = fst ids" "res_package (to_row normal now ids pid item p) = pid"
  "res_state (to_row normal now ids pid item p) = Some ''active''" "res_position (to_row normal now ids pid item p) = p"
  "res_section (to_row normal now ids pid item p) = or_else None (ri_section item)"
  by (simp_all add: to_row_def)

lemma create_resource_rows:
  assumes "create_resource normal now ids pid item d = (Inr r, d')"
  shows "r = to_row normal now ids pid item (next_position pid d)" "d' = d\<lparr>resources := resources d @ [r]\<rparr>"
    and "present (or_else None (ri_section item)) \<Longrightarrow>
      in_runs (map res_section (active_rows pid d) @ [or_else None (ri_section item)])"
  using assms
  by (auto simp: create_resource_def Let_def assert_unsplit_def split_section_None_iff active_sections_rows comp_def
      split: if_splits option.splits)

lemma arranged_create:
  assumes "arranged d" "create_resource normal now ids pid item d = (Inr r, d')"
    and "fst ids \<notin> res_id ` set (resources d)" "ri_section item \<noteq> Sent (Some '''')"
  shows "arranged d'"
proof -
  have r: "r = to_row normal now ids pid item (next_position pid d)" "d' = d\<lparr>resources := resources d @ [r]\<rparr>"
    using create_resource_rows [OF assms(2)] by blast+
  have rows: "active_rows q d' = (if q = pid then active_rows pid d @ [r] else active_rows q d)" for q
  proof (cases "q = pid")
    case True
    have "sort_key res_position (select_where (active_of pid) (resources d) @ [r]) = active_rows pid d @ [r]"
      unfolding active_rows_def using next_position_greater [of _ d pid] r(1)
      by (intro sort_key_snoc) (auto simp: set_select_where active_of_def less_imp_le)
    moreover have "select_where (active_of pid) [r] = [r]" by (simp add: select_where_def active_of_def r(1))
    ultimately show ?thesis using True r(2) by (simp add: active_rows_append)
  next
    case False
    then have "select_where (active_of q) [r] = []" by (simp add: select_where_def active_of_def r(1))
    then show ?thesis using False unfolding r(2) active_rows_append by (simp add: active_rows_def)
  qed
  have sections: "in_runs (map res_section (active_rows pid d) @ [or_else None (ri_section item)])"
  proof (cases "present (or_else None (ri_section item))")
    case True
    then show ?thesis by (rule create_resource_rows(3) [OF assms(2)])
  next
    case False
    then have "or_else None (ri_section item) = None" using assms(4) by (cases "ri_section item") (auto simp: present_def)
    then show ?thesis using assms(1) by (simp add: arranged_def in_runs_snoc_None)
  qed
  have less: "res_position x < res_position r" if "x \<in> set (active_rows pid d)" for x
    using that next_position_greater [of x d pid] r(1) by (simp add: set_active_rows active_of_def)
  then have "res_position r \<notin> res_position ` set (active_rows pid d)" by fastforce
  then show ?thesis using assms(1,3) sections r(1) rows unfolding arranged_def
    by (auto simp: r(2))
qed

lemma arranged_create_many:
  assumes "arranged d" "create_many normal now ids pid items d = (Inr rs, d')"
    and "\<forall>r \<in> set (resources d). res_package r \<noteq> pid" "length items \<le> length ids"
    and "distinct (map fst ids)" "fst ` set ids \<inter> res_id ` set (resources d) = {}"
  shows "arranged d'"
proof (cases "items = []")
  case True
  then show ?thesis using assms(1,2) by (simp add: create_many_def)
next
  case False
  have rs: "rs = map (\<lambda>(i, item). to_row normal now (ids ! i) pid item (int i)) (enumerate 0 items)"
    "d' = d\<lparr>resources := resources d @ rs\<rparr>" "in_runs (map (\<lambda>item. or_else None (ri_section item)) items)"
    using assms(2) False
    by (auto simp: create_many_def assert_unsplit_def split_section_None_iff Let_def split: option.splits)
  have nth: "rs ! i = to_row normal now (ids ! i) pid (items ! i) (int i)" if "i < length items" for i
    using that by (simp add: rs(1) nth_enumerate_eq)
  have len: "length rs = length items" by (simp add: rs(1))
  have pos: "map res_position rs = map int [0..<length items]" using len nth by (intro nth_equalityI) auto
  have sec: "map res_section rs = map (\<lambda>item. or_else None (ri_section item)) items"
    using len nth by (intro nth_equalityI) auto
  have ids: "map res_id rs = map fst (take (length items) ids)"
    using len nth assms(4) by (intro nth_equalityI) auto
  have all: "\<forall>r \<in> set rs. active_of pid r" using rs(1) by (auto simp: active_of_def)
  have rows: "active_rows q d' = (if q = pid then rs else active_rows q d)" for q
  proof (cases "q = pid")
    case True
    have "select_where (active_of pid) (resources d) = []"
      using assms(3) by (auto simp: select_where_def filter_empty_conv active_of_def)
    moreover have "select_where (active_of pid) rs = rs" using all by (simp add: select_where_def)
    moreover have "sort_key res_position rs = rs" by (intro sort_key_id_if_sorted) (simp add: pos sorted_iff_nth_mono)
    ultimately show ?thesis using True rs(2) by (simp add: active_rows_append)
  next
    case False
    then have "select_where (active_of q) rs = []"
      using all by (auto simp: select_where_def filter_empty_conv active_of_def)
    then show ?thesis using False unfolding rs(2) active_rows_append by (simp add: active_rows_def)
  qed
  have "distinct (map res_id rs)" "set (map res_id rs) \<subseteq> fst ` set ids"
    unfolding ids using assms(5) by (auto simp: take_map [symmetric] dest: in_set_takeD)
  then have "distinct (map res_id (resources d @ rs))"
    using assms(1,6) unfolding arranged_def by auto
  moreover have "distinct (map res_position rs)" unfolding pos by (simp add: distinct_map)
  ultimately show ?thesis using assms(1) rows sec rs(2,3) unfolding arranged_def by simp
qed

lemma updated_resource_simps [simp]:
  "res_id (updated_resource normal now input r) = res_id r" "res_package (updated_resource normal now input r) = res_package r"
  "res_state (updated_resource normal now input r) = res_state r" "res_position (updated_resource normal now input r) = res_position r"
  "res_section (updated_resource normal now input r) = or_else (res_section r) (ri_section input)"
  by (simp_all add: updated_resource_def Let_def)

lemma write_resource_rows:
  "write_resource normal now i input d = (Inr r, d') \<Longrightarrow>
    d' = d\<lparr>resources := update_where (\<lambda>r. res_id r = i) (updated_resource normal now input) (resources d)\<rparr>"
  by (auto simp: write_resource_def split: list.splits)

lemma select_id:
  assumes "distinct (map res_id rs)" "select_where (\<lambda>r. res_id r = i) rs = r # others" "x \<in> set rs" "res_id x = i"
  shows "x = r"
proof -
  have "r \<in> set (select_where (\<lambda>r. res_id r = i) rs)" using assms(2) by simp
  then have "r \<in> set rs" "res_id r = i" by (auto simp: set_select_where)
  then show ?thesis using assms(1,3,4) by (metis distinct_map inj_onD)
qed

lemma arranged_update:
  assumes "arranged d" "update_resource normal now i input d = (Inr r, d')"
  shows "arranged d'"
proof -
  let ?g = "updated_resource normal now input" and ?hit = "\<lambda>r. res_id r = i"
  have d': "d' = d\<lparr>resources := update_where ?hit ?g (resources d)\<rparr>"
    using assms(2) by (auto simp: update_resource_def split: sent.splits list.splits option.splits intro: write_resource_rows)
  have rows: "active_rows q d' = update_where ?hit ?g (active_rows q d)" for q
    unfolding d' by (rule active_rows_update) simp_all
  have "in_runs (map res_section (active_rows q d'))" for q
  proof (cases "ri_section input")
    case Unsent
    then have "map res_section (active_rows q d') = map res_section (active_rows q d)"
      unfolding rows by (intro map_update_where) simp
    then show ?thesis using assms(1) by (simp add: arranged_def)
  next
    case (Sent lab)
    then obtain r0 others where r0: "select_where ?hit (resources d) = r0 # others"
      "assert_unsplit (map (\<lambda>(j, s). if j = i then lab else s) (active_sections (res_package r0) d)) = None"
      using assms(2) by (auto simp: update_resource_def split: list.splits option.splits)
    show ?thesis
    proof (cases "q = res_package r0")
      case True
      have "map res_section (active_rows q d') = map (\<lambda>(j, s). if j = i then lab else s) (active_sections q d)"
        unfolding rows active_sections_rows by (auto simp: update_where_def Sent)
      then show ?thesis using r0(2) True by (simp add: assert_unsplit_def split_section_None_iff)
    next
      case False
      have "\<not> ?hit x" if "x \<in> set (active_rows q d)" for x
        using that False select_id [OF _ r0(1)] assms(1) by (auto simp: set_active_rows active_of_def arranged_def)
      then have "active_rows q d' = active_rows q d" unfolding rows by (intro update_where_none)
      then show ?thesis using assms(1) by (simp add: arranged_def)
    qed
  qed
  moreover have "map res_position (active_rows q d') = map res_position (active_rows q d)" for q
    unfolding rows by (intro map_update_where) simp
  moreover have "map res_id (resources d') = map res_id (resources d)" unfolding d' by (simp add: map_update_where)
  ultimately show ?thesis using assms(1) by (simp add: arranged_def)
qed

lemma arranged_delete:
  assumes "arranged d" "delete_resource now i d = (Inr r, d')"
  shows "arranged d'"
proof -
  let ?g = "\<lambda>r. r\<lparr>res_state := Some ''deleted'', res_updated := now, res_doc_sync_due_at := Some now, res_content_index_due_at := Some now\<rparr>"
  have d': "d' = d\<lparr>resources := update_where (\<lambda>r. res_id r = i) ?g (resources d)\<rparr>"
    using assms(2) by (auto simp: delete_resource_def Let_def split: list.splits)
  have "select_where (active_of q) (update_where (\<lambda>r. res_id r = i) ?g rs)
      = filter (\<lambda>r. res_id r \<noteq> i) (select_where (active_of q) rs)" for q rs
    by (induction rs) (auto simp: select_where_def active_of_def)
  then have rows: "active_rows q d' = filter (\<lambda>r. res_id r \<noteq> i) (active_rows q d)" for q
    unfolding active_rows_def d' by (simp add: filter_sort)
  have "map res_id (resources d') = map res_id (resources d)" unfolding d' by (simp add: map_update_where)
  then show ?thesis using assms(1) unfolding arranged_def rows by (auto simp: in_runs_filter distinct_map_filter)
qed

subsection \<open>Arranging\<close>

abbreviation place_in :: "uuid list \<Rightarrow> uuid \<Rightarrow> nat" where
  "place_in ids i \<equiv> length (takeWhile (\<lambda>j. j \<noteq> i) ids)"

lemma place_in_nth: "distinct ids \<Longrightarrow> k < length ids \<Longrightarrow> place_in ids (ids ! k) = k"
proof (induction ids arbitrary: k)
  case (Cons i ids)
  then show ?case by (cases k) (auto simp: in_set_conv_nth)
qed simp

lemma nth_place_in: "i \<in> set ids \<Longrightarrow> ids ! place_in ids i = i"
  by (induction ids) auto

lemma place_in_less: "i \<in> set ids \<Longrightarrow> place_in ids i < length ids"
  by (induction ids) auto

lemma by_place_unique:
  assumes "distinct xs" "set ys = set xs" "distinct ys" "sorted (map (place_in xs) ys)"
  shows "ys = xs"
proof -
  have inj: "inj_on (place_in xs) (set ys)"
    by (rule inj_on_inverseI [where g = "nth xs"]) (use assms(2) nth_place_in in auto)
  have "place_in xs ` set xs = {0..<length xs}"
  proof
    show "place_in xs ` set xs \<subseteq> {0..<length xs}" using place_in_less by auto
    show "{0..<length xs} \<subseteq> place_in xs ` set xs"
    proof
      fix k assume "k \<in> {0..<length xs}"
      then have "place_in xs (xs ! k) = k" "xs ! k \<in> set xs" using place_in_nth [OF assms(1)] by auto
      then show "k \<in> place_in xs ` set xs" by (rule image_eqI [OF sym])
    qed
  qed
  then have "map (place_in xs) ys = [0..<length xs]"
    using assms(2-4) inj by (intro sorted_distinct_set_unique) (auto simp: distinct_map)
  then have "map (nth xs) (map (place_in xs) ys) = xs" by (simp add: map_nth)
  moreover have "map (nth xs) (map (place_in xs) ys) = ys"
    unfolding map_map comp_def by (rule map_idI) (use assms(2) nth_place_in in blast)
  ultimately show ?thesis by simp
qed

lemma covers_active_None:
  assumes "covers_active what existing ids = None"
  shows "distinct ids" "set ids = set existing"
proof -
  have l: "length ids = card (set existing)" "card (set ids) = length ids" "\<forall>i \<in> set ids. i \<in> set existing"
    using assms by (auto simp: covers_active_def find_None_iff split: if_splits)
  show "distinct ids" using l by (metis card_distinct)
  show "set ids = set existing" by (rule card_subset_eq) (use l in auto)
qed

lemma first_error_None: "first_error es = None \<longleftrightarrow> (\<forall>e \<in> set es. e = None)"
  by (induction es) (auto simp: first_error_def List.map_filter_def split: option.splits list.splits)

lemma reorder_rows:
  assumes "reorder now pid ids sections d = (Inr rs, d')"
  shows "distinct ids" "set ids = res_id ` set (active_rows pid d)"
    and "d' = d\<lparr>resources := update_where (\<lambda>r. res_id r \<in> set ids)
          (arranged_row now ids sections (active_sections pid d)) (resources d)\<rparr>"
    and "in_runs (map (case sections of None \<Rightarrow> label_in (active_sections pid d) | Some ss \<Rightarrow> section_of ss) ids)"
    and "rs = active_rows pid d'"
proof -
  let ?label = "case sections of None \<Rightarrow> label_in (active_sections pid d) | Some ss \<Rightarrow> section_of ss"
  have none: "covers_active ''resource_ids'' (map fst (active_sections pid d)) ids = None" "assert_unsplit (map ?label ids) = None"
    and d': "d' = d\<lparr>resources := update_where (\<lambda>r. res_id r \<in> set ids)
          (arranged_row now ids sections (active_sections pid d)) (resources d)\<rparr>"
    using assms by (auto simp: reorder_def Let_def first_error_None split: option.splits)
  have "rs = sort_key res_position (select_where (\<lambda>r. res_package r = pid \<and> res_state r = Some ''active'') (resources d'))"
    using assms by (auto simp: reorder_def Let_def split: option.splits)
  then show "rs = active_rows pid d'" by (simp add: active_rows_def active_of_def [abs_def])
  show "d' = d\<lparr>resources := update_where (\<lambda>r. res_id r \<in> set ids)
          (arranged_row now ids sections (active_sections pid d)) (resources d)\<rparr>" by (rule d')
  show "distinct ids" "set ids = res_id ` set (active_rows pid d)"
    using covers_active_None [OF none(1)] by (auto simp: active_sections_rows comp_def)
  show "in_runs (map ?label ids)" using none(2) by (simp add: assert_unsplit_def split_section_None_iff)
qed

lemma arranged_row_simps [simp]:
  "res_id (arranged_row now ids sections existing r) = res_id r"
  "res_package (arranged_row now ids sections existing r) = res_package r"
  "res_state (arranged_row now ids sections existing r) = res_state r"
  "res_position (arranged_row now ids sections existing r) = int (place_in ids (res_id r))"
  "res_section (arranged_row now ids sections existing r) =
    (case sections of None \<Rightarrow> res_section r | Some ss \<Rightarrow> section_of ss (res_id r))"
  by (simp_all add: arranged_row_def Let_def split: option.split)

lemma label_in_rows:
  assumes "distinct (map res_id rs)" "r \<in> set rs"
  shows "label_in (map (\<lambda>r. (res_id r, res_section r)) rs) (res_id r) = res_section r"
proof -
  have "map_of (map (\<lambda>r. (res_id r, res_section r)) rs) (res_id r) = Some (res_section r)"
    using assms by (intro map_of_is_SomeI) (auto simp: comp_def)
  then show ?thesis by (simp add: label_in_def)
qed

lemma distinct_active_ids: "distinct (map res_id (resources d)) \<Longrightarrow> distinct (map res_id (active_rows pid d))"
proof -
  assume "distinct (map res_id (resources d))"
  then have "inj_on res_id (set (active_rows pid d))" "distinct (active_rows pid d)"
    by (auto simp: distinct_map set_active_rows inj_on_def active_rows_def select_where_def)
  then show ?thesis by (simp add: distinct_map)
qed

lemma arranged_reorder:
  assumes "arranged d" "reorder now pid ids sections d = (Inr rs, d')"
  shows "arranged d'" "map res_id (active_rows pid d') = ids"
proof -
  let ?g = "arranged_row now ids sections (active_sections pid d)" and ?hit = "\<lambda>r. res_id r \<in> set ids"
  let ?label = "case sections of None \<Rightarrow> label_in (active_sections pid d) | Some ss \<Rightarrow> section_of ss"
  note r = reorder_rows [OF assms(2)]
  have dist: "distinct (map res_id (resources d))" using assms(1) by (simp add: arranged_def)
  have mine: "?hit x \<longleftrightarrow> active_of pid x" if "x \<in> set (resources d)" for x
    using that dist r(2) by (auto simp: set_active_rows image_iff dest: inj_onD [OF distinct_map [THEN iffD1, THEN conjunct2]])
  have others: "active_rows q d' = active_rows q d" if "q \<noteq> pid" for q
  proof -
    have "select_where (active_of q) (update_where ?hit ?g (resources d)) = select_where (active_of q) (resources d)"
      using mine that by (subst select_update_where) (auto simp: active_of_def set_select_where intro!: update_where_none)
    then show ?thesis by (simp add: active_rows_def r(3))
  qed
  have set': "set (active_rows pid d') = ?g ` set (active_rows pid d)"
    using mine unfolding set_active_rows r(3) by (auto simp: set_update_where active_of_def)
  have pos: "map res_position (active_rows pid d') = map int (map (place_in ids) (map res_id (active_rows pid d')))"
    using set' by auto
  have ids': "distinct (map res_id (resources d'))" using dist by (simp add: r(3) map_update_where)
  have "sorted (map res_position (active_rows pid d'))" by (simp add: active_rows_def)
  then have "sorted (map (place_in ids) (map res_id (active_rows pid d')))"
    unfolding pos by (simp add: sorted_iff_nth_mono)
  moreover have "set (map res_id (active_rows pid d')) = set ids" unfolding r(2) using set' by (auto simp: image_iff)
  ultimately show order: "map res_id (active_rows pid d') = ids"
    using by_place_unique [OF r(1)] distinct_active_ids [OF ids'] by blast
  have "distinct (map res_position (active_rows pid d'))"
    unfolding pos order using r(1) nth_place_in by (auto simp: distinct_map inj_on_def) metis
  moreover have "in_runs (map res_section (active_rows pid d'))"
  proof -
    have "res_section x = ?label (res_id x)" if "x \<in> set (active_rows pid d')" for x
      using that set' label_in_rows [OF distinct_active_ids [OF dist]]
      by (auto simp: active_sections_rows split: option.split)
    then have "map res_section (active_rows pid d') = map ?label (map res_id (active_rows pid d'))" by simp
    then show ?thesis unfolding order using r(4) by simp
  qed
  moreover have "distinct (map res_position (active_rows q d')) \<and> in_runs (map res_section (active_rows q d'))" if "q \<noteq> pid" for q
    using assms(1) that by (simp add: others arranged_def)
  ultimately show "arranged d'" using ids' unfolding arranged_def by metis
qed

subsection \<open>Any number of changes\<close>

datatype arranging =
    Create_Resource time "uuid \<times> uuid" uuid resource_input
  | Create_Many time "(uuid \<times> uuid) list" uuid "resource_input list"
  | Update_Resource time uuid resource_input
  | Reorder time uuid "uuid list" "(uuid \<times> string option) list option"
  | Delete_Resource time uuid

fun arrange_step :: "(string \<Rightarrow> string) \<Rightarrow> arranging \<Rightarrow> db \<Rightarrow> db" where
  "arrange_step normal (Create_Resource now ids pid item) d = snd (create_resource normal now ids pid item d)"
| "arrange_step normal (Create_Many now ids pid items) d = snd (create_many normal now ids pid items d)"
| "arrange_step normal (Update_Resource now i input) d = snd (update_resource normal now i input d)"
| "arrange_step normal (Reorder now pid ids sections) d = snd (reorder now pid ids sections d)"
| "arrange_step normal (Delete_Resource now i) d = snd (delete_resource now i d)"

text \<open>
  Ids are fresh, \<open>createMany\<close> is for a dataset just inserted, and a label is none rather than
  empty, as \<open>normalizeSection\<close> leaves it.
\<close>

fun arrange_ok :: "arranging \<Rightarrow> db \<Rightarrow> bool" where
  "arrange_ok (Create_Resource now ids pid item) d \<longleftrightarrow>
    fst ids \<notin> res_id ` set (resources d) \<and> ri_section item \<noteq> Sent (Some '''')"
| "arrange_ok (Create_Many now ids pid items) d \<longleftrightarrow>
    (\<forall>r \<in> set (resources d). res_package r \<noteq> pid) \<and> length items \<le> length ids
      \<and> distinct (map fst ids) \<and> fst ` set ids \<inter> res_id ` set (resources d) = {}"
| "arrange_ok _ d \<longleftrightarrow> True"

lemma refused_unchanged:
  "create_resource normal now ids pid item d = (Inl e, d') \<Longrightarrow> d' = d"
  "create_many normal now iids pid items d = (Inl e, d') \<Longrightarrow> d' = d"
  "update_resource normal now i input d = (Inl e, d') \<Longrightarrow> d' = d"
  "reorder now pid order sections d = (Inl e, d') \<Longrightarrow> d' = d"
  "delete_resource now i d = (Inl e, d') \<Longrightarrow> d' = d"
  by (auto simp: create_resource_def create_many_def update_resource_def write_resource_def reorder_def
      delete_resource_def Let_def split: if_splits option.splits list.splits sent.splits)

lemma outcome_cases:
  obtains (refused) e d' where "f = (Inl e :: 'e + 'a, d')" | (accepted) x d' where "f = (Inr x, d')"
  by (cases f; cases "fst f") auto

lemma arranged_step: "arranged d \<Longrightarrow> arrange_ok e d \<Longrightarrow> arranged (arrange_step normal e d)"
proof (induction e)
  case (Create_Resource now ids pid item)
  then show ?case
    by (cases "create_resource normal now ids pid item d" rule: outcome_cases)
      (auto dest: refused_unchanged intro: arranged_create)
next
  case (Create_Many now ids pid items)
  then show ?case
    by (cases "create_many normal now ids pid items d" rule: outcome_cases)
      (auto dest: refused_unchanged intro: arranged_create_many)
next
  case (Update_Resource now i input)
  then show ?case
    by (cases "update_resource normal now i input d" rule: outcome_cases)
      (auto dest: refused_unchanged intro: arranged_update)
next
  case (Reorder now pid ids sections)
  then show ?case
    by (cases "reorder now pid ids sections d" rule: outcome_cases)
      (auto dest: refused_unchanged intro: arranged_reorder)
next
  case (Delete_Resource now i)
  then show ?case
    by (cases "delete_resource now i d" rule: outcome_cases)
      (auto dest: refused_unchanged intro: arranged_delete)
qed

interpretation arrangement: machine "arrange_step normal" arranged arrange_ok for normal
  by unfold_locales (rule arranged_step)

text \<open>C10. 
  However often resources are created, edited, relabelled, reordered and deleted, the live resources
  of a dataset have places of their own and every section is one run of them; and a reorder that is
  accepted gives the order it asked for.
\<close>

theorem sections_stay_whole:
  assumes "arranged d" "steps_ok arrange_ok (arrange_step normal) es d"
  shows "arranged (run_steps (arrange_step normal) es d)
    \<and> (\<forall>now pid ids sections rs d'.
         reorder now pid ids sections (run_steps (arrange_step normal) es d) = (Inr rs, d') \<longrightarrow> map res_id rs = ids)"
proof -
  have "arranged (run_steps (arrange_step normal) es d)" by (rule arrangement.inv_run [OF assms])
  then show ?thesis using arranged_reorder(2) reorder_rows(5) by metis
qed

definition sample_item :: "string option \<Rightarrow> resource_input" where
  "sample_item s = \<lparr>ri_url = None, ri_url_type = Some ''upload'', ri_name = None, ri_description = None,
     ri_format = Some ''csv'', ri_mimetype = None, ri_type = None, ri_section = Sent s, ri_extras = Unsent\<rparr>"

definition sample_shelf :: db where
  "sample_shelf = sample_db\<lparr>resources := [sample_resource 10 None, (sample_resource 11 None)\<lparr>res_position := 1\<rparr>]\<rparr>"

lemma sample_shelf_arranged: "arranged sample_shelf"
proof -
  have "active_rows pid sample_shelf =
      (if pid = 1 then [sample_resource 10 None, (sample_resource 11 None)\<lparr>res_position := 1\<rparr>] else [])" for pid
    by (simp add: active_rows_def select_where_def active_of_def sample_shelf_def sample_resource_def)
  then show ?thesis by (simp add: arranged_def sample_shelf_def sample_resource_def)
qed

definition sample_arranging :: "arranging list" where
  "sample_arranging =
     [Create_Resource 5 (20, 1) 1 (sample_item (Some ''maps'')), Create_Resource 6 (21, 2) 1 (sample_item (Some ''maps'')),
      Update_Resource 7 11 (sample_item (Some ''maps'')), Reorder 8 1 [20, 11, 21, 10] None, Delete_Resource 9 20]"

lemma sample_arranging_ok: "steps_ok arrange_ok (arrange_step id) sample_arranging sample_shelf"
  by code_simp

theorem sections_stay_whole_witness:
  "arranged (run_steps (arrange_step id) sample_arranging sample_shelf)
    \<and> map res_id (active_rows 1 (run_steps (arrange_step id) sample_arranging sample_shelf)) = [11, 21, 10]"
proof
  show "arranged (run_steps (arrange_step id) sample_arranging sample_shelf)"
    using sections_stay_whole [OF sample_shelf_arranged sample_arranging_ok] by blast
  show "map res_id (active_rows 1 (run_steps (arrange_step id) sample_arranging sample_shelf)) = [11, 21, 10]"
    by code_simp
qed

end
