(* ===== verification/Package_Service.thy ===== *)
theory Package_Service
  imports Resource_Service Claim Job_Table "HOL-Library.Word" "HOL-Library.Sublist"
begin

text \<open>
  The life of a dataset (\<open>packages/api/src/services/package-service.ts\<close>): created, or drafted and
  published; edited; deleted to the trash and restored; purged. A method that is one transaction
  is a function from the database to what it throws or returns and the database it leaves, the
  one it was given when it throws. \<open>authorize\<close> is the caller's check, run on the row as read;
  \<open>as_uuid\<close> is the uuid a text spells, if it spells one (\<open>isUuid\<close> and PostgreSQL's cast); fresh ids
  and random bytes are arguments. What lies outside the database - the search index, the bucket,
  the queue - is in \<open>site\<close>, and how the first two fail is an argument.
\<close>

subsection \<open>Names\<close>

definition hex_digit :: "nat \<Rightarrow> char" where
  "hex_digit n = ''0123456789abcdef'' ! n"

definition hex_byte :: "8 word \<Rightarrow> string" where
  "hex_byte b = [hex_digit (unat b div 16), hex_digit (unat b mod 16)]"

definition generate_draft_package_name :: "8 word list \<Rightarrow> string" where
  "generate_draft_package_name bytes = ''untitled-'' @ concat (map hex_byte bytes)"

definition is_draft_placeholder_name :: "string \<Rightarrow> bool" where
  "is_draft_placeholder_name name \<longleftrightarrow>
    take 9 name = ''untitled-'' \<and> length name = 17 \<and> list_all (\<lambda>c. c \<in> set ''0123456789abcdef'') (drop 9 name)"

definition draft_publish_blockers :: "package_row \<Rightarrow> blocker list" where
  "draft_publish_blockers p =
    (if is_draft_placeholder_name (pkg_name p) then [Block_Name] else [])
    @ (if pkg_owner_org p = None then [Block_Org] else [])
    @ (if \<not> present (pkg_license p) then [Block_License] else [])"

subsection \<open>Requests\<close>

record package_input =
  in_name :: "string option sent"
  in_title :: "string option sent"
  in_notes :: "string option sent"
  in_url :: "string option sent"
  in_version :: "string option sent"
  in_license :: "string option sent"
  in_author :: "string option sent"
  in_author_email :: "string option sent"
  in_maintainer :: "string option sent"
  in_maintainer_email :: "string option sent"
  in_owner_org :: "uuid option sent"
  in_private :: "bool sent"
  in_type :: "string sent"
  in_extras :: "json sent"
  in_tags :: "string list sent"
  in_groups :: "string list sent"
  in_resources :: "resource_input list sent"

type_synonym authorize = "db \<Rightarrow> package_row \<Rightarrow> forbidden option"

definition make_package_authorize :: "auth_user \<Rightarrow> membership_role \<Rightarrow> authorize" where
  "make_package_authorize user role = (\<lambda>d p. package_write_denial (org_members d) user p role)"

definition make_publish_authorize :: "auth_user \<Rightarrow> authorize" where
  "make_publish_authorize user = (\<lambda>d p.
    (case make_package_authorize user Editor d p of
       Some e \<Rightarrow> Some e
     | None \<Rightarrow> if pkg_state p = Some ''draft''
               then (case pkg_owner_org p of
                       Some org \<Rightarrow> check_org_role (org_members d) user org Editor
                     | None \<Rightarrow> None)
               else None))"

subsection \<open>Reading\<close>

definition named_or_id :: "(string \<Rightarrow> uuid option) \<Rightarrow> string \<Rightarrow> package_row \<Rightarrow> bool" where
  "named_or_id as_uuid s p \<longleftrightarrow> pkg_name p = s \<or> Some (pkg_id p) = as_uuid s"

definition get_by_name_or_id ::
  "(string \<Rightarrow> uuid option) \<Rightarrow> string \<Rightarrow> string list \<Rightarrow> db \<Rightarrow> catalog_error + package_row" where
  "get_by_name_or_id as_uuid s states d =
    (case sort_key (\<lambda>p. if Some (pkg_id p) = as_uuid s then 0 else 1 :: nat)
        (select_where (\<lambda>p. named_or_id as_uuid s p \<and> pkg_state p \<in> set (map Some states)) (packages d)) of
       [] \<Rightarrow> Inl (Package_Missing s)
     | p # _ \<Rightarrow> Inr p)"

definition get_with_access_check ::
  "(string \<Rightarrow> uuid option) \<Rightarrow> string \<Rightarrow> auth_user option \<Rightarrow> string list \<Rightarrow> db \<Rightarrow> catalog_error + package_row" where
  "get_with_access_check as_uuid s viewer states d =
    (case get_by_name_or_id as_uuid s states d of
       Inl e \<Rightarrow> Inl e
     | Inr p \<Rightarrow> if can_view_package (org_members d) p viewer then Inr p else Inl (Package_Missing s))"

definition authorized ::
  "authorize \<Rightarrow> (string \<Rightarrow> uuid option) \<Rightarrow> string \<Rightarrow> string list \<Rightarrow> db \<Rightarrow> catalog_error + package_row" where
  "authorized authorize as_uuid s states d =
    (case get_by_name_or_id as_uuid s states d of
       Inl e \<Rightarrow> Inl e
     | Inr p \<Rightarrow> (case authorize d p of None \<Rightarrow> Inr p | Some e \<Rightarrow> Inl (Denied e)))"

definition name_taken :: "string \<Rightarrow> db \<Rightarrow> bool" where
  "name_taken name d \<longleftrightarrow> list_ex (\<lambda>p. pkg_name p = name) (packages d)"

definition org_active :: "uuid \<Rightarrow> db \<Rightarrow> bool" where
  "org_active org d \<longleftrightarrow> list_ex (\<lambda>g. org_id g = org \<and> org_state g = Some ''active'') (organizations d)"

subsection \<open>Marks and tags\<close>

definition mark_package_docs :: "time \<Rightarrow> (package_row \<Rightarrow> bool) \<Rightarrow> db \<Rightarrow> db" where
  "mark_package_docs now P d =
    d\<lparr>packages := update_where (\<lambda>p. P p \<and> pkg_state p = Some ''active'')
        (\<lambda>p. p\<lparr>pkg_doc_sync_due_at := Some now\<rparr>) (packages d)\<rparr>"

definition mark_package_resource_docs :: "time \<Rightarrow> bool \<Rightarrow> uuid \<Rightarrow> db \<Rightarrow> db" where
  "mark_package_resource_docs now embeddings pid d =
    d\<lparr>resources := update_where (\<lambda>r. res_package r = pid \<and> res_state r = Some ''active'')
        (\<lambda>r. r\<lparr>res_doc_sync_due_at := Some now,
               res_embedding_due_at := (if embeddings then Some now else res_embedding_due_at r)\<rparr>) (resources d)\<rparr>"

definition mark_package_resource_embeddings :: "time \<Rightarrow> uuid \<Rightarrow> db \<Rightarrow> db" where
  "mark_package_resource_embeddings now pid d =
    d\<lparr>resources := update_where (\<lambda>r. res_package r = pid \<and> res_state r = Some ''active'')
        (\<lambda>r. r\<lparr>res_embedding_due_at := Some now\<rparr>) (resources d)\<rparr>"

definition mark_for_sync_retry :: "time \<Rightarrow> uuid \<Rightarrow> db \<Rightarrow> db" where
  "mark_for_sync_retry now pid d =
    mark_package_resource_docs now False pid (mark_package_docs now (\<lambda>p. pkg_id p = pid) d)"

definition delete_orphan_free_tags :: "db \<Rightarrow> db" where
  "delete_orphan_free_tags d =
    d\<lparr>tag_rows := delete_where (\<lambda>t. tag_vocabulary t = None \<and> tag_id t \<notin> snd ` set (package_tags d)) (tag_rows d)\<rparr>"

definition find_or_create_tag :: "(string \<Rightarrow> uuid) \<Rightarrow> string \<Rightarrow> db \<Rightarrow> uuid \<times> db" where
  "find_or_create_tag mint name d =
    (case select_where (\<lambda>t. tag_name t = name \<and> tag_vocabulary t = None) (tag_rows d) of
       t # _ \<Rightarrow> (tag_id t, d)
     | [] \<Rightarrow> (mint name, d\<lparr>tag_rows := tag_rows d @ [\<lparr>tag_id = mint name, tag_name = name, tag_vocabulary = None\<rparr>]\<rparr>))"

fun link_tags :: "(string \<Rightarrow> uuid) \<Rightarrow> uuid \<Rightarrow> string list \<Rightarrow> db \<Rightarrow> (catalog_error + uuid list) \<times> db" where
  "link_tags mint pid [] d = (Inr [], d)"
| "link_tags mint pid (t # ts) d =
    (let (i, d1) = find_or_create_tag mint t d
     in if (pid, i) \<in> set (package_tags d1) then (Inl Unique_Violation, d1)
        else case link_tags mint pid ts (d1\<lparr>package_tags := package_tags d1 @ [(pid, i)]\<rparr>) of
               (Inl e, d2) \<Rightarrow> (Inl e, d2)
             | (Inr is, d2) \<Rightarrow> (Inr (i # is), d2))"

fun link_groups :: "uuid \<Rightarrow> string list \<Rightarrow> db \<Rightarrow> (catalog_error + unit) \<times> db" where
  "link_groups pid [] d = (Inr (), d)"
| "link_groups pid (g # gs) d =
    (case select_where (\<lambda>r. grp_name r = g \<and> grp_state r = Some ''active'') (group_rows d) of
       [] \<Rightarrow> (Inl (Group_Missing g), d)
     | r # _ \<Rightarrow> if (pid, grp_id r) \<in> set (package_groups d) then (Inl Unique_Violation, d)
                else link_groups pid gs (d\<lparr>package_groups := package_groups d @ [(pid, grp_id r)]\<rparr>))"

text \<open>\<open>db.transaction\<close>: what the body wrote is undone when it throws.\<close>

definition transaction :: "(db \<Rightarrow> (catalog_error + 'a) \<times> db) \<Rightarrow> db \<Rightarrow> (catalog_error + 'a) \<times> db" where
  "transaction body d = (case body d of (Inl e, _) \<Rightarrow> (Inl e, d) | (Inr a, d') \<Rightarrow> (Inr a, d'))"

subsection \<open>Creating\<close>

record minted =
  mint_package :: uuid
  mint_tag :: "string \<Rightarrow> uuid"
  mint_resources :: "(uuid \<times> uuid) list"
  mint_names :: "8 word list list"

definition new_package :: "time \<Rightarrow> uuid \<Rightarrow> package_input \<Rightarrow> string \<Rightarrow> string \<Rightarrow> string option \<Rightarrow> package_row" where
  "new_package now i input name state creator =
    \<lparr>pkg_id = i, pkg_name = name, pkg_title = or_else None (in_title input), pkg_notes = or_else None (in_notes input),
     pkg_url = or_else None (in_url input), pkg_version = or_else None (in_version input),
     pkg_license = or_else None (in_license input), pkg_author = or_else None (in_author input),
     pkg_author_email = or_else None (in_author_email input), pkg_maintainer = or_else None (in_maintainer input),
     pkg_maintainer_email = or_else None (in_maintainer_email input), pkg_state = Some state,
     pkg_type = Some (or_else ''dataset'' (in_type input)), pkg_owner_org = or_else None (in_owner_org input),
     pkg_private = or_else False (in_private input), pkg_creator = creator,
     pkg_extras = or_else (JObj []) (in_extras input),
     pkg_doc_sync_due_at = (if state \<noteq> ''draft'' then Some now else None), pkg_created = now, pkg_updated = now\<rparr>"

definition org_refused :: "uuid option \<Rightarrow> (uuid \<Rightarrow> catalog_error) \<Rightarrow> db \<Rightarrow> catalog_error option" where
  "org_refused org e d =
    (case org of None \<Rightarrow> None | Some g \<Rightarrow> if org_active g d then None else Some (e g))"

definition link_all ::
  "(string \<Rightarrow> string) \<Rightarrow> time \<Rightarrow> minted \<Rightarrow> package_input \<Rightarrow> package_row \<Rightarrow> db
    \<Rightarrow> (catalog_error + package_row) \<times> db" where
  "link_all normal now m input p d =
    (case link_tags (mint_tag m) (pkg_id p) (or_else [] (in_tags input)) d of
       (Inl e, d1) \<Rightarrow> (Inl e, d1)
     | (Inr _, d1) \<Rightarrow>
         (case link_groups (pkg_id p) (or_else [] (in_groups input)) d1 of
            (Inl e, d2) \<Rightarrow> (Inl e, d2)
          | (Inr _, d2) \<Rightarrow>
              (case create_many normal now (mint_resources m) (pkg_id p) (or_else [] (in_resources input)) d2 of
                 (Inl e, d3) \<Rightarrow> (Inl e, d3)
               | (Inr _, d3) \<Rightarrow> (Inr p, d3))))"

definition insert_package ::
  "(string \<Rightarrow> string) \<Rightarrow> time \<Rightarrow> minted \<Rightarrow> package_input \<Rightarrow> string \<Rightarrow> string \<Rightarrow> string option \<Rightarrow> db
    \<Rightarrow> (catalog_error + package_row) \<times> db" where
  "insert_package normal now m input name state creator d =
    (if name_taken name d then (Inl (Name_Taken name), d)
     else case org_refused (or_else None (in_owner_org input)) Organization_Missing d of
            Some e \<Rightarrow> (Inl e, d)
          | None \<Rightarrow>
              (let p = new_package now (mint_package m) input name state creator
               in link_all normal now m input p (d\<lparr>packages := packages d @ [p]\<rparr>)))"

definition name_sent :: "package_input \<Rightarrow> string" where
  "name_sent input = (case or_else None (in_name input) of None \<Rightarrow> '''' | Some n \<Rightarrow> n)"

definition create_package ::
  "(string \<Rightarrow> string) \<Rightarrow> time \<Rightarrow> minted \<Rightarrow> package_input \<Rightarrow> string option \<Rightarrow> db
    \<Rightarrow> (catalog_error + package_row) \<times> db" where
  "create_package normal now m input creator =
    transaction (insert_package normal now m input (name_sent input) ''active'' creator)"

definition generate_unique_placeholder_name :: "8 word list list \<Rightarrow> db \<Rightarrow> catalog_error + string" where
  "generate_unique_placeholder_name names d =
    (case List.find (\<lambda>n. \<not> name_taken n d) (map generate_draft_package_name (take 3 names)) of
       None \<Rightarrow> Inl Names_Exhausted
     | Some n \<Rightarrow> Inr n)"

definition create_draft ::
  "(string \<Rightarrow> string) \<Rightarrow> time \<Rightarrow> minted \<Rightarrow> package_input \<Rightarrow> string \<Rightarrow> db
    \<Rightarrow> (catalog_error + package_row) \<times> db" where
  "create_draft normal now m input creator d =
    transaction (\<lambda>d.
      (case (if name_sent input \<noteq> '''' then Inr (name_sent input)
             else generate_unique_placeholder_name (mint_names m) d) of
         Inl e \<Rightarrow> (Inl e, d)
       | Inr name \<Rightarrow> insert_package normal now m input name ''draft'' (Some creator) d)) d"

subsection \<open>Editing\<close>

text \<open>A PUT replaces a published dataset's fields whole, and sets a draft's that are in the request.\<close>

definition replaced_package :: "time \<Rightarrow> package_input \<Rightarrow> package_row \<Rightarrow> package_row" where
  "replaced_package now input p =
    p\<lparr>pkg_name := name_sent input, pkg_title := or_else None (in_title input), pkg_notes := or_else None (in_notes input),
      pkg_url := or_else None (in_url input), pkg_version := or_else None (in_version input),
      pkg_license := or_else None (in_license input), pkg_author := or_else None (in_author input),
      pkg_author_email := or_else None (in_author_email input), pkg_maintainer := or_else None (in_maintainer input),
      pkg_maintainer_email := or_else None (in_maintainer_email input), pkg_owner_org := or_else None (in_owner_org input),
      pkg_private := or_else False (in_private input), pkg_type := Some (or_else ''dataset'' (in_type input)),
      pkg_extras := or_else (JObj []) (in_extras input), pkg_updated := now, pkg_doc_sync_due_at := Some now\<rparr>"

definition patched_package :: "time \<Rightarrow> string option \<Rightarrow> package_input \<Rightarrow> package_row \<Rightarrow> package_row" where
  "patched_package now name input p =
    p\<lparr>pkg_name := (case name of None \<Rightarrow> pkg_name p | Some n \<Rightarrow> n),
      pkg_title := or_else (pkg_title p) (in_title input), pkg_notes := or_else (pkg_notes p) (in_notes input),
      pkg_url := or_else (pkg_url p) (in_url input), pkg_version := or_else (pkg_version p) (in_version input),
      pkg_license := or_else (pkg_license p) (in_license input), pkg_author := or_else (pkg_author p) (in_author input),
      pkg_author_email := or_else (pkg_author_email p) (in_author_email input),
      pkg_maintainer := or_else (pkg_maintainer p) (in_maintainer input),
      pkg_maintainer_email := or_else (pkg_maintainer_email p) (in_maintainer_email input),
      pkg_owner_org := or_else (pkg_owner_org p) (in_owner_org input),
      pkg_private := or_else (pkg_private p) (in_private input),
      pkg_type := (case in_type input of Unsent \<Rightarrow> pkg_type p | Sent t \<Rightarrow> Some t),
      pkg_extras := or_else (pkg_extras p) (in_extras input), pkg_updated := now, pkg_doc_sync_due_at := Some now\<rparr>"

definition is_draft :: "package_row \<Rightarrow> bool" where
  "is_draft p \<longleftrightarrow> pkg_state p = Some ''draft''"

definition update_refused :: "package_input \<Rightarrow> package_row \<Rightarrow> db \<Rightarrow> catalog_error option" where
  "update_refused input p d =
    (let org = or_else None (in_owner_org input)
     in if pkg_state p = Some ''active'' \<and> (name_sent input = '''' \<or> org = None) then Some Name_And_Org_Required
        else if name_sent input \<noteq> '''' \<and> name_sent input \<noteq> pkg_name p \<and> name_taken (name_sent input) d
             then Some (Name_Taken (name_sent input))
        else if org \<noteq> pkg_owner_org p then org_refused org Organization_Missing d
        else None)"

definition new_name :: "minted \<Rightarrow> package_input \<Rightarrow> package_row \<Rightarrow> db \<Rightarrow> catalog_error + string option" where
  "new_name m input p d =
    (if is_draft p \<and> in_name input = Sent None
     then map_sum id Some (generate_unique_placeholder_name (mint_names m) d)
     else Inr (or_else None (in_name input)))"

definition relink_tags ::
  "(string \<Rightarrow> uuid) \<Rightarrow> uuid \<Rightarrow> string list \<Rightarrow> db \<Rightarrow> (catalog_error + bool) \<times> db" where
  "relink_tags mint pid tags d =
    (let before = map snd (select_where (\<lambda>l. fst l = pid) (package_tags d));
         d1 = d\<lparr>package_tags := delete_where (\<lambda>l. fst l = pid) (package_tags d)\<rparr>
     in case link_tags mint pid tags d1 of
          (Inl e, d2) \<Rightarrow> (Inl e, d2)
        | (Inr after, d2) \<Rightarrow>
            (Inr (length after \<noteq> card (set before) \<or> (\<exists>i \<in> set after. i \<notin> set before)),
             delete_orphan_free_tags d2))"

definition relink_groups :: "uuid \<Rightarrow> string list \<Rightarrow> db \<Rightarrow> (catalog_error + unit) \<times> db" where
  "relink_groups pid groups d =
    link_groups pid groups (d\<lparr>package_groups := delete_where (\<lambda>l. fst l = pid) (package_groups d)\<rparr>)"

definition relinked ::
  "minted \<Rightarrow> package_input \<Rightarrow> bool \<Rightarrow> uuid \<Rightarrow> db \<Rightarrow> (catalog_error + bool) \<times> db" where
  "relinked m input draft pid d =
    (case (case in_tags input of
             Unsent \<Rightarrow> if draft then (Inr False, d) else relink_tags (mint_tag m) pid [] d
           | Sent tags \<Rightarrow> relink_tags (mint_tag m) pid tags d) of
       (Inl e, d1) \<Rightarrow> (Inl e, d1)
     | (Inr changed, d1) \<Rightarrow>
         (case (case in_groups input of
                  Unsent \<Rightarrow> if draft then (Inr (), d1) else relink_groups pid [] d1
                | Sent groups \<Rightarrow> relink_groups pid groups d1) of
            (Inl e, d2) \<Rightarrow> (Inl e, d2)
          | (Inr _, d2) \<Rightarrow> (Inr changed, d2)))"

definition edited :: "time \<Rightarrow> string option \<Rightarrow> package_input \<Rightarrow> package_row \<Rightarrow> package_row" where
  "edited now name input p =
    (if is_draft p then patched_package now name input p else replaced_package now input p)"

definition update_body ::
  "time \<Rightarrow> minted \<Rightarrow> authorize \<Rightarrow> (string \<Rightarrow> uuid option) \<Rightarrow> string \<Rightarrow> package_input \<Rightarrow> db
    \<Rightarrow> (catalog_error + package_row) \<times> db" where
  "update_body now m authorize as_uuid s input d =
    (case authorized authorize as_uuid s [''active'', ''draft''] d of
       Inl e \<Rightarrow> (Inl e, d)
     | Inr p \<Rightarrow>
         (case update_refused input p d of
            Some e \<Rightarrow> (Inl e, d)
          | None \<Rightarrow>
              (case new_name m input p d of
                 Inl e \<Rightarrow> (Inl e, d)
               | Inr name \<Rightarrow>
                   (let q = edited now name input p;
                        d1 = d\<lparr>packages := update_where (\<lambda>x. pkg_id x = pkg_id p) (\<lambda>_. q) (packages d)\<rparr>
                    in case relinked m input (is_draft p) (pkg_id p) d1 of
                         (Inl e, d2) \<Rightarrow> (Inl e, d2)
                       | (Inr changed, d2) \<Rightarrow>
                           (Inr q, if \<not> is_draft p \<and> (changed \<or> pkg_title q \<noteq> pkg_title p)
                                   then mark_package_resource_embeddings now (pkg_id p) d2 else d2)))))"

definition update_package ::
  "time \<Rightarrow> minted \<Rightarrow> authorize \<Rightarrow> (string \<Rightarrow> uuid option) \<Rightarrow> string \<Rightarrow> package_input \<Rightarrow> db
    \<Rightarrow> (catalog_error + package_row) \<times> db" where
  "update_package now m authorize as_uuid s input = transaction (update_body now m authorize as_uuid s input)"

subsection \<open>The trash and back\<close>

definition set_package :: "uuid \<Rightarrow> (package_row \<Rightarrow> package_row) \<Rightarrow> db \<Rightarrow> db" where
  "set_package i f d = d\<lparr>packages := update_where (\<lambda>p. pkg_id p = i) f (packages d)\<rparr>"

definition moved :: "time \<Rightarrow> string \<Rightarrow> package_row \<Rightarrow> package_row" where
  "moved now state p = p\<lparr>pkg_state := Some state, pkg_updated := now, pkg_doc_sync_due_at := Some now\<rparr>"

definition delete_package ::
  "time \<Rightarrow> authorize \<Rightarrow> (string \<Rightarrow> uuid option) \<Rightarrow> string \<Rightarrow> db \<Rightarrow> (catalog_error + package_row) \<times> db" where
  "delete_package now authorize as_uuid s = transaction (\<lambda>d.
    (case authorized authorize as_uuid s [''active''] d of
       Inl e \<Rightarrow> (Inl e, d)
     | Inr p \<Rightarrow> (Inr (moved now ''deleted'' p),
         mark_package_resource_docs now False (pkg_id p) (set_package (pkg_id p) (moved now ''deleted'') d))))"

definition restored :: "time \<Rightarrow> bool sent \<Rightarrow> package_row \<Rightarrow> package_row" where
  "restored now private p = (moved now ''active'' p)\<lparr>pkg_private := or_else (pkg_private p) private\<rparr>"

definition restore_package ::
  "time \<Rightarrow> authorize \<Rightarrow> (string \<Rightarrow> uuid option) \<Rightarrow> string \<Rightarrow> bool sent \<Rightarrow> db \<Rightarrow> (catalog_error + package_row) \<times> db" where
  "restore_package now authorize as_uuid s private = transaction (\<lambda>d.
    (case authorized authorize as_uuid s [''deleted'', ''active''] d of
       Inl e \<Rightarrow> (Inl e, d)
     | Inr p \<Rightarrow>
         if pkg_state p = Some ''active'' then (Inr p, mark_for_sync_retry now (pkg_id p) d)
         else case org_refused (pkg_owner_org p) (\<lambda>_. Organization_Inactive) d of
                Some e \<Rightarrow> (Inl e, d)
              | None \<Rightarrow> (Inr (restored now private p),
                  mark_package_resource_docs now True (pkg_id p) (set_package (pkg_id p) (restored now private) d))))"

subsection \<open>Publishing a draft\<close>

definition publish_package ::
  "time \<Rightarrow> authorize \<Rightarrow> (string \<Rightarrow> uuid option) \<Rightarrow> string \<Rightarrow> db \<Rightarrow> (catalog_error + package_row) \<times> db" where
  "publish_package now authorize as_uuid s = transaction (\<lambda>d.
    (case authorized authorize as_uuid s [''draft'', ''active''] d of
       Inl e \<Rightarrow> (Inl e, d)
     | Inr p \<Rightarrow>
         if pkg_state p = Some ''active'' then (Inr p, mark_for_sync_retry now (pkg_id p) d)
         else if draft_publish_blockers p \<noteq> [] then (Inl (Publish_Blocked (draft_publish_blockers p)), d)
         else case org_refused (pkg_owner_org p) (\<lambda>_. Organization_Inactive) d of
                Some e \<Rightarrow> (Inl e, d)
              | None \<Rightarrow>
                  if select_where (\<lambda>x. pkg_id x = pkg_id p \<and> pkg_state x = Some ''draft'') (packages d) = []
                  then (Inl State_Changed, d)
                  else (Inr (moved now ''active'' p),
                    mark_package_resource_docs now True (pkg_id p)
                      (d\<lparr>packages := update_where (\<lambda>x. pkg_id x = pkg_id p \<and> pkg_state x = Some ''draft'')
                            (moved now ''active'') (packages d)\<rparr>))))"

subsection \<open>What a purge removes outside the tables\<close>

datatype site_job = Purge_Organization uuid | Drop_Lakes "uuid list" | No_Payload

record site =
  site_db :: db
  site_queue :: "site_job queue"
  site_docs :: "uuid list"
  site_objects :: "key list"

text \<open>
  The search index fails for a dataset as \<open>search_error\<close> says - \<open>True\<close>: it cannot be written,
  \<open>isSearchWriteUnavailable\<close> - and is \<open>None\<close> where it is not configured. A deletion by prefix
  that fails leaves the keys of \<open>survives\<close>.
\<close>

record outside =
  search :: "(uuid \<Rightarrow> bool option) option"
  storage_fails :: "string \<Rightarrow> bool"
  survives :: "key \<Rightarrow> bool"
  uuid_text :: "uuid \<Rightarrow> string"

definition RESOURCE_PREFIX :: string where "RESOURCE_PREFIX = ''resources/''"
definition PREVIEW_PREFIX :: string where "PREVIEW_PREFIX = ''previews/''"
definition LAKE_PREFIX :: string where "LAKE_PREFIX = ''lake/''"

definition list_purge_targets :: "db \<Rightarrow> uuid list \<Rightarrow> uuid list" where
  "list_purge_targets d pids =
    (if pids = [] then [] else map res_id (select_where (\<lambda>r. res_package r \<in> set pids) (resources d)))"

fun delete_docs :: "(uuid \<Rightarrow> bool option) \<Rightarrow> uuid list \<Rightarrow> site \<Rightarrow> (catalog_error + unit) \<times> site" where
  "delete_docs index [] w = (Inr (), w)"
| "delete_docs index (i # is) w =
    (case index i of
       Some unavailable \<Rightarrow> (Inl (if unavailable then Search_Unavailable else Search_Failed), w)
     | None \<Rightarrow> delete_docs index is (w\<lparr>site_docs := filter (\<lambda>j. j \<noteq> i) (site_docs w)\<rparr>))"

definition purge_packages_search_docs ::
  "outside \<Rightarrow> string option \<Rightarrow> uuid list \<Rightarrow> site \<Rightarrow> (catalog_error + unit) \<times> site" where
  "purge_packages_search_docs x while_state pids w =
    (case search x of
       None \<Rightarrow> (Inr (), w)
     | Some index \<Rightarrow>
         if pids = [] then (Inr (), w)
         else if while_state \<noteq> None
           \<and> length (select_where (\<lambda>p. pkg_id p \<in> set pids \<and> pkg_state p = while_state) (packages (site_db w))) < length pids
         then (Inl State_Changed, w)
         else delete_docs index pids w)"

definition delete_by_prefix :: "outside \<Rightarrow> string \<Rightarrow> key list \<Rightarrow> key list" where
  "delete_by_prefix x pre ks = filter (\<lambda>k. prefix pre k \<longrightarrow> storage_fails x pre \<and> survives x k) ks"

definition package_prefixes :: "outside \<Rightarrow> uuid \<Rightarrow> string list" where
  "package_prefixes x pid =
    [RESOURCE_PREFIX @ uuid_text x pid @ ''/'', PREVIEW_PREFIX @ uuid_text x pid @ ''/'']"

definition purge_package_storage :: "outside \<Rightarrow> uuid \<Rightarrow> site \<Rightarrow> (catalog_error + unit) \<times> site" where
  "purge_package_storage x pid w =
    (if list_ex (storage_fails x) (package_prefixes x pid) then Inl Storage_Failed else Inr (),
     w\<lparr>site_objects := fold (delete_by_prefix x) (package_prefixes x pid) (site_objects w)\<rparr>)"

definition purge_package_externals :: "outside \<Rightarrow> uuid \<Rightarrow> site \<Rightarrow> (catalog_error + unit) \<times> site" where
  "purge_package_externals x pid w =
    (case purge_packages_search_docs x None [pid] w of
       (Inl e, w1) \<Rightarrow> (Inl e, w1)
     | (Inr _, w1) \<Rightarrow> purge_package_storage x pid w1)"

text \<open>A deleted row takes with it what references it (\<open>onDelete: 'cascade'\<close>).\<close>

definition delete_packages :: "(package_row \<Rightarrow> bool) \<Rightarrow> db \<Rightarrow> db" where
  "delete_packages P d =
    (let gone = pkg_id ` {p \<in> set (packages d). P p};
         rids = res_id ` {r \<in> set (resources d). res_package r \<in> gone};
         plids = pl_id ` {p \<in> set (pipelines d). pl_resource p \<in> rids}
     in d\<lparr>packages := delete_where P (packages d),
          resources := delete_where (\<lambda>r. res_package r \<in> gone) (resources d),
          pipelines := delete_where (\<lambda>p. pl_resource p \<in> rids) (pipelines d),
          steps := delete_where (\<lambda>s. st_pipeline s \<in> plids) (steps d),
          versions := delete_where (\<lambda>v. ver_resource v \<in> rids) (versions d),
          package_tags := delete_where (\<lambda>l. fst l \<in> gone) (package_tags d),
          package_groups := delete_where (\<lambda>l. fst l \<in> gone) (package_groups d)\<rparr>)"

definition DROP_LAKE_TABLES_JOB_TYPE :: string where "DROP_LAKE_TABLES_JOB_TYPE = ''drop-lake-tables''"

definition plain_options :: "nat option \<Rightarrow> enqueue_options" where
  "plain_options tx = \<lparr>delay_seconds = None, opt_priority = None, opt_tx = tx, unless_waiting = False\<rparr>"

definition queue_lakes_deletion :: "time \<Rightarrow> uuid \<Rightarrow> nat \<Rightarrow> uuid list \<Rightarrow> site_job queue \<Rightarrow> site_job queue" where
  "queue_lakes_deletion now job tx rids q =
    (if rids = [] then q
     else snd (enqueue No_Payload now None [] job DROP_LAKE_TABLES_JOB_TYPE (Some (Drop_Lakes rids))
                 (plain_options (Some tx)) q))"

subsection \<open>Purging\<close>

text \<open>The rows of one dataset go only in the state the purge claimed them in.\<close>

definition purge_rows ::
  "time \<Rightarrow> uuid \<Rightarrow> nat \<Rightarrow> string \<Rightarrow> uuid \<Rightarrow> uuid list \<Rightarrow> site \<Rightarrow> (catalog_error + package_row) \<times> site" where
  "purge_rows now job tx state pid rids w =
    (let hit = (\<lambda>p. pkg_id p = pid \<and> pkg_state p = Some state)
     in case select_where hit (packages (site_db w)) of
          [] \<Rightarrow> (Inl State_Changed, w)
        | p # _ \<Rightarrow>
            (case queue_transaction tx
                (\<lambda>tx q. (Inr p :: catalog_error + package_row, queue_lakes_deletion now job tx rids q)) (site_queue w) of
               (r, q) \<Rightarrow> (r, w\<lparr>site_db := delete_orphan_free_tags (delete_packages hit (site_db w)), site_queue := q\<rparr>)))"

text \<open>A body run under the claims of the resources, on the whole site.\<close>

definition under_claims ::
  "time \<Rightarrow> (uuid \<Rightarrow> uuid) \<Rightarrow> uuid \<Rightarrow> uuid list \<Rightarrow> (site \<Rightarrow> (catalog_error + 'a) \<times> site) \<Rightarrow> site
    \<Rightarrow> (catalog_error + 'a) \<times> site" where
  "under_claims now mint owner rids body w =
    (case with_resource_claims_or_conflict now mint owner rids
        (\<lambda>_ d. let (r, w') = body (w\<lparr>site_db := d\<rparr>) in (Inr (r, w'), site_db w')) (site_db w) of
       (Inr (r, w'), d) \<Rightarrow> (r, w'\<lparr>site_db := d\<rparr>)
     | (Inl (Conflict _ i), d) \<Rightarrow> (Inl (Being_Processed i), w\<lparr>site_db := d\<rparr>)
     | (Inl (Failed e), d) \<Rightarrow> (Inl e, w\<lparr>site_db := d\<rparr>))"

definition purge_body ::
  "time \<Rightarrow> uuid \<Rightarrow> nat \<Rightarrow> outside \<Rightarrow> uuid \<Rightarrow> uuid list \<Rightarrow> site \<Rightarrow> (catalog_error + package_row) \<times> site" where
  "purge_body now job tx x pid rids w =
    (case purge_packages_search_docs x (Some ''deleted'') [pid] w of
       (Inl e, w1) \<Rightarrow> (Inl e, w1)
     | (Inr _, w1) \<Rightarrow>
         (case purge_rows now job tx ''deleted'' pid rids w1 of
            (Inl e, w2) \<Rightarrow> (Inl e, w2)
          | (Inr p, w2) \<Rightarrow>
              (case purge_package_storage x pid w2 of
                 (Inl e, w3) \<Rightarrow> (Inl e, w3)
               | (Inr _, w3) \<Rightarrow> (Inr p, w3))))"

definition purge_package ::
  "time \<Rightarrow> (uuid \<Rightarrow> uuid) \<Rightarrow> uuid \<Rightarrow> uuid \<Rightarrow> nat \<Rightarrow> outside \<Rightarrow> authorize \<Rightarrow> (string \<Rightarrow> uuid option) \<Rightarrow> string \<Rightarrow> site
    \<Rightarrow> (catalog_error + package_row) \<times> site" where
  "purge_package now mint owner job tx x authorize as_uuid s w =
    (case authorized authorize as_uuid s [''deleted''] (site_db w) of
       Inl e \<Rightarrow> (Inl e, w)
     | Inr p \<Rightarrow>
         (let rids = list_purge_targets (site_db w) [pkg_id p]
          in under_claims now mint owner rids (purge_body now job tx x (pkg_id p) rids) w))"

definition claim_draft_for_purge ::
  "authorize \<Rightarrow> (string \<Rightarrow> uuid option) \<Rightarrow> string \<Rightarrow> db \<Rightarrow> (catalog_error + package_row) \<times> db" where
  "claim_draft_for_purge authorize as_uuid s d =
    (case authorized authorize as_uuid s [''draft'', ''purging''] d of
       Inl e \<Rightarrow> (Inl e, d)
     | Inr p \<Rightarrow>
         (let hit = (\<lambda>x. pkg_id x = pkg_id p \<and> pkg_state x \<in> {Some ''draft'', Some ''purging''});
              claim = (\<lambda>x. x\<lparr>pkg_state := Some ''purging''\<rparr>)
          in case select_where hit (packages d) of
               [] \<Rightarrow> (Inl State_Changed, d)
             | y # _ \<Rightarrow> (Inr (claim y), d\<lparr>packages := update_where hit claim (packages d)\<rparr>)))"

definition finalize_draft_purge ::
  "time \<Rightarrow> uuid \<Rightarrow> nat \<Rightarrow> uuid \<Rightarrow> uuid list \<Rightarrow> site \<Rightarrow> (catalog_error + package_row) \<times> site" where
  "finalize_draft_purge now job tx pid rids w = purge_rows now job tx ''purging'' pid rids w"

definition purge_draft_body ::
  "time \<Rightarrow> uuid \<Rightarrow> nat \<Rightarrow> outside \<Rightarrow> uuid \<Rightarrow> uuid list \<Rightarrow> site \<Rightarrow> (catalog_error + package_row) \<times> site" where
  "purge_draft_body now job tx x pid rids w =
    (case purge_package_externals x pid w of
       (Inl e, w1) \<Rightarrow> (Inl e, w1)
     | (Inr _, w1) \<Rightarrow> finalize_draft_purge now job tx pid rids w1)"

definition purge_draft ::
  "time \<Rightarrow> (uuid \<Rightarrow> uuid) \<Rightarrow> uuid \<Rightarrow> uuid \<Rightarrow> nat \<Rightarrow> outside \<Rightarrow> authorize \<Rightarrow> (string \<Rightarrow> uuid option) \<Rightarrow> string \<Rightarrow> site
    \<Rightarrow> (catalog_error + package_row) \<times> site" where
  "purge_draft now mint owner job tx x authorize as_uuid s w =
    (case claim_draft_for_purge authorize as_uuid s (site_db w) of
       (Inl e, d) \<Rightarrow> (Inl e, w\<lparr>site_db := d\<rparr>)
     | (Inr p, d) \<Rightarrow>
         (let w1 = w\<lparr>site_db := d\<rparr>; rids = list_purge_targets d [pkg_id p]
          in under_claims now mint owner rids (purge_draft_body now job tx x (pkg_id p) rids) w1))"

end
