(* ===== verification/Organization_Service.thy ===== *)
theory Organization_Service
  imports Package_Service
begin

text \<open>
  Organizations (\<open>packages/api/src/services/organization-service.ts\<close>): created, renamed, deleted to
  the trash and restored, and purged by a job that first claims the organization by moving it to
  \<open>purging\<close>. Statements outside a transaction are steps of their own; where a method reads and
  writes in one, both are here one step.
\<close>

definition EXTERNALS_CLEANUP_CONCURRENCY :: nat where "EXTERNALS_CLEANUP_CONCURRENCY = 8"

definition PURGE_ORG_JOB_TYPE :: string where "PURGE_ORG_JOB_TYPE = ''purge-organization''"

record organization_input =
  oi_name :: string
  oi_title :: "string option"
  oi_description :: "string option"
  oi_image_url :: "string option"
  oi_extras :: json

definition get_organization ::
  "(string \<Rightarrow> uuid option) \<Rightarrow> string \<Rightarrow> string \<Rightarrow> db \<Rightarrow> catalog_error + organization_row" where
  "get_organization as_uuid s state d =
    (case sort_key (\<lambda>g. if Some (org_id g) = as_uuid s then 0 else 1 :: nat)
        (select_where (\<lambda>g. (org_name g = s \<or> Some (org_id g) = as_uuid s) \<and> org_state g = Some state) (organizations d)) of
       [] \<Rightarrow> Inl (Organization_Unknown s)
     | g # _ \<Rightarrow> Inr g)"

definition count_active_packages :: "uuid \<Rightarrow> auth_user option \<Rightarrow> db \<Rightarrow> nat" where
  "count_active_packages org viewer d =
    length (select_where (\<lambda>p. pkg_owner_org p = Some org \<and> pkg_state p = Some ''active''
      \<and> selects (package_visibility (org_members d) viewer) p) (packages d))"

definition create_organization ::
  "time \<Rightarrow> uuid \<Rightarrow> organization_input \<Rightarrow> db \<Rightarrow> (catalog_error + organization_row) \<times> db" where
  "create_organization now i input d =
    (if list_ex (\<lambda>g. org_name g = oi_name input) (organizations d) then (Inl (Name_Taken (oi_name input)), d)
     else let g = \<lparr>org_id = i, org_name = oi_name input, org_title = oi_title input,
                   org_description = oi_description input, org_image_url = oi_image_url input,
                   org_state = Some ''active'', org_extras = oi_extras input, org_created = now, org_updated = now\<rparr>
          in (Inr g, d\<lparr>organizations := organizations d @ [g]\<rparr>))"

text \<open>A second organization of the name is refused by the unique constraint, not by the method.\<close>

definition update_organization ::
  "time \<Rightarrow> (string \<Rightarrow> uuid option) \<Rightarrow> string \<Rightarrow> organization_input \<Rightarrow> db \<Rightarrow> (catalog_error + organization_row) \<times> db" where
  "update_organization now as_uuid s input d =
    (case get_organization as_uuid s ''active'' d of
       Inl e \<Rightarrow> (Inl e, d)
     | Inr g \<Rightarrow>
         if list_ex (\<lambda>h. org_id h \<noteq> org_id g \<and> org_name h = oi_name input) (organizations d)
         then (Inl Unique_Violation, d)
         else (let f = (\<lambda>h. h\<lparr>org_name := oi_name input, org_title := oi_title input, org_description := oi_description input,
                              org_image_url := oi_image_url input, org_extras := oi_extras input, org_updated := now\<rparr>);
                   d1 = (if oi_name input \<noteq> org_name g
                         then mark_package_docs now (\<lambda>p. pkg_owner_org p = Some (org_id g)) d else d)
               in (Inr (f g), d1\<lparr>organizations := update_where (\<lambda>h. org_id h = org_id g) f (organizations d1)\<rparr>)))"

definition assert_no_linked_packages :: "bool \<Rightarrow> uuid \<Rightarrow> db \<Rightarrow> catalog_error option" where
  "assert_no_linked_packages active_only org d =
    (if list_ex (\<lambda>p. pkg_owner_org p = Some org \<and> (active_only \<longrightarrow> pkg_state p = Some ''active'')) (packages d)
     then Some Still_Linked else None)"

definition set_org_state :: "time \<Rightarrow> uuid \<Rightarrow> string \<Rightarrow> db \<Rightarrow> db" where
  "set_org_state now org state d =
    d\<lparr>organizations := update_where (\<lambda>g. org_id g = org)
        (\<lambda>g. g\<lparr>org_state := Some state, org_updated := now\<rparr>) (organizations d)\<rparr>"

definition delete_organization ::
  "time \<Rightarrow> (string \<Rightarrow> uuid option) \<Rightarrow> string \<Rightarrow> db \<Rightarrow> (catalog_error + unit) \<times> db" where
  "delete_organization now as_uuid s d =
    (case get_organization as_uuid s ''active'' d of
       Inl e \<Rightarrow> (Inl e, d)
     | Inr g \<Rightarrow>
         (case assert_no_linked_packages True (org_id g) d of
            Some e \<Rightarrow> (Inl e, d)
          | None \<Rightarrow> (Inr (), set_org_state now (org_id g) ''deleted'' d)))"

definition restore_organization :: "time \<Rightarrow> uuid \<Rightarrow> db \<Rightarrow> (catalog_error + unit) \<times> db" where
  "restore_organization now org d =
    (if list_ex (\<lambda>g. org_id g = org \<and> org_state g = Some ''deleted'') (organizations d)
     then (Inr (), d\<lparr>organizations := update_where (\<lambda>g. org_id g = org \<and> org_state g = Some ''deleted'')
             (\<lambda>g. g\<lparr>org_state := Some ''active'', org_updated := now\<rparr>) (organizations d)\<rparr>)
     else (Inl (Organization_Missing org), d))"

subsection \<open>Purging\<close>

definition request_purge :: "time \<Rightarrow> uuid \<Rightarrow> uuid \<Rightarrow> site \<Rightarrow> (catalog_error + unit) \<times> site" where
  "request_purge now job org w =
    (case assert_no_linked_packages True org (site_db w) of
       Some e \<Rightarrow> (Inl e, w)
     | None \<Rightarrow> (Inr (), w\<lparr>site_queue := snd (enqueue No_Payload now None [] job PURGE_ORG_JOB_TYPE
                  (Some (Purge_Organization org)) (plain_options None) (site_queue w))\<rparr>))"

fun org_of :: "site_job \<Rightarrow> uuid list" where
  "org_of (Purge_Organization g) = [g]"
| "org_of _ = []"

text \<open>
  \<open>skipped\<close> are the organizations whose rows another transaction holds (\<open>SKIP LOCKED\<close>); a
  payload contains another where it is equal to it (\<open>jsonb @>\<close>, an object of one field).
\<close>

definition stranded_orgs :: "uuid list \<Rightarrow> site_job job list \<Rightarrow> db \<Rightarrow> uuid list" where
  "stranded_orgs skipped js d =
    map org_id (select_where (\<lambda>g. org_state g = Some ''purging'' \<and> org_id g \<notin> set skipped
      \<and> \<not> ready_jobs_matching (=) PURGE_ORG_JOB_TYPE (Purge_Organization (org_id g)) js) (organizations d))"

definition queue_stranded_body ::
  "time \<Rightarrow> uuid list \<Rightarrow> uuid list \<Rightarrow> db \<Rightarrow> nat \<Rightarrow> site_job queue
    \<Rightarrow> (catalog_error + nat \<times> nat) \<times> site_job queue" where
  "queue_stranded_body now job_ids skipped d tx q =
    (let stranded = stranded_orgs skipped (jobs q) d;
         (ps, q1) = revive_dead (=) now PURGE_ORG_JOB_TYPE (map Purge_Organization stranded) (Some tx) q;
         revived = concat (map org_of ps);
         queued = filter (\<lambda>g. g \<notin> set revived) stranded
     in (Inr (length queued, length stranded - length queued),
         snd (enqueue_many No_Payload now None job_ids PURGE_ORG_JOB_TYPE
                (map (\<lambda>g. Some (Purge_Organization g)) queued) (plain_options (Some tx)) q1)))"

definition queue_stranded_purges ::
  "time \<Rightarrow> uuid list \<Rightarrow> uuid list \<Rightarrow> nat \<Rightarrow> site \<Rightarrow> (catalog_error + nat \<times> nat) \<times> site" where
  "queue_stranded_purges now job_ids skipped tx w =
    (case queue_transaction tx (queue_stranded_body now job_ids skipped (site_db w)) (site_queue w) of
       (r, q) \<Rightarrow> (r, w\<lparr>site_queue := q\<rparr>))"

text \<open>
  The datasets' traces go eight datasets at a time: their documents, then their objects, every
  deletion of a chunk begun whether or not another fails.
\<close>

definition purge_chunk :: "outside \<Rightarrow> uuid list \<Rightarrow> site \<Rightarrow> (catalog_error + unit) \<times> site" where
  "purge_chunk x chunk w =
    (case purge_packages_search_docs x None chunk w of
       (Inl e, w1) \<Rightarrow> (Inl e, w1)
     | (Inr _, w1) \<Rightarrow>
         (let pres = concat (map (package_prefixes x) chunk)
          in (if list_ex (storage_fails x) pres then Inl Storage_Failed else Inr (),
              w1\<lparr>site_objects := fold (delete_by_prefix x) pres (site_objects w1)\<rparr>)))"

function purge_chunks :: "outside \<Rightarrow> uuid list \<Rightarrow> site \<Rightarrow> (catalog_error + unit) \<times> site" where
  "purge_chunks x pids w =
    (if pids = [] then (Inr (), w)
     else case purge_chunk x (take EXTERNALS_CLEANUP_CONCURRENCY pids) w of
            (Inl e, w1) \<Rightarrow> (Inl e, w1)
          | (Inr _, w1) \<Rightarrow> purge_chunks x (drop EXTERNALS_CLEANUP_CONCURRENCY pids) w1)"
  by pat_completeness auto
termination
  by (relation "measure (\<lambda>(_, pids, _). length pids)") (auto simp: EXTERNALS_CLEANUP_CONCURRENCY_def)

declare purge_chunks.simps [simp del]

definition RESOURCE_LAKE_DELETE_CONCURRENCY :: nat where "RESOURCE_LAKE_DELETE_CONCURRENCY = 8"

definition lake_resource_prefix :: "outside \<Rightarrow> uuid \<Rightarrow> string" where
  "lake_resource_prefix x i = LAKE_PREFIX @ uuid_text x i @ ''/''"

function delete_resource_lakes :: "outside \<Rightarrow> uuid list \<Rightarrow> site \<Rightarrow> (catalog_error + unit) \<times> site" where
  "delete_resource_lakes x rids w =
    (if rids = [] then (Inr (), w)
     else let pres = map (lake_resource_prefix x) (take RESOURCE_LAKE_DELETE_CONCURRENCY rids);
              w1 = w\<lparr>site_objects := fold (delete_by_prefix x) pres (site_objects w)\<rparr>
          in if list_ex (storage_fails x) pres then (Inl Storage_Failed, w1)
             else delete_resource_lakes x (drop RESOURCE_LAKE_DELETE_CONCURRENCY rids) w1)"
  by pat_completeness auto
termination
  by (relation "measure (\<lambda>(_, rids, _). length rids)") (auto simp: RESOURCE_LAKE_DELETE_CONCURRENCY_def)

declare delete_resource_lakes.simps [simp del]

text \<open>The row of an organization that datasets still name is kept by their foreign key.\<close>

definition delete_organization_rows :: "uuid \<Rightarrow> uuid list \<Rightarrow> db \<Rightarrow> (catalog_error + unit) \<times> db" where
  "delete_organization_rows org pids = transaction (\<lambda>d.
    (let d1 = (if pids \<noteq> [] then delete_orphan_free_tags (delete_packages (\<lambda>p. pkg_owner_org p = Some org) d) else d)
     in if list_ex (\<lambda>p. pkg_owner_org p = Some org) (packages d1) then (Inl Foreign_Key_Violation, d1)
        else (Inr (), d1\<lparr>organizations := delete_where (\<lambda>g. org_id g = org) (organizations d1),
                        org_members := delete_where (\<lambda>m. ms_entity m = org) (org_members d1)\<rparr>)))"

definition purge_org_body :: "outside \<Rightarrow> uuid \<Rightarrow> uuid list \<Rightarrow> uuid list \<Rightarrow> site \<Rightarrow> (catalog_error + unit) \<times> site" where
  "purge_org_body x org pids rids w =
    (case purge_chunks x pids w of
       (Inl e, w1) \<Rightarrow> (Inl e, w1)
     | (Inr _, w1) \<Rightarrow>
         (case delete_resource_lakes x rids w1 of
            (Inl e, w2) \<Rightarrow> (Inl e, w2)
          | (Inr _, w2) \<Rightarrow>
              (case delete_organization_rows org pids (site_db w2) of
                 (r, d) \<Rightarrow> (r, w2\<lparr>site_db := d\<rparr>))))"

definition claim_org_for_purge :: "time \<Rightarrow> uuid \<Rightarrow> db \<Rightarrow> bool \<times> db" where
  "claim_org_for_purge now org d =
    (let hit = (\<lambda>g. org_id g = org \<and> org_state g \<in> {Some ''deleted'', Some ''purging''})
     in (list_ex hit (organizations d),
         d\<lparr>organizations := update_where hit (\<lambda>g. g\<lparr>org_state := Some ''purging'', org_updated := now\<rparr>) (organizations d)\<rparr>))"

definition purge_deleted_org ::
  "time \<Rightarrow> (uuid \<Rightarrow> uuid) \<Rightarrow> uuid \<Rightarrow> outside \<Rightarrow> uuid \<Rightarrow> site \<Rightarrow> (catalog_error + bool \<times> nat) \<times> site" where
  "purge_deleted_org now mint owner x org w =
    (case claim_org_for_purge now org (site_db w) of
       (claimed, d1) \<Rightarrow>
         if \<not> claimed then (Inr (False, 0), w)
         else (let pids = map pkg_id (select_where (\<lambda>p. pkg_owner_org p = Some org) (packages d1));
                   rids = list_purge_targets d1 pids
               in case under_claims now mint owner rids (purge_org_body x org pids rids) (w\<lparr>site_db := d1\<rparr>) of
                    (Inl e, w2) \<Rightarrow> (Inl e, w2)
                  | (Inr _, w2) \<Rightarrow> (Inr (True, length pids), w2)))"

subsection \<open>Members\<close>

definition add_member ::
  "(string \<Rightarrow> bool) \<Rightarrow> uuid \<Rightarrow> string \<Rightarrow> string \<Rightarrow> db \<Rightarrow> (catalog_error + membership) \<times> db" where
  "add_member user_exists org user role d =
    (let hit = (\<lambda>m. ms_user m = user \<and> ms_entity m = org);
         m = \<lparr>ms_user = user, ms_entity = org, ms_role = role\<rparr>
     in if \<not> user_exists user then (Inl (User_Missing user), d)
        else if list_ex hit (org_members d)
        then (Inr m, d\<lparr>org_members := update_where hit (\<lambda>m. m\<lparr>ms_role := role\<rparr>) (org_members d)\<rparr>)
        else (Inr m, d\<lparr>org_members := org_members d @ [m]\<rparr>))"

definition remove_member :: "uuid \<Rightarrow> string \<Rightarrow> db \<Rightarrow> (catalog_error + unit) \<times> db" where
  "remove_member org user d =
    (let hit = (\<lambda>m. ms_user m = user \<and> ms_entity m = org)
     in if list_ex hit (org_members d)
        then (Inr (), d\<lparr>org_members := delete_where hit (org_members d)\<rparr>)
        else (Inl (Membership_Missing user org), d))"

end
