(* ===== verification/Catalog_Facts.thy ===== *)
theory Catalog_Facts
  imports Organization_Service
begin

text \<open>
  What the statements of the catalog touch, and the order they keep: \<open>tags_ok\<close> and \<open>catalog_ok\<close>, the
  state of the tables of datasets, organizations, tags and groups that every operation finds and
  leaves. First what an accepted request does, then that the marks and the tags it writes keep
  that order.
\<close>

subsection \<open>What the statements touch\<close>

definition tags_ok :: "db \<Rightarrow> bool" where
  "tags_ok d \<longleftrightarrow> distinct (map tag_id (tag_rows d)) \<and> distinct (package_tags d)
    \<and> distinct (map tag_name (select_where (\<lambda>t. tag_vocabulary t = None) (tag_rows d)))
    \<and> snd ` set (package_tags d) \<subseteq> tag_id ` set (tag_rows d)"

definition tags_linked :: "db \<Rightarrow> bool" where
  "tags_linked d \<longleftrightarrow> (\<forall>t \<in> set (tag_rows d). tag_vocabulary t = None \<longrightarrow> tag_id t \<in> snd ` set (package_tags d))"

definition tags_fresh :: "(string \<Rightarrow> uuid) \<Rightarrow> db \<Rightarrow> bool" where
  "tags_fresh mint d \<longleftrightarrow> inj mint \<and> (\<forall>n t. t \<in> set (tag_rows d) \<and> tag_id t = mint n \<longrightarrow> tag_name t = n \<and> tag_vocabulary t = None)"

lemma find_or_create_tag_ok:
  assumes "find_or_create_tag mint n d = (i, d1)" "tags_ok d" "tags_fresh mint d"
  shows "\<exists>T. d1 = d\<lparr>tag_rows := T\<rparr>" "tags_ok d1" "tags_fresh mint d1" "i \<in> tag_id ` set (tag_rows d1)"
    "\<forall>t \<in> set (tag_rows d1). t \<in> set (tag_rows d) \<or> tag_id t = i"
proof -
  let ?hits = "select_where (\<lambda>t. tag_name t = n \<and> tag_vocabulary t = None) (tag_rows d)"
  have "(\<exists>T. d1 = d\<lparr>tag_rows := T\<rparr>) \<and> tags_ok d1 \<and> tags_fresh mint d1 \<and> i \<in> tag_id ` set (tag_rows d1)
    \<and> (\<forall>t \<in> set (tag_rows d1). t \<in> set (tag_rows d) \<or> tag_id t = i)"
  proof (cases ?hits)
    case (Cons t ts)
    then have "t \<in> set ?hits" by simp
    then have "t \<in> set (tag_rows d)" by (simp add: set_select_where)
    moreover have "i = tag_id t" "d1 = d" using assms(1) Cons by (auto simp: find_or_create_tag_def)
    ultimately show ?thesis using assms(2,3) by (auto intro: exI [of _ "tag_rows d"])
  next
    case Nil
    let ?t = "\<lparr>tag_id = mint n, tag_name = n, tag_vocabulary = None\<rparr>"
    have d1: "i = mint n" "d1 = d\<lparr>tag_rows := tag_rows d @ [?t]\<rparr>"
      using assms(1) Nil by (auto simp: find_or_create_tag_def)
    have free: "\<forall>t \<in> set (tag_rows d). tag_vocabulary t = None \<longrightarrow> tag_name t \<noteq> n"
      using Nil by (auto simp: select_where_def filter_empty_conv)
    have fresh: "mint n \<notin> tag_id ` set (tag_rows d)"
    proof
      assume "mint n \<in> tag_id ` set (tag_rows d)"
      then obtain t where "t \<in> set (tag_rows d)" "tag_id t = mint n" by auto
      then show False using assms(3) free unfolding tags_fresh_def by blast
    qed
    have "tags_ok d1" using assms(2) fresh free unfolding d1(2) tags_ok_def by (auto simp: select_where_def)
    moreover have "tags_fresh mint d1" using assms(3) unfolding d1(2) tags_fresh_def by (auto dest: injD)
    ultimately show ?thesis using d1 by auto
  qed
  then show "\<exists>T. d1 = d\<lparr>tag_rows := T\<rparr>" "tags_ok d1" "tags_fresh mint d1" "i \<in> tag_id ` set (tag_rows d1)"
    "\<forall>t \<in> set (tag_rows d1). t \<in> set (tag_rows d) \<or> tag_id t = i" by auto
qed

lemma link_tags_ok:
  assumes "link_tags mint pid ns d = (Inr is, d')" "tags_ok d" "tags_fresh mint d"
  shows "(\<exists>T. d' = d\<lparr>tag_rows := T, package_tags := package_tags d @ map (Pair pid) is\<rparr>) \<and> tags_ok d' \<and> tags_fresh mint d'
    \<and> (\<forall>t \<in> set (tag_rows d'). t \<in> set (tag_rows d) \<or> tag_id t \<in> set is)"
  using assms
proof (induction mint pid ns d arbitrary: "is" rule: link_tags.induct)
  case (1 mint pid d)
  then show ?case by (auto intro: exI [of _ "tag_rows d"])
next
  case (2 mint pid n ns d)
  obtain i d1 where i: "find_or_create_tag mint n d = (i, d1)" by (cases "find_or_create_tag mint n d")
  note f = find_or_create_tag_ok [OF i 2(3,4)]
  let ?d2 = "d1\<lparr>package_tags := package_tags d1 @ [(pid, i)]\<rparr>"
  have new: "(pid, i) \<notin> set (package_tags d1)" and rest: "\<exists>is'. link_tags mint pid ns ?d2 = (Inr is', d') \<and> is = i # is'"
    using 2(2) i by (auto split: if_splits prod.splits sum.splits)
  obtain is' where is': "link_tags mint pid ns ?d2 = (Inr is', d')" "is = i # is'" using rest by blast
  have "tags_ok ?d2" using f(2,4) new by (auto simp: tags_ok_def)
  moreover have "tags_fresh mint ?d2" using f(3) by (simp add: tags_fresh_def)
  ultimately have IH: "(\<exists>T. d' = ?d2\<lparr>tag_rows := T, package_tags := package_tags ?d2 @ map (Pair pid) is'\<rparr>)
      \<and> tags_ok d' \<and> tags_fresh mint d' \<and> (\<forall>t \<in> set (tag_rows d'). t \<in> set (tag_rows ?d2) \<or> tag_id t \<in> set is')"
    using 2(1) [OF i [symmetric] refl new is'(1)] by blast
  obtain T where T: "d1 = d\<lparr>tag_rows := T\<rparr>" using f(1) by blast
  then have "\<exists>T. d' = d\<lparr>tag_rows := T, package_tags := package_tags d @ map (Pair pid) is\<rparr>"
    using IH is'(2) by auto
  then show ?case using IH f(5) is'(2) by auto
qed

lemma link_groups_ok:
  assumes "link_groups pid gs d = (Inr u, d')"
  shows "\<exists>is. d' = d\<lparr>package_groups := package_groups d @ map (Pair pid) is\<rparr> \<and> set is \<subseteq> grp_id ` set (group_rows d)
    \<and> (distinct (package_groups d) \<longrightarrow> distinct (package_groups d'))"
  using assms
proof (induction pid gs d rule: link_groups.induct)
  case (1 pid d)
  then show ?case by (auto intro: exI [of _ "[]"])
next
  case (2 pid g gs d)
  obtain r rs where r: "select_where (\<lambda>r. grp_name r = g \<and> grp_state r = Some ''active'') (group_rows d) = r # rs"
    and new: "(pid, grp_id r) \<notin> set (package_groups d)"
    and rest: "link_groups pid gs (d\<lparr>package_groups := package_groups d @ [(pid, grp_id r)]\<rparr>) = (Inr u, d')"
    using 2(2) by (auto split: list.splits if_splits)
  have "r \<in> set (group_rows d)" using arg_cong [OF r, of set] by (auto simp: set_select_where)
  moreover obtain "is" where "d' = d\<lparr>package_groups := (package_groups d @ [(pid, grp_id r)]) @ map (Pair pid) is\<rparr>"
    "set is \<subseteq> grp_id ` set (group_rows d)"
    "distinct (package_groups d @ [(pid, grp_id r)]) \<longrightarrow> distinct (package_groups d')"
    using 2(1) [OF r new rest] by auto
  ultimately show ?case using new by (intro exI [of _ "grp_id r # is"]) auto
qed

subsection \<open>What an accepted request does\<close>

lemma transaction_Inr [simp]: "transaction body d = (Inr x, d') \<longleftrightarrow> body d = (Inr x, d')"
  by (auto simp: transaction_def split: prod.splits sum.splits)

lemma transaction_Inl: "transaction body d = (Inl e, d') \<Longrightarrow> d' = d"
  by (auto simp: transaction_def split: prod.splits sum.splits)

lemma get_by_name_or_id_Inr:
  assumes "get_by_name_or_id as_uuid s states d = Inr p"
  shows "p \<in> set (packages d)" "named_or_id as_uuid s p" "pkg_state p \<in> Some ` set states"
proof -
  obtain rest where e: "sort_key (\<lambda>p. if Some (pkg_id p) = as_uuid s then 0 else 1 :: nat)
      (select_where (\<lambda>p. named_or_id as_uuid s p \<and> pkg_state p \<in> set (map Some states)) (packages d)) = p # rest"
    using assms by (auto simp: get_by_name_or_id_def split: list.splits)
  have "p \<in> set (p # rest)" by simp
  then have "p \<in> {p \<in> set (packages d). named_or_id as_uuid s p \<and> pkg_state p \<in> set (map Some states)}"
    unfolding e [symmetric] by (simp add: set_select_where)
  then show "p \<in> set (packages d)" "named_or_id as_uuid s p" "pkg_state p \<in> Some ` set states" by auto
qed

lemma authorized_Inr:
  assumes "authorized authorize as_uuid s states d = Inr p"
  shows "p \<in> set (packages d)" "named_or_id as_uuid s p" "pkg_state p \<in> Some ` set states" "authorize d p = None"
  using assms get_by_name_or_id_Inr [of as_uuid s states d p]
  by (auto simp: authorized_def split: sum.splits option.splits)

lemma org_refused_None: "org_refused org e d = None \<longleftrightarrow> (\<forall>g. org = Some g \<longrightarrow> org_active g d)"
  by (auto simp: org_refused_def split: option.splits)

lemma create_many_Inr:
  assumes "create_many normal now ids pid items d = (Inr rs, d')"
  shows "d' = d\<lparr>resources := resources d @ rs\<rparr> \<and> (\<forall>r \<in> set rs. res_package r = pid)"
  using assms by (auto simp: create_many_def to_row_def Let_def split: if_splits option.splits)

lemma insert_package_Inr:
  assumes "insert_package normal now m input name state creator d = (Inr p, d')" "tags_ok d" "tags_fresh (mint_tag m) d"
  obtains T ts gs rs where "p = new_package now (mint_package m) input name state creator" "\<not> name_taken name d"
    "\<forall>g. or_else None (in_owner_org input) = Some g \<longrightarrow> org_active g d"
    "d' = d\<lparr>packages := packages d @ [p], tag_rows := T, package_tags := package_tags d @ map (Pair (pkg_id p)) ts,
        package_groups := package_groups d @ map (Pair (pkg_id p)) gs, resources := resources d @ rs\<rparr>"
    "tags_ok d'" "\<forall>t \<in> set T. t \<in> set (tag_rows d) \<or> tag_id t \<in> set ts"
    "set gs \<subseteq> grp_id ` set (group_rows d)" "distinct (package_groups d) \<longrightarrow> distinct (package_groups d')"
    "\<forall>r \<in> set rs. res_package r = pkg_id p"
proof -
  let ?p = "new_package now (mint_package m) input name state creator"
  have free: "\<not> name_taken name d" and org: "\<forall>g. or_else None (in_owner_org input) = Some g \<longrightarrow> org_active g d"
    and link: "link_all normal now m input ?p (d\<lparr>packages := packages d @ [?p]\<rparr>) = (Inr p, d')"
    using assms(1) by (auto simp: insert_package_def Let_def org_refused_None split: if_splits option.splits)
  let ?d0 = "d\<lparr>packages := packages d @ [?p]\<rparr>"
  obtain ts d1 u d2 rs where s: "link_tags (mint_tag m) (pkg_id ?p) (or_else [] (in_tags input)) ?d0 = (Inr ts, d1)"
    "link_groups (pkg_id ?p) (or_else [] (in_groups input)) d1 = (Inr u, d2)"
    "create_many normal now (mint_resources m) (pkg_id ?p) (or_else [] (in_resources input)) d2 = (Inr rs, d')" "p = ?p"
    using link by (auto simp: link_all_def split: prod.splits sum.splits)
  have "tags_ok ?d0" "tags_fresh (mint_tag m) ?d0" using assms(2,3) by (simp_all add: tags_ok_def tags_fresh_def)
  from link_tags_ok [OF s(1) this] obtain T where T:
    "d1 = ?d0\<lparr>tag_rows := T, package_tags := package_tags d @ map (Pair (pkg_id ?p)) ts\<rparr>" "tags_ok d1"
    "\<forall>t \<in> set T. t \<in> set (tag_rows d) \<or> tag_id t \<in> set ts" by auto
  from link_groups_ok [OF s(2)] obtain gs where g: "d2 = d1\<lparr>package_groups := package_groups d @ map (Pair (pkg_id ?p)) gs\<rparr>"
    "set gs \<subseteq> grp_id ` set (group_rows d)" "distinct (package_groups d) \<longrightarrow> distinct (package_groups d2)"
    by (auto simp: T(1))
  from create_many_Inr [OF s(3)] have r: "d' = d2\<lparr>resources := resources d @ rs\<rparr>" "\<forall>r \<in> set rs. res_package r = pkg_id ?p"
    by (auto simp: g(1) T(1))
  show ?thesis
    by (rule that [where T = T and ts = ts and gs = gs and rs = rs]) (use free org s(4) T g r in \<open>auto simp: tags_ok_def\<close>)
qed

lemma relink_tags_Inr:
  assumes "relink_tags mint pid ns d = (Inr changed, d')" "tags_ok d" "tags_fresh mint d"
  obtains T ts where "d' = delete_orphan_free_tags (d\<lparr>tag_rows := T,
      package_tags := delete_where (\<lambda>l. fst l = pid) (package_tags d) @ map (Pair pid) ts\<rparr>)"
    "tags_ok (d\<lparr>tag_rows := T, package_tags := delete_where (\<lambda>l. fst l = pid) (package_tags d) @ map (Pair pid) ts\<rparr>)"
proof -
  let ?d0 = "d\<lparr>package_tags := delete_where (\<lambda>l. fst l = pid) (package_tags d)\<rparr>"
  obtain ts d1 where s: "link_tags mint pid ns ?d0 = (Inr ts, d1)" "d' = delete_orphan_free_tags d1"
    using assms(1) by (auto simp: relink_tags_def Let_def split: prod.splits sum.splits)
  have "tags_ok ?d0" "tags_fresh mint ?d0" using assms(2,3)
    by (auto simp: tags_ok_def tags_fresh_def delete_where_def)
  from link_tags_ok [OF s(1) this] show ?thesis using s(2) by (auto intro: that)
qed

lemma relink_groups_Inr:
  assumes "relink_groups pid gs d = (Inr u, d')"
  obtains "is" where "d' = d\<lparr>package_groups := delete_where (\<lambda>l. fst l = pid) (package_groups d) @ map (Pair pid) is\<rparr>"
    "set is \<subseteq> grp_id ` set (group_rows d)" "distinct (package_groups d) \<longrightarrow> distinct (package_groups d')"
  using link_groups_ok [OF assms [unfolded relink_groups_def]] by (auto simp: delete_where_def intro: that)

subsection \<open>A catalog in order\<close>

definition dataset_ok :: "db \<Rightarrow> package_row \<Rightarrow> bool" where
  "dataset_ok d p \<longleftrightarrow> pkg_state p \<in> Some ` {''draft'', ''active'', ''deleted'', ''purging''}
    \<and> (pkg_state p \<in> {Some ''active'', Some ''deleted''} \<longrightarrow> pkg_owner_org p \<noteq> None)
    \<and> (pkg_state p = Some ''active'' \<longrightarrow> (\<forall>g. pkg_owner_org p = Some g \<longrightarrow> org_active g d))
    \<and> (\<forall>g. pkg_owner_org p = Some g \<longrightarrow> g \<in> org_id ` set (organizations d))"

definition catalog_ok :: "db \<Rightarrow> bool" where
  "catalog_ok d \<longleftrightarrow> distinct (map pkg_id (packages d)) \<and> distinct (map pkg_name (packages d))
    \<and> distinct (map org_id (organizations d)) \<and> (\<forall>p \<in> set (packages d). dataset_ok d p)
    \<and> res_package ` set (resources d) \<subseteq> pkg_id ` set (packages d)
    \<and> tags_ok d \<and> distinct (package_groups d)
    \<and> fst ` set (package_tags d) \<union> fst ` set (package_groups d) \<subseteq> pkg_id ` set (packages d)
    \<and> snd ` set (package_groups d) \<subseteq> grp_id ` set (group_rows d)"

lemma dataset_ok_cong:
  "organizations d' = organizations d \<Longrightarrow> dataset_ok d' p = dataset_ok d p"
  by (simp add: dataset_ok_def org_active_def)

lemma tags_ok_cong:
  "tag_rows d' = tag_rows d \<Longrightarrow> package_tags d' = package_tags d \<Longrightarrow> tags_ok d' = tags_ok d"
  by (simp add: tags_ok_def)

lemma catalog_ok_cong:
  assumes "packages d' = packages d" "organizations d' = organizations d"
    "res_package ` set (resources d') \<subseteq> res_package ` set (resources d)" "tag_rows d' = tag_rows d"
    "package_tags d' = package_tags d" "package_groups d' = package_groups d" "group_rows d' = group_rows d"
  shows "catalog_ok d \<Longrightarrow> catalog_ok d'"
proof -
  have "tags_ok d' = tags_ok d" "\<And>p. dataset_ok d' p = dataset_ok d p"
    by (rule tags_ok_cong [OF assms(4,5)], rule dataset_ok_cong [OF assms(2)])
  then show "catalog_ok d \<Longrightarrow> catalog_ok d'" using assms unfolding catalog_ok_def by (simp add: subset_trans)
qed

lemma res_package_update_where:
  assumes "\<And>r. res_package (f r) = res_package r"
  shows "res_package ` set (update_where P f rs) = res_package ` set rs"
proof -
  have "map res_package (update_where P f rs) = map res_package rs" using assms by (simp add: update_where_def)
  then show ?thesis by (metis set_map)
qed

text \<open>Rows of \<open>package\<close> changed one by one, their ids kept.\<close>

lemma catalog_ok_packages:
  assumes "catalog_ok d" "map pkg_id ps = map pkg_id (packages d)" "distinct (map pkg_name ps)"
    "\<forall>p \<in> set ps. dataset_ok d p"
  shows "catalog_ok (d\<lparr>packages := ps\<rparr>)"
proof -
  have "pkg_id ` set ps = pkg_id ` set (packages d)" by (metis assms(2) set_map)
  moreover have "dataset_ok (d\<lparr>packages := ps\<rparr>) p = dataset_ok d p" for p by (rule dataset_ok_cong) simp
  moreover have "tags_ok (d\<lparr>packages := ps\<rparr>) = tags_ok d" by (rule tags_ok_cong) simp_all
  ultimately show ?thesis using assms unfolding catalog_ok_def by simp
qed

lemma mark_package_resource_docs_ok [simp]:
  "catalog_ok d \<Longrightarrow> catalog_ok (mark_package_resource_docs now b i d)"
  by (erule catalog_ok_cong [rotated -1]) (simp_all add: mark_package_resource_docs_def res_package_update_where)

lemma mark_package_resource_embeddings_ok [simp]:
  "catalog_ok d \<Longrightarrow> catalog_ok (mark_package_resource_embeddings now i d)"
  by (erule catalog_ok_cong [rotated -1]) (simp_all add: mark_package_resource_embeddings_def res_package_update_where)

lemma mark_frames [simp]:
  "packages (mark_package_resource_docs now b i d) = packages d"
  "organizations (mark_package_resource_docs now b i d) = organizations d"
  "packages (mark_package_resource_embeddings now i d) = packages d"
  "organizations (mark_package_resource_embeddings now i d) = organizations d"
  by (simp_all add: mark_package_resource_docs_def mark_package_resource_embeddings_def)

lemma catalog_ok_update_where:
  assumes "catalog_ok d" "\<And>p. P p \<Longrightarrow> pkg_id (f p) = pkg_id p \<and> pkg_name (f p) = pkg_name p"
    "\<And>p. p \<in> set (packages d) \<Longrightarrow> dataset_ok d p \<Longrightarrow> P p \<Longrightarrow> dataset_ok d (f p)"
  shows "catalog_ok (d\<lparr>packages := update_where P f (packages d)\<rparr>)"
proof (rule catalog_ok_packages [OF assms(1)])
  show "map pkg_id (update_where P f (packages d)) = map pkg_id (packages d)" using assms(2) by (auto simp: update_where_def)
  have "map pkg_name (update_where P f (packages d)) = map pkg_name (packages d)" using assms(2) by (auto simp: update_where_def)
  then show "distinct (map pkg_name (update_where P f (packages d)))" using assms(1) by (simp add: catalog_ok_def)
  show "\<forall>p \<in> set (update_where P f (packages d)). dataset_ok d p"
    using assms(1,3) by (intro Ball_update_where) (auto simp: catalog_ok_def)
qed

lemma mark_package_docs_ok [simp]: "catalog_ok d \<Longrightarrow> catalog_ok (mark_package_docs now P d)"
  unfolding mark_package_docs_def by (erule catalog_ok_update_where) (auto simp: dataset_ok_def)

lemma delete_orphan_free_tags_ok:
  assumes "tags_ok d"
  shows "tags_ok (delete_orphan_free_tags d)"
proof -
  let ?T = "tag_rows (delete_orphan_free_tags d)"
  have T: "?T = filter (\<lambda>t. tag_vocabulary t \<noteq> None \<or> tag_id t \<in> snd ` set (package_tags d)) (tag_rows d)"
    by (simp add: delete_orphan_free_tags_def delete_where_def)
  have "distinct (map tag_id ?T)" using assms unfolding T tags_ok_def by (auto intro: distinct_map_filter)
  moreover have "select_where (\<lambda>t. tag_vocabulary t = None) ?T
      = filter (\<lambda>t. tag_id t \<in> snd ` set (package_tags d)) (select_where (\<lambda>t. tag_vocabulary t = None) (tag_rows d))"
    unfolding T select_where_def filter_filter by (rule filter_cong) auto
  then have "distinct (map tag_name (select_where (\<lambda>t. tag_vocabulary t = None) ?T))"
    using assms unfolding tags_ok_def by (auto intro: distinct_map_filter)
  moreover have "snd ` set (package_tags d) \<subseteq> tag_id ` set ?T"
  proof
    fix i assume i: "i \<in> snd ` set (package_tags d)"
    then obtain t where "t \<in> set (tag_rows d)" "tag_id t = i" using assms unfolding tags_ok_def by force
    then show "i \<in> tag_id ` set ?T" using i unfolding T by force
  qed
  ultimately show ?thesis using assms by (simp add: tags_ok_def delete_orphan_free_tags_def)
qed

end
