(* ===== verification/Catalog_Moves.thy ===== *)
theory Catalog_Moves
  imports Catalog_Facts
begin

text \<open>
  The dataset operations one by one: creating and editing keep the catalog in order, and the rest
  move a dataset from one state to another, along the moves \<open>state_move\<close> lists.
\<close>

subsection \<open>Every operation keeps it in order\<close>

lemma org_active_org: "org_active g d \<Longrightarrow> g \<in> org_id ` set (organizations d)"
  by (auto simp: org_active_def list_ex_iff)

lemma insert_package_ok:
  assumes "insert_package normal now m input name state creator d = (Inr p, d')" "catalog_ok d"
    "tags_fresh (mint_tag m) d" "mint_package m \<notin> pkg_id ` set (packages d)"
    "state = ''draft'' \<or> state = ''active'' \<and> or_else None (in_owner_org input) \<noteq> None"
  shows "catalog_ok d'" "packages d' = packages d @ [p]" "organizations d' = organizations d"
    "pkg_id p = mint_package m" "pkg_state p = Some state"
proof -
  have t: "tags_ok d" using assms(2) by (simp add: catalog_ok_def)
  obtain T ts gs rs where s: "p = new_package now (mint_package m) input name state creator" "\<not> name_taken name d"
    "\<forall>g. or_else None (in_owner_org input) = Some g \<longrightarrow> org_active g d"
    "d' = d\<lparr>packages := packages d @ [p], tag_rows := T, package_tags := package_tags d @ map (Pair (pkg_id p)) ts,
        package_groups := package_groups d @ map (Pair (pkg_id p)) gs, resources := resources d @ rs\<rparr>"
    "tags_ok d'" "set gs \<subseteq> grp_id ` set (group_rows d)" "distinct (package_groups d) \<longrightarrow> distinct (package_groups d')"
    "\<forall>r \<in> set rs. res_package r = pkg_id p"
    by (rule insert_package_Inr [OF assms(1) t assms(3)]) blast
  have p: "pkg_id p = mint_package m" "pkg_name p = name" "pkg_state p = Some state"
    "pkg_owner_org p = or_else None (in_owner_org input)" by (simp_all add: s(1) new_package_def)
  have "pkg_name p \<notin> pkg_name ` set (packages d)" using s(2) p(2) by (auto simp: name_taken_def list_ex_iff)
  moreover have "dataset_ok d p" using p s(3) assms(5) org_active_org by (auto simp: dataset_ok_def)
  moreover have "dataset_ok d' q = dataset_ok d q" for q by (rule dataset_ok_cong) (simp add: s(4))
  ultimately show "catalog_ok d'" using assms(2,4) s(5-8) p(1) unfolding catalog_ok_def s(4) by (auto simp: subset_iff)
  show "packages d' = packages d @ [p]" "organizations d' = organizations d" by (simp_all add: s(4))
  show "pkg_id p = mint_package m" "pkg_state p = Some state" by (fact p(1), fact p(3))
qed

lemma map_sum_Inr_iff: "map_sum f g x = Inr y \<longleftrightarrow> (\<exists>z. x = Inr z \<and> y = g z)"
  by (cases x) auto

lemma generate_unique_placeholder_name_Inr:
  "generate_unique_placeholder_name names d = Inr n \<Longrightarrow> \<not> name_taken n d"
  by (auto simp: generate_unique_placeholder_name_def find_Some_iff split: option.splits)

text \<open>What a request may hold, checked before it gets here (\<open>packages/shared/src/validators\<close>).\<close>

definition request_ok :: "package_input \<Rightarrow> bool" where
  "request_ok input \<longleftrightarrow> in_name input \<noteq> Sent (Some '''')"

lemma new_name_free:
  assumes "new_name m input p d = Inr name" "update_refused input p d = None" "request_ok input"
    "pkg_state p = Some ''active'' \<or> is_draft p"
  shows "pkg_name (edited now name input p) = pkg_name p \<or> \<not> name_taken (pkg_name (edited now name input p)) d"
proof (cases "is_draft p")
  case False
  then show ?thesis using assms(2,4)
    by (auto simp: edited_def replaced_package_def update_refused_def Let_def split: if_splits)
next
  case True
  show ?thesis
  proof (cases "in_name input")
    case Unsent
    then show ?thesis using True assms(1) by (auto simp: new_name_def edited_def patched_package_def)
  next
    case (Sent n)
    show ?thesis
    proof (cases n)
      case None
      then show ?thesis using True Sent assms(1) generate_unique_placeholder_name_Inr
        by (auto simp: new_name_def edited_def patched_package_def map_sum_Inr_iff)
    next
      case (Some k)
      then have "name_sent input = k" "k \<noteq> ''''" using Sent assms(3) by (auto simp: name_sent_def request_ok_def)
      then show ?thesis using True Sent Some assms(1,2)
        by (auto simp: new_name_def edited_def patched_package_def update_refused_def Let_def split: if_splits)
    qed
  qed
qed

lemma edited_fields:
  "pkg_id (edited now name input p) = pkg_id p" "pkg_state (edited now name input p) = pkg_state p"
  "pkg_creator (edited now name input p) = pkg_creator p" "pkg_created (edited now name input p) = pkg_created p"
  by (simp_all add: edited_def replaced_package_def patched_package_def)

lemma edited_owner:
  "pkg_owner_org (edited now name input p)
    = (if is_draft p then or_else (pkg_owner_org p) (in_owner_org input) else or_else None (in_owner_org input))"
  by (simp add: edited_def replaced_package_def patched_package_def)

lemma edited_dataset_ok:
  assumes "dataset_ok d p" "update_refused input p d = None" "pkg_state p = Some ''active'' \<or> is_draft p"
  shows "dataset_ok d (edited now name input p)"
proof -
  let ?org = "or_else None (in_owner_org input)"
  have ok: "\<forall>g. ?org = Some g \<longrightarrow> g \<in> org_id ` set (organizations d) \<and> (is_draft p \<or> org_active g d)"
    using assms org_active_org
    by (auto simp: update_refused_def org_refused_None Let_def dataset_ok_def is_draft_def split: if_splits)
  show ?thesis
  proof (cases "is_draft p")
    case True
    then have "pkg_owner_org (edited now name input p) \<in> {pkg_owner_org p, ?org}"
      by (cases "in_owner_org input") (simp_all add: edited_owner)
    then show ?thesis using assms(1) ok True by (auto simp: dataset_ok_def edited_fields is_draft_def)
  next
    case False
    then have "?org \<noteq> None" using assms(2,3) by (auto simp: update_refused_def Let_def split: if_splits)
    then show ?thesis using False ok assms(3) by (auto simp: dataset_ok_def edited_fields edited_owner is_draft_def)
  qed
qed

text \<open>Tags and groups relinked for one dataset.\<close>

lemma relink_tags_ok:
  assumes "relink_tags mint pid ns d = (Inr changed, d')" "catalog_ok d" "tags_fresh mint d" "pid \<in> pkg_id ` set (packages d)"
  shows "catalog_ok d' \<and> packages d' = packages d \<and> organizations d' = organizations d \<and> resources d' = resources d"
proof -
  have t: "tags_ok d" using assms(2) by (simp add: catalog_ok_def)
  obtain T ts where d': "d' = delete_orphan_free_tags (d\<lparr>tag_rows := T,
      package_tags := delete_where (\<lambda>l. fst l = pid) (package_tags d) @ map (Pair pid) ts\<rparr>)"
    and ok: "tags_ok (d\<lparr>tag_rows := T, package_tags := delete_where (\<lambda>l. fst l = pid) (package_tags d) @ map (Pair pid) ts\<rparr>)"
    by (rule relink_tags_Inr [OF assms(1) t assms(3)]) blast
  have same: "packages d' = packages d" "organizations d' = organizations d" "resources d' = resources d"
    "package_groups d' = package_groups d" "group_rows d' = group_rows d"
    "package_tags d' = delete_where (\<lambda>l. fst l = pid) (package_tags d) @ map (Pair pid) ts"
    by (simp_all add: d' delete_orphan_free_tags_def)
  have "fst ` set (package_tags d') \<subseteq> pkg_id ` set (packages d)"
    using assms(2,4) unfolding same catalog_ok_def by (auto simp: table_simps)
  moreover have "tags_ok d'" unfolding d' by (rule delete_orphan_free_tags_ok [OF ok])
  moreover have "dataset_ok d' q = dataset_ok d q" for q by (rule dataset_ok_cong [OF same(2)])
  ultimately have "catalog_ok d'" using assms(2) unfolding catalog_ok_def same(1-5) by simp
  then show ?thesis using same by simp
qed

lemma relink_groups_ok:
  assumes "relink_groups pid gs d = (Inr u, d')" "catalog_ok d" "pid \<in> pkg_id ` set (packages d)"
  shows "catalog_ok d' \<and> packages d' = packages d \<and> organizations d' = organizations d \<and> resources d' = resources d"
proof -
  obtain "is" where d': "d' = d\<lparr>package_groups := delete_where (\<lambda>l. fst l = pid) (package_groups d) @ map (Pair pid) is\<rparr>"
    and g: "set is \<subseteq> grp_id ` set (group_rows d)" "distinct (package_groups d) \<longrightarrow> distinct (package_groups d')"
    by (rule relink_groups_Inr [OF assms(1)])
  have "set (package_groups d') = {l \<in> set (package_groups d). fst l \<noteq> pid} \<union> Pair pid ` set is"
    by (auto simp: d' table_simps)
  then have "fst ` set (package_groups d') \<subseteq> pkg_id ` set (packages d)" "snd ` set (package_groups d') \<subseteq> grp_id ` set (group_rows d)"
    using assms(2,3) g(1) by (auto simp: catalog_ok_def)
  moreover have "dataset_ok d' q = dataset_ok d q" for q by (rule dataset_ok_cong) (simp add: d')
  moreover have "tags_ok d' = tags_ok d" by (rule tags_ok_cong) (simp_all add: d')
  ultimately show ?thesis using assms(2) g(2) unfolding catalog_ok_def by (simp add: d')
qed

lemma relinked_ok:
  assumes "relinked m input draft pid d = (Inr changed, d')" "catalog_ok d" "tags_fresh (mint_tag m) d"
    "pid \<in> pkg_id ` set (packages d)"
  shows "catalog_ok d' \<and> packages d' = packages d \<and> organizations d' = organizations d \<and> resources d' = resources d"
proof -
  have "\<exists>d1 c. (d1 = d \<or> (\<exists>ns. relink_tags (mint_tag m) pid ns d = (Inr c, d1)))
      \<and> (d' = d1 \<or> (\<exists>gs u. relink_groups pid gs d1 = (Inr u, d')))"
    using assms(1) unfolding relinked_def
    by (cases "in_tags input"; cases "in_groups input"; cases draft) (auto split: prod.splits sum.splits)
  then obtain d1 c where s: "d1 = d \<or> (\<exists>ns. relink_tags (mint_tag m) pid ns d = (Inr c, d1))"
    "d' = d1 \<or> (\<exists>gs u. relink_groups pid gs d1 = (Inr u, d'))" by blast
  from s(1) have d1: "catalog_ok d1 \<and> packages d1 = packages d \<and> organizations d1 = organizations d \<and> resources d1 = resources d"
    using relink_tags_ok [OF _ assms(2-4)] assms(2) by blast
  then have "catalog_ok d1" "pid \<in> pkg_id ` set (packages d1)" using assms(4) by simp_all
  with s(2) d1 show ?thesis using relink_groups_ok [of pid _ d1 _ d'] by metis
qed

lemma update_body_ok:
  assumes "update_body now m authorize as_uuid s input d = (Inr q, d')" "catalog_ok d" "tags_fresh (mint_tag m) d" "request_ok input"
  obtains p name where "p \<in> set (packages d)" "pkg_state p = Some ''active'' \<or> is_draft p" "q = edited now name input p"
    "authorize d p = None" "catalog_ok d'" "packages d' = update_where (\<lambda>x. pkg_id x = pkg_id p) (\<lambda>_. q) (packages d)"
    "organizations d' = organizations d"
proof -
  obtain p name d2 changed where s: "authorized authorize as_uuid s [''active'', ''draft''] d = Inr p"
    "update_refused input p d = None" "new_name m input p d = Inr name" "q = edited now name input p"
    "relinked m input (is_draft p) (pkg_id p) (d\<lparr>packages := update_where (\<lambda>x. pkg_id x = pkg_id p) (\<lambda>_. q) (packages d)\<rparr>) = (Inr changed, d2)"
    "d' = d2 \<or> d' = mark_package_resource_embeddings now (pkg_id p) d2"
    using assms(1) unfolding update_body_def Let_def
    by (cases "authorized authorize as_uuid s [''active'', ''draft''] d") (auto split: option.splits sum.splits prod.splits if_splits)
  note p = authorized_Inr [OF s(1)]
  have st: "pkg_state p = Some ''active'' \<or> is_draft p" using p(3) by (auto simp: is_draft_def)
  let ?ps = "update_where (\<lambda>x. pkg_id x = pkg_id p) (\<lambda>_. q) (packages d)"
  have ids: "map pkg_id ?ps = map pkg_id (packages d)"
    by (rule map_update_where) (simp add: s(4) edited_fields)
  have dp: "\<forall>x \<in> set (packages d). dataset_ok d x" "distinct (map pkg_id (packages d))" "distinct (map pkg_name (packages d))"
    using assms(2) by (simp_all add: catalog_ok_def)
  have one: "?ps = map (\<lambda>x. if x = p then q else x) (packages d)"
    unfolding update_where_def using dp(2) p(1) by (intro map_cong refl) (auto simp: distinct_map inj_on_def)
  have names: "distinct (map pkg_name ?ps)"
  proof -
    have "pkg_name q = pkg_name p \<or> (\<forall>x \<in> set (packages d). pkg_name x \<noteq> pkg_name q)"
      using new_name_free [OF s(3,2) assms(4) st] by (simp add: s(4) name_taken_def list_ex_iff)
    then show ?thesis using dp(3) p(1) unfolding one distinct_map by (auto simp: inj_on_def distinct_map)
  qed
  have "dataset_ok d q" using edited_dataset_ok [OF _ s(2) st, of now name] dp(1) p(1) by (simp add: s(4))
  then have "\<forall>x \<in> set ?ps. dataset_ok d x" using dp(1) unfolding one by auto
  then have c1: "catalog_ok (d\<lparr>packages := ?ps\<rparr>)" by (rule catalog_ok_packages [OF assms(2) ids names])
  have "pkg_id p \<in> pkg_id ` set ?ps" using p(1) by (metis ids image_eqI set_map)
  then have r: "catalog_ok d2 \<and> packages d2 = ?ps \<and> organizations d2 = organizations d"
    using relinked_ok [OF s(5) c1] assms(3) by (simp add: tags_fresh_def)
  then have "catalog_ok d'" "packages d' = ?ps" "organizations d' = organizations d"
    using s(6) mark_package_resource_embeddings_ok [of d2] by auto
  then show ?thesis using that p st s(4) by blast
qed

subsection \<open>How a dataset may move\<close>

definition state_move :: "db \<Rightarrow> package_row \<Rightarrow> package_row \<Rightarrow> bool" where
  "state_move d p q \<longleftrightarrow> pkg_creator q = pkg_creator p \<and> pkg_created q = pkg_created p
    \<and> (pkg_state q = pkg_state p
       \<or> pkg_state p = Some ''draft'' \<and> pkg_state q = Some ''active'' \<and> draft_publish_blockers p = []
           \<and> (\<exists>g. pkg_owner_org p = Some g \<and> org_active g d)
       \<or> pkg_state p = Some ''draft'' \<and> pkg_state q = Some ''purging''
       \<or> pkg_state p = Some ''active'' \<and> pkg_state q = Some ''deleted''
       \<or> pkg_state p = Some ''deleted'' \<and> pkg_state q = Some ''active''
           \<and> (\<exists>g. pkg_owner_org p = Some g \<and> org_active g d))"

definition evolves :: "db \<Rightarrow> db \<Rightarrow> bool" where
  "evolves d d' \<longleftrightarrow>
    (\<forall>p \<in> set (packages d).
       (\<exists>q \<in> set (packages d'). pkg_id q = pkg_id p \<and> state_move d p q)
       \<or> pkg_id p \<notin> pkg_id ` set (packages d') \<and> pkg_state p \<noteq> Some ''active'')
    \<and> (\<forall>q \<in> set (packages d'). pkg_id q \<in> pkg_id ` set (packages d) \<or> pkg_state q \<in> {Some ''draft'', Some ''active''})"

lemma state_move_refl [simp]: "state_move d p p"
  by (simp add: state_move_def)

lemma evolves_same: "packages d' = packages d \<Longrightarrow> evolves d d'"
  by (auto simp: evolves_def intro: bexI)

lemma evolves_append: "packages d' = packages d @ [p] \<Longrightarrow> pkg_state p \<in> {Some ''draft'', Some ''active''} \<Longrightarrow> evolves d d'"
  by (auto simp: evolves_def intro: bexI)

lemma evolves_update:
  assumes "packages d' = update_where P f (packages d)"
    "\<And>p. p \<in> set (packages d) \<Longrightarrow> P p \<Longrightarrow> pkg_id (f p) = pkg_id p \<and> state_move d p (f p)"
  shows "evolves d d'"
proof -
  have "map pkg_id (packages d') = map pkg_id (packages d)"
    unfolding assms(1) by (rule map_update_where) (simp add: assms(2))
  then have "pkg_id ` set (packages d') = pkg_id ` set (packages d)" by (metis set_map)
  moreover have "\<exists>q \<in> set (packages d'). pkg_id q = pkg_id p \<and> state_move d p q" if p: "p \<in> set (packages d)" for p
  proof (rule bexI)
    let ?q = "if P p then f p else p"
    show "?q \<in> set (packages d')" using p by (auto simp: assms(1) update_where_def)
    show "pkg_id ?q = pkg_id p \<and> state_move d p ?q" using p assms(2) by simp
  qed
  ultimately show ?thesis unfolding evolves_def by blast
qed

lemma evolves_delete:
  assumes "distinct (map pkg_id (packages d))" "packages d' = delete_where P (packages d)"
    "\<And>p. p \<in> set (packages d) \<Longrightarrow> P p \<Longrightarrow> pkg_state p \<noteq> Some ''active''"
  shows "evolves d d'"
  unfolding evolves_def
proof (intro conjI ballI)
  fix p assume p: "p \<in> set (packages d)"
  show "(\<exists>q \<in> set (packages d'). pkg_id q = pkg_id p \<and> state_move d p q)
     \<or> pkg_id p \<notin> pkg_id ` set (packages d') \<and> pkg_state p \<noteq> Some ''active''"
  proof (cases "P p")
    case True
    then have "pkg_id p \<notin> pkg_id ` set (packages d')"
      using assms(1) p by (auto simp: assms(2) table_simps distinct_map inj_on_def)
    then show ?thesis using assms(3) p True by blast
  next
    case False
    then have "p \<in> set (packages d')" using p by (simp add: assms(2) table_simps)
    then show ?thesis using state_move_refl by blast
  qed
qed (auto simp: assms(2) table_simps)

text \<open>First moved, then some of what was moved removed.\<close>

lemma evolves_then_delete:
  assumes "evolves d d1" "distinct (map pkg_id (packages d1))" "packages d' = delete_where P (packages d1)"
    "\<And>p q. p \<in> set (packages d) \<Longrightarrow> q \<in> set (packages d1) \<Longrightarrow> pkg_id q = pkg_id p \<Longrightarrow> P q \<Longrightarrow> pkg_state p \<noteq> Some ''active''"
  shows "evolves d d'"
  unfolding evolves_def
proof (intro conjI ballI)
  fix p assume p: "p \<in> set (packages d)"
  have sub: "set (packages d') = {q \<in> set (packages d1). \<not> P q}" by (simp add: assms(3) table_simps)
  show "(\<exists>q \<in> set (packages d'). pkg_id q = pkg_id p \<and> state_move d p q)
     \<or> pkg_id p \<notin> pkg_id ` set (packages d') \<and> pkg_state p \<noteq> Some ''active''"
  proof (cases "\<exists>q \<in> set (packages d1). pkg_id q = pkg_id p \<and> state_move d p q")
    case True
    then obtain q where q: "q \<in> set (packages d1)" "pkg_id q = pkg_id p" "state_move d p q" by blast
    show ?thesis
    proof (cases "P q")
      case True
      have "pkg_id p \<notin> pkg_id ` set (packages d')"
      proof
        assume "pkg_id p \<in> pkg_id ` set (packages d')"
        then obtain y where y: "y \<in> set (packages d1)" "pkg_id y = pkg_id p" "\<not> P y" unfolding sub by auto
        then have "y = q" using assms(2) q(1,2) by (auto simp: distinct_map inj_on_def)
        then show False using y(3) True by simp
      qed
      then show ?thesis using assms(4) [OF p q(1,2) True] by blast
    next
      case False
      then show ?thesis using q unfolding sub by blast
    qed
  next
    case False
    then have "pkg_id p \<notin> pkg_id ` set (packages d1)" "pkg_state p \<noteq> Some ''active''"
      using assms(1) p unfolding evolves_def by blast+
    then show ?thesis unfolding sub by blast
  qed
next
  fix q assume "q \<in> set (packages d')"
  then show "pkg_id q \<in> pkg_id ` set (packages d) \<or> pkg_state q \<in> {Some ''draft'', Some ''active''}"
    using assms(1) by (auto simp: assms(3) table_simps evolves_def)
qed

subsection \<open>The trash, publishing and purging\<close>

lemma state_change_ok:
  assumes "catalog_ok d" "p \<in> set (packages d)" "\<And>x. pkg_id (f x) = pkg_id x \<and> pkg_name (f x) = pkg_name x"
    "dataset_ok d (f p)" "state_move d p (f p)"
  shows "catalog_ok (set_package (pkg_id p) f d)" "evolves d (set_package (pkg_id p) f d)"
proof -
  have one: "x = p" if "x \<in> set (packages d)" "pkg_id x = pkg_id p" for x
    using assms(1,2) that by (auto simp: catalog_ok_def distinct_map inj_on_def)
  show "catalog_ok (set_package (pkg_id p) f d)"
    unfolding set_package_def using assms(3,4) one by (intro catalog_ok_update_where assms(1)) auto
  show "evolves d (set_package (pkg_id p) f d)"
    by (rule evolves_update [where P = "\<lambda>x. pkg_id x = pkg_id p" and f = f])
      (use assms(3,5) one in \<open>auto simp: set_package_def\<close>)
qed

lemma evolves_cong: "packages d2 = packages d1 \<Longrightarrow> evolves d d2 = evolves d d1"
  by (simp add: evolves_def)

lemma delete_package_ok:
  assumes "delete_package now authorize as_uuid s d = (Inr q, d')" "catalog_ok d"
  shows "catalog_ok d'" "evolves d d'"
proof -
  obtain p where p: "authorized authorize as_uuid s [''active''] d = Inr p"
    "d' = mark_package_resource_docs now False (pkg_id p) (set_package (pkg_id p) (moved now ''deleted'') d)"
    using assms(1) by (auto simp: delete_package_def split: sum.splits)
  note a = authorized_Inr [OF p(1)]
  have "dataset_ok d p" using assms(2) a(1) by (simp add: catalog_ok_def)
  then have "dataset_ok d (moved now ''deleted'' p)" using a(3) by (auto simp: dataset_ok_def moved_def)
  moreover have "state_move d p (moved now ''deleted'' p)" using a(3) by (simp add: state_move_def moved_def)
  ultimately show "catalog_ok d'" "evolves d d'"
    using state_change_ok [OF assms(2) a(1), of "moved now ''deleted''"] by (simp_all add: p(2) moved_def evolves_def)
qed

lemma mark_for_sync_retry_ok:
  assumes "catalog_ok d"
  shows "catalog_ok (mark_for_sync_retry now i d)" "evolves d (mark_for_sync_retry now i d)"
proof -
  show "catalog_ok (mark_for_sync_retry now i d)" using assms by (simp add: mark_for_sync_retry_def)
  show "evolves d (mark_for_sync_retry now i d)"
    by (rule evolves_update [where f = "\<lambda>p. p\<lparr>pkg_doc_sync_due_at := Some now\<rparr>"])
      (auto simp: mark_for_sync_retry_def mark_package_docs_def state_move_def)
qed

lemma restore_package_ok:
  assumes "restore_package now authorize as_uuid s private d = (Inr q, d')" "catalog_ok d"
  shows "catalog_ok d'" "evolves d d'"
proof -
  obtain p where a: "authorized authorize as_uuid s [''deleted'', ''active''] d = Inr p"
    using assms(1) by (auto simp: restore_package_def split: sum.splits)
  note r = authorized_Inr [OF a]
  have ok: "dataset_ok d p" using assms(2) r(1) by (simp add: catalog_ok_def)
  have "catalog_ok d' \<and> evolves d d'"
  proof (cases "pkg_state p = Some ''active''")
    case True
    then show ?thesis using assms(1) a mark_for_sync_retry_ok [OF assms(2)] by (auto simp: restore_package_def)
  next
    case False
    then have del: "pkg_state p = Some ''deleted''" using r(3) by auto
    have org: "\<forall>g. pkg_owner_org p = Some g \<longrightarrow> org_active g d"
      and d': "d' = mark_package_resource_docs now True (pkg_id p) (set_package (pkg_id p) (restored now private) d)"
      using assms(1) a False by (auto simp: restore_package_def org_refused_None split: option.splits)
    have "dataset_ok d (restored now private p)" using ok org del by (auto simp: dataset_ok_def restored_def moved_def)
    moreover have "state_move d p (restored now private p)"
      using ok org del by (auto simp: state_move_def restored_def moved_def dataset_ok_def)
    ultimately show ?thesis
      using state_change_ok [OF assms(2) r(1), of "restored now private"]
      by (simp add: d' restored_def moved_def evolves_def)
  qed
  then show "catalog_ok d'" "evolves d d'" by auto
qed

lemma publish_package_ok:
  assumes "publish_package now authorize as_uuid s d = (Inr q, d')" "catalog_ok d"
  shows "catalog_ok d'" "evolves d d'"
proof -
  obtain p where a: "authorized authorize as_uuid s [''draft'', ''active''] d = Inr p"
    using assms(1) by (auto simp: publish_package_def split: sum.splits)
  note r = authorized_Inr [OF a]
  have ok: "dataset_ok d p" using assms(2) r(1) by (simp add: catalog_ok_def)
  have "catalog_ok d' \<and> evolves d d'"
  proof (cases "pkg_state p = Some ''active''")
    case True
    then show ?thesis using assms(1) a mark_for_sync_retry_ok [OF assms(2)] by (auto simp: publish_package_def)
  next
    case False
    then have draft: "pkg_state p = Some ''draft''" using r(3) by auto
    have one: "x = p" if "x \<in> set (packages d)" "pkg_id x = pkg_id p" for x
      using assms(2) r(1) that by (auto simp: catalog_ok_def distinct_map inj_on_def)
    have org: "\<forall>g. pkg_owner_org p = Some g \<longrightarrow> org_active g d" and bl: "draft_publish_blockers p = []"
      and "d' = mark_package_resource_docs now True (pkg_id p)
        (d\<lparr>packages := update_where (\<lambda>x. pkg_id x = pkg_id p \<and> pkg_state x = Some ''draft'') (moved now ''active'') (packages d)\<rparr>)"
      using assms(1) a False by (auto simp: publish_package_def org_refused_None split: option.splits if_splits)
    moreover have "update_where (\<lambda>x. pkg_id x = pkg_id p \<and> pkg_state x = Some ''draft'') (moved now ''active'') (packages d)
        = update_where (\<lambda>x. pkg_id x = pkg_id p) (moved now ''active'') (packages d)"
      unfolding update_where_def using one draft by (intro map_cong refl) auto
    ultimately have d': "d' = mark_package_resource_docs now True (pkg_id p) (set_package (pkg_id p) (moved now ''active'') d)"
      by (simp add: set_package_def)
    have "pkg_owner_org p \<noteq> None" using bl by (auto simp: draft_publish_blockers_def split: if_splits)
    then have "dataset_ok d (moved now ''active'' p)" "state_move d p (moved now ''active'' p)"
      using ok org draft bl by (auto simp: dataset_ok_def state_move_def moved_def)
    then show ?thesis
      using state_change_ok [OF assms(2) r(1), of "moved now ''active''"] by (simp add: d' moved_def evolves_def)
  qed
  then show "catalog_ok d'" "evolves d d'" by auto
qed

end
