(* ===== verification/Catalog_Machine.thy ===== *)
theory Catalog_Machine
  imports Catalog_Moves
begin

text \<open>
  Purging, which runs under the claims of the resources, and the organizations; then all of it as
  one machine over the tables and what lies outside them (\<open>site\<close>), an interpretation of \<open>machine\<close>.
\<close>

subsection \<open>Purging under claims\<close>

lemma release_pipelines: "\<exists>ps. snd (release_resource_claims ids owner d) = d\<lparr>pipelines := ps\<rparr>"
  by (auto simp: release_resource_claims_def Let_def intro: exI [of _ "pipelines d"])

lemma claim_pipelines: "\<exists>ps. snd (claim_resources now mint rids owner s k d) = d\<lparr>pipelines := ps\<rparr>"
  by (auto simp: claim_resources_def ensure_claimable_def Let_def intro: exI [of _ "pipelines d"])

text \<open>Either a resource is held and nothing happened, or the body ran on the claimed rows.\<close>

lemma under_claims_cases:
  assumes "under_claims now mint owner rids body w = (r, w')"
  obtains (held) i where "r = Inl (Being_Processed i)" "w' = w"
  | (ran) ps ps' w1 where "body (w\<lparr>site_db := (site_db w)\<lparr>pipelines := ps\<rparr>\<rparr>) = (r, w1)"
      "w' = w1\<lparr>site_db := (site_db w1)\<lparr>pipelines := ps'\<rparr>\<rparr>"
proof -
  obtain taken held d1 where c: "claim_resources now mint rids owner CLAIM_STALE_AFTER_MS Job (site_db w) = ((taken, held), d1)"
    by (metis prod.collapse)
  obtain ps where d1: "d1 = (site_db w)\<lparr>pipelines := ps\<rparr>"
    using claim_pipelines [of now mint rids owner CLAIM_STALE_AFTER_MS Job "site_db w"] c by auto
  show ?thesis
  proof (cases "held = []")
    case False
    then have "r = Inl (Being_Processed (held_resource_id (hd held)))" "w' = w"
      using assms c by (simp_all add: under_claims_def with_resource_claims_or_conflict_def with_resource_claims_def held_conflict_def)
    then show ?thesis by (rule held)
  next
    case True
    obtain r1 w1 where b: "body (w\<lparr>site_db := d1\<rparr>) = (r1, w1)" by (cases "body (w\<lparr>site_db := d1\<rparr>)")
    obtain ps' where ps': "snd (release_resource_claims (map claim_id taken) owner (site_db w1)) = (site_db w1)\<lparr>pipelines := ps'\<rparr>"
      using release_pipelines by blast
    have "r = r1" "w' = w1\<lparr>site_db := (site_db w1)\<lparr>pipelines := ps'\<rparr>\<rparr>"
      using assms c b ps' True by (simp_all add: under_claims_def with_resource_claims_or_conflict_def with_resource_claims_def)
    then show ?thesis using ran b d1 by blast
  qed
qed

lemma delete_docs_db: "delete_docs index pids w = (r, w') \<Longrightarrow> site_db w' = site_db w \<and> site_queue w' = site_queue w
    \<and> site_objects w' = site_objects w"
  by (induction index pids w rule: delete_docs.induct) (auto split: option.splits)

lemma search_docs_db:
  "purge_packages_search_docs x st pids w = (r, w') \<Longrightarrow> site_db w' = site_db w \<and> site_queue w' = site_queue w
    \<and> site_objects w' = site_objects w"
  by (auto simp: purge_packages_search_docs_def dest: delete_docs_db split: option.splits if_splits)

lemma package_storage_db: "site_db (snd (purge_package_storage x pid w)) = site_db w"
  by (simp add: purge_package_storage_def)

lemma catalog_ok_pipelines [simp]: "catalog_ok (d\<lparr>pipelines := ps\<rparr>) = catalog_ok d"
proof -
  have "tags_ok (d\<lparr>pipelines := ps\<rparr>) = tags_ok d" by (rule tags_ok_cong) simp_all
  moreover have "dataset_ok (d\<lparr>pipelines := ps\<rparr>) p = dataset_ok d p" for p by (rule dataset_ok_cong) simp
  ultimately show ?thesis by (simp add: catalog_ok_def)
qed

lemma delete_packages_ok:
  assumes "catalog_ok d"
  shows "catalog_ok (delete_orphan_free_tags (delete_packages P d))"
    "packages (delete_orphan_free_tags (delete_packages P d)) = delete_where P (packages d)"
    "organizations (delete_orphan_free_tags (delete_packages P d)) = organizations d"
proof -
  let ?d1 = "delete_packages P d" and ?d2 = "delete_orphan_free_tags (delete_packages P d)"
  show p: "packages ?d2 = delete_where P (packages d)" and o': "organizations ?d2 = organizations d"
    by (simp_all add: delete_orphan_free_tags_def delete_packages_def Let_def)
  let ?gone = "pkg_id ` {p \<in> set (packages d). P p}"
  have rest: "resources ?d2 = delete_where (\<lambda>r. res_package r \<in> ?gone) (resources d)"
    "package_tags ?d2 = delete_where (\<lambda>l. fst l \<in> ?gone) (package_tags d)"
    "package_groups ?d2 = delete_where (\<lambda>l. fst l \<in> ?gone) (package_groups d)" "group_rows ?d2 = group_rows d"
    by (simp_all add: delete_orphan_free_tags_def delete_packages_def Let_def)
  have stay: "i \<in> pkg_id ` set (packages ?d2)" if "i \<in> pkg_id ` set (packages d)" "i \<notin> ?gone" for i
    using that unfolding p by (auto simp: table_simps)
  have t: "tags_ok d" using assms by (simp add: catalog_ok_def)
  have "tags_ok ?d1" using t unfolding tags_ok_def delete_packages_def Let_def
    by (auto simp: delete_where_def)
  then have "tags_ok ?d2" by (rule delete_orphan_free_tags_ok)
  moreover have "dataset_ok ?d2 q = dataset_ok d q" for q by (rule dataset_ok_cong [OF o'])
  moreover have "res_package ` set (resources ?d2) \<subseteq> pkg_id ` set (packages ?d2)"
    "fst ` set (package_tags ?d2) \<union> fst ` set (package_groups ?d2) \<subseteq> pkg_id ` set (packages ?d2)"
    using stay assms unfolding rest catalog_ok_def by (auto simp: table_simps simp del: o_apply)
  moreover have "snd ` set (package_groups ?d2) \<subseteq> grp_id ` set (group_rows ?d2)" "distinct (package_groups ?d2)"
    using assms unfolding rest catalog_ok_def by (auto simp: table_simps delete_where_def)
  moreover have "distinct (map pkg_id (packages ?d2))" "distinct (map pkg_name (packages ?d2))" "distinct (map org_id (organizations ?d2))"
    "\<forall>q \<in> set (packages ?d2). dataset_ok d q"
    using assms unfolding p o' catalog_ok_def by (auto simp: table_simps distinct_map_delete_where)
  ultimately show "catalog_ok ?d2" unfolding catalog_ok_def by simp
qed

text \<open>What a purge leaves of the tables: nothing, or the rows of the state it claimed them in removed.\<close>

lemma purge_rows_db:
  assumes "purge_rows now job tx st pid rids w = (r, w')"
  shows "site_db w' = site_db w \<and> (\<forall>q. r \<noteq> Inr q)
    \<or> site_db w' = delete_orphan_free_tags (delete_packages (\<lambda>p. pkg_id p = pid \<and> pkg_state p = Some st) (site_db w))"
  using assms unfolding purge_rows_def Let_def by (auto split: list.splits prod.splits)

lemma purge_body_db:
  assumes "purge_body now job tx x pid rids w = (r, w')"
  shows "site_db w' = site_db w
    \<or> site_db w' = delete_orphan_free_tags (delete_packages (\<lambda>p. pkg_id p = pid \<and> pkg_state p = Some ''deleted'') (site_db w))"
proof -
  obtain r1 w1 where s: "purge_packages_search_docs x (Some ''deleted'') [pid] w = (r1, w1)" by fastforce
  obtain r2 w2 where p: "purge_rows now job tx ''deleted'' pid rids w1 = (r2, w2)" by fastforce
  have "site_db w' \<in> {site_db w1, site_db w2}"
    using assms s p package_storage_db [of x pid w2] by (auto simp: purge_body_def split: sum.splits prod.splits)
  then show ?thesis using search_docs_db [OF s] purge_rows_db [OF p] by auto
qed

lemma purge_draft_body_db:
  assumes "purge_draft_body now job tx x pid rids w = (r, w')"
  shows "site_db w' = site_db w
    \<or> site_db w' = delete_orphan_free_tags (delete_packages (\<lambda>p. pkg_id p = pid \<and> pkg_state p = Some ''purging'') (site_db w))"
proof -
  obtain r1 w1 where s: "purge_package_externals x pid w = (r1, w1)" by fastforce
  have "site_db w1 = site_db w"
    using s by (auto simp: purge_package_externals_def split: prod.splits sum.splits
        dest: search_docs_db package_storage_db [THEN sym, THEN trans])
      (metis package_storage_db search_docs_db snd_conv)+
  moreover have "site_db w' = site_db w1 \<or> (\<exists>r. purge_rows now job tx ''purging'' pid rids w1 = (r, w'))"
    using assms s by (auto simp: purge_draft_body_def finalize_draft_purge_def split: sum.splits)
  ultimately show ?thesis using purge_rows_db [of now job tx "''purging''" pid rids w1] by metis
qed

definition leads_to :: "db \<Rightarrow> db \<Rightarrow> bool" where
  "leads_to d d' \<longleftrightarrow> catalog_ok d' \<and> evolves d d'"

lemma leads_to_refl: "catalog_ok d \<Longrightarrow> leads_to d d"
  by (simp add: leads_to_def evolves_same)

lemma leads_to_pipelines [simp]:
  "leads_to (d\<lparr>pipelines := ps\<rparr>) d' = leads_to d d'" "leads_to d (d'\<lparr>pipelines := ps\<rparr>) = leads_to d d'"
  by (simp_all add: leads_to_def evolves_def state_move_def org_active_def)

lemma leads_to_delete:
  assumes "catalog_ok d" "\<And>p. p \<in> set (packages d) \<Longrightarrow> P p \<Longrightarrow> pkg_state p \<noteq> Some ''active''"
  shows "leads_to d (delete_orphan_free_tags (delete_packages P d))"
  unfolding leads_to_def using delete_packages_ok [OF assms(1)] assms(2)
  by (auto intro!: evolves_delete simp: assms(1) [unfolded catalog_ok_def])

lemma under_claims_leads_to:
  assumes "under_claims now mint owner rids body w = (r, w')" "catalog_ok d"
    "leads_to d (site_db w)"
    "\<And>w1 r1 w2. body w1 = (r1, w2) \<Longrightarrow> (\<exists>ps. site_db w1 = (site_db w)\<lparr>pipelines := ps\<rparr>) \<Longrightarrow> leads_to d (site_db w2)"
  shows "leads_to d (site_db w')"
  using assms(1)
proof (cases rule: under_claims_cases)
  case (held i)
  then show ?thesis using assms(3) by simp
next
  case (ran ps ps' w1)
  then have "leads_to d (site_db w1)" using assms(4) [OF ran(1)] by auto
  then show ?thesis by (simp add: ran(2))
qed

lemma purge_package_leads_to:
  assumes "purge_package now mint owner job tx x authorize as_uuid s w = (r, w')" "catalog_ok (site_db w)"
  shows "leads_to (site_db w) (site_db w')"
proof (cases "authorized authorize as_uuid s [''deleted''] (site_db w)")
  case (Inl e)
  then show ?thesis using assms by (auto simp: purge_package_def leads_to_refl)
next
  case (Inr p)
  then have u: "under_claims now mint owner (list_purge_targets (site_db w) [pkg_id p])
      (purge_body now job tx x (pkg_id p) (list_purge_targets (site_db w) [pkg_id p])) w = (r, w')"
    using assms(1) by (simp add: purge_package_def Let_def)
  show ?thesis
  proof (rule under_claims_leads_to [OF u assms(2) leads_to_refl [OF assms(2)]])
    fix w1 r1 w2 assume b: "purge_body now job tx x (pkg_id p) (list_purge_targets (site_db w) [pkg_id p]) w1 = (r1, w2)"
      and "\<exists>ps. site_db w1 = (site_db w)\<lparr>pipelines := ps\<rparr>"
    then obtain ps where ps: "site_db w1 = (site_db w)\<lparr>pipelines := ps\<rparr>" by blast
    then have "catalog_ok (site_db w1)" using assms(2) by simp
    then have "leads_to (site_db w1) (site_db w2)"
      using purge_body_db [OF b] by (auto simp: leads_to_refl intro!: leads_to_delete)
    then show "leads_to (site_db w) (site_db w2)" by (simp add: ps)
  qed
qed

lemma claim_draft_leads_to:
  assumes "claim_draft_for_purge authorize as_uuid s d = (r, d')" "catalog_ok d"
  shows "leads_to d d'" "\<And>p q. p \<in> set (packages d) \<Longrightarrow> q \<in> set (packages d') \<Longrightarrow> pkg_id q = pkg_id p
    \<Longrightarrow> pkg_state q = Some ''purging'' \<Longrightarrow> pkg_state p \<noteq> Some ''active''"
proof -
  obtain i where i: "d' = d \<or> d' = d\<lparr>packages := update_where (\<lambda>x. pkg_id x = i \<and> pkg_state x \<in> {Some ''draft'', Some ''purging''})
      (\<lambda>x. x\<lparr>pkg_state := Some ''purging''\<rparr>) (packages d)\<rparr>"
    using assms(1) unfolding claim_draft_for_purge_def Let_def by (auto split: sum.splits list.splits)
  have dist: "distinct (map pkg_id (packages d))" using assms(2) by (simp add: catalog_ok_def)
  from i show "leads_to d d'"
  proof
    assume d': "d' = d\<lparr>packages := update_where (\<lambda>x. pkg_id x = i \<and> pkg_state x \<in> {Some ''draft'', Some ''purging''})
      (\<lambda>x. x\<lparr>pkg_state := Some ''purging''\<rparr>) (packages d)\<rparr>"
    have "catalog_ok d'" unfolding d' by (rule catalog_ok_update_where [OF assms(2)]) (auto simp: dataset_ok_def)
    moreover have "evolves d d'" by (rule evolves_update [where P = "\<lambda>x. pkg_id x = i \<and> pkg_state x \<in> {Some ''draft'', Some ''purging''}" and f = "\<lambda>x. x\<lparr>pkg_state := Some ''purging''\<rparr>"])
        (auto simp: d' state_move_def)
    ultimately show ?thesis by (simp add: leads_to_def)
  qed (simp add: leads_to_refl assms(2))
  fix p q assume p: "p \<in> set (packages d)" "q \<in> set (packages d')" "pkg_id q = pkg_id p" "pkg_state q = Some ''purging''"
  have "\<exists>x \<in> set (packages d). pkg_id x = pkg_id q \<and> pkg_state x \<noteq> Some ''active''"
    using i
  proof
    assume d': "d' = d\<lparr>packages := update_where (\<lambda>x. pkg_id x = i \<and> pkg_state x \<in> {Some ''draft'', Some ''purging''})
      (\<lambda>x. x\<lparr>pkg_state := Some ''purging''\<rparr>) (packages d)\<rparr>"
    obtain x where x: "x \<in> set (packages d)" "q = (if pkg_id x = i \<and> pkg_state x \<in> {Some ''draft'', Some ''purging''}
        then x\<lparr>pkg_state := Some ''purging''\<rparr> else x)"
      using p(2) by (auto simp: d' update_where_def)
    show ?thesis by (rule bexI [OF _ x(1)]) (use x(2) p(4) in \<open>auto split: if_splits\<close>)
  qed (use p(2,4) in force)
  then obtain x where x: "x \<in> set (packages d)" "pkg_id x = pkg_id p" "pkg_state x \<noteq> Some ''active''" using p(3) by auto
  then have "x = p" using dist p(1) by (auto simp: distinct_map inj_on_def)
  then show "pkg_state p \<noteq> Some ''active''" using x(3) by simp
qed

lemma purge_draft_leads_to:
  assumes "purge_draft now mint owner job tx x authorize as_uuid s w = (r, w')" "catalog_ok (site_db w)"
  shows "leads_to (site_db w) (site_db w')"
proof -
  obtain r0 d where c: "claim_draft_for_purge authorize as_uuid s (site_db w) = (r0, d)" by fastforce
  note cl = claim_draft_leads_to [OF c assms(2)]
  show ?thesis
  proof (cases r0)
    case (Inl e)
    then show ?thesis using assms(1) c cl(1) by (auto simp: purge_draft_def)
  next
    case (Inr p)
    then have u: "under_claims now mint owner (list_purge_targets d [pkg_id p])
      (purge_draft_body now job tx x (pkg_id p) (list_purge_targets d [pkg_id p])) (w\<lparr>site_db := d\<rparr>) = (r, w')"
      using assms(1) c by (simp add: purge_draft_def Let_def)
    show ?thesis
    proof (rule under_claims_leads_to [OF u assms(2)])
      fix w1 r1 w2 assume b: "purge_draft_body now job tx x (pkg_id p) (list_purge_targets d [pkg_id p]) w1 = (r1, w2)"
        and "\<exists>ps. site_db w1 = (site_db (w\<lparr>site_db := d\<rparr>))\<lparr>pipelines := ps\<rparr>"
      then obtain ps where ps: "site_db w1 = d\<lparr>pipelines := ps\<rparr>" by auto
      let ?P = "\<lambda>q. pkg_id q = pkg_id p \<and> pkg_state q = Some ''purging''"
      have l1: "leads_to (site_db w) (site_db w1)" using cl(1) by (simp add: ps)
      have "leads_to (site_db w) (delete_orphan_free_tags (delete_packages ?P (site_db w1)))"
        unfolding leads_to_def
      proof
        have ok: "catalog_ok (site_db w1)" using l1 by (simp add: leads_to_def)
        show "catalog_ok (delete_orphan_free_tags (delete_packages ?P (site_db w1)))" by (rule delete_packages_ok(1) [OF ok])
        show "evolves (site_db w) (delete_orphan_free_tags (delete_packages ?P (site_db w1)))"
        proof (rule evolves_then_delete)
          show "evolves (site_db w) (site_db w1)" using l1 by (simp add: leads_to_def)
          show "distinct (map pkg_id (packages (site_db w1)))" using ok by (simp add: catalog_ok_def)
          show "packages (delete_orphan_free_tags (delete_packages ?P (site_db w1))) = delete_where ?P (packages (site_db w1))"
            by (rule delete_packages_ok(2) [OF ok])
        qed (use cl(2) in \<open>auto simp: ps\<close>)
      qed
      then show "leads_to (site_db w) (site_db w2)" using purge_draft_body_db [OF b] l1 by auto
    qed (simp add: cl(1))
  qed
qed

subsection \<open>Organizations\<close>

lemma catalog_ok_organizations:
  assumes "catalog_ok d" "distinct (map org_id gs)" "org_id ` set (organizations d) \<subseteq> org_id ` set gs"
    "\<And>p g. p \<in> set (packages d) \<Longrightarrow> pkg_state p = Some ''active'' \<Longrightarrow> pkg_owner_org p = Some g \<Longrightarrow> org_active g d
      \<Longrightarrow> org_active g (d\<lparr>organizations := gs\<rparr>)"
  shows "leads_to d (d\<lparr>organizations := gs\<rparr>)"
proof -
  have "dataset_ok (d\<lparr>organizations := gs\<rparr>) p" if "p \<in> set (packages d)" for p
    using that assms(1,3,4) unfolding dataset_ok_def catalog_ok_def by (auto simp: subset_iff)
  moreover have "tags_ok (d\<lparr>organizations := gs\<rparr>) = tags_ok d" by (rule tags_ok_cong) simp_all
  ultimately show ?thesis using assms(1,2) unfolding leads_to_def catalog_ok_def by (simp add: evolves_same)
qed

lemma catalog_ok_org_update:
  assumes "catalog_ok d" "\<And>g. org_id (f g) = org_id g"
    "\<And>p g. p \<in> set (packages d) \<Longrightarrow> pkg_state p = Some ''active'' \<Longrightarrow> g \<in> set (organizations d) \<Longrightarrow> P g
      \<Longrightarrow> pkg_owner_org p = Some (org_id g) \<Longrightarrow> org_state g = Some ''active'' \<Longrightarrow> org_state (f g) = Some ''active''"
  shows "leads_to d (d\<lparr>organizations := update_where P f (organizations d)\<rparr>)"
proof (rule catalog_ok_organizations [OF assms(1)])
  have ids: "map org_id (update_where P f (organizations d)) = map org_id (organizations d)"
    by (rule map_update_where) (rule assms(2))
  then show "distinct (map org_id (update_where P f (organizations d)))" using assms(1) by (simp add: catalog_ok_def)
  show "org_id ` set (organizations d) \<subseteq> org_id ` set (update_where P f (organizations d))"
    using ids by (metis equalityE set_map)
  fix p g assume p: "p \<in> set (packages d)" "pkg_state p = Some ''active''" "pkg_owner_org p = Some g" "org_active g d"
  then obtain h where h: "h \<in> set (organizations d)" "org_id h = g" "org_state h = Some ''active''"
    by (auto simp: org_active_def list_ex_iff)
  let ?h = "if P h then f h else h"
  have "?h \<in> set (update_where P f (organizations d))" using h(1) by (auto simp: update_where_def)
  moreover have "org_id ?h = g" "org_state ?h = Some ''active''" using h p assms(2,3) by auto
  ultimately show "org_active g (d\<lparr>organizations := update_where P f (organizations d)\<rparr>)"
    by (auto simp: org_active_def list_ex_iff)
qed

lemma get_organization_Inr:
  assumes "get_organization as_uuid s state d = Inr g"
  shows "g \<in> set (organizations d)" "org_state g = Some state"
proof -
  obtain rest where e: "sort_key (\<lambda>g. if Some (org_id g) = as_uuid s then 0 else 1 :: nat)
      (select_where (\<lambda>g. (org_name g = s \<or> Some (org_id g) = as_uuid s) \<and> org_state g = Some state) (organizations d)) = g # rest"
    using assms by (auto simp: get_organization_def split: list.splits)
  have "g \<in> set (g # rest)" by simp
  then show "g \<in> set (organizations d)" "org_state g = Some state"
    unfolding e [symmetric] by (simp_all add: set_select_where)
qed

lemma create_organization_leads_to:
  assumes "create_organization now i input d = (r, d')" "catalog_ok d" "i \<notin> org_id ` set (organizations d)"
  shows "leads_to d d'"
proof -
  let ?g = "\<lparr>org_id = i, org_name = oi_name input, org_title = oi_title input,
     org_description = oi_description input, org_image_url = oi_image_url input,
     org_state = Some ''active'', org_extras = oi_extras input, org_created = now, org_updated = now\<rparr>"
  have "d' = d \<or> d' = d\<lparr>organizations := organizations d @ [?g]\<rparr>" and "org_id ?g = i"
    using assms(1) by (auto simp: create_organization_def Let_def split: if_splits)
  then have "d' = d \<or> (\<exists>g. org_id g = i \<and> d' = d\<lparr>organizations := organizations d @ [g]\<rparr>)" by blast
  then show ?thesis using assms(2,3)
    by (auto simp: leads_to_refl intro!: catalog_ok_organizations) (auto simp: catalog_ok_def org_active_def)
qed

lemma mark_package_docs_leads_to: "catalog_ok d \<Longrightarrow> leads_to d (mark_package_docs now P d)"
  unfolding leads_to_def
  by (intro conjI mark_package_docs_ok evolves_update [where f = "\<lambda>p. p\<lparr>pkg_doc_sync_due_at := Some now\<rparr>"
        and P = "\<lambda>p. P p \<and> pkg_state p = Some ''active''"])
    (auto simp: mark_package_docs_def state_move_def)

lemma update_organization_leads_to:
  assumes "update_organization now as_uuid s input d = (r, d')" "catalog_ok d"
  shows "leads_to d d'"
proof -
  let ?f = "\<lambda>h. h\<lparr>org_name := oi_name input, org_title := oi_title input, org_description := oi_description input,
       org_image_url := oi_image_url input, org_extras := oi_extras input, org_updated := now\<rparr>"
  have "d' = d \<or> (\<exists>i d1. (d1 = d \<or> (\<exists>P. d1 = mark_package_docs now P d))
      \<and> d' = d1\<lparr>organizations := update_where (\<lambda>h. org_id h = i) ?f (organizations d1)\<rparr>)"
  proof (cases "get_organization as_uuid s ''active'' d")
    case (Inr g)
    define d1 where "d1 = (if oi_name input \<noteq> org_name g then mark_package_docs now (\<lambda>p. pkg_owner_org p = Some (org_id g)) d else d)"
    have "d' = d \<or> d' = d1\<lparr>organizations := update_where (\<lambda>h. org_id h = org_id g) ?f (organizations d1)\<rparr>"
      using assms(1) Inr unfolding d1_def update_organization_def Let_def by (auto split: if_split_asm)
    moreover have "d1 = d \<or> (\<exists>P. d1 = mark_package_docs now P d)" unfolding d1_def by auto
    ultimately show ?thesis by blast
  qed (use assms(1) in \<open>simp add: update_organization_def\<close>)
  then consider "d' = d" | i d1 where "d1 = d \<or> (\<exists>P. d1 = mark_package_docs now P d)"
      "d' = d1\<lparr>organizations := update_where (\<lambda>h. org_id h = i) ?f (organizations d1)\<rparr>" by blast
  then show ?thesis
  proof cases
    case 1
    then show ?thesis using assms(2) by (simp add: leads_to_refl)
  next
    case (2 i d1)
    note d1 = 2(1) and d' = 2(2)
    have l: "leads_to d d1"
      using d1 by (elim disjE exE) (simp_all only: mark_package_docs_leads_to [OF assms(2)] leads_to_refl [OF assms(2)])
    then have "catalog_ok d1" by (simp add: leads_to_def)
    then have "leads_to d1 d'" unfolding d' by (rule catalog_ok_org_update) simp_all
    then have "catalog_ok d'" by (simp add: leads_to_def)
    moreover have "packages d' = packages d1" by (simp add: d')
    ultimately show ?thesis using l evolves_cong [of d' d1 d] by (simp add: leads_to_def)
  qed
qed

lemma assert_no_linked_packages_None:
  "assert_no_linked_packages active_only org d = None
    \<longleftrightarrow> (\<forall>p \<in> set (packages d). pkg_owner_org p = Some org \<longrightarrow> active_only \<and> pkg_state p \<noteq> Some ''active'')"
  by (auto simp: assert_no_linked_packages_def list_ex_iff)

lemma delete_organization_leads_to:
  assumes "delete_organization now as_uuid s d = (r, d')" "catalog_ok d"
  shows "leads_to d d'"
proof -
  have "d' = d \<or> (\<exists>i. assert_no_linked_packages True i d = None \<and> d' = set_org_state now i ''deleted'' d)"
  proof (cases "get_organization as_uuid s ''active'' d")
    case (Inr g)
    show ?thesis
    proof (cases "assert_no_linked_packages True (org_id g) d")
      case None
      then have "d' = set_org_state now (org_id g) ''deleted'' d" using assms(1) Inr by (simp add: delete_organization_def)
      then show ?thesis using None by blast
    qed (use assms(1) Inr in \<open>simp add: delete_organization_def\<close>)
  qed (use assms(1) in \<open>simp add: delete_organization_def\<close>)
  then show ?thesis using assms(2)
    by (auto simp: leads_to_refl set_org_state_def assert_no_linked_packages_None intro!: catalog_ok_org_update)
qed

lemma restore_organization_leads_to:
  assumes "restore_organization now org d = (r, d')" "catalog_ok d"
  shows "leads_to d d'"
  using assms by (auto simp: restore_organization_def leads_to_refl split: if_splits intro!: catalog_ok_org_update)

lemma claim_org_leads_to:
  assumes "claim_org_for_purge now org d = (b, d')" "catalog_ok d"
  shows "leads_to d d'" "b \<Longrightarrow> p \<in> set (packages d) \<Longrightarrow> pkg_owner_org p = Some org \<Longrightarrow> pkg_state p \<noteq> Some ''active''"
proof -
  show "leads_to d d'" using assms by (auto simp: claim_org_for_purge_def Let_def intro!: catalog_ok_org_update)
  assume b: b and p: "p \<in> set (packages d)" "pkg_owner_org p = Some org"
  then obtain g where g: "g \<in> set (organizations d)" "org_id g = org" "org_state g \<in> {Some ''deleted'', Some ''purging''}"
    using assms(1) by (auto simp: claim_org_for_purge_def Let_def list_ex_iff)
  have "\<not> org_active org d"
    using g assms(2) by (auto simp: org_active_def list_ex_iff catalog_ok_def distinct_map inj_on_def)
  then show "pkg_state p \<noteq> Some ''active''" using p assms(2) by (auto simp: catalog_ok_def dataset_ok_def)
qed

lemma purge_chunk_db: "site_db (snd (purge_chunk x chunk w)) = site_db w"
  by (auto simp: purge_chunk_def Let_def split: prod.splits sum.splits dest: search_docs_db)

lemma purge_chunks_db: "site_db (snd (purge_chunks x pids w)) = site_db w"
proof (induction x pids w rule: purge_chunks.induct)
  case (1 x pids w)
  have "site_db (snd (purge_chunk x (take EXTERNALS_CLEANUP_CONCURRENCY pids) w)) = site_db w" by (rule purge_chunk_db)
  then show ?case using 1 by (subst purge_chunks.simps) (auto split: prod.splits sum.splits)
qed

lemma delete_resource_lakes_db: "site_db (snd (delete_resource_lakes x rids w)) = site_db w"
proof (induction x rids w rule: delete_resource_lakes.induct)
  case (1 x rids w)
  then show ?case by (subst delete_resource_lakes.simps) (auto simp: Let_def)
qed

lemma purge_org_body_db:
  assumes "purge_org_body x org pids rids w = (r, w')"
  shows "site_db w' = site_db w \<or> delete_organization_rows org pids (site_db w) = (Inr (), site_db w')"
proof -
  obtain r1 w1 where c: "purge_chunks x pids w = (r1, w1)" by fastforce
  obtain r2 w2 where l: "delete_resource_lakes x rids w1 = (r2, w2)" by fastforce
  obtain r3 d where t: "delete_organization_rows org pids (site_db w2) = (r3, d)" by fastforce
  have s: "site_db w1 = site_db w" "site_db w2 = site_db w1"
    using purge_chunks_db [of x pids w] delete_resource_lakes_db [of x rids w1] by (simp_all add: c l)
  have "d = site_db w2 \<or> r3 = Inr ()"
    using t by (cases r3) (auto simp: delete_organization_rows_def dest: transaction_Inl)
  then show ?thesis using assms c l t s by (cases r1; cases r2) (auto simp: purge_org_body_def)
qed

lemma delete_organization_rows_leads_to:
  assumes "delete_organization_rows org pids d = (Inr u, d')" "catalog_ok d"
    "\<And>p. p \<in> set (packages d) \<Longrightarrow> pkg_owner_org p = Some org \<Longrightarrow> pkg_state p \<noteq> Some ''active''"
  shows "leads_to d d'"
proof -
  define d1 where "d1 = (if pids \<noteq> [] then delete_orphan_free_tags (delete_packages (\<lambda>p. pkg_owner_org p = Some org) d) else d)"
  have l: "leads_to d d1" unfolding d1_def using assms(2,3) by (auto simp: leads_to_refl intro: leads_to_delete)
  have free: "\<forall>p \<in> set (packages d1). pkg_owner_org p \<noteq> Some org"
    and d': "d' = d1\<lparr>organizations := delete_where (\<lambda>g. org_id g = org) (organizations d1),
                      org_members := delete_where (\<lambda>m. ms_entity m = org) (org_members d1)\<rparr>"
    using assms(1) unfolding delete_organization_rows_def transaction_Inr Let_def d1_def [symmetric]
    by (auto simp: list_ex_iff split: if_splits)
  have ok: "catalog_ok d1" using l by (simp add: leads_to_def)
  have others: "org_active g d' = org_active g d1" "g \<in> org_id ` set (organizations d') \<longleftrightarrow> g \<in> org_id ` set (organizations d1)"
    if "g \<noteq> org" for g
    using that by (auto simp: d' table_simps org_active_def list_ex_iff)
  have "dataset_ok d' p" if p: "p \<in> set (packages d1)" for p
  proof -
    have "dataset_ok d1 p" "pkg_owner_org p \<noteq> Some org" using ok free p by (simp_all add: catalog_ok_def)
    then show ?thesis using others unfolding dataset_ok_def by metis
  qed
  moreover have "tags_ok d' = tags_ok d1" by (rule tags_ok_cong) (simp_all add: d')
  ultimately have "catalog_ok d'" using ok unfolding catalog_ok_def by (simp add: d' distinct_map_delete_where)
  then show ?thesis using l evolves_cong [of d' d1 d] by (simp add: leads_to_def d')
qed

lemma leads_to_trans_states:
  assumes "packages d1 = packages d" "leads_to d d1" "leads_to d1 d2" "\<forall>g. org_active g d1 \<longrightarrow> org_active g d"
  shows "leads_to d d2"
proof -
  have "state_move d1 p q \<Longrightarrow> state_move d p q" for p q using assms(4) unfolding state_move_def by blast
  then show ?thesis using assms(1,3) unfolding leads_to_def evolves_def by (metis (no_types, lifting))
qed

lemma purge_deleted_org_leads_to:
  assumes "purge_deleted_org now mint owner x org w = (r, w')" "catalog_ok (site_db w)"
  shows "leads_to (site_db w) (site_db w')"
proof -
  obtain b d where c: "claim_org_for_purge now org (site_db w) = (b, d)" by fastforce
  note cl = claim_org_leads_to [OF c assms(2)]
  have same: "packages d = packages (site_db w)" "\<forall>g. org_active g d \<longrightarrow> org_active g (site_db w)"
    using c by (auto simp: claim_org_for_purge_def Let_def org_active_def list_ex_iff table_simps)
  show ?thesis
  proof (cases b)
    case False
    then show ?thesis using assms c by (auto simp: purge_deleted_org_def leads_to_refl)
  next
    case True
    let ?pids = "map pkg_id (select_where (\<lambda>p. pkg_owner_org p = Some org) (packages d))"
    obtain r1 where u: "under_claims now mint owner (list_purge_targets d ?pids)
        (purge_org_body x org ?pids (list_purge_targets d ?pids)) (w\<lparr>site_db := d\<rparr>) = (r1, w')"
      using assms(1) c True by (auto simp: purge_deleted_org_def Let_def split: prod.splits sum.splits)
    have okd: "catalog_ok d" using cl(1) by (simp add: leads_to_def)
    have "leads_to d (site_db w')"
    proof (rule under_claims_leads_to [OF u okd])
      fix w1 r2 w2 assume body: "purge_org_body x org ?pids (list_purge_targets d ?pids) w1 = (r2, w2)"
        and "\<exists>ps. site_db w1 = (site_db (w\<lparr>site_db := d\<rparr>))\<lparr>pipelines := ps\<rparr>"
      then obtain ps where ps: "site_db w1 = d\<lparr>pipelines := ps\<rparr>" by auto
      have "leads_to (site_db w1) (site_db w2)"
        using purge_org_body_db [OF body]
      proof
        assume "delete_organization_rows org ?pids (site_db w1) = (Inr (), site_db w2)"
        then show ?thesis by (rule delete_organization_rows_leads_to) (use okd cl(2) [OF True] same(1) in \<open>auto simp: ps\<close>)
      qed (simp add: leads_to_refl ps okd)
      then show "leads_to d (site_db w2)" by (simp add: ps)
    qed (simp add: leads_to_refl okd)
    then show ?thesis by (rule leads_to_trans_states [OF same(1) cl(1) _ same(2)])
  qed
qed

subsection \<open>The catalog as a machine\<close>

datatype catalog_event =
    Create time minted package_input "string option"
  | Draft time minted package_input string
  | Edit time minted authorize "string \<Rightarrow> uuid option" string package_input
  | Trash time authorize "string \<Rightarrow> uuid option" string
  | Restore time authorize "string \<Rightarrow> uuid option" string "bool sent"
  | Publish time authorize "string \<Rightarrow> uuid option" string
  | Purge time "uuid \<Rightarrow> uuid" uuid uuid nat outside authorize "string \<Rightarrow> uuid option" string
  | Discard time "uuid \<Rightarrow> uuid" uuid uuid nat outside authorize "string \<Rightarrow> uuid option" string
  | Found_Org time uuid organization_input
  | Edit_Org time "string \<Rightarrow> uuid option" string organization_input
  | Trash_Org time "string \<Rightarrow> uuid option" string
  | Restore_Org time uuid
  | Purge_Org time "uuid \<Rightarrow> uuid" uuid outside uuid

definition on_tables :: "(db \<Rightarrow> 'r \<times> db) \<Rightarrow> site \<Rightarrow> site" where
  "on_tables f w = w\<lparr>site_db := snd (f (site_db w))\<rparr>"

fun catalog_step :: "(string \<Rightarrow> string) \<Rightarrow> catalog_event \<Rightarrow> site \<Rightarrow> site" where
  "catalog_step normal (Create now m input creator) w = on_tables (create_package normal now m input creator) w"
| "catalog_step normal (Draft now m input creator) w = on_tables (create_draft normal now m input creator) w"
| "catalog_step normal (Edit now m authorize as_uuid s input) w = on_tables (update_package now m authorize as_uuid s input) w"
| "catalog_step normal (Trash now authorize as_uuid s) w = on_tables (delete_package now authorize as_uuid s) w"
| "catalog_step normal (Restore now authorize as_uuid s private) w = on_tables (restore_package now authorize as_uuid s private) w"
| "catalog_step normal (Publish now authorize as_uuid s) w = on_tables (publish_package now authorize as_uuid s) w"
| "catalog_step normal (Purge now mint own job tx x authorize as_uuid s) w
    = snd (purge_package now mint own job tx x authorize as_uuid s w)"
| "catalog_step normal (Discard now mint own job tx x authorize as_uuid s) w
    = snd (purge_draft now mint own job tx x authorize as_uuid s w)"
| "catalog_step normal (Found_Org now i input) w = on_tables (create_organization now i input) w"
| "catalog_step normal (Edit_Org now as_uuid s input) w = on_tables (update_organization now as_uuid s input) w"
| "catalog_step normal (Trash_Org now as_uuid s) w = on_tables (delete_organization now as_uuid s) w"
| "catalog_step normal (Restore_Org now i) w = on_tables (restore_organization now i) w"
| "catalog_step normal (Purge_Org now mint own x i) w = snd (purge_deleted_org now mint own x i w)"

definition minted_ok :: "minted \<Rightarrow> db \<Rightarrow> bool" where
  "minted_ok m d \<longleftrightarrow> mint_package m \<notin> pkg_id ` set (packages d) \<and> tags_fresh (mint_tag m) d"

fun catalog_event_ok :: "catalog_event \<Rightarrow> site \<Rightarrow> bool" where
  "catalog_event_ok (Create now m input creator) w \<longleftrightarrow>
    minted_ok m (site_db w) \<and> request_ok input \<and> or_else None (in_owner_org input) \<noteq> None"
| "catalog_event_ok (Draft now m input creator) w \<longleftrightarrow> minted_ok m (site_db w) \<and> request_ok input"
| "catalog_event_ok (Edit now m authorize as_uuid s input) w \<longleftrightarrow> minted_ok m (site_db w) \<and> request_ok input"
| "catalog_event_ok (Found_Org now i input) w \<longleftrightarrow> i \<notin> org_id ` set (organizations (site_db w))"
| "catalog_event_ok _ w \<longleftrightarrow> True"

lemma transaction_leads_to:
  assumes "catalog_ok d" "\<And>a d'. body d = (Inr a, d') \<Longrightarrow> leads_to d d'"
  shows "leads_to d (snd (transaction body d))"
proof (cases "body d")
  case (Pair r d')
  then show ?thesis using assms by (cases r) (auto simp: transaction_def leads_to_refl)
qed

lemma created_leads_to:
  assumes "insert_package normal now m input name state creator d = (Inr p, d')" "catalog_ok d" "minted_ok m d"
    "state = ''draft'' \<or> state = ''active'' \<and> or_else None (in_owner_org input) \<noteq> None"
  shows "leads_to d d'"
  using insert_package_ok [OF assms(1,2) _ _ assms(4)] assms(3,4)
  by (auto simp: leads_to_def minted_ok_def intro!: evolves_append)

lemma update_package_leads_to:
  assumes "update_package now m authorize as_uuid s input d = (Inr q, d')" "catalog_ok d" "minted_ok m d" "request_ok input"
  shows "leads_to d d'"
proof -
  have b: "update_body now m authorize as_uuid s input d = (Inr q, d')" using assms(1) by (simp add: update_package_def)
  obtain p name where p: "p \<in> set (packages d)" "q = edited now name input p" "catalog_ok d'"
    "packages d' = update_where (\<lambda>x. pkg_id x = pkg_id p) (\<lambda>_. q) (packages d)"
    using update_body_ok [OF b assms(2) _ assms(4)] assms(3) unfolding minted_ok_def by metis
  have "evolves d d'"
  proof (rule evolves_update [OF p(4)])
    fix x assume "x \<in> set (packages d)" "pkg_id x = pkg_id p"
    then have "x = p" using assms(2) p(1) by (auto simp: catalog_ok_def distinct_map inj_on_def)
    then show "pkg_id q = pkg_id x \<and> state_move d x q" by (simp add: p(2) edited_fields state_move_def)
  qed
  then show ?thesis using p(3) by (simp add: leads_to_def)
qed

lemma dataset_operations_lead_to:
  assumes "catalog_ok d"
  shows "minted_ok m d \<Longrightarrow> or_else None (in_owner_org input) \<noteq> None
      \<Longrightarrow> leads_to d (snd (create_package normal now m input creator d))"
    "minted_ok m d \<Longrightarrow> leads_to d (snd (create_draft normal now m input user d))"
    "minted_ok m d \<Longrightarrow> request_ok input \<Longrightarrow> leads_to d (snd (update_package now m authorize as_uuid s input d))"
    "leads_to d (snd (delete_package now authorize as_uuid s d))"
    "leads_to d (snd (restore_package now authorize as_uuid s private d))"
    "leads_to d (snd (publish_package now authorize as_uuid s d))"
proof -
  show "leads_to d (snd (create_package normal now m input creator d))"
    if "minted_ok m d" "or_else None (in_owner_org input) \<noteq> None"
    unfolding create_package_def by (rule transaction_leads_to [OF assms]) (use that in \<open>auto intro: created_leads_to assms\<close>)
  show "leads_to d (snd (create_draft normal now m input user d))" if "minted_ok m d"
    unfolding create_draft_def
    by (rule transaction_leads_to [OF assms]) (use that in \<open>auto intro: created_leads_to assms split: sum.splits\<close>)
  show "leads_to d (snd (update_package now m authorize as_uuid s input d))" if "minted_ok m d" "request_ok input"
    unfolding update_package_def
    by (rule transaction_leads_to [OF assms]) (use that in \<open>auto intro!: update_package_leads_to [OF _ assms] simp: update_package_def\<close>)
  show "leads_to d (snd (delete_package now authorize as_uuid s d))"
    unfolding delete_package_def
    by (rule transaction_leads_to [OF assms])
      (auto simp: leads_to_def delete_package_def intro: delete_package_ok [OF _ assms])
  show "leads_to d (snd (restore_package now authorize as_uuid s private d))"
    unfolding restore_package_def
    by (rule transaction_leads_to [OF assms])
      (auto simp: leads_to_def restore_package_def intro: restore_package_ok [OF _ assms])
  show "leads_to d (snd (publish_package now authorize as_uuid s d))"
    unfolding publish_package_def
    by (rule transaction_leads_to [OF assms])
      (auto simp: leads_to_def publish_package_def intro: publish_package_ok [OF _ assms])
qed

lemma organization_operations_lead_to:
  assumes "catalog_ok d"
  shows "i \<notin> org_id ` set (organizations d) \<Longrightarrow> leads_to d (snd (create_organization now i input d))"
    "leads_to d (snd (update_organization now as_uuid s input d))" "leads_to d (snd (delete_organization now as_uuid s d))"
    "leads_to d (snd (restore_organization now i d))"
  by (metis prod.collapse assms create_organization_leads_to update_organization_leads_to
      delete_organization_leads_to restore_organization_leads_to)+

lemma purges_lead_to:
  assumes "catalog_ok (site_db w)"
  shows "leads_to (site_db w) (site_db (snd (purge_package now mint own job tx x authorize as_uuid s w)))"
    "leads_to (site_db w) (site_db (snd (purge_draft now mint own job tx x authorize as_uuid s w)))"
    "leads_to (site_db w) (site_db (snd (purge_deleted_org now mint own x i w)))"
  by (metis prod.collapse assms purge_package_leads_to purge_draft_leads_to purge_deleted_org_leads_to)+

lemma catalog_step_leads_to:
  assumes "catalog_ok (site_db w)" "catalog_event_ok e w"
  shows "leads_to (site_db w) (site_db (catalog_step normal e w))"
  using assms(2)
  by (cases e) (simp_all add: on_tables_def dataset_operations_lead_to [OF assms(1)]
      organization_operations_lead_to [OF assms(1)] purges_lead_to [OF assms(1)])

interpretation catalog: machine "catalog_step normal" "\<lambda>w. catalog_ok (site_db w)" catalog_event_ok for normal
  by unfold_locales (use catalog_step_leads_to in \<open>simp add: leads_to_def\<close>)

end
