(* ===== verification/Catalog_Guarantees.thy ===== *)
theory Catalog_Guarantees
  imports Catalog_Machine Job_Lifecycle Samples
begin

text \<open>
  What the catalog gives its callers: tables in order, datasets that only move along their life
  cycle, and purges that finish, or leave what the next attempt needs.
\<close>

subsection \<open>What is left outside the tables\<close>

definition cleaned :: "outside \<Rightarrow> uuid list \<Rightarrow> uuid list \<Rightarrow> site \<Rightarrow> bool" where
  "cleaned x pids rids w \<longleftrightarrow> (search x \<noteq> None \<longrightarrow> set pids \<inter> set (site_docs w) = {})
    \<and> (\<forall>k \<in> set (site_objects w). (\<forall>i \<in> set pids. \<forall>pre \<in> set (package_prefixes x i). \<not> prefix pre k)
        \<and> (\<forall>i \<in> set rids. \<not> prefix (lake_resource_prefix x i) k))"

definition no_more_outside :: "site \<Rightarrow> site \<Rightarrow> bool" where
  "no_more_outside w w' \<longleftrightarrow> set (site_docs w') \<subseteq> set (site_docs w) \<and> set (site_objects w') \<subseteq> set (site_objects w)"

lemma no_more_outside_refl [simp]: "no_more_outside w w"
  by (simp add: no_more_outside_def)

lemma no_more_outside_trans: "no_more_outside w w1 \<Longrightarrow> no_more_outside w1 w2 \<Longrightarrow> no_more_outside w w2"
  by (auto simp: no_more_outside_def)

lemma cleaned_mono: "cleaned x pids rids w \<Longrightarrow> no_more_outside w w' \<Longrightarrow> cleaned x pids rids w'"
  unfolding cleaned_def no_more_outside_def by (auto simp: subset_iff disjoint_iff)

lemma cleaned_Un: "cleaned x (pids @ pids') (rids @ rids') w \<longleftrightarrow> cleaned x pids rids w \<and> cleaned x pids' rids' w"
  unfolding cleaned_def by auto

lemma cleaned_db [simp]: "cleaned x pids rids (w\<lparr>site_db := d\<rparr>) = cleaned x pids rids w"
  "cleaned x pids rids (w\<lparr>site_queue := q\<rparr>) = cleaned x pids rids w"
  by (simp_all add: cleaned_def)

lemma no_more_outside_db [simp]:
  "no_more_outside (w\<lparr>site_db := d\<rparr>) w' = no_more_outside w w'" "no_more_outside w (w'\<lparr>site_db := d\<rparr>) = no_more_outside w w'"
  by (simp_all add: no_more_outside_def)

lemma delete_docs_outside:
  assumes "delete_docs index pids w = (r, w')"
  shows "no_more_outside w w' \<and> (r = Inr () \<longrightarrow> set pids \<inter> set (site_docs w') = {})"
  using assms
proof (induction index pids w rule: delete_docs.induct)
  case (2 index i "is" w)
  show ?case
  proof (cases "index i")
    case None
    let ?w1 = "w\<lparr>site_docs := filter (\<lambda>j. j \<noteq> i) (site_docs w)\<rparr>"
    have IH: "no_more_outside ?w1 w' \<and> (r = Inr () \<longrightarrow> set is \<inter> set (site_docs w') = {})"
      using 2(1) [OF None] 2(2) None by simp
    then have "i \<notin> set (site_docs w')" by (auto simp: no_more_outside_def)
    moreover have "no_more_outside w ?w1" by (auto simp: no_more_outside_def)
    ultimately show ?thesis using IH no_more_outside_trans by auto
  qed (use 2(2) in auto)
qed simp

lemma search_docs_outside:
  assumes "purge_packages_search_docs x st pids w = (r, w')"
  shows "no_more_outside w w'" "r = Inr () \<Longrightarrow> search x \<noteq> None \<longrightarrow> set pids \<inter> set (site_docs w') = {}"
  using assms delete_docs_outside by (auto simp: purge_packages_search_docs_def split: option.splits if_splits)

lemma fold_delete_by_prefix:
  "set (fold (delete_by_prefix x) pres ks) \<subseteq> set ks
    \<and> (\<forall>pre \<in> set pres. \<not> storage_fails x pre \<longrightarrow> (\<forall>k \<in> set (fold (delete_by_prefix x) pres ks). \<not> prefix pre k))"
proof (induction pres arbitrary: ks)
  case (Cons pre pres)
  have "set (delete_by_prefix x pre ks) \<subseteq> set ks" "\<not> storage_fails x pre \<Longrightarrow> \<forall>k \<in> set (delete_by_prefix x pre ks). \<not> prefix pre k"
    by (auto simp: delete_by_prefix_def)
  with Cons [of "delete_by_prefix x pre ks"] show ?case by auto
qed simp

lemma delete_prefixes_outside:
  assumes "w' = w\<lparr>site_objects := fold (delete_by_prefix x) pres (site_objects w)\<rparr>"
  shows "no_more_outside w w'" "\<not> list_ex (storage_fails x) pres \<Longrightarrow> \<forall>pre \<in> set pres. \<forall>k \<in> set (site_objects w'). \<not> prefix pre k"
  using fold_delete_by_prefix [of x pres "site_objects w"] by (auto simp: assms no_more_outside_def list_ex_iff)

lemma purge_package_storage_outside:
  assumes "purge_package_storage x pid w = (r, w')"
  shows "no_more_outside w w'"
    "r = Inr () \<Longrightarrow> \<forall>k \<in> set (site_objects w'). \<forall>pre \<in> set (package_prefixes x pid). \<not> prefix pre k"
    "r = Inl e \<Longrightarrow> e = Storage_Failed"
proof -
  have w': "w' = w\<lparr>site_objects := fold (delete_by_prefix x) (package_prefixes x pid) (site_objects w)\<rparr>"
    and r: "r = (if list_ex (storage_fails x) (package_prefixes x pid) then Inl Storage_Failed else Inr ())"
    using assms by (simp_all add: purge_package_storage_def)
  show "no_more_outside w w'" by (rule delete_prefixes_outside(1) [OF w'])
  show "\<forall>k \<in> set (site_objects w'). \<forall>pre \<in> set (package_prefixes x pid). \<not> prefix pre k" if "r = Inr ()"
    using delete_prefixes_outside(2) [OF w'] that r by (auto split: if_splits)
  show "e = Storage_Failed" if "r = Inl e" using that r by (auto split: if_splits)
qed

lemma purge_chunk_outside:
  assumes "purge_chunk x chunk w = (r, w')"
  shows "no_more_outside w w'" "r = Inr () \<Longrightarrow> cleaned x chunk [] w'"
proof -
  obtain r1 w1 where s: "purge_packages_search_docs x None chunk w = (r1, w1)" by fastforce
  let ?pres = "concat (map (package_prefixes x) chunk)"
  let ?w2 = "w1\<lparr>site_objects := fold (delete_by_prefix x) ?pres (site_objects w1)\<rparr>"
  have c: "r1 = Inl e \<Longrightarrow> r = Inl e \<and> w' = w1" "r1 = Inr () \<Longrightarrow> w' = ?w2 \<and> (r = Inr () \<longrightarrow> \<not> list_ex (storage_fails x) ?pres)" for e
    using assms s by (auto simp: purge_chunk_def Let_def split: if_splits)
  show "no_more_outside w w'"
    using c search_docs_outside(1) [OF s] delete_prefixes_outside(1) [where w' = ?w2 and w = w1 and x = x and pres = ?pres, OF refl] no_more_outside_trans by (cases r1) auto
  assume r: "r = Inr ()"
  then have r1: "r1 = Inr ()" using c(1) by (cases r1) auto
  then have "w' = ?w2" "\<forall>pre \<in> set ?pres. \<forall>k \<in> set (site_objects w'). \<not> prefix pre k"
    using c(2) r delete_prefixes_outside(2) [where w' = ?w2 and w = w1 and x = x and pres = ?pres, OF refl] by auto
  moreover have "search x \<noteq> None \<longrightarrow> set chunk \<inter> set (site_docs w1) = {}" by (rule search_docs_outside(2) [OF s r1])
  ultimately show "cleaned x chunk [] w'" by (auto simp: cleaned_def)
qed

lemma purge_chunks_outside:
  "purge_chunks x pids w = (r, w') \<Longrightarrow> no_more_outside w w' \<and> (r = Inr () \<longrightarrow> cleaned x pids [] w')"
proof (induction x pids w arbitrary: r w' rule: purge_chunks.induct)
  case (1 x pids w)
  let ?n = EXTERNALS_CLEANUP_CONCURRENCY
  show ?case
  proof (cases "pids = []")
    case True
    then show ?thesis using 1(2) by (simp add: purge_chunks.simps [of x "[]"] cleaned_def)
  next
    case False
    obtain r1 w1 where c: "purge_chunk x (take ?n pids) w = (r1, w1)" by fastforce
    note o = purge_chunk_outside [OF c]
    show ?thesis
    proof (cases r1)
      case (Inl e)
      then show ?thesis using 1(2) False c o(1) by (auto simp: purge_chunks.simps [of x pids])
    next
      case (Inr u)
      then have rest: "purge_chunks x (drop ?n pids) w1 = (r, w')"
        using 1(2) False c by (simp add: purge_chunks.simps [of x pids])
      have IH: "no_more_outside w1 w' \<and> (r = Inr () \<longrightarrow> cleaned x (drop ?n pids) [] w')"
        using 1(1) [OF False c [symmetric] Inr rest] .
      have "cleaned x (take ?n pids) [] w'" using o(2) Inr IH cleaned_mono by auto
      then have "r = Inr () \<Longrightarrow> cleaned x (take ?n pids @ drop ?n pids) ([] @ []) w'" using IH unfolding cleaned_Un by blast
      then show ?thesis using IH o(1) no_more_outside_trans by auto
    qed
  qed
qed

lemma delete_resource_lakes_outside:
  "delete_resource_lakes x rids w = (r, w') \<Longrightarrow> no_more_outside w w' \<and> (r = Inr () \<longrightarrow> cleaned x [] rids w')"
proof (induction x rids w arbitrary: r w' rule: delete_resource_lakes.induct)
  case (1 x rids w)
  let ?n = RESOURCE_LAKE_DELETE_CONCURRENCY
  let ?pres = "map (lake_resource_prefix x) (take ?n rids)"
  let ?w1 = "w\<lparr>site_objects := fold (delete_by_prefix x) ?pres (site_objects w)\<rparr>"
  note o = delete_prefixes_outside [where w' = ?w1 and w = w and x = x and pres = ?pres, OF refl]
  show ?case
  proof (cases "rids = []")
    case True
    then show ?thesis using 1(2) by (simp add: delete_resource_lakes.simps [of x "[]"] cleaned_def)
  next
    case False
    show ?thesis
    proof (cases "list_ex (storage_fails x) ?pres")
      case True
      then show ?thesis using 1(2) False o(1) by (auto simp: delete_resource_lakes.simps [of x rids] Let_def)
    next
      case fine: False
      then have rest: "delete_resource_lakes x (drop ?n rids) ?w1 = (r, w')"
        using 1(2) False by (simp add: delete_resource_lakes.simps [of x rids] Let_def)
      have IH: "no_more_outside ?w1 w' \<and> (r = Inr () \<longrightarrow> cleaned x [] (drop ?n rids) w')"
        using 1(1) [OF False refl refl fine rest] .
      have "cleaned x [] (take ?n rids) ?w1" using o(2) [OF fine] by (auto simp: cleaned_def)
      then have "cleaned x [] (take ?n rids) w'" using IH cleaned_mono by blast
      then have "r = Inr () \<Longrightarrow> cleaned x ([] @ []) (take ?n rids @ drop ?n rids) w'" using IH unfolding cleaned_Un by blast
      then show ?thesis using IH o(1) no_more_outside_trans by auto
    qed
  qed
qed

subsection \<open>How an organization's purge ends\<close>

definition in_state :: "string list \<Rightarrow> uuid \<Rightarrow> db \<Rightarrow> bool" where
  "in_state ss org d \<longleftrightarrow> list_ex (\<lambda>g. org_id g = org \<and> org_state g \<in> Some ` set ss) (organizations d)"

lemma purge_org_body_ends:
  assumes "purge_org_body x org pids rids w = (r, w')" "packages (site_db w) = ps"
    "pids = map pkg_id (select_where (\<lambda>p. pkg_owner_org p = Some org) ps)" "distinct (map pkg_id ps)"
  shows "r = Inr () \<Longrightarrow> cleaned x pids rids w' \<and> packages (site_db w') = delete_where (\<lambda>p. pkg_owner_org p = Some org) ps
      \<and> organizations (site_db w') = delete_where (\<lambda>g. org_id g = org) (organizations (site_db w))
      \<and> org_members (site_db w') = delete_where (\<lambda>m. ms_entity m = org) (org_members (site_db w))"
    "r \<noteq> Inr () \<Longrightarrow> site_db w' = site_db w"
proof -
  obtain r1 w1 where c: "purge_chunks x pids w = (r1, w1)" by fastforce
  obtain r2 w2 where l: "delete_resource_lakes x rids w1 = (r2, w2)" by fastforce
  obtain r3 d where t: "delete_organization_rows org pids (site_db w2) = (r3, d)" by fastforce
  have db: "site_db w1 = site_db w" "site_db w2 = site_db w1"
    using purge_chunks_db [of x pids w] delete_resource_lakes_db [of x rids w1] by (simp_all add: c l)
  define d1 where "d1 = (if pids \<noteq> []
      then delete_orphan_free_tags (delete_packages (\<lambda>p. pkg_owner_org p = Some org) (site_db w)) else site_db w)"
  have d1: "packages d1 = delete_where (\<lambda>p. pkg_owner_org p = Some org) ps" "organizations d1 = organizations (site_db w)"
    "org_members d1 = org_members (site_db w)"
    using assms(2,3) by (auto simp: d1_def delete_orphan_free_tags_def delete_packages_def Let_def delete_where_def select_where_def
        filter_empty_conv intro: filter_True [symmetric])
  have free: "\<not> list_ex (\<lambda>p. pkg_owner_org p = Some org) (packages d1)" by (auto simp: d1(1) list_ex_iff table_simps)
  have t': "r3 = Inr ()" "d = d1\<lparr>organizations := delete_where (\<lambda>g. org_id g = org) (organizations d1),
      org_members := delete_where (\<lambda>m. ms_entity m = org) (org_members d1)\<rparr>"
    using t db free by (simp_all add: delete_organization_rows_def transaction_def Let_def d1_def [symmetric])
  show "site_db w' = site_db w" if "r \<noteq> Inr ()"
    using that assms(1) c l t t'(1) db by (cases r1; cases r2) (auto simp: purge_org_body_def)
  assume "r = Inr ()"
  then have all: "r1 = Inr ()" "r2 = Inr ()" "w' = w2\<lparr>site_db := d\<rparr>"
    using assms(1) c l t t'(1) by (cases r1; cases r2; auto simp: purge_org_body_def)+
  have "cleaned x pids [] w2" "cleaned x [] rids w2"
    using purge_chunks_outside [OF c] delete_resource_lakes_outside [OF l] all(1,2) cleaned_mono by auto
  then have "cleaned x (pids @ []) ([] @ rids) w2" unfolding cleaned_Un by simp
  then show "cleaned x pids rids w' \<and> packages (site_db w') = delete_where (\<lambda>p. pkg_owner_org p = Some org) ps
      \<and> organizations (site_db w') = delete_where (\<lambda>g. org_id g = org) (organizations (site_db w))
      \<and> org_members (site_db w') = delete_where (\<lambda>m. ms_entity m = org) (org_members (site_db w))"
    by (simp add: all(3) t'(2) d1)
qed

lemma claim_org_frames:
  assumes "claim_org_for_purge now org d = (b, d')"
  shows "b = in_state [''deleted'', ''purging''] org d" "packages d' = packages d" "resources d' = resources d"
    "b \<Longrightarrow> in_state [''purging''] org d'" "map org_id (organizations d') = map org_id (organizations d)" "org_members d' = org_members d"
    "\<not> b \<Longrightarrow> d' = d" "\<not> in_state [''deleted''] org d'"
proof -
  let ?hit = "\<lambda>g :: organization_row. org_id g = org \<and> org_state g \<in> {Some ''deleted'', Some ''purging''}"
  have d': "b = list_ex ?hit (organizations d)"
    "d' = d\<lparr>organizations := update_where ?hit (\<lambda>g. g\<lparr>org_state := Some ''purging'', org_updated := now\<rparr>) (organizations d)\<rparr>"
    using assms by (simp_all add: claim_org_for_purge_def Let_def)
  show "b = in_state [''deleted'', ''purging''] org d" by (simp add: d'(1) in_state_def)
  show "packages d' = packages d" "resources d' = resources d" "org_members d' = org_members d" by (simp_all add: d'(2))
  show "map org_id (organizations d') = map org_id (organizations d)" by (simp add: d'(2) map_update_where)
  show "\<not> in_state [''deleted''] org d'"
  proof
    assume "in_state [''deleted''] org d'"
    then obtain g where g: "g \<in> set (organizations d')" "org_id g = org" "org_state g = Some ''deleted''"
      by (auto simp: in_state_def list_ex_iff)
    have "g \<in> (\<lambda>h. if ?hit h then h\<lparr>org_state := Some ''purging'', org_updated := now\<rparr> else h) ` set (organizations d)"
      using g(1) by (simp add: d'(2) update_where_def)
    then obtain h where "g = (if ?hit h then h\<lparr>org_state := Some ''purging'', org_updated := now\<rparr> else h)"
      by (rule imageE)
    then show False using g(2,3) by (auto split: if_splits)
  qed
  show "in_state [''purging''] org d'" if b: b
  proof -
    obtain g where g: "g \<in> set (organizations d)" "?hit g" using b by (auto simp: d'(1) list_ex_iff)
    let ?g = "g\<lparr>org_state := Some ''purging'', org_updated := now\<rparr>"
    have "?g \<in> set (organizations d')" using g unfolding d'(2) by (force simp: update_where_def)
    moreover have "org_id ?g = org" "org_state ?g = Some ''purging''" using g(2) by simp_all
    ultimately show ?thesis unfolding in_state_def list_ex_iff by (intro bexI [of _ ?g]) auto
  qed
  show "d' = d" if b: "\<not> b"
  proof -
    have "update_where ?hit (\<lambda>g. g\<lparr>org_state := Some ''purging'', org_updated := now\<rparr>) (organizations d) = organizations d"
      using b unfolding d'(1) list_ex_iff by (intro update_where_none) blast
    then show ?thesis unfolding d'(2) by simp
  qed
qed

text \<open>C1.
  The purge of an organization ends in one of three ways. It has nothing to do, where the
  organization is neither in the trash nor half purged. It is done: the organization, its datasets
  and its memberships are gone, and no document and no object of them is left. Or it failed: every
  row is as it was and the organization stays claimed (\<open>purging\<close>), which no restore takes back and
  the next attempt claims again.
\<close>

theorem organization_purge_settles:
  assumes "purge_deleted_org now mint own x org w = (r, w')" "catalog_ok (site_db w)"
  shows "case r of
      Inr (done, n) \<Rightarrow>
        if done
        then (let ps = select_where (\<lambda>p. pkg_owner_org p = Some org) (packages (site_db w)) in
           n = length ps \<and> cleaned x (map pkg_id ps) (list_purge_targets (site_db w) (map pkg_id ps)) w'
           \<and> packages (site_db w') = delete_where (\<lambda>p. pkg_owner_org p = Some org) (packages (site_db w))
           \<and> org \<notin> org_id ` set (organizations (site_db w')) \<and> org \<notin> ms_entity ` set (org_members (site_db w')))
        else w' = w \<and> \<not> in_state [''deleted'', ''purging''] org (site_db w)
    | Inl e \<Rightarrow> packages (site_db w') = packages (site_db w) \<and> resources (site_db w') = resources (site_db w)
        \<and> in_state [''purging''] org (site_db w')
        \<and> (\<forall>now. \<exists>e. fst (restore_organization now org (site_db w')) = Inl e)
        \<and> (\<forall>now. fst (claim_org_for_purge now org (site_db w')))"
proof -
  obtain b d where c: "claim_org_for_purge now org (site_db w) = (b, d)" by fastforce
  note f = claim_org_frames [OF c]
  let ?ps = "select_where (\<lambda>p. pkg_owner_org p = Some org) (packages (site_db w))"
  let ?rids = "list_purge_targets (site_db w) (map pkg_id ?ps)"
  have dist: "distinct (map pkg_id (packages (site_db w)))" using assms(2) by (simp add: catalog_ok_def)
  have same: "list_purge_targets d (map pkg_id ?ps) = ?rids" by (simp add: list_purge_targets_def f(3))
  show ?thesis
  proof (cases b)
    case False
    then show ?thesis using assms(1) c f(1) by (auto simp: purge_deleted_org_def)
  next
    case True
    obtain r1 where u: "under_claims now mint own ?rids (purge_org_body x org (map pkg_id ?ps) ?rids) (w\<lparr>site_db := d\<rparr>) = (r1, w')"
      and r: "r = map_sum id (\<lambda>_. (True, length ?ps)) r1"
      using assms(1) c True by (auto simp: purge_deleted_org_def Let_def f(2) same split: prod.splits sum.splits)
    have fail: "packages (site_db w') = packages d \<Longrightarrow> resources (site_db w') = resources d
        \<Longrightarrow> organizations (site_db w') = organizations d \<Longrightarrow> r = Inl e \<Longrightarrow> ?thesis" for e
      using f(2,3,4,8) True by (auto simp: in_state_def restore_organization_def claim_org_for_purge_def list_ex_iff Let_def)
    show ?thesis
      using u
    proof (cases rule: under_claims_cases)
      case (held i)
      then show ?thesis using r by (intro fail) simp_all
    next
      case (ran pls pls' w1)
      let ?w0 = "w\<lparr>site_db := d, site_db := d\<lparr>pipelines := pls\<rparr>\<rparr>"
      have ps: "packages (site_db ?w0) = packages (site_db w)" by (simp add: f(2))
      note e = purge_org_body_ends [OF _ ps refl dist, where x = x and rids = ?rids and r = r1 and w' = w1]
      show ?thesis
      proof (cases r1)
        case (Inl er)
        then have "site_db w1 = d\<lparr>pipelines := pls\<rparr>" using e(2) ran(1) by simp
        then show ?thesis using r Inl ran(2) by (intro fail) simp_all
      next
        case (Inr v)
        then have "cleaned x (map pkg_id ?ps) ?rids w1" "packages (site_db w1) = delete_where (\<lambda>p. pkg_owner_org p = Some org) (packages (site_db w))"
          "organizations (site_db w1) = delete_where (\<lambda>g. org_id g = org) (organizations d)"
          "org_members (site_db w1) = delete_where (\<lambda>m. ms_entity m = org) (org_members d)"
          using e(1) ran(1) by simp_all
        then show ?thesis using r Inr ran(2) by (auto simp: Let_def table_simps)
      qed
    qed
  qed
qed

subsection \<open>How a dataset's purge ends\<close>

lemma purge_rows_cases:
  assumes "purge_rows now job tx st pid rids w = (r, w')"
  obtains (refused) "r = Inl State_Changed" "w' = w"
      "\<forall>p \<in> set (packages (site_db w)). \<not> (pkg_id p = pid \<and> pkg_state p = Some st)"
  | (removed) p where "r = Inr p" "p \<in> set (packages (site_db w))" "pkg_id p = pid" "pkg_state p = Some st"
      "site_db w' = delete_orphan_free_tags (delete_packages (\<lambda>p. pkg_id p = pid \<and> pkg_state p = Some st) (site_db w))"
      "rids \<noteq> [] \<longrightarrow> list_ex (\<lambda>j. job_type j = DROP_LAKE_TABLES_JOB_TYPE \<and> ready j \<and> payload j = Drop_Lakes rids) (jobs (site_queue w'))"
      "site_docs w' = site_docs w" "site_objects w' = site_objects w"
proof (cases "select_where (\<lambda>p. pkg_id p = pid \<and> pkg_state p = Some st) (packages (site_db w))")
  case Nil
  then have "r = Inl State_Changed" "w' = w" using assms by (simp_all add: purge_rows_def Let_def)
  moreover have "\<forall>p \<in> set (packages (site_db w)). \<not> (pkg_id p = pid \<and> pkg_state p = Some st)"
    using Nil by (auto simp: select_where_def filter_empty_conv)
  ultimately show ?thesis by (rule refused)
next
  case (Cons p ps)
  have "p \<in> set (select_where (\<lambda>p. pkg_id p = pid \<and> pkg_state p = Some st) (packages (site_db w)))" using Cons by simp
  then have p: "p \<in> set (packages (site_db w))" "pkg_id p = pid" "pkg_state p = Some st" by (simp_all add: table_simps)
  obtain q where q: "queue_transaction tx (\<lambda>tx q. (Inr p :: catalog_error + package_row, queue_lakes_deletion now job tx rids q)) (site_queue w) = (Inr p, q)"
    "jobs q = jobs (queue_lakes_deletion now job tx rids (site_queue w))"
    by (auto simp: queue_transaction_def wake_def)
  have "rids \<noteq> [] \<longrightarrow> list_ex (\<lambda>j. job_type j = DROP_LAKE_TABLES_JOB_TYPE \<and> ready j \<and> payload j = Drop_Lakes rids) (jobs q)"
    by (simp add: q(2) queue_lakes_deletion_def enqueue_def plain_options_def enqueue_many_def insert_batches.simps Let_def
        INSERT_BATCH_SIZE_def new_job_def ready_def wrote_def split: prod.splits)
  then show ?thesis using assms Cons p q(1) by (intro removed [of p]) (auto simp: purge_rows_def Let_def)
qed

text \<open>C4.
  A dataset's purge that returns has removed the dataset, its resources, its documents and its
  objects, and queued the deletion of its lake. One that fails before the rows go leaves the dataset in the
  trash with every row, object and job as it was; the one failure after that is the bucket's, when
  the rows and the documents are gone already and nothing serves what the bucket still holds.
\<close>

theorem dataset_purge_settles:
  assumes "purge_package now mint own job tx x authorize as_uuid s w = (r, w')" "catalog_ok (site_db w)"
  shows "case r of
      Inr p \<Rightarrow> (let rids = list_purge_targets (site_db w) [pkg_id p] in
        p \<in> set (packages (site_db w)) \<and> pkg_state p = Some ''deleted'' \<and> authorize (site_db w) p = None
        \<and> packages (site_db w') = delete_where (\<lambda>q. pkg_id q = pkg_id p) (packages (site_db w))
        \<and> resources (site_db w') = delete_where (\<lambda>r. res_package r = pkg_id p) (resources (site_db w))
        \<and> cleaned x [pkg_id p] [] w'
        \<and> (rids \<noteq> [] \<longrightarrow> list_ex (\<lambda>j. job_type j = DROP_LAKE_TABLES_JOB_TYPE \<and> ready j \<and> payload j = Drop_Lakes rids)
              (jobs (site_queue w'))))
    | Inl e \<Rightarrow> if e \<noteq> Storage_Failed
        then packages (site_db w') = packages (site_db w) \<and> resources (site_db w') = resources (site_db w)
          \<and> site_objects w' = site_objects w \<and> site_queue w' = site_queue w
        else \<exists>p \<in> set (packages (site_db w)). pkg_state p = Some ''deleted''
          \<and> packages (site_db w') = delete_where (\<lambda>q. pkg_id q = pkg_id p) (packages (site_db w))
          \<and> (search x \<noteq> None \<longrightarrow> pkg_id p \<notin> set (site_docs w'))"
proof (cases "authorized authorize as_uuid s [''deleted''] (site_db w)")
  case (Inl e)
  have "e \<noteq> Storage_Failed" using Inl
    by (auto simp: authorized_def get_by_name_or_id_def split: sum.splits option.splits list.splits)
  moreover have "r = Inl e" "w' = w" using assms(1) Inl by (simp_all add: purge_package_def)
  ultimately show ?thesis by simp
next
  case (Inr p)
  note a = authorized_Inr [OF Inr]
  let ?d = "site_db w" and ?rids = "list_purge_targets (site_db w) [pkg_id p]"
  have dist: "distinct (map pkg_id (packages ?d))" using assms(2) by (simp add: catalog_ok_def)
  have u: "under_claims now mint own ?rids (purge_body now job tx x (pkg_id p) ?rids) w = (r, w')"
    using assms(1) Inr by (simp add: purge_package_def Let_def)
  show ?thesis
    using u
  proof (cases rule: under_claims_cases)
    case (held i)
    then show ?thesis by simp
  next
    case (ran pls pls' w1)
    let ?w0 = "w\<lparr>site_db := ?d\<lparr>pipelines := pls\<rparr>\<rparr>"
    let ?hit = "\<lambda>q. pkg_id q = pkg_id p \<and> pkg_state q = Some ''deleted''"
    obtain r1 w2 where s: "purge_packages_search_docs x (Some ''deleted'') [pkg_id p] ?w0 = (r1, w2)" by fastforce
    note db = search_docs_db [OF s] and docs = search_docs_outside [OF s]
    show ?thesis
    proof (cases r1)
      case (Inl e)
      have "e \<noteq> Storage_Failed" using s Inl
        by (auto simp: purge_packages_search_docs_def split: option.splits if_splits)
      moreover have "r = Inl e" "w1 = w2" using ran(1) Inl s by (simp_all add: purge_body_def)
      ultimately show ?thesis using ran(2) db by simp
    next
      case (Inr v)
      obtain r2 w3 where rows: "purge_rows now job tx ''deleted'' (pkg_id p) ?rids w2 = (r2, w3)" by fastforce
      show ?thesis
        using rows
      proof (cases rule: purge_rows_cases)
        case refused
        then have "r = Inl State_Changed" "w1 = w2" using ran(1) Inr s rows by (simp_all add: purge_body_def)
        then show ?thesis using ran(2) db by simp
      next
        case (removed q)
        have q: "q = p" using removed(2,3) db a(1) dist by (auto simp: distinct_map inj_on_def)
        have hit: "delete_where ?hit (packages ?d) = delete_where (\<lambda>q. pkg_id q = pkg_id p) (packages ?d)"
          unfolding delete_where_def using dist a(1) removed(4) q by (intro filter_cong) (auto simp: distinct_map inj_on_def)
        have gone: "pkg_id ` {x \<in> set (packages ?d). ?hit x} = {pkg_id p}" using a(1) removed(4) q by auto
        have w3: "packages (site_db w3) = delete_where (\<lambda>q. pkg_id q = pkg_id p) (packages ?d)"
          "resources (site_db w3) = delete_where (\<lambda>r. res_package r = pkg_id p) (resources ?d)"
          using removed(5) db gone hit
          by (simp_all add: delete_orphan_free_tags_def delete_packages_def Let_def)
        have clean: "search x \<noteq> None \<longrightarrow> pkg_id p \<notin> set (site_docs w3)" using docs(2) Inr removed(7) by auto
        obtain r3 w4 where st: "purge_package_storage x (pkg_id p) w3 = (r3, w4)" by fastforce
        note o = purge_package_storage_outside [OF st]
        have w4: "site_db w4 = site_db w3" "site_docs w4 = site_docs w3" "site_queue w4 = site_queue w3"
          using st by (auto simp: purge_package_storage_def)
        show ?thesis
        proof (cases r3)
          case (Inl e)
          then have "e = Storage_Failed" "r = Inl e" "w1 = w4" using o(3) ran(1) Inr s rows removed(1) st by (simp_all add: purge_body_def)
          then show ?thesis using ran(2) w3 w4 clean a(1) removed(4) q by auto
        next
          case (Inr v3)
          then have "r = Inr p" "w1 = w4" using ran(1) \<open>r1 = Inr v\<close> s rows removed(1) st q by (simp_all add: purge_body_def)
          moreover have "cleaned x [pkg_id p] [] w4" using o(2) Inr clean w4(2) by (auto simp: cleaned_def)
          ultimately show ?thesis using ran(2) w3 w4 a(1,4) removed(4,6) q by (simp add: Let_def)
        qed
      qed
    qed
  qed
qed

subsection \<open>Purges that lost their job\<close>

lemma insert_batches_enough:
  "length ds \<le> length ids \<Longrightarrow> snd (insert_batches mk ids ds js) = js @ map2 mk ids ds"
proof (induction mk ids ds js rule: insert_batches.induct)
  case (1 mk ids ds js)
  let ?n = INSERT_BATCH_SIZE
  show ?case
  proof (cases "ds = []")
    case False
    have "snd (insert_batches mk (drop ?n ids) (drop ?n ds) (js @ map2 mk (take ?n ids) (take ?n ds)))
        = (js @ map2 mk (take ?n ids) (take ?n ds)) @ map2 mk (drop ?n ids) (drop ?n ds)"
      using 1 False by simp
    also have "\<dots> = js @ map2 mk ids ds"
      by (simp add: take_zip [symmetric] drop_zip [symmetric] flip: map_append)
    finally show ?thesis using False by (auto simp: insert_batches.simps [of mk ids ds] Let_def split: prod.splits)
  qed (simp add: insert_batches.simps)
qed

lemma stranded_body_jobs:
  assumes "queue_stranded_body now job_ids skipped d tx q = (r, q')" "length (organizations d) \<le> length job_ids"
    "g \<in> set (organizations d)" "org_state g = Some ''purging''" "org_id g \<notin> set skipped"
  shows "ready_jobs_matching (=) PURGE_ORG_JOB_TYPE (Purge_Organization (org_id g)) (jobs q')"
proof -
  define stranded where "stranded = stranded_orgs skipped (jobs q) d"
  obtain ps q1 where rev: "revive_dead (=) now PURGE_ORG_JOB_TYPE (map Purge_Organization stranded) (Some tx) q = (ps, q1)" by fastforce
  define queued where "queued = filter (\<lambda>g. g \<notin> set (concat (map org_of ps))) stranded"
  have len: "length (map (\<lambda>g. Some (Purge_Organization g)) queued) \<le> length job_ids"
  proof -
    have "length queued \<le> length stranded" by (simp add: queued_def)
    also have "\<dots> \<le> length (organizations d)" by (simp add: stranded_def stranded_orgs_def select_where_def)
    finally show ?thesis using assms(2) by simp
  qed
  let ?mk = "new_job now PURGE_ORG_JOB_TYPE (priority_of None (plain_options (Some tx))) (run_at_of now (plain_options (Some tx))) No_Payload"
  have q': "jobs q' = jobs q1 @ map2 ?mk job_ids (map (\<lambda>g. Some (Purge_Organization g)) queued)"
  proof -
    have "q' = snd (enqueue_many No_Payload now None job_ids PURGE_ORG_JOB_TYPE
        (map (\<lambda>g. Some (Purge_Organization g)) queued) (plain_options (Some tx)) q1)"
      using assms(1) rev unfolding queue_stranded_body_def Let_def stranded_def [symmetric] queued_def by simp
    then show ?thesis by (simp add: jobs_enqueue_many insert_batches_enough [OF len])
  qed
  have q1: "jobs q1 = (if stranded = [] then jobs q else update_where (\<lambda>j. job_type j = PURGE_ORG_JOB_TYPE \<and> job_state j = Dead
      \<and> list_ex ((=) (payload j)) (map Purge_Organization stranded)) (revived now) (jobs q))"
    using rev by (auto simp: revive_dead_def Let_def wrote_def split: if_splits)
  let ?P = "\<lambda>j. job_type j = PURGE_ORG_JOB_TYPE \<and> ready j \<and> payload j = Purge_Organization (org_id g)"
  consider (waiting) "org_id g \<notin> set stranded" | (dead) "org_id g \<in> set stranded" "org_id g \<notin> set queued" | (gone) "org_id g \<in> set queued"
    by (auto simp: queued_def)
  then have "\<exists>j \<in> set (jobs q'). ?P j"
  proof cases
    case waiting
    then obtain j where j: "j \<in> set (jobs q)" "?P j"
      using assms(3-5) by (auto simp: stranded_def stranded_orgs_def table_simps ready_jobs_matching_def list_ex_iff image_iff)
    have "j \<in> set (jobs q1)" using j by (auto simp: q1 ready_def table_simps)
    then show ?thesis using j(2) by (auto simp: q')
  next
    case dead
    then have "org_id g \<in> set (concat (map org_of ps))" by (simp add: queued_def)
    moreover have "ps = map payload (select_where (\<lambda>j. job_type j = PURGE_ORG_JOB_TYPE \<and> job_state j = Dead
      \<and> list_ex ((=) (payload j)) (map Purge_Organization stranded)) (jobs q))" using rev dead(1) by (auto simp: revive_dead_def Let_def split: if_splits)
    ultimately obtain j where j: "j \<in> set (jobs q)" "job_type j = PURGE_ORG_JOB_TYPE" "job_state j = Dead"
      "list_ex ((=) (payload j)) (map Purge_Organization stranded)" "org_id g \<in> set (org_of (payload j))"
      by (auto simp: table_simps)
    then have p: "payload j = Purge_Organization (org_id g)" by (cases "payload j") auto
    have "revived now j \<in> set (jobs q1)" using j dead(1) by (auto simp: q1 table_simps)
    moreover have "?P (revived now j)" using j(2) p by (simp add: revived_def ready_def)
    ultimately show ?thesis unfolding q' set_append by blast
  next
    case gone
    then obtain i where i: "i < length queued" "queued ! i = org_id g" by (auto simp: in_set_conv_nth)
    let ?new = "map2 ?mk job_ids (map (\<lambda>g. Some (Purge_Organization g)) queued)"
    have "?new ! i = ?mk (job_ids ! i) (Some (Purge_Organization (org_id g)))" "i < length ?new" using i len by simp_all
    then have "?mk (job_ids ! i) (Some (Purge_Organization (org_id g))) \<in> set ?new" by (metis nth_mem)
    moreover have "?P (?mk (job_ids ! i) (Some (Purge_Organization (org_id g))))" by (simp add: new_job_def ready_def)
    ultimately show ?thesis unfolding q' set_append by blast
  qed
  then show ?thesis by (auto simp: ready_jobs_matching_def list_ex_iff)
qed

text \<open>C11.
  After a sweep over stranded purges every organization left \<open>purging\<close>, other than those another
  transaction holds, has a job of its own waiting to be taken - one that was there, one that had
  given up and is put back, or a new one; and the sweep touches nothing but the queue.
\<close>

theorem stranded_purges_requeued:
  assumes "queue_stranded_purges now job_ids skipped tx w = (r, w')"
    "length (organizations (site_db w)) \<le> length job_ids"
  shows "site_db w' = site_db w \<and> (\<exists>n m. r = Inr (n, m))
    \<and> (\<forall>g \<in> set (organizations (site_db w)). org_state g = Some ''purging'' \<and> org_id g \<notin> set skipped \<longrightarrow>
         ready_jobs_matching (=) PURGE_ORG_JOB_TYPE (Purge_Organization (org_id g)) (jobs (site_queue w')))"
proof -
  obtain r1 q1 where b: "queue_stranded_body now job_ids skipped (site_db w) tx (site_queue w) = (r1, q1)" by fastforce
  obtain n m where r1: "r1 = Inr (n, m)" using b by (auto simp: queue_stranded_body_def Let_def split: prod.splits)
  have "w' = w\<lparr>site_queue := (if tx \<in> set (written q1) then wake q1 else q1)\<rparr>" "r = Inr (n, m)"
    using assms(1) b r1 by (auto simp: queue_stranded_purges_def queue_transaction_def)
  then show ?thesis using stranded_body_jobs [OF b assms(2)] by (auto simp: wake_def)
qed

text \<open>C3.
  The catalog keeps its types: whatever requests, purges and organization changes come, in any
  order and each refused or not, every dataset is in one of its four states, one that is published
  belongs to an active organization, ids and names are unique, and no resource, tag or group link
  hangs loose.
\<close>

theorem catalog_well_formed:
  assumes "catalog_ok (site_db w)" "steps_ok catalog_event_ok (catalog_step normal) es w"
  shows "catalog_ok (site_db (run_steps (catalog_step normal) es w))"
  by (rule catalog.inv_run [OF assms])

text \<open>C2.
  A dataset moves only along its life cycle: a draft is published, once it has a name, an
  organization that is active and a license, or claimed for its purge; a published dataset goes to
  the trash; one in the trash comes back only under an active organization; one claimed for purge
  never comes back. A published dataset is never removed, and a new one begins as a draft or
  published.
\<close>

theorem dataset_lifecycle:
  assumes "catalog_ok (site_db w)" "catalog_event_ok e w"
  shows "evolves (site_db w) (site_db (catalog_step normal e w))"
  using catalog_step_leads_to [OF assms] by (simp add: leads_to_def)

subsection \<open>Applied once\<close>

definition sample_org :: "uuid \<Rightarrow> string \<Rightarrow> string \<Rightarrow> organization_row" where
  "sample_org i name state = \<lparr>org_id = i, org_name = name, org_title = None, org_description = None,
     org_image_url = None, org_state = Some state, org_extras = JObj [], org_created = 0, org_updated = 0\<rparr>"

definition sample_site :: site where
  "sample_site = \<lparr>site_db = sample_db\<lparr>packages := [sample_package,
       sample_package\<lparr>pkg_id := 2, pkg_name := ''old'', pkg_state := Some ''deleted'', pkg_owner_org := Some 8\<rparr>,
       sample_package\<lparr>pkg_id := 3, pkg_name := ''new'', pkg_state := Some ''draft''\<rparr>],
     resources := [sample_resource 10 None, (sample_resource 20 None)\<lparr>res_package := 2\<rparr>],
     organizations := [sample_org 7 ''city'' ''active'', sample_org 8 ''bygone'' ''deleted'', sample_org 9 ''gone'' ''purging''],
     org_members := [\<lparr>ms_user = ''bob'', ms_entity = 8, ms_role = ''admin''\<rparr>],
     tag_rows := [\<lparr>tag_id = 70, tag_name = ''river'', tag_vocabulary = None\<rparr>], package_tags := [(2, 70)]\<rparr>,
     site_queue = \<lparr>jobs = [], written = [], wake_calls = 0\<rparr>, site_docs = [1, 2],
     site_objects = [''resources/1/a'', ''resources/2/b'', ''lake/20/c'', ''previews/2/d'']\<rparr>"

definition sample_outside :: outside where
  "sample_outside = \<lparr>search = Some (\<lambda>_. None), storage_fails = (\<lambda>_. False), survives = (\<lambda>_. True),
     uuid_text = (\<lambda>i. if i = 1 then ''1'' else if i = 2 then ''2'' else if i = 20 then ''20'' else ''x'')\<rparr>"

definition anyone :: authorize where "anyone = (\<lambda>_ _. None)"

definition no_uuid :: "string \<Rightarrow> uuid option" where "no_uuid = (\<lambda>_. None)"

definition sample_mint :: minted where
  "sample_mint = \<lparr>mint_package = 4, mint_tag = (\<lambda>s. if s = ''river'' then 70 else 71), mint_resources = [], mint_names = []\<rparr>"

lemma sample_site_ok: "catalog_ok (site_db sample_site)"
  by (simp add: catalog_ok_def sample_site_def dataset_ok_def tags_ok_def org_active_def sample_org_def sample_package_def
      sample_db_def sample_resource_def select_where_def)

definition sample_catalog_events :: "catalog_event list" where
  "sample_catalog_events = [Publish 5 anyone no_uuid ''new'', Trash 6 anyone no_uuid ''wells'', Restore 7 anyone no_uuid ''wells'' Unsent,
     Trash_Org 8 no_uuid ''city'', Purge 9 (\<lambda>i. i + 100) 50 60 1 sample_outside anyone no_uuid ''old'',
     Purge_Org 10 (\<lambda>i. i + 200) 51 sample_outside 9]"

lemma sample_catalog_events_ok: "steps_ok catalog_event_ok (catalog_step id) sample_catalog_events sample_site"
  by (simp add: sample_catalog_events_def)

theorem catalog_well_formed_witness:
  "catalog_ok (site_db (run_steps (catalog_step id) sample_catalog_events sample_site))"
  by (rule catalog_well_formed [OF sample_site_ok sample_catalog_events_ok])

theorem dataset_lifecycle_witness:
  "evolves (site_db sample_site) (site_db (catalog_step id (Publish 5 anyone no_uuid ''new'') sample_site))
    \<and> map pkg_state (packages (site_db (catalog_step id (Publish 5 anyone no_uuid ''new'') sample_site)))
        = [Some ''active'', Some ''deleted'', Some ''active'']"
proof
  show "evolves (site_db sample_site) (site_db (catalog_step id (Publish 5 anyone no_uuid ''new'') sample_site))"
    by (rule dataset_lifecycle [OF sample_site_ok]) simp
  show "map pkg_state (packages (site_db (catalog_step id (Publish 5 anyone no_uuid ''new'') sample_site)))
        = [Some ''active'', Some ''deleted'', Some ''active'']"
    by code_simp
qed

definition sample_org_purge :: "(catalog_error + bool \<times> nat) \<times> site" where
  "sample_org_purge = purge_deleted_org 5 (\<lambda>i. i + 200) 51 sample_outside 8 sample_site"

theorem organization_purge_settles_witness:
  "fst sample_org_purge = Inr (True, 1) \<and> 8 \<notin> org_id ` set (organizations (site_db (snd sample_org_purge)))
    \<and> cleaned sample_outside [2] [20] (snd sample_org_purge)"
proof -
  have f: "fst sample_org_purge = Inr (True, 1)" by code_simp
  have r: "purge_deleted_org 5 (\<lambda>i. i + 200) 51 sample_outside 8 sample_site = (Inr (True, 1), snd sample_org_purge)"
    unfolding sample_org_purge_def [symmetric] using f by (simp add: prod_eq_iff)
  have "map pkg_id (select_where (\<lambda>p. pkg_owner_org p = Some 8) (packages (site_db sample_site))) = [2]"
    "list_purge_targets (site_db sample_site) [2] = [20]" by code_simp+
  then show ?thesis
    using organization_purge_settles [OF r sample_site_ok] f by (simp add: Let_def)
qed

definition sample_purge :: "(catalog_error + package_row) \<times> site" where
  "sample_purge = purge_package 5 (\<lambda>i. i + 200) 51 60 1 sample_outside anyone no_uuid ''old'' sample_site"

theorem dataset_purge_settles_witness:
  "map_sum id pkg_id (fst sample_purge) = Inr 2 \<and> map pkg_id (packages (site_db (snd sample_purge))) = [1, 3]
    \<and> cleaned sample_outside [2] [] (snd sample_purge)"
proof -
  have two: "map_sum id pkg_id (fst sample_purge) = Inr 2" "map pkg_id (packages (site_db (snd sample_purge))) = [1, 3]"
    by code_simp+
  then obtain p where p: "fst sample_purge = Inr p" "pkg_id p = 2" by (cases "fst sample_purge") auto
  have r: "purge_package 5 (\<lambda>i. i + 200) 51 60 1 sample_outside anyone no_uuid ''old'' sample_site = (Inr p, snd sample_purge)"
    unfolding sample_purge_def [symmetric] p(1) [symmetric] by simp
  show ?thesis using dataset_purge_settles [OF r sample_site_ok] two p(2) by (simp add: Let_def)
qed

theorem stranded_purges_requeued_witness:
  "ready_jobs_matching (=) PURGE_ORG_JOB_TYPE (Purge_Organization 9)
     (jobs (site_queue (snd (queue_stranded_purges 5 [61, 62, 63] [] 1 sample_site))))"
proof -
  have "sample_org 9 ''gone'' ''purging'' \<in> set (organizations (site_db sample_site))"
    "length (organizations (site_db sample_site)) \<le> length [61, 62, 63 :: uuid]" by code_simp+
  then show ?thesis
    using stranded_purges_requeued [of 5 "[61, 62, 63]" "[]" 1 sample_site, OF prod.collapse [symmetric]]
    by (auto simp: sample_org_def)
qed

end
