(* ===== verification/Address_Policy.thy ===== *)
theory Address_Policy
  imports Prelude "HOL-Library.Word" "HOL-Library.Sublist"
begin

text \<open>
  Which addresses a resource URL may point at (\<open>packages/shared/src/url.ts\<close>): the
  reading of dotted quads and of IPv6 text into bytes, the lists of blocks that are
  refused or are private, the addresses that carry an IPv4 address inside them, and
  the judgement of a URL before anything is requested. A string is a list of 8-bit
  characters, the Latin-1 part of JavaScript's; \<open>new URL\<close> is the parameter
  \<open>parse\<close>.
\<close>

unbundle bit_operations_syntax

subsection \<open>Strings, as JavaScript takes them apart\<close>

definition char_code :: "char \<Rightarrow> nat" where "char_code c = of_char c"

definition lower_char :: "char \<Rightarrow> char" where
  "lower_char c =
    (let n = char_code c
     in if 65 \<le> n \<and> n \<le> 90 \<or> 192 \<le> n \<and> n \<le> 222 \<and> n \<noteq> 215 then char_of (n + 32) else c)"

definition lower_case :: "string \<Rightarrow> string" where "lower_case = map lower_char"

definition onto_first :: "'a \<Rightarrow> 'a list list \<Rightarrow> 'a list list" where
  "onto_first x ps = (case ps of [] \<Rightarrow> [[x]] | p # qs \<Rightarrow> (x # p) # qs)"

fun split_on :: "char \<Rightarrow> string \<Rightarrow> string list" where
  "split_on c [] = [[]]"
| "split_on c (x # xs) = (if x = c then [] # split_on c xs else onto_first x (split_on c xs))"

fun split_double :: "char \<Rightarrow> string \<Rightarrow> string list" where
  "split_double c (x # y # xs) =
    (if x = c \<and> y = c then [] # split_double c xs else onto_first x (split_double c (y # xs)))"
| "split_double c xs = [xs]"

definition digit_value :: "char \<Rightarrow> nat option" where
  "digit_value c = (let n = char_code c in if 48 \<le> n \<and> n \<le> 57 then Some (n - 48) else None)"

definition hex_value :: "char \<Rightarrow> nat option" where
  "hex_value c =
    (let n = char_code c
     in if 48 \<le> n \<and> n \<le> 57 then Some (n - 48)
        else if 97 \<le> n \<and> n \<le> 102 then Some (n - 87)
        else if 65 \<le> n \<and> n \<le> 70 then Some (n - 55) else None)"

definition number_in :: "nat \<Rightarrow> (char \<Rightarrow> nat option) \<Rightarrow> string \<Rightarrow> nat" where
  "number_in base digit s = fold (\<lambda>c n. n * base + (case digit c of None \<Rightarrow> 0 | Some v \<Rightarrow> v)) s 0"

subsection \<open>Addresses\<close>

type_synonym ip_bytes = "8 word list"

text \<open>The loop of \<open>parseIPv4\<close>, and its four octets.\<close>

fun octets :: "string list \<Rightarrow> ip_bytes option" where
  "octets [] = Some []"
| "octets (p # ps) =
    (if \<not> (p \<noteq> [] \<and> length p \<le> 3 \<and> list_all (\<lambda>c. digit_value c \<noteq> None) p) then None
     else let n = number_in 10 digit_value p
          in if 255 < n then None else map_option (Cons (word_of_nat n)) (octets ps))"

definition parse_ipv4 :: "string \<Rightarrow> ip_bytes option" where
  "parse_ipv4 host =
    (let parts = split_on CHR ''.'' host in if length parts \<noteq> 4 then None else octets parts)"

fun expand :: "string list \<Rightarrow> ip_bytes option" where
  "expand [] = Some []"
| "expand (g # gs) =
    (if CHR ''.'' \<in> set g then (if gs \<noteq> [] then None else parse_ipv4 g)
     else if g \<noteq> [] \<and> length g \<le> 4 \<and> list_all (\<lambda>c. hex_value c \<noteq> None) g
     then (let v = number_in 16 hex_value g
           in map_option (append [word_of_nat (drop_bit 8 v), word_of_nat (v AND 255)]) (expand gs))
     else None)"

definition expand_groups :: "string \<Rightarrow> ip_bytes option" where
  "expand_groups part = (if part = [] then Some [] else expand (split_on CHR '':'' part))"

definition parse_ipv6 :: "string \<Rightarrow> ip_bytes option" where
  "parse_ipv6 host =
    (if CHR '':'' \<notin> set host then None
     else let halves = split_double CHR '':'' (hd (split_on CHR ''%'' host))
          in if 2 < length halves then None
             else case (expand_groups (halves ! 0), if length halves = 2 then expand_groups (halves ! 1) else Some []) of
                    (Some front, Some back) \<Rightarrow>
                      if length halves = 1 then (if length front = 16 then Some front else None)
                      else if 16 < length front + length back + 1 then None
                      else Some (front @ replicate (16 - length front - length back) 0 @ back)
                  | _ \<Rightarrow> None)"

subsection \<open>Blocks of addresses\<close>

record subnet =
  sn_prefix :: ip_bytes
  sn_bits :: nat

definition cidr :: "string \<Rightarrow> subnet option" where
  "cidr txt =
    (let parts = split_on CHR ''/'' txt; address = parts ! 0
     in map_option (\<lambda>p. \<lparr>sn_prefix = p, sn_bits = number_in 10 digit_value (parts ! 1)\<rparr>)
          (case parse_ipv4 address of Some b \<Rightarrow> Some b | None \<Rightarrow> parse_ipv6 address))"

text \<open>A module that does not load is one whose list has a hole: \<open>cidr\<close> throws.\<close>

definition cidrs :: "string list \<Rightarrow> subnet list" where
  "cidrs ts = map (\<lambda>t. the (cidr t)) ts"

definition BLOCKED_V4 :: "subnet list" where
  "BLOCKED_V4 = cidrs [''127.0.0.0/8'', ''169.254.0.0/16'', ''0.0.0.0/8'']"

definition BLOCKED_V6 :: "subnet list" where
  "BLOCKED_V6 = cidrs [''::1/128'', ''::/96'', ''fe80::/10'', ''fd00:ec2::/32'']"

definition EMBEDS_IPV4 :: "(subnet \<times> nat) list" where
  "EMBEDS_IPV4 = zip (cidrs [''::ffff:0:0/96'', ''64:ff9b::/32'', ''2002::/16'']) [12, 12, 2]"

definition PRIVATE_V4 :: "subnet list" where
  "PRIVATE_V4 = cidrs [''10.0.0.0/8'', ''172.16.0.0/12'', ''192.168.0.0/16'', ''100.64.0.0/10'']"

definition PRIVATE_V6 :: "subnet list" where
  "PRIVATE_V6 = cidrs [''fc00::/7'']"

text \<open>What is past the end of an array reads as 0 in \<open>>>\<close>.\<close>

definition bit_at :: "ip_bytes \<Rightarrow> nat \<Rightarrow> bool" where
  "bit_at bs i = (i div 8 < length bs \<and> bit (bs ! (i div 8)) (7 - i mod 8))"

definition matches :: "ip_bytes \<Rightarrow> subnet \<Rightarrow> bool" where
  "matches bs s = list_all (\<lambda>i. bit_at bs i = bit_at (sn_prefix s) i) [0..<sn_bits s]"

definition address_bytes :: "string \<Rightarrow> ip_bytes option" where
  "address_bytes address =
    (let bare = (if address \<noteq> [] \<and> hd address = CHR ''['' then lower_case (butlast (tl address)) else lower_case address)
     in case parse_ipv4 bare of
          Some v4 \<Rightarrow> Some v4
        | None \<Rightarrow>
            (case parse_ipv6 bare of
               None \<Rightarrow> None
             | Some v6 \<Rightarrow>
                 (case List.find (\<lambda>(s, i). matches v6 s) EMBEDS_IPV4 of
                    Some (s, i) \<Rightarrow> Some (take 4 (drop i v6))
                  | None \<Rightarrow> Some v6)))"

definition is_blocked_address :: "string \<Rightarrow> bool" where
  "is_blocked_address address =
    (case address_bytes address of
       None \<Rightarrow> False
     | Some bs \<Rightarrow> list_ex (matches bs) (if length bs = 4 then BLOCKED_V4 else BLOCKED_V6))"

definition is_private_address :: "string \<Rightarrow> bool" where
  "is_private_address address =
    (case address_bytes address of
       None \<Rightarrow> False
     | Some bs \<Rightarrow> list_ex (matches bs) (if length bs = 4 then PRIVATE_V4 else PRIVATE_V6))"

definition digit_char :: "nat \<Rightarrow> char" where
  "digit_char d = char_of (if d < 10 then 48 + d else 87 + d)"

function number_text :: "nat \<Rightarrow> nat \<Rightarrow> string" where
  "number_text base n =
    (if n < base \<or> base < 2 then [digit_char n] else number_text base (n div base) @ [digit_char (n mod base)])"
  by auto
termination by (relation "measure snd") auto

declare number_text.simps [simp del]

definition join_with :: "string \<Rightarrow> string list \<Rightarrow> string" where
  "join_with sep parts = concat (case parts of [] \<Rightarrow> [] | p # ps \<Rightarrow> p # map (append sep) ps)"

definition address_key :: "string \<Rightarrow> string option" where
  "address_key address =
    map_option (\<lambda>bs. join_with ''.'' (map (\<lambda>b. number_text 10 (unat b)) bs)) (address_bytes address)"

subsection \<open>Names and URLs\<close>

definition normalize_hostname :: "string \<Rightarrow> string" where
  "normalize_hostname hostname =
    (let h = lower_case hostname in if h \<noteq> [] \<and> last h = CHR ''.'' then butlast h else h)"

definition BLOCKED_HOSTNAMES :: "string list" where
  "BLOCKED_HOSTNAMES = [''localhost'', ''metadata.google.internal'']"

definition is_blocked_hostname :: "string \<Rightarrow> bool" where
  "is_blocked_hostname hostname \<longleftrightarrow> normalize_hostname hostname \<in> set BLOCKED_HOSTNAMES"

text \<open>What a \<open>URL\<close> shows of itself; reading one is the platform's (\<open>new URL\<close>).\<close>

record web_url =
  protocol :: string
  hostname :: string
  origin :: string
  pathname :: string
  href :: string

datatype safety_problem = Problem_Invalid | Problem_Protocol string | Problem_Hostname string | Problem_Address

definition check_url_safety :: "(string \<Rightarrow> web_url option) \<Rightarrow> string \<Rightarrow> safety_problem option" where
  "check_url_safety parse url =
    (case parse url of
       None \<Rightarrow> Some Problem_Invalid
     | Some u \<Rightarrow>
         if protocol u \<noteq> ''http:'' \<and> protocol u \<noteq> ''https:'' then Some (Problem_Protocol (protocol u))
         else let h = normalize_hostname (hostname u)
              in if is_blocked_hostname h then Some (Problem_Hostname h)
                 else if is_blocked_address h then Some Problem_Address
                 else None)"


definition url_for_log :: "(string \<Rightarrow> web_url option) \<Rightarrow> string \<Rightarrow> string" where
  "url_for_log parse url = (case parse url of None \<Rightarrow> ''(invalid URL)'' | Some u \<Rightarrow> origin u @ pathname u)"

end
