(* ===== verification/Safe_Fetch.thy ===== *)
theory Safe_Fetch
  imports Address_Policy
begin

text \<open>
  The worker's fetch of a resource URL (\<open>apps/worker/src/safe-fetch.ts\<close>): what this
  deployment refuses beyond the shared list, the lookup that judges every resolved
  address before a connection is made, and the loop that follows redirects itself.
  The platform is a parameter throughout: \<open>new URL\<close>, the resolver's answers, the
  network's responses and the caller's \<open>onHost\<close> are fields of \<open>fetch_world\<close>.
\<close>

subsection \<open>Resolving a name\<close>

datatype family = V4 | V6

text \<open>\<open>FamilyAnswer\<close>: addresses, or an error that is or is not the resolver saying no.\<close>

datatype family_answer = Addresses "string list" | Query_Error bool

definition is_negative_answer :: "family_answer \<Rightarrow> bool" where
  "is_negative_answer a = (case a of Addresses _ \<Rightarrow> False | Query_Error negative \<Rightarrow> negative)"

record families =
  ask_v4 :: bool
  ask_v6 :: bool

record interface_address =
  if_internal :: bool
  if_v4 :: bool
  if_address :: string

text \<open>\<open>None\<close> where \<open>networkInterfaces()\<close> raises.\<close>

definition reachable_families :: "interface_address list option \<Rightarrow> families" where
  "reachable_families interfaces =
    (case interfaces of
       None \<Rightarrow> \<lparr>ask_v4 = True, ask_v6 = True\<rparr>
     | Some addresses \<Rightarrow>
         let outward = filter (\<lambda>a. \<not> if_internal a) addresses;
             v4 = list_ex if_v4 outward;
             v6 = list_ex (\<lambda>a. \<not> if_v4 a \<and> take 5 (lower_case (if_address a)) \<noteq> ''fe80:'') outward
         in if v4 \<or> v6 then \<lparr>ask_v4 = v4, ask_v6 = v6\<rparr> else \<lparr>ask_v4 = True, ask_v6 = True\<rparr>)"

definition families_to_ask :: "nat \<Rightarrow> families \<Rightarrow> families" where
  "families_to_ask wanted reachable =
    (if wanted = 4 \<or> wanted = 6 then \<lparr>ask_v4 = (wanted = 4), ask_v6 = (wanted = 6)\<rparr> else reachable)"

type_synonym resolved = "(string \<times> family) list"

datatype resolve_error = EAI_AGAIN | ENOTFOUND

definition MAX_ADDRESSES_PER_NAME :: nat where "MAX_ADDRESSES_PER_NAME = 16"

definition resolve_addresses :: "families \<Rightarrow> family_answer \<Rightarrow> family_answer \<Rightarrow> resolve_error + resolved" where
  "resolve_addresses ask six four =
    (let asked = (if ask_v6 ask then [(six, V6)] else []) @ (if ask_v4 ask then [(four, V4)] else []);
         answers = concat (map (\<lambda>(q, f). case q of Addresses as \<Rightarrow> map (\<lambda>a. (a, f)) as | Query_Error _ \<Rightarrow> []) asked);
         unanswered = list_ex (\<lambda>(q, _). case q of Addresses _ \<Rightarrow> False | Query_Error _ \<Rightarrow> \<not> is_negative_answer q) asked
     in if answers \<noteq> [] then Inr (take MAX_ADDRESSES_PER_NAME answers)
        else Inl (if unanswered then EAI_AGAIN else ENOTFOUND))"

text \<open>
  The cache: what is held for a key, if the LRU and its TTL still hold it. A query
  under way and its settled answer are one entry.
\<close>

type_synonym resolutions = "string \<rightharpoonup> resolve_error + resolved"

definition cache_key :: "string \<Rightarrow> families \<Rightarrow> string" where
  "cache_key host ask = (if ask_v4 ask then ''4'' else []) @ (if ask_v6 ask then ''6'' else []) @ ''|'' @ host"

definition resolve_cached ::
    "resolutions \<Rightarrow> (string \<Rightarrow> family option) \<Rightarrow> families \<Rightarrow> family_answer \<Rightarrow> family_answer \<Rightarrow> string \<Rightarrow>
     (resolve_error + resolved) \<times> resolutions" where
  "resolve_cached held is_ip ask six four host =
    (case is_ip host of
       Some f \<Rightarrow> (Inr [(host, f)], held)
     | None \<Rightarrow>
         let key = cache_key host ask
         in case held key of
              Some answer \<Rightarrow> (answer, held)
            | None \<Rightarrow>
                let answer = resolve_addresses ask six four
                in (answer, if answer = Inl EAI_AGAIN then held(key := None) else held(key \<mapsto> answer)))"

subsection \<open>What this deployment refuses\<close>

record local_refusals =
  deny_private_networks :: bool
  service_hosts :: "string list"

definition service_host :: "(string \<Rightarrow> web_url option) \<Rightarrow> string option \<Rightarrow> string list" where
  "service_host parse url =
    (case url of
       None \<Rightarrow> []
     | Some u \<Rightarrow>
         if u = [] then []
         else case parse u of
                None \<Rightarrow> []
              | Some p \<Rightarrow> let host = normalize_hostname (hostname p)
                          in if host \<noteq> [] \<and> \<not> is_blocked_hostname host then [host] else [])"

definition set_local_refusals ::
    "(string \<Rightarrow> web_url option) \<Rightarrow> bool \<Rightarrow> string option list \<Rightarrow> string list \<Rightarrow> local_refusals" where
  "set_local_refusals parse deny service_urls hosts =
    \<lparr>deny_private_networks = deny,
     service_hosts =
       rev (remdups (rev (concat (map (service_host parse) (service_urls @ map (\<lambda>h. Some (''http://'' @ h)) hosts)))))\<rparr>"

definition is_refused_hostname :: "local_refusals \<Rightarrow> string \<Rightarrow> bool" where
  "is_refused_hostname lr host \<longleftrightarrow> normalize_hostname host \<in> set (service_hosts lr)"

text \<open>What \<open>getaddrinfo\<close> says of a service's name.\<close>

datatype lookup_answer = Found "string list" | No_Such_Name | No_Answer

datatype service_addresses = Services_Unknown | Services_At "string list"

definition locate_service :: "(string \<Rightarrow> lookup_answer) \<Rightarrow> string \<Rightarrow> string list option" where
  "locate_service look host =
    (case address_key host of
       Some key \<Rightarrow> Some (if is_private_address host then [key] else [])
     | None \<Rightarrow>
         (case look host of
            Found as \<Rightarrow> Some (map (the \<circ> address_key) (filter is_private_address as))
          | No_Such_Name \<Rightarrow> Some []
          | No_Answer \<Rightarrow> None))"

text \<open>\<open>in_time\<close>: whether the pass ends before whoever asked stops waiting for it.\<close>

definition locate_services :: "(string \<Rightarrow> lookup_answer) \<Rightarrow> bool \<Rightarrow> local_refusals \<Rightarrow> service_addresses" where
  "locate_services look in_time lr =
    (let found = map (locate_service look) (service_hosts lr)
     in if \<not> in_time \<or> None \<in> set found then Services_Unknown else Services_At (concat (map the found)))"

definition refused_here :: "local_refusals \<Rightarrow> service_addresses \<Rightarrow> string list \<Rightarrow> string option" where
  "refused_here lr services addresses =
    (let candidates = filter is_private_address addresses
     in if candidates = [] then None
        else if deny_private_networks lr then Some (hd candidates)
        else if service_hosts lr = [] then None
        else List.find (\<lambda>a. case services of Services_Unknown \<Rightarrow> True | Services_At keys \<Rightarrow> the (address_key a) \<in> set keys) candidates)"

datatype url_problem = Shared_Problem safety_problem | Service_Host string | Private_Target

definition url_refusal ::
    "(string \<Rightarrow> web_url option) \<Rightarrow> local_refusals \<Rightarrow> service_addresses \<Rightarrow> string \<Rightarrow> url_problem option" where
  "url_refusal parse lr services url =
    (case check_url_safety parse url of
       Some p \<Rightarrow> Some (Shared_Problem p)
     | None \<Rightarrow>
         let host = hostname (the (parse url))
         in if is_refused_hostname lr host then Some (Service_Host (normalize_hostname host))
            else if address_key host \<noteq> None \<and> refused_here lr services [host] \<noteq> None then Some Private_Target
            else None)"

subsection \<open>The lookup of a connection\<close>

text \<open>\<open>resolve\<close> is \<open>resolve_cached\<close>, whose answers are never empty; \<open>every\<close> is the option \<open>all\<close>.\<close>

datatype lookup_error = Lookup_Blocked_Hostname string | Lookup_Private string | Lookup_Failed resolve_error

definition ssrf_safe_lookup ::
    "local_refusals \<Rightarrow> service_addresses \<Rightarrow> (string \<Rightarrow> resolve_error + resolved) \<Rightarrow> bool \<Rightarrow> string \<Rightarrow> lookup_error + resolved" where
  "ssrf_safe_lookup lr services resolve every host =
    (if is_blocked_hostname host \<or> is_refused_hostname lr host then Inl (Lookup_Blocked_Hostname host)
     else case resolve host of
            Inl e \<Rightarrow> Inl (Lookup_Failed e)
          | Inr addresses \<Rightarrow>
              (case (case List.find (\<lambda>a. is_blocked_address (fst a)) addresses of
                       Some a \<Rightarrow> Some (fst a)
                     | None \<Rightarrow> refused_here lr services (map fst addresses)) of
                 Some a \<Rightarrow> Inl (Lookup_Private a)
               | None \<Rightarrow> Inr (if every then addresses else take 1 addresses)))"

subsection \<open>What the next hop is asked with\<close>

record fetch_init =
  init_method :: "string option"
  init_headers :: "(string \<times> string) list"
  init_body :: "string option"

definition upper_char :: "char \<Rightarrow> char" where
  "upper_char c = (let n = char_code c in if 97 \<le> n \<and> n \<le> 122 then char_of (n - 32) else c)"

definition MAX_REDIRECTS :: nat where "MAX_REDIRECTS = 10"
definition MAX_REDIRECT_BODY :: nat where "MAX_REDIRECT_BODY = 256 * 1024"

definition REDIRECT_STATUSES :: "nat list" where "REDIRECT_STATUSES = [301, 302, 303, 307, 308]"

definition rewrites_to_get :: "nat \<Rightarrow> string \<Rightarrow> bool" where
  "rewrites_to_get status m =
    (if status = 301 \<or> status = 302 then m = ''POST''
     else if status = 303 then m \<noteq> ''GET'' \<and> m \<noteq> ''HEAD''
     else False)"

definition CREDENTIAL_HEADERS :: "string list" where
  "CREDENTIAL_HEADERS = [''authorization'', ''proxy-authorization'', ''cookie'', ''cookie2'']"

definition BODY_HEADERS :: "string list" where
  "BODY_HEADERS = [''content-encoding'', ''content-language'', ''content-location'', ''content-type'', ''content-length'']"

definition delete_headers :: "string list \<Rightarrow> (string \<times> string) list \<Rightarrow> (string \<times> string) list" where
  "delete_headers names hs = filter (\<lambda>(n, _). n \<notin> set names) hs"

definition next_hop_init :: "fetch_init \<Rightarrow> nat \<Rightarrow> bool \<Rightarrow> fetch_init" where
  "next_hop_init init status same_origin =
    (let m = map upper_char (case init_method init of None \<Rightarrow> ''GET'' | Some m \<Rightarrow> m);
         drops_body = rewrites_to_get status m
     in if \<not> drops_body \<and> same_origin then init
        else let kept = (if same_origin then init_headers init else delete_headers CREDENTIAL_HEADERS (init_headers init));
                 carried = (if drops_body then delete_headers BODY_HEADERS kept else kept)
             in if drops_body then \<lparr>init_method = Some ''GET'', init_headers = carried, init_body = None\<rparr>
                else init\<lparr>init_headers := carried\<rparr>)"

subsection \<open>The fetch\<close>

text \<open>A response as the loop reads it: \<open>None\<close> is no \<open>location\<close>, or a \<open>content-length\<close> that is not a number.\<close>

record hop_response =
  resp_status :: nat
  resp_location :: "string option"
  resp_declared :: "nat option"

text \<open>
  The world of one fetch. Whatever can change between two hops takes the number of
  hops left as an argument: the services' whereabouts, the responses, the caller's
  verdict on a host.
\<close>

record fetch_world =
  fw_parse :: "string \<Rightarrow> web_url option"
  fw_resolve :: "string \<Rightarrow> web_url \<Rightarrow> web_url option"
  fw_refusals :: local_refusals
  fw_services :: "nat \<Rightarrow> service_addresses"
  fw_answer :: "nat \<Rightarrow> string \<Rightarrow> fetch_init \<Rightarrow> hop_response option"
  fw_on_host :: "(nat \<Rightarrow> string \<Rightarrow> bool) option"
  fw_user_agent :: string

datatype fetch_event = Sent string fetch_init | Discarded | Asked string

datatype fetch_end =
    Returned hop_response
  | Unsafe_Url url_problem
  | Network_Error
  | Body_Too_Large nat
  | Invalid_Url
  | Location_Unusable
  | Downgraded string
  | Target_Unsafe url_problem
  | Hop_Refused string
  | Too_Many_Redirects

text \<open>Where a redirect leads, or why the chain ends at it.\<close>

definition body_too_large :: "hop_response \<Rightarrow> bool" where
  "body_too_large r = (case resp_declared r of None \<Rightarrow> False | Some n \<Rightarrow> MAX_REDIRECT_BODY < n)"

definition next_target :: "fetch_world \<Rightarrow> nat \<Rightarrow> string \<Rightarrow> hop_response \<Rightarrow> string \<Rightarrow> fetch_end + web_url \<times> web_url" where
  "next_target w left url r location =
    (if body_too_large r then Inl (Body_Too_Large (the (resp_declared r)))
     else case fw_parse w url of
            None \<Rightarrow> Inl Invalid_Url
          | Some base \<Rightarrow>
              (case fw_resolve w location base of
                 None \<Rightarrow> Inl Location_Unusable
               | Some next \<Rightarrow>
                   if protocol base = ''https:'' \<and> protocol next \<noteq> ''https:'' then Inl (Downgraded (protocol next))
                   else case url_refusal (fw_parse w) (fw_refusals w) (fw_services w left) (href next) of
                          Some p \<Rightarrow> Inl (Target_Unsafe p)
                        | None \<Rightarrow> Inr (base, next)))"

text \<open>One request: the chain ends with its response, or goes on to the target of its redirect.\<close>

definition one_hop ::
    "fetch_world \<Rightarrow> nat \<Rightarrow> string \<Rightarrow> fetch_init \<Rightarrow> fetch_event list \<times> (fetch_end + hop_response \<times> web_url \<times> web_url)" where
  "one_hop w left url init =
    (case fw_answer w left url init of
       None \<Rightarrow> ([Sent url init], Inl Network_Error)
     | Some r \<Rightarrow>
         if resp_status r \<notin> set REDIRECT_STATUSES then ([Sent url init], Inl (Returned r))
         else case resp_location r of
                None \<Rightarrow> ([Sent url init, Discarded], Inl (Returned r))
              | Some location \<Rightarrow>
                  ([Sent url init, Discarded],
                   case next_target w left url r location of
                     Inl stop \<Rightarrow> Inl stop
                   | Inr (base, next) \<Rightarrow> Inr (r, base, next)))"

text \<open>Whether a host not used before may be gone on to: what is asked, and the verdict.\<close>

definition ask_host :: "fetch_world \<Rightarrow> nat \<Rightarrow> string list \<Rightarrow> string \<Rightarrow> fetch_event list \<times> bool" where
  "ask_host w left used host =
    (if host \<in> set used then ([], True)
     else case fw_on_host w of None \<Rightarrow> ([], True) | Some verdict \<Rightarrow> ([Asked host], verdict left host))"

fun fetch_hops :: "fetch_world \<Rightarrow> nat \<Rightarrow> string \<Rightarrow> fetch_init \<Rightarrow> string list \<Rightarrow> fetch_event list \<times> fetch_end" where
  "fetch_hops w 0 url init used =
    (case one_hop w 0 url init of (es, Inl stop) \<Rightarrow> (es, stop) | (es, Inr _) \<Rightarrow> (es, Too_Many_Redirects))"
| "fetch_hops w (Suc left) url init used =
    (case one_hop w (Suc left) url init of
       (es, Inl stop) \<Rightarrow> (es, stop)
     | (es, Inr (r, base, next)) \<Rightarrow>
         let host = normalize_hostname (hostname next)
         in case ask_host w (Suc left) used host of
              (as, False) \<Rightarrow> (es @ as, Hop_Refused host)
            | (as, True) \<Rightarrow>
                (case fetch_hops w left (href next)
                        (next_hop_init init (resp_status r) (origin base = origin next)) (host # used) of
                   (rest, stop) \<Rightarrow> (es @ as @ rest, stop)))"

definition first_init :: "fetch_world \<Rightarrow> fetch_init \<Rightarrow> fetch_init" where
  "first_init w init =
    (let headers = map (\<lambda>(n, v). (lower_case n, v)) (init_headers init)
     in init\<lparr>init_headers :=
          if list_ex (\<lambda>(n, _). n = ''user-agent'') headers then headers else headers @ [(''user-agent'', fw_user_agent w)]\<rparr>)"

definition safe_fetch :: "fetch_world \<Rightarrow> string \<Rightarrow> fetch_init \<Rightarrow> fetch_event list \<times> fetch_end" where
  "safe_fetch w url init =
    (case url_refusal (fw_parse w) (fw_refusals w) (fw_services w (Suc MAX_REDIRECTS)) url of
       Some p \<Rightarrow> ([], Unsafe_Url p)
     | None \<Rightarrow>
         fetch_hops w MAX_REDIRECTS url (first_init w init)
           [normalize_hostname (hostname (the (fw_parse w url)))])"

end
