(* ===== verification/Address_Blocks.thy ===== *)
theory Address_Blocks
  imports Address_Policy
begin

text \<open>
  An address as a number and a block as its leading bits: the lists of \<open>url.ts\<close> read
  into bytes, \<open>matches\<close> as an equality of quotients, and the policy stated on the
  numbers (\<open>off_limits\<close>, \<open>on_private_network\<close>, \<open>carried\<close>), with the code's lists
  shown to say the same.
\<close>

unbundle bit_operations_syntax

subsection \<open>An address as a number, a block as its leading bits\<close>

definition address_value :: "ip_bytes \<Rightarrow> nat" where
  "address_value bs = fold (\<lambda>b n. n * 256 + unat b) bs 0"

lemma address_value_Nil [simp]: "address_value [] = 0"
  by (simp add: address_value_def)

lemma address_value_snoc [simp]: "address_value (bs @ [b]) = address_value bs * 256 + unat b"
  by (simp add: address_value_def)

lemma byte_below [simp]: "unat (b :: 8 word) < 256"
  using unsigned_less [of b, where ?'a = nat] by simp

lemma address_value_less: "address_value bs < 256 ^ length bs"
proof (induction bs rule: rev_induct)
  case (snoc b bs)
  have "address_value bs * 256 + unat b < (address_value bs + 1) * 256" by simp
  also have "\<dots> \<le> 256 ^ length bs * 256" using snoc by (simp only: mult_le_mono1 Suc_eq_plus1 [symmetric] Suc_le_eq)
  finally show ?case by simp
qed simp

lemma bit_of_bytes:
  fixes n k :: nat
  assumes "k < 256"
  shows "bit (n * 256 + k) j = (if j < 8 then bit k j else bit n (j - 8))"
proof (cases "j < 8")
  case True
  then obtain i where i: "8 = j + Suc i" using less_imp_Suc_add [of j 8] by auto
  have "(256::nat) = 2 ^ j * (2 * 2 ^ i)"
  proof -
    have "(256::nat) = 2 ^ 8" by simp
    also have "\<dots> = 2 ^ (j + Suc i)" using i by (rule arg_cong)
    finally show ?thesis by (simp only: power_add power_Suc)
  qed
  then have "n * 256 + k = k + 2 ^ j * (2 * 2 ^ i * n)" by (simp only: mult_ac add.commute)
  then have "(n * 256 + k) div 2 ^ j = k div 2 ^ j + 2 * (2 ^ i * n)" by (simp only: div_mult_self2 power_eq_0_iff) simp
  then show ?thesis using True by (simp add: bit_iff_odd)
next
  case False
  then obtain i where i: "j = 8 + i" using le_Suc_ex linorder_not_less by blast
  have "(n * 256 + k) div 2 ^ j = (n * 256 + k) div 256 div 2 ^ i"
    by (simp add: i power_add div_mult2_eq)
  then show ?thesis using assms i by (simp add: bit_iff_odd)
qed

lemma bit_address_value:
  "bit (address_value bs) j = (j < 8 * length bs \<and> bit_at bs (8 * length bs - 1 - j))"
proof (induction bs arbitrary: j rule: rev_induct)
  case (snoc b bs)
  show ?case
  proof (cases "j < 8")
    case True
    then have j: "8 * length (bs @ [b]) - 1 - j = 8 * length bs + (7 - j)" by simp
    have "bit_at (bs @ [b]) (8 * length bs + i) = bit b (7 - i)" if "i < 8" for i
      using that by (simp add: bit_at_def)
    from this [of "7 - j"] True
    have "bit_at (bs @ [b]) (8 * length bs + (7 - j)) = bit b j" by simp
    then show ?thesis using True by (simp only: j) (simp add: bit_of_bytes bit_unsigned_iff)
  next
    case False
    let ?i = "8 * length bs - 1 - (j - 8)"
    have "8 * length (bs @ [b]) - 1 - j = ?i" using False by simp
    moreover have "bit_at (bs @ [b]) ?i = bit_at bs ?i" if "j - 8 < 8 * length bs"
      using that by (auto simp: bit_at_def nth_append)
    ultimately show ?thesis using False snoc [of "j - 8"] by (simp add: bit_of_bytes) linarith
  qed
qed (simp add: bit_at_def)

text \<open>An address is in a block when the two numbers agree once the host bits are dropped.\<close>

lemma matches_value:
  assumes "length bs = length (sn_prefix s)" "sn_bits s \<le> 8 * length bs"
  shows "matches bs s \<longleftrightarrow>
    address_value bs div 2 ^ (8 * length bs - sn_bits s) = address_value (sn_prefix s) div 2 ^ (8 * length bs - sn_bits s)"
    (is "_ \<longleftrightarrow> ?a div 2 ^ ?k = ?p div 2 ^ ?k")
proof -
  have "?a div 2 ^ ?k = ?p div 2 ^ ?k \<longleftrightarrow> drop_bit ?k ?a = drop_bit ?k ?p" by (simp add: drop_bit_eq_div)
  also have "\<dots> \<longleftrightarrow> (\<forall>j. bit ?a (?k + j) = bit ?p (?k + j))" by (simp add: bit_eq_iff bit_drop_bit_eq)
  also have "\<dots> \<longleftrightarrow> (\<forall>i < sn_bits s. bit_at bs i = bit_at (sn_prefix s) i)"
  proof (rule iffI; intro allI impI)
    fix i assume all: "\<forall>j. bit ?a (?k + j) = bit ?p (?k + j)" and i: "i < sn_bits s"
    have "?k + (sn_bits s - 1 - i) = 8 * length bs - 1 - i" "8 * length bs - 1 - i < 8 * length bs"
      using i assms by simp_all
    moreover have "8 * length bs - 1 - (8 * length bs - 1 - i) = i" using i assms by simp
    ultimately show "bit_at bs i = bit_at (sn_prefix s) i"
      using all [rule_format, of "sn_bits s - 1 - i"] assms i by (simp add: bit_address_value)
  next
    fix j assume all: "\<forall>i < sn_bits s. bit_at bs i = bit_at (sn_prefix s) i"
    show "bit ?a (?k + j) = bit ?p (?k + j)"
    proof (cases "?k + j < 8 * length bs")
      case True
      then have "8 * length bs - 1 - (?k + j) < sn_bits s" by simp
      then show ?thesis using all assms by (simp add: bit_address_value)
    qed (use assms in \<open>simp add: bit_address_value\<close>)
  qed
  finally show ?thesis by (auto simp: matches_def list_all_iff)
qed

subsection \<open>The lists, read\<close>

lemmas text_reading =
  parse_ipv4_def parse_ipv6_def number_in_def digit_value_def hex_value_def expand_groups_def
  char_code_def of_char_def onto_first_def

lemma replicate_cidr [simp]:
  "replicate 9 a = a # replicate 8 a" "replicate 8 a = [a, a, a, a, a, a, a, a]"
  "replicate 10 a = a # replicate 9 a" "replicate 12 a = a # a # replicate 10 a"
  "replicate 14 a = a # a # replicate 12 a" "replicate 15 a = a # replicate 14 a"
  "replicate 16 a = a # replicate 15 a"
  by (simp_all add: numeral_eq_Suc)

lemma BLOCKED_V4_read:
  "BLOCKED_V4 = [\<lparr>sn_prefix = [127, 0, 0, 0], sn_bits = 8\<rparr>, \<lparr>sn_prefix = [169, 254, 0, 0], sn_bits = 16\<rparr>,
                 \<lparr>sn_prefix = [0, 0, 0, 0], sn_bits = 8\<rparr>]"
  by (simp add: BLOCKED_V4_def cidrs_def cidr_def text_reading)

lemma BLOCKED_V6_read:
  "BLOCKED_V6 = [\<lparr>sn_prefix = [0, 0, 0, 0, 0, 0, 0, 0, 0, 0, 0, 0, 0, 0, 0, 1], sn_bits = 128\<rparr>,
                 \<lparr>sn_prefix = [0, 0, 0, 0, 0, 0, 0, 0, 0, 0, 0, 0, 0, 0, 0, 0], sn_bits = 96\<rparr>,
                 \<lparr>sn_prefix = [0xfe, 0x80, 0, 0, 0, 0, 0, 0, 0, 0, 0, 0, 0, 0, 0, 0], sn_bits = 10\<rparr>,
                 \<lparr>sn_prefix = [0xfd, 0, 0x0e, 0xc2, 0, 0, 0, 0, 0, 0, 0, 0, 0, 0, 0, 0], sn_bits = 32\<rparr>]"
  by (simp add: BLOCKED_V6_def cidrs_def cidr_def text_reading)

lemma EMBEDS_IPV4_read:
  "EMBEDS_IPV4 = [(\<lparr>sn_prefix = [0, 0, 0, 0, 0, 0, 0, 0, 0, 0, 0xff, 0xff, 0, 0, 0, 0], sn_bits = 96\<rparr>, 12),
                  (\<lparr>sn_prefix = [0, 0x64, 0xff, 0x9b, 0, 0, 0, 0, 0, 0, 0, 0, 0, 0, 0, 0], sn_bits = 32\<rparr>, 12),
                  (\<lparr>sn_prefix = [0x20, 0x02, 0, 0, 0, 0, 0, 0, 0, 0, 0, 0, 0, 0, 0, 0], sn_bits = 16\<rparr>, 2)]"
  by (simp add: EMBEDS_IPV4_def cidrs_def cidr_def text_reading)

lemma PRIVATE_V4_read:
  "PRIVATE_V4 = [\<lparr>sn_prefix = [10, 0, 0, 0], sn_bits = 8\<rparr>, \<lparr>sn_prefix = [172, 16, 0, 0], sn_bits = 12\<rparr>,
                 \<lparr>sn_prefix = [192, 168, 0, 0], sn_bits = 16\<rparr>, \<lparr>sn_prefix = [100, 64, 0, 0], sn_bits = 10\<rparr>]"
  by (simp add: PRIVATE_V4_def cidrs_def cidr_def text_reading)

lemma PRIVATE_V6_read:
  "PRIVATE_V6 = [\<lparr>sn_prefix = [0xfc, 0, 0, 0, 0, 0, 0, 0, 0, 0, 0, 0, 0, 0, 0, 0], sn_bits = 7\<rparr>]"
  by (simp add: PRIVATE_V6_def cidrs_def cidr_def text_reading)

lemma every_block_reads:
  "list_all (\<lambda>t. cidr t \<noteq> None)
     [''127.0.0.0/8'', ''169.254.0.0/16'', ''0.0.0.0/8'', ''::1/128'', ''::/96'', ''fe80::/10'', ''fd00:ec2::/32'',
      ''::ffff:0:0/96'', ''64:ff9b::/32'', ''2002::/16'', ''10.0.0.0/8'', ''172.16.0.0/12'', ''192.168.0.0/16'',
      ''100.64.0.0/10'', ''fc00::/7'']"
  by (simp add: cidr_def text_reading)

subsection \<open>The policy, stated on the numbers\<close>

text \<open>Loopback, link-local and the unspecified block; the IPv4-compatible block, link-local and the metadata service.\<close>

definition off_limits :: "ip_bytes \<Rightarrow> bool" where
  "off_limits bs =
    (let n = address_value bs
     in if length bs = 4 then n div 2 ^ 24 = 127 \<or> n div 2 ^ 16 = 169 * 256 + 254 \<or> n div 2 ^ 24 = 0
        else n < 2 ^ 32 \<or> n div 2 ^ 118 = 0xfe80 div 2 ^ 6 \<or> n div 2 ^ 96 = 0xfd000ec2)"

definition on_private_network :: "ip_bytes \<Rightarrow> bool" where
  "on_private_network bs =
    (let n = address_value bs
     in if length bs = 4
        then n div 2 ^ 24 = 10 \<or> n div 2 ^ 20 = 172 * 16 + 1 \<or> n div 2 ^ 16 = 192 * 256 + 168 \<or> n div 2 ^ 22 = 100 * 4 + 1
        else n div 2 ^ 121 = 0xfc div 2)"

text \<open>An IPv4 address carried inside IPv6: mapped, translated, or 6to4.\<close>

definition carried :: "ip_bytes \<Rightarrow> ip_bytes" where
  "carried bs =
    (let n = address_value bs
     in if length bs = 4 then bs
        else if n div 2 ^ 32 = 0xffff \<or> n div 2 ^ 96 = 0x64ff9b then drop 12 bs
        else if n div 2 ^ 112 = 0x2002 then take 4 (drop 2 bs)
        else bs)"

lemma address_value_eval: "address_value (b # bs) = fold (\<lambda>b n. n * 256 + unat b) bs (unat b)"
  by (simp add: address_value_def)

lemmas block_value = matches_value address_value_eval div_eq_0_iff

lemma blocked_v4: "length bs = 4 \<Longrightarrow> list_ex (matches bs) BLOCKED_V4 \<longleftrightarrow> off_limits bs"
  by (simp add: BLOCKED_V4_read block_value off_limits_def Let_def)

lemma private_v4: "length bs = 4 \<Longrightarrow> list_ex (matches bs) PRIVATE_V4 \<longleftrightarrow> on_private_network bs"
  by (simp add: PRIVATE_V4_read block_value on_private_network_def Let_def)

lemma blocked_v6: "length bs = 16 \<Longrightarrow> list_ex (matches bs) BLOCKED_V6 \<longleftrightarrow> off_limits bs"
  by (simp add: BLOCKED_V6_read block_value off_limits_def Let_def) auto

lemma private_v6: "length bs = 16 \<Longrightarrow> list_ex (matches bs) PRIVATE_V6 \<longleftrightarrow> on_private_network bs"
  by (simp add: PRIVATE_V6_read block_value on_private_network_def Let_def)

lemma carried_v6:
  "length bs = 16 \<Longrightarrow>
   (case List.find (\<lambda>(s, i). matches bs s) EMBEDS_IPV4 of Some (s, i) \<Rightarrow> take 4 (drop i bs) | None \<Rightarrow> bs) = carried bs"
  by (simp add: EMBEDS_IPV4_read block_value carried_def Let_def)

end
