(* ===== verification/Address_Spellings.thy ===== *)
theory Address_Spellings
  imports Address_Blocks
begin

text \<open>
  The texts that spell an address, as a grammar (\<open>names_address\<close>), and the proof that
  the readers of \<open>url.ts\<close> accept those texts and no others, with the bytes they spell.
\<close>

unbundle bit_operations_syntax

subsection \<open>Taking texts apart and putting them together\<close>

lemma onto_first_not_Nil [simp]: "onto_first x ps \<noteq> []"
  by (simp add: onto_first_def split: list.splits)

lemma split_on_not_Nil [simp]: "split_on c s \<noteq> []"
  by (induction s) auto

lemma split_double_not_Nil [simp]: "split_double c s \<noteq> []"
  by (induction c s rule: split_double.induct) auto

lemma join_with_Nil [simp]: "join_with sep [] = []"
  by (simp add: join_with_def)

lemma join_with_Cons: "join_with sep (p # ps) = (if ps = [] then p else p @ sep @ join_with sep ps)"
  by (cases ps) (simp_all add: join_with_def)

lemma join_with_onto_first: "ps \<noteq> [] \<Longrightarrow> join_with sep (onto_first x ps) = x # join_with sep ps"
  by (cases ps) (simp_all add: onto_first_def join_with_Cons)

lemma join_split [simp]: "join_with [c] (split_on c s) = s"
  by (induction s) (simp_all add: join_with_Cons join_with_onto_first)

lemma join_split_double [simp]: "join_with [c, c] (split_double c s) = s"
  by (induction c s rule: split_double.induct) (simp_all add: join_with_Cons join_with_onto_first)

lemma set_onto_first: "\<forall>p \<in> set ps. c \<notin> set p \<Longrightarrow> x \<noteq> c \<Longrightarrow> \<forall>p \<in> set (onto_first x ps). c \<notin> set p"
  by (cases ps) (auto simp: onto_first_def)

lemma split_on_pieces: "\<forall>p \<in> set (split_on c s). c \<notin> set p"
proof (induction s)
  case (Cons x s)
  show ?case using set_onto_first [OF Cons] Cons by simp
qed simp

lemma split_on_piece: "c \<notin> set p \<Longrightarrow> split_on c (p @ c # s) = p # split_on c s"
  by (induction p) (auto simp: onto_first_def)

lemma split_on_last: "c \<notin> set p \<Longrightarrow> split_on c p = [p]"
  by (induction p) (auto simp: onto_first_def)

lemma split_join: "ps \<noteq> [] \<Longrightarrow> \<forall>p \<in> set ps. c \<notin> set p \<Longrightarrow> split_on c (join_with [c] ps) = ps"
  by (induction ps) (auto simp: join_with_Cons split_on_piece split_on_last)

lemma split_on_iff:
  "split_on c s = ps \<longleftrightarrow> ps \<noteq> [] \<and> (\<forall>p \<in> set ps. c \<notin> set p) \<and> s = join_with [c] ps"
  using split_join split_on_pieces by (metis join_split split_on_not_Nil)

lemma hd_split_on: "hd (split_on c s) = takeWhile (\<lambda>x. x \<noteq> c) s"
proof (induction s)
  case (Cons x s)
  then show ?case by (cases "split_on c s") (auto simp: onto_first_def)
qed simp

definition piece_first :: "string \<Rightarrow> string list \<Rightarrow> string list" where
  "piece_first s ps = (s @ hd ps) # tl ps"

lemma split_double_other: "x \<noteq> c \<Longrightarrow> split_double c (x # s) = onto_first x (split_double c s)"
  by (cases s) (simp_all add: onto_first_def)

lemma onto_first_piece: "ps \<noteq> [] \<Longrightarrow> onto_first x ps = piece_first [x] ps"
  by (cases ps) (simp_all add: onto_first_def piece_first_def)

lemma piece_first_append [simp]: "piece_first a (piece_first b ps) = piece_first (a @ b) ps"
  by (simp add: piece_first_def)

lemma piece_first_not_Nil [simp]: "piece_first a ps \<noteq> []"
  by (simp add: piece_first_def)

lemma split_double_piece: "c \<notin> set p \<Longrightarrow> split_double c (p @ s) = piece_first p (split_double c s)"
proof (induction p)
  case Nil
  then show ?case by (cases "split_double c s") (simp_all add: piece_first_def)
next
  case (Cons x p)
  then have "x \<noteq> c" "c \<notin> set p" by auto
  then show ?case using Cons.IH by (simp add: split_double_other onto_first_piece)
qed

lemma split_double_join:
  assumes "\<forall>p \<in> set ps. p \<noteq> [] \<and> c \<notin> set p"
  shows "split_double c (join_with [c] ps @ s) = piece_first (join_with [c] ps) (split_double c s)"
  using assms
proof (induction ps)
  case Nil
  then show ?case by (cases "split_double c s") (simp_all add: piece_first_def)
next
  case (Cons p ps)
  show ?case
  proof (cases "ps = []")
    case False
    then obtain x q qs where ps: "ps = (x # q) # qs" "x \<noteq> c"
      using Cons.prems by (cases ps; cases "hd ps") auto
    then have "split_double c (c # join_with [c] ps @ s) = onto_first c (split_double c (join_with [c] ps @ s))"
      by (simp add: join_with_Cons)
    then show ?thesis
      using Cons False by (simp add: join_with_Cons split_double_piece onto_first_piece)
  qed (use Cons.prems in \<open>simp add: join_with_Cons split_double_piece\<close>)
qed

lemma split_double_one: "\<forall>p \<in> set ps. p \<noteq> [] \<and> c \<notin> set p \<Longrightarrow> split_double c (join_with [c] ps) = [join_with [c] ps]"
  using split_double_join [of ps c "[]"] by (simp add: piece_first_def)

lemma split_double_two:
  "\<forall>p \<in> set ps. p \<noteq> [] \<and> c \<notin> set p \<Longrightarrow> \<forall>p \<in> set qs. p \<noteq> [] \<and> c \<notin> set p \<Longrightarrow>
   split_double c (join_with [c] ps @ [c, c] @ join_with [c] qs) = [join_with [c] ps, join_with [c] qs]"
  using split_double_join [of ps c "[c, c] @ join_with [c] qs"] split_double_one [of qs c]
  by (simp add: piece_first_def)

subsection \<open>Numbers, read and written\<close>

lemma number_in_snoc: "number_in base digit (s @ [c]) = number_in base digit s * base + (case digit c of None \<Rightarrow> 0 | Some v \<Rightarrow> v)"
  by (simp add: number_in_def)

lemma number_in_Nil [simp]: "number_in base digit [] = 0"
  by (simp add: number_in_def)

lemma number_in_zeros: "digit CHR ''0'' = Some 0 \<Longrightarrow> number_in base digit (replicate z CHR ''0'') = 0"
  by (induction z) (simp_all add: number_in_def)

lemma number_text_step:
  "2 \<le> base \<Longrightarrow> 0 < m \<Longrightarrow> d < base \<Longrightarrow> number_text base (m * base + d) = number_text base m @ [digit_char d]"
proof -
  assume "2 \<le> base" "0 < m" "d < base"
  moreover from this have "base \<le> m * base + d" by (simp add: trans_le_add1)
  ultimately show ?thesis by (subst number_text.simps) simp
qed

lemma number_text_digit: "d < base \<Longrightarrow> number_text base d = [digit_char d]"
  by (subst number_text.simps) simp

lemma number_text_not_Nil [simp]: "number_text base n \<noteq> []"
  by (subst number_text.simps) simp

text \<open>What a text of digits reads as, it spells: leading zeros apart, the number written out.\<close>

lemma number_text_of_read:
  assumes "2 \<le> base" and d: "\<And>c. c \<in> set s \<Longrightarrow> \<exists>v. digit c = Some v \<and> v < base \<and> fold_case c = digit_char v"
    and "s \<noteq> []"
  shows "\<exists>z. map fold_case s = replicate z (digit_char 0) @ number_text base (number_in base digit s)"
  using d \<open>s \<noteq> []\<close>
proof (induction s rule: rev_induct)
  case (snoc c s)
  obtain v where v: "digit c = Some v" "v < base" "fold_case c = digit_char v" using snoc.prems(1) [of c] by auto
  show ?case
  proof (cases "s = []")
    case True
    then show ?thesis using v by (auto simp: number_in_def number_text_digit intro: exI [of _ 0])
  next
    case False
    then obtain z where z: "map fold_case s = replicate z (digit_char 0) @ number_text base (number_in base digit s)"
      using snoc by auto
    show ?thesis
    proof (cases "number_in base digit s = 0")
      case True
      then have "map fold_case (s @ [c]) = replicate (Suc z) (digit_char 0) @ number_text base v"
        using z v \<open>2 \<le> base\<close> by (simp add: number_text_digit replicate_append_same)
      then show ?thesis using True v by (simp add: number_in_snoc) (metis replicate_Suc)
    next
      case False
      then show ?thesis using z v \<open>2 \<le> base\<close> by (auto simp: number_in_snoc number_text_step)
    qed
  qed
qed simp

lemma number_text_reads:
  assumes "2 \<le> base" and d: "\<And>v. v < base \<Longrightarrow> digit (digit_char v) = Some v"
  shows "number_in base digit (replicate z (digit_char 0) @ number_text base n) = n
       \<and> list_all (\<lambda>c. digit c \<noteq> None) (replicate z (digit_char 0) @ number_text base n)"
proof (induction n rule: less_induct)
  case (less n)
  have zeros: "number_in base digit (replicate z (digit_char 0)) = 0"
    using d [of 0] \<open>2 \<le> base\<close> by (induction z) (auto simp: number_in_def)
  show ?case
  proof (cases "n < base")
    case True
    then show ?thesis
      using d zeros \<open>2 \<le> base\<close> number_in_snoc [of base "digit" "replicate z (digit_char 0)"]
      by (auto simp: number_text_digit list_all_iff)
  next
    case False
    then have n: "n = n div base * base + n mod base" "0 < n div base" "n mod base < base" "n div base < n"
      using \<open>2 \<le> base\<close> by (auto simp: div_greater_zero_iff)
    have "number_text base n = number_text base (n div base) @ [digit_char (n mod base)]"
      using number_text_step [OF \<open>2 \<le> base\<close> n(2,3)] by (simp add: mult.commute)
    then show ?thesis
      using less.IH [OF n(4)] d [OF n(3)] n(1)
        number_in_snoc [of base "digit" "replicate z (digit_char 0) @ number_text base (n div base)"]
      by auto
  qed
qed

subsection \<open>The spellings of an address\<close>

text \<open>A byte in decimal and two bytes in hexadecimal, leading zeros allowed up to the width.\<close>

definition octet_text :: "string \<Rightarrow> 8 word \<Rightarrow> bool" where
  "octet_text p b \<longleftrightarrow> length p \<le> 3 \<and> (\<exists>z. p = replicate z (CHR ''0'') @ number_text 10 (unat b))"

definition group_text :: "string \<Rightarrow> 8 word \<Rightarrow> 8 word \<Rightarrow> bool" where
  "group_text g hi lo \<longleftrightarrow>
    length g \<le> 4 \<and> (\<exists>z. lower_case g = replicate z (CHR ''0'') @ number_text 16 (unat hi * 256 + unat lo))"

definition ipv4_text :: "string \<Rightarrow> ip_bytes \<Rightarrow> bool" where
  "ipv4_text t bs \<longleftrightarrow> (\<exists>ps. length bs = 4 \<and> list_all2 octet_text ps bs \<and> t = join_with ''.'' ps)"

inductive run_text :: "string list \<Rightarrow> ip_bytes \<Rightarrow> bool" where
  run_nil: "run_text [] []"
| run_group: "group_text g hi lo \<Longrightarrow> run_text gs bs \<Longrightarrow> run_text (g # gs) (hi # lo # bs)"
| run_quad: "ipv4_text q bs \<Longrightarrow> run_text [q] bs"

text \<open>Eight groups, or two runs around an elided stretch of zeros; a zone after it says nothing.\<close>

definition ipv6_body :: "string \<Rightarrow> ip_bytes \<Rightarrow> bool" where
  "ipv6_body t bs \<longleftrightarrow>
    (\<exists>gs. t = join_with '':'' gs \<and> run_text gs bs \<and> length bs = 16) \<or>
    (\<exists>gs hs front tail. t = join_with '':'' gs @ ''::'' @ join_with '':'' hs \<and> run_text gs front \<and> run_text hs tail \<and>
       length front + length tail < 16 \<and> bs = front @ replicate (16 - length front - length tail) 0 @ tail)"

definition ipv6_text :: "string \<Rightarrow> ip_bytes \<Rightarrow> bool" where
  "ipv6_text t bs \<longleftrightarrow>
    (\<exists>body zone. t = body @ zone \<and> ipv6_body body bs \<and> (zone = [] \<or> hd zone = CHR ''%''))"

text \<open>An address, or one in the brackets a URL puts round it.\<close>

definition names_address :: "string \<Rightarrow> ip_bytes \<Rightarrow> bool" where
  "names_address t bs \<longleftrightarrow>
    (\<exists>b. (t = b \<or> (\<exists>x. t = CHR ''['' # b @ [x])) \<and> (ipv4_text b bs \<or> ipv6_text b bs))"

subsection \<open>Digits\<close>

lemma digit_char_0: "digit_char 0 = CHR ''0''"
  by (simp add: digit_char_def char_of_def bit_Suc_0_iff)

lemma char_code_char_of: "n < 256 \<Longrightarrow> char_code (char_of n) = n"
  by (simp add: char_code_def)

lemma char_of_char_code: "char_of (char_code c) = c"
  by (simp add: char_code_def)

lemma decimal_digits: "v < 10 \<Longrightarrow> digit_value (digit_char v) = Some v"
  by (simp add: digit_value_def digit_char_def char_code_char_of)

lemma hex_digits: "v < 16 \<Longrightarrow> hex_value (digit_char v) = Some v"
  by (simp add: hex_value_def digit_char_def char_code_char_of)

lemma digit_value_Some: "digit_value c = Some v \<Longrightarrow> v < 10 \<and> c = digit_char v"
  using char_of_char_code [of c] by (auto simp: digit_value_def digit_char_def Let_def split: if_splits)

lemma hex_value_Some: "hex_value c = Some v \<Longrightarrow> v < 16 \<and> lower_char c = digit_char v"
  using char_of_char_code [of c]
  by (auto simp: hex_value_def digit_char_def lower_char_def Let_def split: if_splits)

lemma char_code_less: "char_code c < 256"
  by (simp add: char_code_def)

lemma char_code_lower:
  "char_code (lower_char c) =
    (let n = char_code c in if 65 \<le> n \<and> n \<le> 90 \<or> 192 \<le> n \<and> n \<le> 222 \<and> n \<noteq> 215 then n + 32 else n)"
  by (simp add: lower_char_def Let_def char_code_char_of)

lemma hex_value_lower [simp]: "hex_value (lower_char c) = hex_value c"
  by (simp add: hex_value_def char_code_lower Let_def)

lemma digit_value_lower [simp]: "digit_value (lower_char c) = digit_value c"
  by (simp add: digit_value_def char_code_lower Let_def)

lemma length_lower [simp]: "length (lower_case s) = length s"
  by (simp add: lower_case_def)

lemma lower_case_Nil [simp]: "lower_case s = [] \<longleftrightarrow> s = []" "lower_case [] = []"
  by (simp_all add: lower_case_def)

lemma number_in_lower [simp]:
  "number_in base hex_value (lower_case s) = number_in base hex_value s"
  "number_in base digit_value (lower_case s) = number_in base digit_value s"
  by (induction s rule: rev_induct) (simp_all add: lower_case_def number_in_snoc)

lemma list_all_lower [simp]:
  "list_all (\<lambda>c. hex_value c \<noteq> None) (lower_case s) = list_all (\<lambda>c. hex_value c \<noteq> None) s"
  "list_all (\<lambda>c. digit_value c \<noteq> None) (lower_case s) = list_all (\<lambda>c. digit_value c \<noteq> None) s"
  by (simp_all add: lower_case_def list_all_iff)

text \<open>What is matched of a part is what the specification calls its spelling.\<close>

lemma octet_text_read:
  "octet_text p b \<longleftrightarrow>
    p \<noteq> [] \<and> length p \<le> 3 \<and> list_all (\<lambda>c. digit_value c \<noteq> None) p \<and> number_in 10 digit_value p = unat b"
  (is "?l = ?r")
proof
  assume ?l
  then show ?r
    using number_text_reads [of 10 digit_value _ "unat b", OF _ decimal_digits] by (auto simp: octet_text_def digit_char_0)
next
  assume r: ?r
  then have "\<exists>z. map (\<lambda>c. c) p = replicate z (digit_char 0) @ number_text 10 (number_in 10 digit_value p)"
    by (intro number_text_of_read) (use digit_value_Some in \<open>auto simp: list_all_iff\<close>)
  then show ?l using r by (simp add: octet_text_def digit_char_0)
qed

lemma group_text_read:
  "group_text g hi lo \<longleftrightarrow>
    g \<noteq> [] \<and> length g \<le> 4 \<and> list_all (\<lambda>c. hex_value c \<noteq> None) g \<and> number_in 16 hex_value g = unat hi * 256 + unat lo"
  (is "?l = ?r")
proof
  assume ?l
  then obtain z where z: "length g \<le> 4" "lower_case g = replicate z (CHR ''0'') @ number_text 16 (unat hi * 256 + unat lo)"
    by (auto simp: group_text_def)
  then have "number_in 16 hex_value (lower_case g) = unat hi * 256 + unat lo \<and> list_all (\<lambda>c. hex_value c \<noteq> None) (lower_case g)"
    using number_text_reads [of 16 hex_value z "unat hi * 256 + unat lo", OF _ hex_digits] by (simp add: digit_char_0)
  moreover have "lower_case g \<noteq> []" using z by simp
  ultimately show ?r using z(1) unfolding number_in_lower list_all_lower by simp
next
  assume r: ?r
  then have "\<exists>z. map lower_char g = replicate z (digit_char 0) @ number_text 16 (number_in 16 hex_value g)"
    by (intro number_text_of_read) (use hex_value_Some in \<open>auto simp: list_all_iff\<close>)
  then show ?l using r by (simp add: group_text_def lower_case_def digit_char_0)
qed

subsection \<open>The readers read the spellings and nothing else\<close>

lemma unat_byte [simp]: "unat (word_of_nat n :: 8 word) = n mod 256"
  by (simp add: unsigned_of_nat take_bit_eq_mod)

lemma octets_iff: "octets ps = Some bs \<longleftrightarrow> list_all2 octet_text ps bs"
proof (induction ps arbitrary: bs)
  case (Cons p ps)
  have "b = word_of_nat n \<and> n \<le> 255 \<longleftrightarrow> n = unat b" for n and b :: "8 word"
  proof -
    have "unat b \<le> 255" using byte_below [of b] by linarith
    then show ?thesis by (auto simp: word_unat_eq_iff)
  qed
  note byte = this
  have "octets (p # ps) = Some bs \<longleftrightarrow>
      (\<exists>b cs. bs = b # cs \<and> p \<noteq> [] \<and> length p \<le> 3 \<and> list_all (\<lambda>c. digit_value c \<noteq> None) p \<and>
        (b = word_of_nat (number_in 10 digit_value p) \<and> number_in 10 digit_value p \<le> 255) \<and> octets ps = Some cs)"
    by (auto simp: Let_def not_less)
  then show ?case unfolding byte Cons.IH by (cases bs) (auto simp: octet_text_read [of p] Let_def)
qed auto

lemma octet_text_dotless: "octet_text p b \<Longrightarrow> CHR ''.'' \<notin> set p \<and> CHR '':'' \<notin> set p \<and> CHR ''%'' \<notin> set p \<and> p \<noteq> []"
  by (auto simp: octet_text_read list_all_iff digit_value_def char_code_def of_char_def Let_def)

lemma octets_dotless: "list_all2 octet_text ps bs \<Longrightarrow> \<forall>p \<in> set ps. CHR ''.'' \<notin> set p"
  by (induction rule: list_all2_induct) (auto dest: octet_text_dotless)

lemma parse_ipv4_iff: "parse_ipv4 t = Some bs \<longleftrightarrow> ipv4_text t bs"
proof -
  have "parse_ipv4 t = Some bs \<longleftrightarrow> length bs = 4 \<and> list_all2 octet_text (split_on CHR ''.'' t) bs"
    by (auto simp: parse_ipv4_def Let_def octets_iff dest: list_all2_lengthD)
  also have "\<dots> \<longleftrightarrow> ipv4_text t bs"
  proof
    assume "ipv4_text t bs"
    then obtain ps where ps: "length bs = 4" "list_all2 octet_text ps bs" "t = join_with ''.'' ps"
      by (auto simp: ipv4_text_def)
    then have "split_on CHR ''.'' t = ps"
      using octets_dotless [OF ps(2)] by (intro iffD2 [OF split_on_iff]) auto
    then show "length bs = 4 \<and> list_all2 octet_text (split_on CHR ''.'' t) bs" using ps by simp
  qed (auto simp: ipv4_text_def intro: exI [of _ "split_on CHR ''.'' t"])
  finally show ?thesis .
qed

lemma set_join_with: "set (join_with sep ps) \<subseteq> set sep \<union> (\<Union>p \<in> set ps. set p)"
  by (induction ps) (auto simp: join_with_Cons)

lemma ipv4_text_marks:
  assumes "ipv4_text t bs"
  shows "CHR ''.'' \<in> set t" "CHR '':'' \<notin> set t" "CHR ''%'' \<notin> set t" "t \<noteq> []" "length bs = 4"
proof -
  obtain ps where ps: "length bs = 4" "list_all2 octet_text ps bs" "t = join_with ''.'' ps"
    using assms by (auto simp: ipv4_text_def)
  then obtain p q rs where "ps = p # q # rs"
    by (cases ps; cases "tl ps") (auto dest: list_all2_lengthD)
  then show "CHR ''.'' \<in> set t" using ps by (simp add: join_with_Cons)
  then show "t \<noteq> []" by auto
  have "\<forall>p \<in> set ps. CHR '':'' \<notin> set p \<and> CHR ''%'' \<notin> set p"
    using ps(2) by (induction rule: list_all2_induct) (auto dest: octet_text_dotless)
  then show "CHR '':'' \<notin> set t" "CHR ''%'' \<notin> set t" using set_join_with [of "''.''" ps] ps(3) by auto
  show "length bs = 4" by fact
qed

lemma group_text_marks:
  "group_text g hi lo \<Longrightarrow> CHR ''.'' \<notin> set g \<and> CHR '':'' \<notin> set g \<and> CHR ''%'' \<notin> set g \<and> g \<noteq> []"
  by (auto simp: group_text_read list_all_iff hex_value_def char_code_def of_char_def Let_def)

lemma run_text_marks:
  "run_text gs bs \<Longrightarrow> \<forall>g \<in> set gs. g \<noteq> [] \<and> CHR '':'' \<notin> set g \<and> CHR ''%'' \<notin> set g"
  by (induction rule: run_text.induct) (auto dest: group_text_marks ipv4_text_marks)

inductive_simps run_text_Nil [simp]: "run_text [] bs"
inductive_simps run_text_Cons: "run_text (g # gs) bs"

lemma group_word:
  assumes "n < 2 ^ 16"
  shows "n = unat hi * 256 + unat lo \<longleftrightarrow> hi = (word_of_nat (drop_bit 8 n) :: 8 word) \<and> lo = (word_of_nat (n AND 255) :: 8 word)"
proof -
  have "n AND 255 = n mod 256" using take_bit_eq_mask [of 8 n] by (simp add: take_bit_eq_mod mask_eq_exp_minus_1)
  then show ?thesis
    using assms byte_below [of hi] byte_below [of lo] by (auto simp: drop_bit_eq_div word_unat_eq_iff)
qed

lemma hex_number_bound:
  assumes "list_all (\<lambda>c. hex_value c \<noteq> None) g"
  shows "number_in 16 hex_value g < 16 ^ length g"
  using assms
proof (induction g rule: rev_induct)
  case (snoc c g)
  then obtain v where "hex_value c = Some v" "v < 16" using hex_value_Some by auto
  moreover have "number_in 16 hex_value g + 1 \<le> 16 ^ length g" using snoc by simp
  then have "(number_in 16 hex_value g + 1) * 16 \<le> 16 ^ length g * 16" by (rule mult_le_mono1)
  ultimately show ?case by (simp add: number_in_snoc)
qed simp

lemma group_bound: "length g \<le> 4 \<Longrightarrow> list_all (\<lambda>c. hex_value c \<noteq> None) g \<Longrightarrow> number_in 16 hex_value g < 2 ^ 16"
  using hex_number_bound [of g] power_increasing [of "length g" 4 "16 :: nat"] by simp

lemma expand_iff: "expand gs = Some bs \<longleftrightarrow> run_text gs bs"
proof (induction gs arbitrary: bs)
  case (Cons g gs)
  show ?case
  proof (cases "CHR ''.'' \<in> set g")
    case True
    then have "\<not> group_text g hi lo" for hi lo using group_text_marks by blast
    then show ?thesis using True by (auto simp: run_text_Cons parse_ipv4_iff)
  next
    case False
    then have "\<not> ipv4_text g bs" using ipv4_text_marks by blast
    then have "run_text (g # gs) bs \<longleftrightarrow> (\<exists>hi lo cs. bs = hi # lo # cs \<and> group_text g hi lo \<and> expand gs = Some cs)"
      by (auto simp: run_text_Cons Cons)
    also have "\<dots> \<longleftrightarrow> expand (g # gs) = Some bs"
    proof (cases "g \<noteq> [] \<and> length g \<le> 4 \<and> list_all (\<lambda>c. hex_value c \<noteq> None) g")
      case True
      then have "group_text g hi lo \<longleftrightarrow> hi = word_of_nat (drop_bit 8 (number_in 16 hex_value g)) \<and>
          lo = word_of_nat (number_in 16 hex_value g AND 255)" for hi lo
        using group_word [OF group_bound, of g hi lo] by (simp add: group_text_read)
      then show ?thesis using False True by (auto simp: Let_def)
    next
      case no: False
      then have "\<not> group_text g hi lo" for hi lo by (auto simp: group_text_read)
      then show ?thesis using False no by (auto simp: Let_def)
    qed
    finally show ?thesis by blast
  qed
qed (auto simp: eq_commute)

lemma expand_groups_iff:
  "expand_groups part = Some bs \<longleftrightarrow> (\<exists>gs. part = join_with '':'' gs \<and> run_text gs bs)"
proof
  assume "expand_groups part = Some bs"
  then show "\<exists>gs. part = join_with '':'' gs \<and> run_text gs bs"
    by (cases "part = []") (auto simp: expand_groups_def expand_iff intro: exI [of _ "[]"] exI [of _ "split_on CHR '':'' part"])
next
  assume "\<exists>gs. part = join_with '':'' gs \<and> run_text gs bs"
  then obtain gs where gs: "part = join_with '':'' gs" "run_text gs bs" by blast
  show "expand_groups part = Some bs"
  proof (cases "gs = []")
    case False
    then have "split_on CHR '':'' part = gs" using gs run_text_marks [OF gs(2)] by (intro iffD2 [OF split_on_iff]) auto
    moreover have "part \<noteq> []" using False gs run_text_marks [OF gs(2)] by (cases gs) (auto simp: join_with_Cons)
    ultimately show ?thesis using gs by (simp add: expand_groups_def expand_iff)
  qed (use gs in \<open>simp add: expand_groups_def\<close>)
qed

lemma run_text_length: "run_text gs bs \<Longrightarrow> length bs \<le> 2 * length gs + 2 \<and> (length gs = 1 \<longrightarrow> length bs \<le> 4)"
proof (induction rule: run_text.induct)
  case (run_group g hi lo gs bs)
  then show ?case by (cases gs) auto
qed (auto dest: ipv4_text_marks)

lemma join_colon: "run_text gs bs \<Longrightarrow> length bs = 16 \<Longrightarrow> CHR '':'' \<in> set (join_with '':'' gs)"
  by (cases gs; cases "tl gs") (auto simp: join_with_Cons dest: run_text_length)

lemma body_marks: "ipv6_body t bs \<Longrightarrow> CHR '':'' \<in> set t \<and> CHR ''%'' \<notin> set t \<and> length bs = 16"
  unfolding ipv6_body_def
proof (elim disjE exE conjE)
  fix gs assume "t = join_with '':'' gs" "run_text gs bs" "length bs = 16"
  then show ?thesis using join_colon [of gs bs] run_text_marks [of gs bs] set_join_with [of "'':''" gs] by auto
next
  fix gs hs front tail
  assume "t = join_with '':'' gs @ ''::'' @ join_with '':'' hs" "run_text gs front" "run_text hs tail"
    "length front + length tail < 16" "bs = front @ replicate (16 - length front - length tail) 0 @ tail"
  then show ?thesis
    using run_text_marks [of gs front] run_text_marks [of hs tail] set_join_with [of "'':''" gs] set_join_with [of "'':''" hs] by auto
qed

text \<open>The part before the zone, as halves.\<close>

definition halves_read :: "string list \<Rightarrow> ip_bytes option" where
  "halves_read halves =
    (if 2 < length halves then None
     else case (expand_groups (halves ! 0), if length halves = 2 then expand_groups (halves ! 1) else Some []) of
            (Some front, Some back) \<Rightarrow>
              if length halves = 1 then (if length front = 16 then Some front else None)
              else if 16 < length front + length back + 1 then None
              else Some (front @ replicate (16 - length front - length back) 0 @ back)
          | _ \<Rightarrow> None)"

lemma parse_ipv6_halves:
  "parse_ipv6 t = (if CHR '':'' \<notin> set t then None else halves_read (split_double CHR '':'' (takeWhile (\<lambda>c. c \<noteq> CHR ''%'') t)))"
  by (simp add: parse_ipv6_def halves_read_def hd_split_on Let_def)

lemma halves_read_iff: "halves_read (split_double CHR '':'' body) = Some bs \<longleftrightarrow> ipv6_body body bs"
proof
  assume read: "halves_read (split_double CHR '':'' body) = Some bs"
  consider a where "split_double CHR '':'' body = [a]" | a b where "split_double CHR '':'' body = [a, b]"
    using read split_double_not_Nil [of "CHR '':''" body]
    by (cases "split_double CHR '':'' body"; cases "tl (split_double CHR '':'' body)")
       (auto simp: halves_read_def split: if_splits elim: list.exhaust)
  then show "ipv6_body body bs"
  proof cases
    case 1
    then have "body = a" using join_split_double [of "CHR '':''" body] by (simp add: join_with_Cons)
    then show ?thesis using read 1
      by (auto simp: halves_read_def ipv6_body_def expand_groups_iff split: option.splits if_splits)
  next
    case 2
    then have "body = a @ ''::'' @ b" using join_split_double [of "CHR '':''" body] by (simp add: join_with_Cons)
    moreover obtain front tail where "expand_groups a = Some front" "expand_groups b = Some tail"
      "length front + length tail < 16" "bs = front @ replicate (16 - length front - length tail) 0 @ tail"
      using read 2 by (auto simp: halves_read_def split: option.splits if_splits)
    ultimately show ?thesis unfolding ipv6_body_def expand_groups_iff by blast
  qed
next
  assume "ipv6_body body bs"
  then show "halves_read (split_double CHR '':'' body) = Some bs"
    unfolding ipv6_body_def
  proof (elim disjE exE conjE)
    fix gs assume gs: "body = join_with '':'' gs" "run_text gs bs" "length bs = 16"
    then have "expand_groups body = Some bs" by (auto simp: expand_groups_iff)
    moreover have "split_double CHR '':'' body = [body]"
      using split_double_one [of gs "CHR '':''"] run_text_marks [OF gs(2)] gs(1) by auto
    ultimately show ?thesis using gs by (simp add: halves_read_def)
  next
    fix gs hs front tail
    assume gs: "body = join_with '':'' gs @ ''::'' @ join_with '':'' hs" "run_text gs front" "run_text hs tail"
      "length front + length tail < 16" "bs = front @ replicate (16 - length front - length tail) 0 @ tail"
    then have "expand_groups (join_with '':'' gs) = Some front" "expand_groups (join_with '':'' hs) = Some tail"
      by (auto simp: expand_groups_iff)
    moreover have "split_double CHR '':'' body = [join_with '':'' gs, join_with '':'' hs]"
      using split_double_two [of gs "CHR '':''" hs] run_text_marks [OF gs(2)] run_text_marks [OF gs(3)] gs(1) by auto
    ultimately show ?thesis using gs by (simp add: halves_read_def)
  qed
qed

lemma takeWhile_zone:
  "x \<notin> set body \<Longrightarrow> zone = [] \<or> hd zone = x \<Longrightarrow> takeWhile (\<lambda>c. c \<noteq> x) (body @ zone) = body"
  by (cases zone) (auto simp: takeWhile_append)

lemma parse_ipv6_iff: "parse_ipv6 t = Some bs \<longleftrightarrow> ipv6_text t bs"
proof
  assume read: "parse_ipv6 t = Some bs"
  let ?b = "takeWhile (\<lambda>c. c \<noteq> CHR ''%'') t" and ?z = "dropWhile (\<lambda>c. c \<noteq> CHR ''%'') t"
  have "ipv6_body ?b bs" using read by (simp add: parse_ipv6_halves halves_read_iff split: if_splits)
  moreover have "?z = [] \<or> hd ?z = CHR ''%''" using hd_dropWhile [of "\<lambda>c. c \<noteq> CHR ''%''" t] by blast
  moreover have "t = ?b @ ?z" by simp
  ultimately show "ipv6_text t bs" unfolding ipv6_text_def by blast
next
  assume "ipv6_text t bs"
  then obtain body zone where t: "t = body @ zone" "ipv6_body body bs" "zone = [] \<or> hd zone = CHR ''%''"
    by (auto simp: ipv6_text_def)
  then have "takeWhile (\<lambda>c. c \<noteq> CHR ''%'') t = body"
    using takeWhile_zone [of "CHR ''%''" body zone] body_marks [OF t(2)] by simp
  then show "parse_ipv6 t = Some bs"
    using t body_marks [OF t(2)] by (simp add: parse_ipv6_halves halves_read_iff)
qed

subsection \<open>Case\<close>

lemma char_eq_code: "c = d \<longleftrightarrow> char_code c = char_code d"
  by (simp add: char_code_def)

lemma lower_mark [simp]:
  "lower_char c = CHR ''.'' \<longleftrightarrow> c = CHR ''.''" "lower_char c = CHR '':'' \<longleftrightarrow> c = CHR '':''"
  "lower_char c = CHR ''%'' \<longleftrightarrow> c = CHR ''%''"
proof -
  have "char_code CHR ''.'' = 46" "char_code CHR '':'' = 58" "char_code CHR ''%'' = 37"
    by (simp_all add: char_code_def of_char_def)
  then show "lower_char c = CHR ''.'' \<longleftrightarrow> c = CHR ''.''" "lower_char c = CHR '':'' \<longleftrightarrow> c = CHR '':''"
    "lower_char c = CHR ''%'' \<longleftrightarrow> c = CHR ''%''"
    unfolding char_eq_code char_code_lower by (auto simp: Let_def)
qed

lemma onto_first_lower: "onto_first (lower_char x) (map lower_case ps) = map lower_case (onto_first x ps)"
  by (cases ps) (simp_all add: onto_first_def lower_case_def)

lemma lower_case_Cons: "lower_case (x # s) = lower_char x # lower_case s"
  by (simp add: lower_case_def)

definition folded_mark :: "char \<Rightarrow> bool" where
  "folded_mark c \<longleftrightarrow> (\<forall>x. lower_char x = c \<longleftrightarrow> x = c)"

lemma folded_marks: "folded_mark CHR ''.''" "folded_mark CHR '':''" "folded_mark CHR ''%''"
  by (simp_all add: folded_mark_def)

lemma split_on_lower: "folded_mark c \<Longrightarrow> split_on c (lower_case s) = map lower_case (split_on c s)"
  by (induction s) (simp_all add: folded_mark_def lower_case_Cons onto_first_lower)

lemma split_double_lower: "folded_mark c \<Longrightarrow> split_double c (lower_case s) = map lower_case (split_double c s)"
proof (induction c s rule: split_double.induct)
  case (1 c x y s)
  then have "lower_char x = c \<longleftrightarrow> x = c" "lower_char y = c \<longleftrightarrow> y = c" by (simp_all add: folded_mark_def)
  then show ?case using 1 by (auto simp: lower_case_Cons onto_first_lower)
qed (simp_all add: lower_case_Cons)

lemma octets_lower: "octets (map lower_case ps) = octets ps"
  by (induction ps) (simp_all add: Let_def del: not_None_eq)

lemma parse_ipv4_lower [simp]: "parse_ipv4 (lower_case s) = parse_ipv4 s"
  by (simp add: parse_ipv4_def split_on_lower folded_marks octets_lower Let_def)

lemma mark_in_lower: "folded_mark c \<Longrightarrow> c \<in> set (lower_case s) \<longleftrightarrow> c \<in> set s"
  unfolding folded_mark_def lower_case_def set_map image_iff by metis

lemma expand_lower: "expand (map lower_case gs) = expand gs"
  by (induction gs) (simp_all add: mark_in_lower folded_marks del: not_None_eq)

lemma expand_groups_lower: "expand_groups (lower_case part) = expand_groups part"
  by (simp add: expand_groups_def split_on_lower folded_marks expand_lower)

lemma halves_read_lower: "halves_read (map lower_case hs) = halves_read hs"
  by (cases hs; cases "tl hs") (auto simp: halves_read_def expand_groups_lower split: option.split)

lemma takeWhile_lower: "folded_mark c \<Longrightarrow> takeWhile (\<lambda>x. x \<noteq> c) (lower_case s) = lower_case (takeWhile (\<lambda>x. x \<noteq> c) s)"
  by (induction s) (auto simp: lower_case_Cons folded_mark_def)

lemma parse_ipv6_lower [simp]: "parse_ipv6 (lower_case s) = parse_ipv6 s"
  by (simp add: parse_ipv6_halves mark_in_lower folded_marks takeWhile_lower split_double_lower halves_read_lower)


subsection \<open>Judging an address\<close>

lemma names_once: "ipv6_text b bs \<Longrightarrow> \<not> ipv4_text b cs"
  by (auto simp: ipv6_text_def dest!: body_marks dest: ipv4_text_marks)

definition bare_address :: "string \<Rightarrow> string" where
  "bare_address t = (if t \<noteq> [] \<and> hd t = CHR ''['' then butlast (tl t) else t)"

lemma not_bracket: "ipv4_text (CHR ''['' # s) bs \<Longrightarrow> False" "ipv6_text (CHR ''['' # s) bs \<Longrightarrow> False"
proof -
  have digit: "hex_value CHR ''['' = None" "digit_value CHR ''['' = None"
    by (simp_all add: hex_value_def digit_value_def char_code_def of_char_def)
  have quad: "parse_ipv4 (CHR ''['' # r) = None" for r
    using digit by (auto simp: parse_ipv4_def Let_def onto_first_def split: list.splits)
  then show "ipv4_text (CHR ''['' # s) bs \<Longrightarrow> False" by (simp add: parse_ipv4_iff [symmetric])
  have "expand_groups (CHR ''['' # r) = None" for r
    using digit quad by (auto simp: expand_groups_def onto_first_def split: list.splits)
  then show "ipv6_text (CHR ''['' # s) bs \<Longrightarrow> False"
    by (auto simp: parse_ipv6_iff [symmetric] parse_ipv6_halves halves_read_def split_double_other onto_first_def
        split: list.splits if_splits option.splits)
qed

lemma names_address_bare:
  "names_address t bs \<longleftrightarrow> ipv4_text (bare_address t) bs \<or> ipv6_text (bare_address t) bs"
proof
  assume "names_address t bs"
  then show "ipv4_text (bare_address t) bs \<or> ipv6_text (bare_address t) bs"
    unfolding names_address_def bare_address_def using not_bracket by (cases t) auto
next
  assume r: "ipv4_text (bare_address t) bs \<or> ipv6_text (bare_address t) bs"
  show "names_address t bs"
  proof (cases "t \<noteq> [] \<and> hd t = CHR ''['' \<and> tl t \<noteq> []")
    case True
    then have "t = CHR ''['' # bare_address t @ [last t]" by (cases t) (auto simp: bare_address_def)
    then show ?thesis unfolding names_address_def using r by blast
  next
    case False
    have "\<not> ipv4_text [] bs" "\<not> ipv6_text [] bs" by (auto simp: parse_ipv4_iff [symmetric] parse_ipv4_def parse_ipv6_iff [symmetric] parse_ipv6_def)
    then have "bare_address t = t" using False r by (auto simp: bare_address_def)
    then show ?thesis using r unfolding names_address_def by auto
  qed
qed

lemma names_length: "names_address t bs \<Longrightarrow> length bs = 4 \<or> length bs = 16"
  by (auto simp: names_address_bare ipv6_text_def dest: ipv4_text_marks body_marks)

lemma address_bytes_bare:
  "address_bytes t =
    (case parse_ipv4 (bare_address t) of
       Some v4 \<Rightarrow> Some v4
     | None \<Rightarrow> (case parse_ipv6 (bare_address t) of
                 None \<Rightarrow> None
               | Some v6 \<Rightarrow> (case List.find (\<lambda>(s, i). matches v6 s) EMBEDS_IPV4 of
                              Some (s, i) \<Rightarrow> Some (take 4 (drop i v6)) | None \<Rightarrow> Some v6)))"
proof -
  have "(if t \<noteq> [] \<and> hd t = CHR ''['' then lower_case (butlast (tl t)) else lower_case t) = lower_case (bare_address t)"
    by (simp add: bare_address_def)
  then show ?thesis by (simp only: address_bytes_def Let_def parse_ipv4_lower parse_ipv6_lower)
qed

lemma address_bytes_iff: "address_bytes t = Some bs \<longleftrightarrow> (\<exists>raw. names_address t raw \<and> bs = carried raw)"
proof (cases "parse_ipv4 (bare_address t)")
  case None
  show ?thesis
  proof (cases "parse_ipv6 (bare_address t)")
    case None2: None
    then have "\<not> names_address t raw" for raw
      using None by (simp add: names_address_bare parse_ipv4_iff [symmetric] parse_ipv6_iff [symmetric])
    then show ?thesis using None None2 by (simp add: address_bytes_bare)
  next
    case (Some v6)
    then have "names_address t raw \<longleftrightarrow> raw = v6" for raw
      using None by (auto simp: names_address_bare parse_ipv4_iff [symmetric] parse_ipv6_iff [symmetric])
    moreover have "length v6 = 16" using Some by (auto simp: parse_ipv6_iff ipv6_text_def dest: body_marks)
    then have "address_bytes t = Some (carried v6)"
      using None Some carried_v6 [of v6] by (auto simp: address_bytes_bare split: option.splits)
    ultimately show ?thesis by auto
  qed
next
  case (Some v4)
  then have "ipv4_text (bare_address t) v4" by (simp add: parse_ipv4_iff)
  then have "names_address t raw \<longleftrightarrow> raw = v4" for raw
    using Some names_once [of "bare_address t"] by (auto simp: names_address_bare parse_ipv4_iff [symmetric])
  moreover have "length v4 = 4" using \<open>ipv4_text (bare_address t) v4\<close> by (rule ipv4_text_marks)
  ultimately show ?thesis using Some by (auto simp: address_bytes_bare carried_def Let_def)
qed

lemma names_address_unique: "names_address t a \<Longrightarrow> names_address t b \<Longrightarrow> a = b"
  using names_once [of "bare_address t"]
  by (auto simp: names_address_bare parse_ipv4_iff [symmetric] parse_ipv6_iff [symmetric])

lemma carried_length: "length raw = 4 \<or> length raw = 16 \<Longrightarrow> length (carried raw) = 4 \<or> length (carried raw) = 16"
  by (auto simp: carried_def Let_def)

lemma blocked_bytes: "length bs = 4 \<or> length bs = 16 \<Longrightarrow>
    list_ex (matches bs) (if length bs = 4 then BLOCKED_V4 else BLOCKED_V6) \<longleftrightarrow> off_limits bs"
  using blocked_v4 [of bs] blocked_v6 [of bs] by auto

lemma private_bytes: "length bs = 4 \<or> length bs = 16 \<Longrightarrow>
    list_ex (matches bs) (if length bs = 4 then PRIVATE_V4 else PRIVATE_V6) \<longleftrightarrow> on_private_network bs"
  using private_v4 [of bs] private_v6 [of bs] by auto

lemma is_blocked_iff: "is_blocked_address t \<longleftrightarrow> (\<exists>raw. names_address t raw \<and> off_limits (carried raw))"
proof (cases "address_bytes t")
  case None
  then have "\<not> names_address t raw" for raw using address_bytes_iff [of t "carried raw"] by auto
  then show ?thesis using None by (simp add: is_blocked_address_def)
next
  case (Some bs)
  then obtain raw where raw: "names_address t raw" "bs = carried raw" by (auto simp: address_bytes_iff)
  then have "is_blocked_address t \<longleftrightarrow> off_limits bs"
    using Some blocked_bytes [OF carried_length [OF names_length]] by (simp add: is_blocked_address_def)
  then show ?thesis using raw names_address_unique by metis
qed

lemma is_private_iff: "is_private_address t \<longleftrightarrow> (\<exists>raw. names_address t raw \<and> on_private_network (carried raw))"
proof (cases "address_bytes t")
  case None
  then have "\<not> names_address t raw" for raw using address_bytes_iff [of t "carried raw"] by auto
  then show ?thesis using None by (simp add: is_private_address_def)
next
  case (Some bs)
  then obtain raw where raw: "names_address t raw" "bs = carried raw" by (auto simp: address_bytes_iff)
  then have "is_private_address t \<longleftrightarrow> on_private_network bs"
    using Some private_bytes [OF carried_length [OF names_length]] by (simp add: is_private_address_def)
  then show ?thesis using raw names_address_unique by metis
qed

end
