(* ===== verification/Fetch_Chains.thy ===== *)
theory Fetch_Chains
  imports Safe_Fetch Address_Spellings
begin

text \<open>
  What every chain of requests of \<open>safe_fetch\<close> shows, hop by hop, and which addresses
  a connection of it can be made to.
\<close>

subsection \<open>What a chain of requests shows\<close>

fun sent_of :: "fetch_event list \<Rightarrow> (string \<times> fetch_init) list" where
  "sent_of [] = []"
| "sent_of (Sent u i # es) = (u, i) # sent_of es"
| "sent_of (_ # es) = sent_of es"

fun discarded_of :: "fetch_event list \<Rightarrow> nat" where
  "discarded_of [] = 0"
| "discarded_of (Discarded # es) = Suc (discarded_of es)"
| "discarded_of (_ # es) = discarded_of es"

lemma sent_of_append [simp]: "sent_of (as @ bs) = sent_of as @ sent_of bs"
  by (induction as rule: sent_of.induct) auto

lemma discarded_of_append [simp]: "discarded_of (as @ bs) = discarded_of as + discarded_of bs"
  by (induction as rule: discarded_of.induct) auto

text \<open>The platform's text of a URL reads back as the URL.\<close>

definition href_reads_back :: "fetch_world \<Rightarrow> bool" where
  "href_reads_back w \<longleftrightarrow> (\<forall>location base u. fw_resolve w location base = Some u \<longrightarrow> fw_parse w (href u) = Some u)"

definition secure :: "fetch_world \<Rightarrow> string \<Rightarrow> bool" where
  "secure w url \<longleftrightarrow> (\<exists>u. fw_parse w url = Some u \<and> protocol u = ''https:'')"

definition origin_of :: "fetch_world \<Rightarrow> string \<Rightarrow> string option" where
  "origin_of w url = map_option origin (fw_parse w url)"

definition host_of :: "fetch_world \<Rightarrow> string \<Rightarrow> string" where
  "host_of w url = normalize_hostname (hostname (the (fw_parse w url)))"

definition permitted_url :: "fetch_world \<Rightarrow> string \<Rightarrow> bool" where
  "permitted_url w url \<longleftrightarrow> (\<exists>k. url_refusal (fw_parse w) (fw_refusals w) (fw_services w k) url = None)"

definition carries_credentials :: "fetch_init \<Rightarrow> bool" where
  "carries_credentials i \<longleftrightarrow> (\<exists>n v. (n, v) \<in> set (init_headers i) \<and> n \<in> set CREDENTIAL_HEADERS)"

subsection \<open>One hop\<close>

lemma one_hop_stop:
  "one_hop w left url init = (es, Inl stop) \<Longrightarrow>
   es = [Sent url init] \<and> (stop = Network_Error \<or> (\<exists>r. stop = Returned r \<and> resp_status r \<notin> set REDIRECT_STATUSES)) \<or>
   es = [Sent url init, Discarded] \<and> stop \<noteq> Network_Error \<and> (\<forall>r. stop = Returned r \<longrightarrow> resp_status r \<in> set REDIRECT_STATUSES)"
  by (auto simp: one_hop_def next_target_def split: option.splits sum.splits if_splits)

lemma one_hop_target:
  "one_hop w left url init = (es, Inr (r, base, next)) \<Longrightarrow>
   es = [Sent url init, Discarded] \<and> fw_parse w url = Some base \<and> (\<exists>location. fw_resolve w location base = Some next) \<and>
   (protocol base = ''https:'' \<longrightarrow> protocol next = ''https:'') \<and>
   url_refusal (fw_parse w) (fw_refusals w) (fw_services w left) (href next) = None"
  by (auto simp: one_hop_def next_target_def split: option.splits sum.splits if_splits)

lemma ask_host_events: "ask_host w left used host = (as, ok) \<Longrightarrow> sent_of as = [] \<and> discarded_of as = 0"
  by (auto simp: ask_host_def split: if_splits option.splits)

lemma credentials_stay:
  "carries_credentials (next_hop_init init status same) \<Longrightarrow> same \<and> carries_credentials init"
  by (auto simp: next_hop_init_def carries_credentials_def delete_headers_def Let_def split: if_splits)

text \<open>A step of the loop, taken apart once.\<close>

lemma fetch_hops_cases:
  assumes "fetch_hops w left url init used = (es, stop)"
  obtains (ends) "one_hop w left url init = (es, Inl stop)"
  | (too_many) r base "next" where "left = 0" "one_hop w left url init = (es, Inr (r, base, next))" "stop = Too_Many_Redirects"
  | (refused) k r base "next" hop as where "left = Suc k" "one_hop w left url init = (hop, Inr (r, base, next))"
      "ask_host w left used (normalize_hostname (hostname next)) = (as, False)" "es = hop @ as"
      "stop = Hop_Refused (normalize_hostname (hostname next))"
  | (onward) k r base "next" hop as rest where "left = Suc k" "one_hop w left url init = (hop, Inr (r, base, next))"
      "ask_host w left used (normalize_hostname (hostname next)) = (as, True)"
      "fetch_hops w k (href next) (next_hop_init init (resp_status r) (origin base = origin next))
         (normalize_hostname (hostname next) # used) = (rest, stop)" "es = hop @ as @ rest"
proof (cases left)
  case 0
  then show thesis using assms ends too_many
    by (auto split: prod.splits sum.splits)
next
  case (Suc k)
  obtain hop res where hop: "one_hop w left url init = (hop, res)" by force
  show thesis
  proof (cases res)
    case (Inl e)
    then show thesis using assms ends hop Suc by auto
  next
    case (Inr t)
    obtain r base "next" where t: "t = (r, base, next)" by (cases t)
    obtain as ok where ask: "ask_host w left used (normalize_hostname (hostname next)) = (as, ok)" by force
    obtain rest stop' where rest: "fetch_hops w k (href next) (next_hop_init init (resp_status r) (origin base = origin next))
        (normalize_hostname (hostname next) # used) = (rest, stop')" by force
    show thesis
    proof (cases ok)
      case True
      then show thesis using assms onward [OF Suc _ _ _] hop Inr t ask rest Suc by (auto simp: Let_def)
    next
      case False
      then show thesis using assms refused [OF Suc] hop Inr t ask Suc by (auto simp: Let_def)
    qed
  qed
qed

lemma hops_sent_bound: "fetch_hops w left url init used = (es, stop) \<Longrightarrow> length (sent_of es) \<le> Suc left"
proof (induction left arbitrary: url init used es stop)
  case 0
  then show ?case by (cases rule: fetch_hops_cases) (auto dest: one_hop_stop one_hop_target)
next
  case (Suc left)
  from Suc.prems show ?case
  proof (cases rule: fetch_hops_cases)
    case (onward k r base "next" hop as rest)
    then have "length (sent_of rest) \<le> Suc left" using Suc.IH by blast
    then show ?thesis using onward one_hop_target ask_host_events by fastforce
  qed (auto dest!: one_hop_stop one_hop_target ask_host_events)
qed

lemma hops_drained:
  "fetch_hops w left url init used = (es, stop) \<Longrightarrow>
   length (sent_of es) = discarded_of es +
     (if stop = Network_Error \<or> (\<exists>r. stop = Returned r \<and> resp_status r \<notin> set REDIRECT_STATUSES) then 1 else 0)"
proof (induction left arbitrary: url init used es stop)
  case 0
  then show ?case by (cases rule: fetch_hops_cases) (auto dest!: one_hop_stop one_hop_target)
next
  case (Suc left)
  from Suc.prems show ?case
  proof (cases rule: fetch_hops_cases)
    case (onward k r base "next" hop as rest)
    then have "length (sent_of rest) = discarded_of rest +
     (if stop = Network_Error \<or> (\<exists>r. stop = Returned r \<and> resp_status r \<notin> set REDIRECT_STATUSES) then 1 else 0)"
      using Suc.IH by blast
    then show ?thesis using onward(2,5) one_hop_target [OF onward(2)] ask_host_events [OF onward(3)] by simp
  qed (auto dest!: one_hop_stop one_hop_target ask_host_events)
qed

text \<open>What holds of the URL a chain starts at and of every target that passes, holds of every request.\<close>

lemma hops_every:
  assumes step: "\<And>left url init es r base next.
      P url init \<Longrightarrow> one_hop w left url init = (es, Inr (r, base, next)) \<Longrightarrow>
      P (href next) (next_hop_init init (resp_status r) (origin base = origin next))"
  shows "P url init \<Longrightarrow> fetch_hops w left url init used = (es, stop) \<Longrightarrow> (u, i) \<in> set (sent_of es) \<Longrightarrow> P u i"
proof (induction left arbitrary: url init used es stop)
  case 0
  from 0(2) show ?case using 0 by (cases rule: fetch_hops_cases) (auto dest!: one_hop_stop one_hop_target)
next
  case (Suc left)
  from Suc(3) show ?case
  proof (cases rule: fetch_hops_cases)
    case (onward k r base "next" hop as rest)
    then have "P (href next) (next_hop_init init (resp_status r) (origin base = origin next))" using step Suc.prems by blast
    then have "(u, i) \<in> set (sent_of rest) \<Longrightarrow> P u i" using Suc.IH onward by blast
    then show ?thesis using onward(5) Suc.prems one_hop_target [OF onward(2)] ask_host_events [OF onward(3)] by auto
  qed (use Suc.prems in \<open>auto dest!: one_hop_stop one_hop_target ask_host_events\<close>)
qed

lemma hops_permitted:
  assumes "permitted_url w url" "fetch_hops w left url init used = (es, stop)" "(u, i) \<in> set (sent_of es)"
  shows "permitted_url w u"
proof (rule hops_every [of "\<lambda>u i. permitted_url w u" w, OF _ assms])
  fix left url init es r base "next"
  assume "one_hop w left url init = (es, Inr (r, base, next))"
  then show "permitted_url w (href next)" unfolding permitted_url_def using one_hop_target by blast
qed

lemma target_reads_back:
  "href_reads_back w \<Longrightarrow> one_hop w left url init = (es, Inr (r, base, next)) \<Longrightarrow>
   fw_parse w (href next) = Some next \<and> fw_parse w url = Some base"
  by (auto simp: href_reads_back_def dest!: one_hop_target)

lemma hops_secure:
  assumes "href_reads_back w" "secure w url" "fetch_hops w left url init used = (es, stop)" "(u, i) \<in> set (sent_of es)"
  shows "secure w u"
proof (rule hops_every [of "\<lambda>u i. secure w u" w, OF _ assms(2-4)])
  fix left url init es r base "next"
  assume s: "secure w url" and hop: "one_hop w left url init = (es, Inr (r, base, next))"
  then show "secure w (href next)"
    using target_reads_back [OF assms(1) hop] one_hop_target [OF hop] by (auto simp: secure_def)
qed

lemma hops_credentials:
  assumes "href_reads_back w" "fetch_hops w left url init used = (es, stop)" "(u, i) \<in> set (sent_of es)"
    "carries_credentials i"
  shows "origin_of w u = origin_of w url \<and> carries_credentials init"
proof -
  let ?P = "\<lambda>u i. carries_credentials i \<longrightarrow> origin_of w u = origin_of w url \<and> carries_credentials init"
  have "?P u i"
  proof (rule hops_every [of ?P w, OF _ _ assms(2,3)])
    fix left v j es r base "next"
    assume P: "?P v j" and hop: "one_hop w left v j = (es, Inr (r, base, next))"
    show "?P (href next) (next_hop_init j (resp_status r) (origin base = origin next))"
      using P credentials_stay target_reads_back [OF assms(1) hop] by (force simp: origin_of_def)
  qed simp
  then show ?thesis using assms(4) by blast
qed

text \<open>Relations between an earlier request and a later one.\<close>

lemma hops_pairs:
  assumes pair: "\<And>left url init used es stop u i.
      fetch_hops w left url init used = (es, stop) \<Longrightarrow> (u, i) \<in> set (sent_of es) \<Longrightarrow> R (url, init) (u, i)"
  shows "fetch_hops w left url init used = (es, stop) \<Longrightarrow> sorted_wrt R (sent_of es)"
proof (induction left arbitrary: url init used es stop)
  case 0
  then show ?case by (cases rule: fetch_hops_cases) (auto dest!: one_hop_stop one_hop_target)
next
  case (Suc left)
  from Suc.prems show ?case
  proof (cases rule: fetch_hops_cases)
    case (onward k r base "next" hop as rest)
    then have "sorted_wrt R (sent_of rest)" using Suc.IH by blast
    moreover have es: "sent_of es = (url, init) # sent_of rest"
      using onward(5) one_hop_target [OF onward(2)] ask_host_events [OF onward(3)] by simp
    moreover have "\<forall>x \<in> set (sent_of rest). R (url, init) x" using pair [OF Suc.prems] es by auto
    ultimately show ?thesis by simp
  qed (auto dest!: one_hop_stop one_hop_target ask_host_events)
qed

subsection \<open>Asking about a host\<close>

text \<open>
  Read from the left: a host is asked about before the first request to it, once,
  and no request goes to a host that was neither used before nor asked about.
\<close>

fun asked_first :: "fetch_world \<Rightarrow> string set \<Rightarrow> fetch_event list \<Rightarrow> bool" where
  "asked_first w known [] = True"
| "asked_first w known (Sent u i # es) = (host_of w u \<in> known \<and> asked_first w known es)"
| "asked_first w known (Asked h # es) = (h \<notin> known \<and> asked_first w (insert h known) es)"
| "asked_first w known (Discarded # es) = asked_first w known es"

text \<open>Every verdict but the last was yes.\<close>

lemma hops_asked_first:
  assumes "href_reads_back w" "fw_on_host w = Some verdict"
  shows "fetch_hops w left url init used = (es, stop) \<Longrightarrow> host_of w url \<in> set used \<Longrightarrow> asked_first w (set used) es"
proof (induction left arbitrary: url init used es stop)
  case 0
  then show ?case by (cases rule: fetch_hops_cases) (auto dest!: one_hop_stop one_hop_target)
next
  case (Suc left)
  from Suc.prems(1) show ?case
  proof (cases rule: fetch_hops_cases)
    case (onward k r base "next" hop as rest)
    let ?h = "normalize_hostname (hostname next)"
    have "host_of w (href next) = ?h" using target_reads_back [OF assms(1) onward(2)] by (simp add: host_of_def)
    then have rest: "asked_first w (insert ?h (set used)) rest" using Suc.IH [of "href next" _ "?h # used"] onward by simp
    have "as = (if ?h \<in> set used then [] else [Asked ?h])"
      using onward(3) assms(2) by (auto simp: ask_host_def split: if_splits)
    then show ?thesis
      using rest onward(5) one_hop_target [OF onward(2)] Suc.prems(2) by (auto simp: insert_absorb)
  next
    case (refused k r base "next" hop as)
    then show ?thesis using one_hop_target [OF refused(2)] Suc.prems(2) assms(2)
      by (auto simp: ask_host_def split: if_splits)
  qed (use Suc.prems in \<open>auto dest!: one_hop_stop one_hop_target\<close>)
qed

lemma hops_verdicts:
  assumes "fw_on_host w = Some verdict"
  shows "fetch_hops w left url init used = (es, stop) \<Longrightarrow> Asked h \<in> set es \<Longrightarrow>
    stop = Hop_Refused h \<and> last es = Asked h \<or> (\<exists>k. 0 < k \<and> k \<le> left \<and> verdict k h)"
proof (induction left arbitrary: url init used es stop)
  case 0
  then show ?case by (cases rule: fetch_hops_cases) (auto dest!: one_hop_stop one_hop_target)
next
  case (Suc left)
  from Suc.prems(1) show ?case
  proof (cases rule: fetch_hops_cases)
    case (onward k r base "next" hop as rest)
    have rest: "fetch_hops w left (href next) (next_hop_init init (resp_status r) (origin base = origin next))
         (normalize_hostname (hostname next) # used) = (rest, stop)" using onward(1,4) by simp
    have "Asked h \<in> set rest \<or> verdict (Suc left) h"
      using onward(3,5) one_hop_target [OF onward(2)] Suc.prems(2) assms
      by (auto simp: ask_host_def split: if_splits)
    then show ?thesis
    proof
      assume asked: "Asked h \<in> set rest"
      then have "rest \<noteq> []" by auto
      then have "last es = last rest" using onward(5) by simp
      then show ?thesis using Suc.IH [OF rest asked] by (metis le_SucI)
    qed auto
  next
    case (refused k r base "next" hop as)
    then show ?thesis using one_hop_target [OF refused(2)] Suc.prems(2) assms
      by (auto simp: ask_host_def split: if_splits)
  qed (use Suc.prems in \<open>auto dest!: one_hop_stop one_hop_target\<close>)
qed

subsection \<open>What a connection is made to\<close>

text \<open>
  The platform dials an address literal itself (\<open>literal\<close>: the address a hostname
  stands for, if it is one) and asks the lookup for anything else. It answers with
  the addresses a connection may be made to.
\<close>

definition connects_to ::
    "(string \<Rightarrow> string option) \<Rightarrow> fetch_world \<Rightarrow> service_addresses \<Rightarrow> (string \<Rightarrow> resolve_error + resolved) \<Rightarrow> bool \<Rightarrow>
     string \<Rightarrow> string list" where
  "connects_to literal w services resolve every host =
    (case literal host of
       Some a \<Rightarrow> [a]
     | None \<Rightarrow> (case ssrf_safe_lookup (fw_refusals w) services resolve every host of Inl _ \<Rightarrow> [] | Inr as \<Rightarrow> map fst as))"

text \<open>A literal is a text of the address dialled; as a URL's hostname it ends in no dot.\<close>

definition dials_what_is_named :: "(string \<Rightarrow> string option) \<Rightarrow> bool" where
  "dials_what_is_named literal \<longleftrightarrow>
    (\<forall>h a. literal h = Some a \<longrightarrow> h \<noteq> [] \<and> last h \<noteq> CHR ''.'' \<and> address_bytes a = address_bytes h \<and> address_bytes h \<noteq> None)"

text \<open>An address that may be reached, given where the services were found to be.\<close>

definition reachable_address :: "local_refusals \<Rightarrow> service_addresses \<Rightarrow> string \<Rightarrow> bool" where
  "reachable_address lr services a \<longleftrightarrow>
    (\<forall>raw. names_address a raw \<longrightarrow>
       \<not> off_limits (carried raw) \<and>
       (on_private_network (carried raw) \<longrightarrow>
          \<not> deny_private_networks lr \<and>
          (service_hosts lr \<noteq> [] \<longrightarrow>
             (\<exists>keys. services = Services_At keys \<and> address_key a \<notin> Some ` set keys))))"

lemma bare_lower: "bare_address (lower_case t) = lower_case (bare_address t)"
proof -
  have "lower_char c = CHR ''['' \<longleftrightarrow> c = CHR ''[''" for c
    unfolding char_eq_code char_code_lower by (auto simp: Let_def char_code_def of_char_def)
  then show ?thesis by (cases t) (auto simp: bare_address_def lower_case_def map_butlast)
qed

lemma address_bytes_lower [simp]: "address_bytes (lower_case t) = address_bytes t"
  by (simp only: address_bytes_bare bare_lower parse_ipv4_lower parse_ipv6_lower)

lemma same_bytes:
  assumes "address_bytes a = address_bytes b"
  shows "is_blocked_address a = is_blocked_address b" "is_private_address a = is_private_address b"
    "address_key a = address_key b"
  using assms by (simp_all add: is_blocked_address_def is_private_address_def address_key_def)

lemma refused_here_None:
  "refused_here lr services as = None \<longleftrightarrow>
    (\<forall>a \<in> set as. is_private_address a \<longrightarrow>
       \<not> deny_private_networks lr \<and>
       (service_hosts lr \<noteq> [] \<longrightarrow> (\<exists>keys. services = Services_At keys \<and> the (address_key a) \<notin> set keys)))"
  unfolding refused_here_def Let_def
  by (cases "services"; cases "filter is_private_address as = []")
     (auto simp: filter_empty_conv find_None_iff split: if_splits)

lemma permitted_reachable:
  assumes "\<not> is_blocked_address a" "refused_here lr services [a] = None"
  shows "reachable_address lr services a"
  unfolding reachable_address_def
proof (intro allI impI conjI)
  fix raw assume raw: "names_address a raw"
  then show "\<not> off_limits (carried raw)" using assms(1) by (auto simp: is_blocked_iff)
  obtain k where k: "address_key a = Some k"
    using raw address_bytes_iff [of a "carried raw"] by (auto simp: address_key_def)
  assume "on_private_network (carried raw)"
  then have "is_private_address a" using raw by (auto simp: is_private_iff)
  then show "\<not> deny_private_networks lr"
    "service_hosts lr \<noteq> [] \<Longrightarrow> \<exists>keys. services = Services_At keys \<and> address_key a \<notin> Some ` set keys"
    using assms(2) k by (auto simp: refused_here_None)
qed

lemma lookup_answers:
  assumes "ssrf_safe_lookup lr services resolve every host = Inr as"
  obtains all where "resolve host = Inr all" "\<forall>x \<in> set all. \<not> is_blocked_address (fst x)"
    "refused_here lr services (map fst all) = None" "set as \<subseteq> set all"
proof (cases "resolve host")
  case (Inl e)
  then show thesis using assms by (simp add: ssrf_safe_lookup_def split: if_splits)
next
  case (Inr all)
  show thesis
  proof (cases "List.find (\<lambda>a. is_blocked_address (fst a)) all")
    case None
    then have "refused_here lr services (map fst all) = None \<and> as = (if every then all else take 1 all)"
      using assms Inr by (simp add: ssrf_safe_lookup_def split: if_splits option.splits)
    moreover have "\<forall>x \<in> set all. \<not> is_blocked_address (fst x)" using None by (auto simp: find_None_iff)
    ultimately show thesis using that Inr set_take_subset [of 1 all] by auto
  next
    case (Some x)
    then show thesis using assms Inr by (simp add: ssrf_safe_lookup_def split: if_splits)
  qed
qed

lemma lookup_reachable:
  assumes "ssrf_safe_lookup lr services resolve every host = Inr as" "a \<in> set (map fst as)"
  shows "reachable_address lr services a"
  using assms(1)
proof (cases rule: lookup_answers)
  case (1 all)
  then obtain x where x: "x \<in> set all" "a = fst x" using assms(2) by auto
  then have "refused_here lr services [a] = None" using 1(3) unfolding refused_here_None by auto
  then show ?thesis using permitted_reachable 1(2) x by blast
qed

lemma literal_reachable:
  assumes "dials_what_is_named literal" "literal (hostname u) = Some a" "fw_parse w url = Some u"
    "url_refusal (fw_parse w) (fw_refusals w) services url = None"
  shows "reachable_address (fw_refusals w) services a"
proof -
  let ?h = "hostname u"
  have h: "?h \<noteq> []" "last ?h \<noteq> CHR ''.''" "address_bytes a = address_bytes ?h" "address_bytes ?h \<noteq> None"
    using assms(1,2) by (auto simp: dials_what_is_named_def)
  have "last (lower_case ?h) \<noteq> CHR ''.''" using h(1,2) by (simp add: lower_case_def last_map)
  then have n: "normalize_hostname ?h = lower_case ?h" by (simp add: normalize_hostname_def Let_def)
  have "\<not> is_blocked_address (normalize_hostname ?h)"
    using assms(3,4) by (auto simp: url_refusal_def check_url_safety_def Let_def split: if_splits option.splits)
  then have "\<not> is_blocked_address a" using h(3) n same_bytes(1) [of a "lower_case ?h"] by simp
  moreover have "refused_here (fw_refusals w) services [?h] = None"
    using assms(3,4) h(4) by (auto simp: url_refusal_def address_key_def Let_def split: if_splits option.splits)
  then have "refused_here (fw_refusals w) services [a] = None"
    using same_bytes [OF h(3)] by (auto simp: refused_here_None)
  ultimately show ?thesis by (rule permitted_reachable)
qed

lemma resolve_addresses_some: "resolve_addresses ask six four = Inr r \<Longrightarrow> r \<noteq> [] \<and> length r \<le> MAX_ADDRESSES_PER_NAME"
  by (auto simp: resolve_addresses_def MAX_ADDRESSES_PER_NAME_def Let_def split: if_splits)

end
