(* ===== verification/Fetch_Guarantees.thy ===== *)
theory Fetch_Guarantees
  imports Fetch_Chains
begin

text \<open>
  The properties of the address policy and of a redirected fetch, with a sample chain.
\<close>

subsection \<open>The policy on addresses\<close>

text \<open>
  C8. An address is refused, or counted as private, for what it names and not for how
  it is written: \<open>isBlockedAddress\<close> and \<open>isPrivateAddress\<close> say yes to exactly the texts
  that spell (dotted quad, IPv6 with or without elision, dotted tail, padding, zone,
  brackets, either case) bytes whose value, an IPv4 address carried inside IPv6
  unwrapped, lies in one of the listed ranges.
\<close>

theorem address_policy:
  "(is_blocked_address t \<longleftrightarrow> (\<exists>raw. names_address t raw \<and> off_limits (carried raw))) \<and>
   (is_private_address t \<longleftrightarrow> (\<exists>raw. names_address t raw \<and> on_private_network (carried raw)))"
  using is_blocked_iff is_private_iff by blast

subsection \<open>A fetch that was redirected\<close>

lemma safe_fetch_cases:
  assumes "safe_fetch w url init = (es, stop)"
  obtains (unsafe) p where "es = []" "stop = Unsafe_Url p"
  | (chain) "permitted_url w url" "fetch_hops w MAX_REDIRECTS url (first_init w init) [host_of w url] = (es, stop)"
  using assms by (auto simp: safe_fetch_def permitted_url_def host_of_def split: option.splits)

text \<open>
  C9. However the servers answer, a fetch sends at most eleven requests, every one of
  them to a URL that passed the refusals; once a request has gone out under TLS every
  later one does; and a request carries a credential header only if every earlier
  one went to the same origin and carried one.
\<close>

theorem fetch_chain_safe:
  assumes "href_reads_back w" "safe_fetch w url init = (es, stop)"
  shows "length (sent_of es) \<le> 11 \<and> (\<forall>(u, i) \<in> set (sent_of es). permitted_url w u) \<and>
    sorted_wrt (\<lambda>(u, i) (v, j). (secure w u \<longrightarrow> secure w v) \<and>
      (carries_credentials j \<longrightarrow> carries_credentials i \<and> origin_of w u = origin_of w v)) (sent_of es)"
  using assms(2)
proof (cases rule: safe_fetch_cases)
  case chain
  let ?R = "\<lambda>(u, i) (v, j). (secure w u \<longrightarrow> secure w v) \<and>
      (carries_credentials j \<longrightarrow> carries_credentials i \<and> origin_of w u = origin_of w v)"
  have "sorted_wrt ?R (sent_of es)"
    using hops_secure [OF assms(1)] hops_credentials [OF assms(1)] by (intro hops_pairs [OF _ chain(2)]) auto
  moreover have "length (sent_of es) \<le> 11" using hops_sent_bound [OF chain(2)] by (simp add: MAX_REDIRECTS_def)
  ultimately show ?thesis using hops_permitted [OF chain] by auto
qed simp

text \<open>
  C25. A caller that limits hosts is asked about each host once, before the first
  request to it, and never about the one it named itself; a chain goes on only where
  the answer was yes, and the one no ends it. The body of every response that is not
  handed to the caller is let go of.
\<close>

theorem fetch_asks_and_drains:
  assumes "href_reads_back w" "fw_on_host w = Some verdict" "safe_fetch w url init = (es, stop)"
  shows "asked_first w {host_of w url} es \<and>
    (\<forall>h. Asked h \<in> set es \<longrightarrow> stop = Hop_Refused h \<and> last es = Asked h \<or> (\<exists>k. 0 < k \<and> k \<le> MAX_REDIRECTS \<and> verdict k h)) \<and>
    length (sent_of es) = discarded_of es +
      (if stop = Network_Error \<or> (\<exists>r. stop = Returned r \<and> resp_status r \<notin> set REDIRECT_STATUSES) then 1 else 0)"
  using assms(3)
proof (cases rule: safe_fetch_cases)
  case chain
  then show ?thesis
    using hops_asked_first [OF assms(1,2) chain(2)] hops_verdicts [OF assms(2) chain(2)] hops_drained [OF chain(2)] by simp
qed simp

text \<open>
  C7. No request of a fetch reaches a refused address: whether the platform dials a
  literal or asks the lookup, each address a connection may be made to lies outside
  the blocked ranges, and a private one is reached only where private networks are
  not refused and, where there are services, they were located and are not at it.
\<close>

theorem connections_permitted:
  assumes "dials_what_is_named literal" "safe_fetch w url init = (es, stop)" "(u, i) \<in> set (sent_of es)"
    "fw_parse w u = Some p" "a \<in> set (connects_to literal w services resolve every (hostname p))"
  shows "\<exists>sv \<in> insert services (range (fw_services w)). reachable_address (fw_refusals w) sv a"
proof -
  obtain k where k: "url_refusal (fw_parse w) (fw_refusals w) (fw_services w k) u = None"
    using assms(2)
  proof (cases rule: safe_fetch_cases)
    case chain
    then show thesis using hops_permitted [OF chain assms(3)] that by (auto simp: permitted_url_def)
  qed (use assms(3) in simp)
  show ?thesis
  proof (cases "literal (hostname p)")
    case None
    then obtain as where "ssrf_safe_lookup (fw_refusals w) services resolve every (hostname p) = Inr as" "a \<in> set (map fst as)"
      using assms(5) by (cases "ssrf_safe_lookup (fw_refusals w) services resolve every (hostname p)") (auto simp: connects_to_def)
    then show ?thesis using lookup_reachable by blast
  next
    case (Some b)
    then show ?thesis using assms(5) literal_reachable [OF assms(1) _ assms(4) k] by (auto simp: connects_to_def)
  qed
qed

subsection \<open>A sample chain\<close>

definition chain_site :: "string \<Rightarrow> web_url" where
  "chain_site host = \<lparr>protocol = ''https:'', hostname = host, origin = ''https://'' @ host, pathname = ''/'', href = ''https://'' @ host @ ''/''\<rparr>"

definition sample_parse :: "string \<Rightarrow> web_url option" where
  "sample_parse t =
    (if t = ''https://a.jp/'' then Some (chain_site ''a.jp'') else if t = ''https://b.jp/'' then Some (chain_site ''b.jp'') else None)"

definition chain_world :: fetch_world where
  "chain_world =
    \<lparr>fw_parse = sample_parse, fw_resolve = (\<lambda>location _. sample_parse location),
     fw_refusals = \<lparr>deny_private_networks = False, service_hosts = [''db'']\<rparr>, fw_services = (\<lambda>_. Services_At [''10.0.0.9'']),
     fw_answer = (\<lambda>_ url _. Some (if url = ''https://a.jp/''
                      then \<lparr>resp_status = 302, resp_location = Some ''https://b.jp/'', resp_declared = Some 0\<rparr>
                      else \<lparr>resp_status = 200, resp_location = None, resp_declared = Some 9\<rparr>)),
     fw_on_host = Some (\<lambda>_ host. host = ''b.jp''), fw_user_agent = ''KUKAN''\<rparr>"

definition sample_init :: fetch_init where
  "sample_init = \<lparr>init_method = None, init_headers = [(''Cookie'', ''s=1'')], init_body = None\<rparr>"

lemma lower_sample: "lower_case ''a.jp'' = ''a.jp''" "lower_case ''b.jp'' = ''b.jp''" "lower_case ''Cookie'' = ''cookie''"
  by (simp_all add: lower_case_def lower_char_def char_code_def of_char_def char_of_def bit_Suc_0_iff)

lemma sample_addresses: "address_bytes ''a.jp'' = None" "address_bytes ''b.jp'' = None"
  by (simp_all add: address_bytes_bare bare_address_def text_reading)

lemma sample_sites: "url_refusal sample_parse \<lparr>deny_private_networks = False, service_hosts = [''db'']\<rparr> sv ''https://a.jp/'' = None"
  "url_refusal sample_parse \<lparr>deny_private_networks = False, service_hosts = [''db'']\<rparr> sv ''https://b.jp/'' = None"
  by (simp_all add: url_refusal_def check_url_safety_def sample_parse_def chain_site_def normalize_hostname_def
      lower_sample is_blocked_hostname_def BLOCKED_HOSTNAMES_def is_blocked_address_def is_refused_hostname_def
      address_key_def sample_addresses)

lemma sample_reads_back: "href_reads_back chain_world"
  by (auto simp: href_reads_back_def chain_world_def sample_parse_def chain_site_def split: if_splits)

lemma sample_hop_a:
  "one_hop chain_world k ''https://a.jp/'' i =
     ([Sent ''https://a.jp/'' i, Discarded],
      Inr (\<lparr>resp_status = 302, resp_location = Some ''https://b.jp/'', resp_declared = Some 0\<rparr>, chain_site ''a.jp'', chain_site ''b.jp''))"
proof -
  have "href (chain_site ''b.jp'') = ''https://b.jp/''" "protocol (chain_site ''b.jp'') = ''https:''"
    by (simp_all add: chain_site_def)
  moreover have "sample_parse ''https://b.jp/'' = Some (chain_site ''b.jp'')" "sample_parse ''https://a.jp/'' = Some (chain_site ''a.jp'')"
    by (simp_all add: sample_parse_def)
  ultimately show ?thesis
    by (simp add: one_hop_def chain_world_def REDIRECT_STATUSES_def next_target_def body_too_large_def sample_sites)
qed

lemma sample_hop_b:
  "one_hop chain_world k ''https://b.jp/'' i =
     ([Sent ''https://b.jp/'' i], Inl (Returned \<lparr>resp_status = 200, resp_location = None, resp_declared = Some 9\<rparr>))"
  by (simp add: one_hop_def chain_world_def REDIRECT_STATUSES_def)

lemma sample_run:
  "safe_fetch chain_world ''https://a.jp/'' sample_init =
     ([Sent ''https://a.jp/'' \<lparr>init_method = None, init_headers = [(''cookie'', ''s=1''), (''user-agent'', ''KUKAN'')], init_body = None\<rparr>,
       Discarded, Asked ''b.jp'',
       Sent ''https://b.jp/'' \<lparr>init_method = None, init_headers = [(''user-agent'', ''KUKAN'')], init_body = None\<rparr>],
      Returned \<lparr>resp_status = 200, resp_location = None, resp_declared = Some 9\<rparr>)" (is "_ = (?es, ?r)")
proof -
  let ?init = "\<lparr>init_method = None, init_headers = [(''cookie'', ''s=1''), (''user-agent'', ''KUKAN'')], init_body = None\<rparr> :: fetch_init"
  have ten: "MAX_REDIRECTS = Suc (Suc 8)" by (simp add: MAX_REDIRECTS_def)
  have site: "hostname (chain_site h) = h" "origin (chain_site h) = ''https://'' @ h" "href (chain_site h) = ''https://'' @ h @ ''/''" for h
    by (simp_all add: chain_site_def)
  have init: "first_init chain_world sample_init = ?init"
    by (simp add: first_init_def sample_init_def chain_world_def lower_sample)
  have onward: "next_hop_init ?init 302 False = \<lparr>init_method = None, init_headers = [(''user-agent'', ''KUKAN'')], init_body = None\<rparr>"
    by (simp add: next_hop_init_def rewrites_to_get_def upper_char_def char_code_def of_char_def delete_headers_def CREDENTIAL_HEADERS_def)
  have norm: "normalize_hostname ''a.jp'' = ''a.jp''" "normalize_hostname ''b.jp'' = ''b.jp''"
    by (simp_all add: normalize_hostname_def lower_sample)
  have ask: "ask_host chain_world k [''a.jp''] ''b.jp'' = ([Asked ''b.jp''], True)" for k
    by (simp add: ask_host_def chain_world_def)
  have host: "fw_parse chain_world ''https://a.jp/'' = Some (chain_site ''a.jp'')"
    by (simp add: chain_world_def sample_parse_def)
  have permitted: "url_refusal (fw_parse chain_world) (fw_refusals chain_world) (fw_services chain_world k) ''https://a.jp/'' = None" for k
    using sample_sites(1) by (simp add: chain_world_def)
  have last: "fetch_hops chain_world (Suc k) ''https://b.jp/'' i used = ([Sent ''https://b.jp/'' i], ?r)" for i used k
    by (simp only: fetch_hops.simps sample_hop_b prod.case sum.case)
  have "safe_fetch chain_world ''https://a.jp/'' sample_init = fetch_hops chain_world (Suc (Suc 8)) ''https://a.jp/'' ?init [''a.jp'']"
    using permitted by (simp only: safe_fetch_def option.case init host option.sel site norm ten)
  moreover have "fetch_hops chain_world (Suc (Suc k)) ''https://a.jp/'' ?init [''a.jp''] = (?es, ?r)" for k
    by (subst fetch_hops.simps(2)) (simp add: sample_hop_a site norm ask onward last del: fetch_hops.simps)
  ultimately show ?thesis by (simp only:)
qed


lemma fetch_chain_safe_witness:
  "length (sent_of (fst (safe_fetch chain_world ''https://a.jp/'' sample_init))) \<le> 11 \<and>
   permitted_url chain_world ''https://b.jp/'' \<and> secure chain_world ''https://b.jp/''"
proof -
  have "secure chain_world ''https://a.jp/''" by (simp add: secure_def chain_world_def sample_parse_def chain_site_def)
  then show ?thesis using fetch_chain_safe [OF sample_reads_back sample_run] by (simp add: sample_run)
qed

lemma fetch_asks_and_drains_witness:
  "asked_first chain_world {''a.jp''} (fst (safe_fetch chain_world ''https://a.jp/'' sample_init))"
proof -
  have "fw_on_host chain_world = Some (\<lambda>_ host. host = ''b.jp'')" by (simp add: chain_world_def)
  moreover have "host_of chain_world ''https://a.jp/'' = ''a.jp''"
    by (simp add: host_of_def chain_world_def sample_parse_def chain_site_def normalize_hostname_def lower_sample)
  ultimately show ?thesis using fetch_asks_and_drains [OF sample_reads_back _ sample_run] by (simp add: sample_run)
qed

text \<open>The name resolves to a private address that is not the service's.\<close>

definition sample_resolve :: "string \<Rightarrow> resolve_error + resolved" where
  "sample_resolve host = Inr [(''10.0.0.5'', V4)]"

lemma text_10_0_0_5: "address_bytes ''10.0.0.5'' = Some [10, 0, 0, 5]"
  by (simp add: address_bytes_bare bare_address_def text_reading)

lemma sample_connects:
  "connects_to (\<lambda>_. None) chain_world (Services_At [''10.0.0.9'']) sample_resolve True ''b.jp'' = [''10.0.0.5'']"
proof -
  have "\<not> is_blocked_address ''10.0.0.5''"
    using blocked_v4 [of "[10, 0, 0, 5]"] by (simp add: is_blocked_address_def text_10_0_0_5 off_limits_def address_value_eval)
  moreover have "address_key ''10.0.0.5'' = Some ''10.0.0.5''"
    by (simp add: address_key_def text_10_0_0_5 number_text.simps digit_char_def char_of_def join_with_def bit_Suc_0_iff)
  ultimately show ?thesis
    by (simp add: connects_to_def ssrf_safe_lookup_def chain_world_def sample_resolve_def is_blocked_hostname_def
        is_refused_hostname_def normalize_hostname_def lower_sample BLOCKED_HOSTNAMES_def refused_here_def)
qed

lemma connections_permitted_witness:
  "\<exists>sv \<in> {Services_At [''10.0.0.9'']}. reachable_address (fw_refusals chain_world) sv ''10.0.0.5''"
proof -
  have p: "fw_parse chain_world ''https://b.jp/'' = Some (chain_site ''b.jp'')"
    by (simp add: chain_world_def sample_parse_def)
  have h: "hostname (chain_site ''b.jp'') = ''b.jp''" by (simp add: chain_site_def)
  have s: "range (fw_services chain_world) = {Services_At [''10.0.0.9'']}" by (auto simp: chain_world_def)
  have "dials_what_is_named (\<lambda>_. None)" by (simp add: dials_what_is_named_def)
  from connections_permitted [OF this sample_run _ p, of _ "''10.0.0.5''" "Services_At [''10.0.0.9'']" sample_resolve True]
  show ?thesis by (simp add: h s sample_connects)
qed

end
