(* ===== verification/Request_Limits.thy ===== *)
theory Request_Limits
  imports Address_Policy
begin

text \<open>
  What bounds the work one process takes on: the semaphore over DuckDB work, each
  caller's share of it, and a query's way through both
  (\<open>packages/api/src/services/concurrency\<close>, \<open>query/duckdb-slot.ts\<close>). A promise that is
  waited for is an entry of a queue; a timer that runs out and a signal that fires
  are events. Requests are numbered.
\<close>

subsection \<open>The semaphore\<close>

datatype priority = High_Priority | Normal_Priority

record semaphore_limits =
  sem_max :: nat
  sem_max_waiting :: nat
  sem_priorities :: bool

record semaphore =
  sem_active :: nat
  sem_high :: "nat list"
  sem_normal :: "nat list"

definition max_normal_waiting :: "semaphore_limits \<Rightarrow> nat" where
  "max_normal_waiting L = (if sem_priorities L then (sem_max_waiting L + 1) div 2 else sem_max_waiting L)"

definition sem_queued :: "semaphore \<Rightarrow> nat" where
  "sem_queued s = length (sem_high s) + length (sem_normal s)"

datatype acquired = Slot_Taken | Slot_Queued | Slot_Busy | Request_Abandoned

definition sem_acquire :: "semaphore_limits \<Rightarrow> bool \<Rightarrow> priority \<Rightarrow> nat \<Rightarrow> semaphore \<Rightarrow> acquired \<times> semaphore" where
  "sem_acquire L aborted prio i s =
    (if aborted then (Request_Abandoned, s)
     else if sem_active s < sem_max L then (Slot_Taken, s\<lparr>sem_active := sem_active s + 1\<rparr>)
     else if sem_max_waiting L \<le> sem_queued s \<or> prio = Normal_Priority \<and> max_normal_waiting L \<le> length (sem_normal s)
     then (Slot_Busy, s)
     else (Slot_Queued,
       case prio of High_Priority \<Rightarrow> s\<lparr>sem_high := sem_high s @ [i]\<rparr>
                  | Normal_Priority \<Rightarrow> s\<lparr>sem_normal := sem_normal s @ [i]\<rparr>))"

text \<open>The waiter the slot goes to, if one is waiting.\<close>

definition sem_release :: "semaphore \<Rightarrow> nat option \<times> semaphore" where
  "sem_release s =
    (case sem_high s of
       i # is \<Rightarrow> (Some i, s\<lparr>sem_high := is\<rparr>)
     | [] \<Rightarrow>
         (case sem_normal s of
            i # is \<Rightarrow> (Some i, s\<lparr>sem_normal := is\<rparr>)
          | [] \<Rightarrow> (None, if 0 < sem_active s then s\<lparr>sem_active := sem_active s - 1\<rparr> else s)))"

definition sem_drop :: "nat \<Rightarrow> semaphore \<Rightarrow> semaphore" where
  "sem_drop i s = s\<lparr>sem_high := remove1 i (sem_high s), sem_normal := remove1 i (sem_normal s)\<rparr>"

subsection \<open>A caller's share\<close>

text \<open>An absent user or address is the empty text, as JavaScript's truth has it.\<close>

record caller =
  caller_user :: string
  caller_ip :: string

definition ip_bucket :: "string \<Rightarrow> string option" where
  "ip_bucket ip =
    (case address_key ip of
       None \<Rightarrow> None
     | Some key \<Rightarrow>
         let parts = split_on CHR ''.'' key
         in if length parts = 4 then Some (join_with ''.'' parts)
            else Some (join_with ''.'' (take 8 parts) @ ''/64''))"

definition caller_key :: "caller \<Rightarrow> string option" where
  "caller_key c =
    (if caller_user c \<noteq> [] then Some (''user:'' @ caller_user c)
     else if caller_ip c = [] then None
     else map_option (\<lambda>b. ''ip:'' @ b) (ip_bucket (caller_ip c)))"

type_synonym in_flight = "string \<rightharpoonup> nat"

definition limit_acquire :: "string \<Rightarrow> nat \<Rightarrow> in_flight \<Rightarrow> in_flight option" where
  "limit_acquire key limit m =
    (let held = (case m key of None \<Rightarrow> 0 | Some n \<Rightarrow> n)
     in if limit \<le> held then None else Some (m(key \<mapsto> held + 1)))"

definition limit_release :: "string \<Rightarrow> in_flight \<Rightarrow> in_flight" where
  "limit_release key m =
    (let now = (case m key of None \<Rightarrow> 1 | Some n \<Rightarrow> n) - 1
     in if now \<le> 0 then m(key := None) else m(key \<mapsto> now))"

subsection \<open>A query's way through both\<close>

definition QUERY_MAX_CONCURRENT :: nat where "QUERY_MAX_CONCURRENT = 1"
definition QUERY_QUEUE_MAX :: nat where "QUERY_QUEUE_MAX = 16"
definition QUERY_CALLER_MAX_ANONYMOUS :: nat where "QUERY_CALLER_MAX_ANONYMOUS = 4"
definition QUERY_CALLER_MAX_SIGNED_IN :: nat where "QUERY_CALLER_MAX_SIGNED_IN = 2"

definition duckdb_limits :: semaphore_limits where
  "duckdb_limits = \<lparr>sem_max = QUERY_MAX_CONCURRENT, sem_max_waiting = QUERY_QUEUE_MAX, sem_priorities = True\<rparr>"

datatype slot_phase = Slot_Waiting | Slot_Running

record slot_request =
  rq_id :: nat
  rq_key :: "string option"
  rq_signed_in :: bool
  rq_phase :: slot_phase

record slot_state =
  slot_sem :: semaphore
  slot_counts :: in_flight
  slot_requests :: "slot_request list"

definition caller_max :: "bool \<Rightarrow> nat" where
  "caller_max signed_in = (if signed_in then QUERY_CALLER_MAX_SIGNED_IN else QUERY_CALLER_MAX_ANONYMOUS)"

definition count_caller :: "string option \<Rightarrow> bool \<Rightarrow> in_flight \<Rightarrow> in_flight option" where
  "count_caller key signed_in m =
    (case key of None \<Rightarrow> Some m | Some k \<Rightarrow> limit_acquire k (caller_max signed_in) m)"

definition release_caller :: "string option \<Rightarrow> in_flight \<Rightarrow> in_flight" where
  "release_caller key m = (case key of None \<Rightarrow> m | Some k \<Rightarrow> limit_release k m)"

text \<open>\<open>withDuckdbSlot\<close> up to where it waits for the slot or runs.\<close>

definition slot_arrive :: "semaphore_limits \<Rightarrow> nat \<Rightarrow> caller \<Rightarrow> bool \<Rightarrow> slot_state \<Rightarrow> acquired \<times> slot_state" where
  "slot_arrive L i c aborted s =
    (let key = caller_key c; signed_in = (caller_user c \<noteq> [])
     in case count_caller key signed_in (slot_counts s) of
          None \<Rightarrow> (Slot_Busy, s)
        | Some counts \<Rightarrow>
            (case sem_acquire L aborted (if signed_in then High_Priority else Normal_Priority) i (slot_sem s) of
               (got, sem) \<Rightarrow>
                 (got,
                  case got of
                    Slot_Taken \<Rightarrow>
                      s\<lparr>slot_sem := sem, slot_counts := counts,
                        slot_requests := slot_requests s @ [\<lparr>rq_id = i, rq_key = key, rq_signed_in = signed_in, rq_phase = Slot_Running\<rparr>]\<rparr>
                  | Slot_Queued \<Rightarrow>
                      s\<lparr>slot_sem := sem, slot_counts := counts,
                        slot_requests := slot_requests s @ [\<lparr>rq_id = i, rq_key = key, rq_signed_in = signed_in, rq_phase = Slot_Waiting\<rparr>]\<rparr>
                  | _ \<Rightarrow> s\<lparr>slot_sem := sem, slot_counts := release_caller key counts\<rparr>)))"

text \<open>Its \<open>finally\<close> blocks once the work has settled: the slot moves on or is freed, the caller is counted down.\<close>

definition slot_settled :: "nat \<Rightarrow> slot_state \<Rightarrow> slot_state" where
  "slot_settled i s =
    (case row_of rq_id (slot_requests s) i of
       None \<Rightarrow> s
     | Some r \<Rightarrow>
         if rq_phase r \<noteq> Slot_Running then s
         else let (next, sem) = sem_release (slot_sem s);
                  rest = delete_where (\<lambda>q. rq_id q = i) (slot_requests s)
              in \<lparr>slot_sem = sem, slot_counts = release_caller (rq_key r) (slot_counts s),
                  slot_requests = update_where (\<lambda>q. Some (rq_id q) = next) (\<lambda>q. q\<lparr>rq_phase := Slot_Running\<rparr>) rest\<rparr>)"

text \<open>The wait runs out, or the caller leaves during it: the waiter is dropped and the call rejects.\<close>

definition slot_given_up :: "nat \<Rightarrow> slot_state \<Rightarrow> slot_state" where
  "slot_given_up i s =
    (case row_of rq_id (slot_requests s) i of
       None \<Rightarrow> s
     | Some r \<Rightarrow>
         if rq_phase r \<noteq> Slot_Waiting then s
         else \<lparr>slot_sem = sem_drop i (slot_sem s), slot_counts = release_caller (rq_key r) (slot_counts s),
               slot_requests = delete_where (\<lambda>q. rq_id q = i) (slot_requests s)\<rparr>)"

datatype slot_event = Query_Arrives nat caller bool | Query_Settles nat | Wait_Runs_Out nat | Caller_Leaves nat

fun slot_step :: "semaphore_limits \<Rightarrow> slot_event \<Rightarrow> slot_state \<Rightarrow> slot_state" where
  "slot_step L (Query_Arrives i c aborted) s = snd (slot_arrive L i c aborted s)"
| "slot_step L (Query_Settles i) s = slot_settled i s"
| "slot_step L (Wait_Runs_Out i) s = slot_given_up i s"
| "slot_step L (Caller_Leaves i) s = slot_given_up i s"

definition slots_free :: slot_state where
  "slots_free = \<lparr>slot_sem = \<lparr>sem_active = 0, sem_high = [], sem_normal = []\<rparr>, slot_counts = Map.empty, slot_requests = []\<rparr>"

subsection \<open>At most so many in flight\<close>

text \<open>
  \<open>mapWithConcurrency\<close>: the workers share \<open>next\<close> and the first failure; each takes an
  item, waits for it, and looks again. \<open>fn\<close>'s outcome is the event's.
\<close>

datatype pool_worker = Worker_Idle | Worker_On nat | Worker_Gone

record ('r, 'e) pool =
  pool_next :: nat
  pool_failure :: "'e option"
  pool_results :: "nat \<rightharpoonup> 'r"
  pool_workers :: "pool_worker list"

definition pool_start :: "nat \<Rightarrow> nat \<Rightarrow> ('r, 'e) pool" where
  "pool_start limit items =
    \<lparr>pool_next = 0, pool_failure = None, pool_results = Map.empty, pool_workers = replicate (min limit items) Worker_Idle\<rparr>"

definition worker_looks :: "nat \<Rightarrow> nat \<Rightarrow> ('r, 'e) pool \<Rightarrow> ('r, 'e) pool" where
  "worker_looks items k p =
    (if k < length (pool_workers p) \<and> pool_workers p ! k = Worker_Idle
     then if pool_failure p \<noteq> None then p\<lparr>pool_workers := (pool_workers p)[k := Worker_Gone]\<rparr>
          else let index = pool_next p
               in p\<lparr>pool_next := index + 1,
                    pool_workers := (pool_workers p)[k := if items \<le> index then Worker_Gone else Worker_On index]\<rparr>
     else p)"

definition item_settles :: "nat \<Rightarrow> 'e + 'r \<Rightarrow> ('r, 'e) pool \<Rightarrow> ('r, 'e) pool" where
  "item_settles k outcome p =
    (if k < length (pool_workers p)
     then case pool_workers p ! k of
            Worker_On index \<Rightarrow>
              (case outcome of
                 Inr r \<Rightarrow> p\<lparr>pool_results := (pool_results p)(index \<mapsto> r), pool_workers := (pool_workers p)[k := Worker_Idle]\<rparr>
               | Inl e \<Rightarrow> p\<lparr>pool_failure := (case pool_failure p of None \<Rightarrow> Some e | Some f \<Rightarrow> Some f),
                            pool_workers := (pool_workers p)[k := Worker_Idle]\<rparr>)
          | _ \<Rightarrow> p
     else p)"

text \<open>What the call settles with, once every worker has returned.\<close>

definition pool_answer :: "nat \<Rightarrow> ('r, 'e) pool \<Rightarrow> ('e + 'r option list) option" where
  "pool_answer items p =
    (if list_all (\<lambda>w. w = Worker_Gone) (pool_workers p)
     then Some (case pool_failure p of Some e \<Rightarrow> Inl e | None \<Rightarrow> Inr (map (pool_results p) [0..<items]))
     else None)"

datatype ('r, 'e) pool_event = Looks nat | Settles nat "'e + 'r"

fun pool_step :: "nat \<Rightarrow> ('r, 'e) pool_event \<Rightarrow> ('r, 'e) pool \<Rightarrow> ('r, 'e) pool" where
  "pool_step items (Looks k) p = worker_looks items k p"
| "pool_step items (Settles k outcome) p = item_settles k outcome p"

end
