(* ===== verification/Limit_Facts.thy ===== *)
theory Limit_Facts
  imports Request_Limits Address_Spellings
begin

text \<open>
  The invariant of the semaphore and the callers' counts taken together (an
  interpretation of \<open>machine\<close>), who is served next, and the invariant of a pool's workers
  (another).
\<close>

subsection \<open>The requests a semaphore and the counts answer for\<close>

definition waiting_in :: "bool \<Rightarrow> slot_request list \<Rightarrow> nat list" where
  "waiting_in signed_in rs = map rq_id (filter (\<lambda>r. rq_phase r = Slot_Waiting \<and> rq_signed_in r = signed_in) rs)"

definition running_in :: "slot_request list \<Rightarrow> nat" where
  "running_in rs = count_where (\<lambda>r. rq_phase r = Slot_Running) rs"

definition in_flight_of :: "string \<Rightarrow> slot_request list \<Rightarrow> nat" where
  "in_flight_of k rs = count_where (\<lambda>r. rq_key r = Some k) rs"

text \<open>
  Each queue lists the waiting requests of its priority as they arrived, the active
  count is the number that run, and the counts are what each caller has in flight.
\<close>

definition slots_agree :: "slot_state \<Rightarrow> bool" where
  "slots_agree s \<longleftrightarrow>
    distinct (map rq_id (slot_requests s)) \<and>
    sem_high (slot_sem s) = waiting_in True (slot_requests s) \<and>
    sem_normal (slot_sem s) = waiting_in False (slot_requests s) \<and>
    sem_active (slot_sem s) = running_in (slot_requests s) \<and>
    (\<forall>k. slot_counts s k = (if in_flight_of k (slot_requests s) = 0 then None else Some (in_flight_of k (slot_requests s))))"

definition slots_bounded :: "semaphore_limits \<Rightarrow> slot_state \<Rightarrow> bool" where
  "slots_bounded L s \<longleftrightarrow>
    running_in (slot_requests s) \<le> sem_max L \<and>
    (sem_queued (slot_sem s) \<noteq> 0 \<longrightarrow> running_in (slot_requests s) = sem_max L) \<and>
    sem_queued (slot_sem s) \<le> sem_max_waiting L \<and>
    length (sem_normal (slot_sem s)) \<le> max_normal_waiting L \<and>
    (\<forall>r \<in> set (slot_requests s). \<forall>k. rq_key r = Some k \<longrightarrow>
       in_flight_of k (slot_requests s) \<le> caller_max (take 5 k = ''user:'') \<and> (rq_signed_in r \<longleftrightarrow> take 5 k = ''user:''))"

definition slots_inv :: "semaphore_limits \<Rightarrow> slot_state \<Rightarrow> bool" where
  "slots_inv L s \<longleftrightarrow> slots_agree s \<and> slots_bounded L s"

fun slot_ok :: "slot_event \<Rightarrow> slot_state \<Rightarrow> bool" where
  "slot_ok (Query_Arrives i c aborted) s = (i \<notin> rq_id ` set (slot_requests s))"
| "slot_ok _ s = True"

lemma waiting_in_append [simp]: "waiting_in b (rs @ qs) = waiting_in b rs @ waiting_in b qs"
  by (simp add: waiting_in_def)

lemma running_in_append [simp]: "running_in (rs @ qs) = running_in rs + running_in qs"
  by (simp add: running_in_def)

lemma in_flight_of_append [simp]: "in_flight_of k (rs @ qs) = in_flight_of k rs + in_flight_of k qs"
  by (simp add: in_flight_of_def)

lemma waiting_in_singles [simp]:
  "waiting_in b [r] = (if rq_phase r = Slot_Waiting \<and> rq_signed_in r = b then [rq_id r] else [])"
  "running_in [r] = (if rq_phase r = Slot_Running then 1 else 0)"
  "in_flight_of k [r] = (if rq_key r = Some k then 1 else 0)"
  "waiting_in b [] = []" "running_in [] = 0" "in_flight_of k [] = 0"
  by (simp_all add: waiting_in_def running_in_def in_flight_of_def)

lemma waiting_in_delete [simp]:
  "waiting_in b (delete_where (\<lambda>q. rq_id q = i) rs) = filter (\<lambda>j. j \<noteq> i) (waiting_in b rs)"
  by (induction rs) (auto simp: waiting_in_def delete_where_def)

lemma waiting_in_start [simp]:
  "waiting_in b (update_where (\<lambda>q. Some (rq_id q) = x) (\<lambda>q. q\<lparr>rq_phase := Slot_Running\<rparr>) rs) =
   filter (\<lambda>j. Some j \<noteq> x) (waiting_in b rs)"
  by (induction rs) (auto simp: waiting_in_def)

lemma in_flight_of_start [simp]:
  "in_flight_of k (update_where P (\<lambda>q. q\<lparr>rq_phase := Slot_Running\<rparr>) rs) = in_flight_of k rs"
  by (induction rs) (auto simp: in_flight_of_def)

lemma map_id_start [simp]: "map rq_id (update_where P (\<lambda>q. q\<lparr>rq_phase := ph\<rparr>) rs) = map rq_id rs"
  by (induction rs) auto

lemma count_delete_one:
  assumes "distinct (map rq_id rs)" "r \<in> set rs"
  shows "count_where P rs = count_where P (delete_where (\<lambda>q. rq_id q = rq_id r) rs) + (if P r then 1 else 0)"
  using assms
proof (induction rs)
  case (Cons q rs)
  show ?case
  proof (cases "q = r")
    case True
    then have "delete_where (\<lambda>q. rq_id q = rq_id r) rs = rs"
      using Cons.prems by (auto simp: delete_where_def filter_id_conv image_iff)
    then show ?thesis using True by (simp add: delete_where_def)
  next
    case False
    then have "rq_id q \<noteq> rq_id r" using Cons.prems by auto
    then show ?thesis using Cons False by (simp add: delete_where_def)
  qed
qed simp

lemma count_start_one:
  assumes "distinct (map rq_id rs)" "r \<in> set rs" "rq_phase r = Slot_Waiting"
  shows "running_in (update_where (\<lambda>q. Some (rq_id q) = Some (rq_id r)) (\<lambda>q. q\<lparr>rq_phase := Slot_Running\<rparr>) rs) = running_in rs + 1"
  using assms
proof (induction rs)
  case (Cons q rs)
  show ?case
  proof (cases "q = r")
    case True
    then have "update_where (\<lambda>q. Some (rq_id q) = Some (rq_id r)) (\<lambda>q. q\<lparr>rq_phase := Slot_Running\<rparr>) rs = rs"
      using Cons.prems by (intro update_where_none) (auto simp: image_iff)
    then show ?thesis using True Cons.prems(3) by (simp add: running_in_def)
  next
    case False
    then have "rq_id q \<noteq> rq_id r" using Cons.prems by auto
    then show ?thesis using Cons False by (simp add: running_in_def)
  qed
qed simp

text \<open>Counting a caller down is the same as not having counted the request.\<close>

definition counts_of :: "slot_request list \<Rightarrow> in_flight" where
  "counts_of rs = (\<lambda>k. if in_flight_of k rs = 0 then None else Some (in_flight_of k rs))"

lemma counts_agree: "(\<forall>k. m k = (if in_flight_of k rs = 0 then None else Some (in_flight_of k rs))) \<longleftrightarrow> m = counts_of rs"
  by (auto simp: counts_of_def)

lemma release_counted:
  assumes "distinct (map rq_id rs)" "r \<in> set rs"
  shows "release_caller (rq_key r) (counts_of rs) = counts_of (delete_where (\<lambda>q. rq_id q = rq_id r) rs)"
proof
  fix k
  have "in_flight_of k rs = in_flight_of k (delete_where (\<lambda>q. rq_id q = rq_id r) rs) + (if rq_key r = Some k then 1 else 0)"
    unfolding in_flight_of_def by (rule count_delete_one [OF assms])
  then show "release_caller (rq_key r) (counts_of rs) k = counts_of (delete_where (\<lambda>q. rq_id q = rq_id r) rs) k"
    by (auto simp: release_caller_def counts_of_def limit_release_def Let_def split: option.splits)
qed

lemma count_counted:
  assumes "count_caller key signed_in (counts_of rs) = Some m"
  shows "m = counts_of (rs @ [r\<lparr>rq_key := key\<rparr>])"
    and "key = Some k \<Longrightarrow> in_flight_of k rs < caller_max signed_in"
proof -
  show "m = counts_of (rs @ [r\<lparr>rq_key := key\<rparr>])"
    using assms by (auto simp: count_caller_def limit_acquire_def counts_of_def Let_def split: option.splits if_splits)
  show "key = Some k \<Longrightarrow> in_flight_of k rs < caller_max signed_in"
    using assms by (auto simp: count_caller_def limit_acquire_def counts_of_def Let_def split: option.splits if_splits)
qed

lemma release_count: "count_caller key b (counts_of rs) = Some m \<Longrightarrow> release_caller key m = counts_of rs"
  by (intro ext) (auto simp: count_caller_def limit_acquire_def release_caller_def limit_release_def counts_of_def Let_def
      split: option.splits if_splits)


lemma caller_key_kind: "caller_key c = Some k \<Longrightarrow> caller_user c \<noteq> [] \<longleftrightarrow> take 5 k = ''user:''"
  by (auto simp: caller_key_def split: if_splits)

lemma slots_agree_counts:
  "slots_agree s \<longleftrightarrow> distinct (map rq_id (slot_requests s)) \<and> sem_high (slot_sem s) = waiting_in True (slot_requests s) \<and>
    sem_normal (slot_sem s) = waiting_in False (slot_requests s) \<and> sem_active (slot_sem s) = running_in (slot_requests s) \<and>
    slot_counts s = counts_of (slot_requests s)"
  unfolding slots_agree_def counts_agree ..

lemma waiting_id: "i \<in> set (waiting_in b rs) \<longleftrightarrow> (\<exists>r \<in> set rs. rq_id r = i \<and> rq_phase r = Slot_Waiting \<and> rq_signed_in r = b)"
  by (auto simp: waiting_in_def)

lemma distinct_waiting: "distinct (map rq_id rs) \<Longrightarrow> distinct (waiting_in b rs)"
  by (auto simp: waiting_in_def intro: distinct_map_filter)

text \<open>The bound on callers, kept whenever a request joins or leaves.\<close>

definition callers_bounded :: "slot_request list \<Rightarrow> bool" where
  "callers_bounded rs \<longleftrightarrow>
    (\<forall>r \<in> set rs. \<forall>k. rq_key r = Some k \<longrightarrow>
       in_flight_of k rs \<le> caller_max (take 5 k = ''user:'') \<and> (rq_signed_in r \<longleftrightarrow> take 5 k = ''user:''))"

lemma callers_bounded_join:
  assumes "callers_bounded rs" "count_caller key b (counts_of rs) = Some m" "\<And>k. key = Some k \<Longrightarrow> b \<longleftrightarrow> take 5 k = ''user:''"
    "rq_key r = key" "rq_signed_in r = b"
  shows "callers_bounded (rs @ [r])"
  unfolding callers_bounded_def
proof (intro ballI allI impI)
  fix q k assume q: "q \<in> set (rs @ [r])" "rq_key q = Some k"
  show "in_flight_of k (rs @ [r]) \<le> caller_max (take 5 k = ''user:'') \<and> (rq_signed_in q \<longleftrightarrow> take 5 k = ''user:'')"
  proof (cases "key = Some k")
    case True
    then have "in_flight_of k rs < caller_max b" using count_counted(2) [OF assms(2)] by blast
    moreover have "rq_signed_in q \<longleftrightarrow> take 5 k = ''user:''"
      using q assms True by (auto simp: callers_bounded_def)
    ultimately show ?thesis using assms(3) [OF True] assms(4) True by simp
  next
    case False
    then have "q \<in> set rs" using q assms(4) by auto
    then show ?thesis using q False assms(1,4) by (auto simp: callers_bounded_def)
  qed
qed

lemma count_delete_le: "count_where P (delete_where Q rs) \<le> count_where P rs"
  by (induction rs) (auto simp: delete_where_def)

lemma callers_bounded_leave: "callers_bounded rs \<Longrightarrow> callers_bounded (delete_where Q rs)"
  unfolding callers_bounded_def in_flight_of_def set_delete_where
  using count_delete_le order_trans by blast

lemma callers_bounded_start:
  assumes "callers_bounded rs"
  shows "callers_bounded (update_where P (\<lambda>q. q\<lparr>rq_phase := Slot_Running\<rparr>) rs)"
  using assms by (auto simp: callers_bounded_def set_update_where)

lemma slots_bounded_callers:
  "slots_bounded L s \<longleftrightarrow>
    running_in (slot_requests s) \<le> sem_max L \<and>
    (sem_queued (slot_sem s) \<noteq> 0 \<longrightarrow> running_in (slot_requests s) = sem_max L) \<and>
    sem_queued (slot_sem s) \<le> sem_max_waiting L \<and>
    length (sem_normal (slot_sem s)) \<le> max_normal_waiting L \<and> callers_bounded (slot_requests s)"
  unfolding slots_bounded_def callers_bounded_def ..

lemma arrive_inv:
  assumes inv: "slots_inv L s" and new: "i \<notin> rq_id ` set (slot_requests s)"
  shows "slots_inv L (snd (slot_arrive L i c aborted s))"
proof -
  let ?rs = "slot_requests s" and ?key = "caller_key c" and ?b = "caller_user c \<noteq> []"
  have a: "distinct (map rq_id ?rs)" "sem_high (slot_sem s) = waiting_in True ?rs" "sem_normal (slot_sem s) = waiting_in False ?rs"
    "sem_active (slot_sem s) = running_in ?rs" "slot_counts s = counts_of ?rs"
    using inv by (simp_all add: slots_inv_def slots_agree_counts)
  have b: "running_in ?rs \<le> sem_max L" "sem_queued (slot_sem s) \<noteq> 0 \<longrightarrow> running_in ?rs = sem_max L"
    "sem_queued (slot_sem s) \<le> sem_max_waiting L" "length (sem_normal (slot_sem s)) \<le> max_normal_waiting L" "callers_bounded ?rs"
    using inv by (simp_all add: slots_inv_def slots_bounded_callers)
  show ?thesis
  proof (cases "count_caller ?key ?b (counts_of ?rs)")
    case None
    then show ?thesis using inv a(5) by (simp add: slot_arrive_def Let_def)
  next
    case (Some m)
    let ?r = "\<lambda>ph. \<lparr>rq_id = i, rq_key = ?key, rq_signed_in = ?b, rq_phase = ph\<rparr>"
    have m: "m = counts_of (?rs @ [?r ph])" for ph using count_counted(1) [OF Some, of "?r ph"] by simp
    have cb: "callers_bounded (?rs @ [?r ph])" for ph
      using callers_bounded_join [OF b(5) Some, of "?r ph"] caller_key_kind by auto
    have d: "distinct (map rq_id (?rs @ [?r ph]))" for ph using a(1) new by auto
    obtain got sem where got: "sem_acquire L aborted (if ?b then High_Priority else Normal_Priority) i (slot_sem s) = (got, sem)" by force
    have s': "slot_arrive L i c aborted s = (got,
                  case got of
                    Slot_Taken \<Rightarrow> s\<lparr>slot_sem := sem, slot_counts := m, slot_requests := ?rs @ [?r Slot_Running]\<rparr>
                  | Slot_Queued \<Rightarrow> s\<lparr>slot_sem := sem, slot_counts := m, slot_requests := ?rs @ [?r Slot_Waiting]\<rparr>
                  | _ \<Rightarrow> s\<lparr>slot_sem := sem, slot_counts := release_caller ?key m\<rparr>)"
      using Some got a(5) by (simp add: slot_arrive_def Let_def)
    show ?thesis
    proof (cases got)
      case Slot_Taken
      then have t: "sem_active (slot_sem s) < sem_max L" "sem = (slot_sem s)\<lparr>sem_active := sem_active (slot_sem s) + 1\<rparr>"
        using got by (auto simp: sem_acquire_def split: if_splits)
      then have "sem_queued (slot_sem s) = 0" using b(2) a(4) by auto
      then show ?thesis using t a b m [of Slot_Running] cb [of Slot_Running] d [of Slot_Running] Slot_Taken
        by (auto simp: s' slots_inv_def slots_agree_counts slots_bounded_callers sem_queued_def)
    next
      case Slot_Queued
      then have t: "sem_max L \<le> sem_active (slot_sem s)" "sem_queued (slot_sem s) < sem_max_waiting L"
        "\<not> ?b \<longrightarrow> length (sem_normal (slot_sem s)) < max_normal_waiting L"
        "sem = (if ?b then (slot_sem s)\<lparr>sem_high := sem_high (slot_sem s) @ [i]\<rparr> else (slot_sem s)\<lparr>sem_normal := sem_normal (slot_sem s) @ [i]\<rparr>)"
        using got by (auto simp: sem_acquire_def split: if_splits)
      then have "running_in ?rs = sem_max L" using b(1) a(4) by simp
      then show ?thesis using t a b m [of Slot_Waiting] cb [of Slot_Waiting] d [of Slot_Waiting] Slot_Queued
        by (auto simp: s' slots_inv_def slots_agree_counts slots_bounded_callers sem_queued_def)
    next
      case Slot_Busy
      then have "sem = slot_sem s" using got by (auto simp: sem_acquire_def split: if_splits)
      then have "snd (slot_arrive L i c aborted s) = s" using Slot_Busy release_count [OF Some] a(5) by (simp add: s')
      then show ?thesis using inv by simp
    next
      case Request_Abandoned
      then have "sem = slot_sem s" using got by (auto simp: sem_acquire_def split: if_splits)
      then have "snd (slot_arrive L i c aborted s) = s" using Request_Abandoned release_count [OF Some] a(5) by (simp add: s')
      then show ?thesis using inv by simp
    qed
  qed
qed


lemma row_of_here: "row_of rq_id rs i = Some r \<Longrightarrow> r \<in> set rs \<and> rq_id r = i"
  by (rule row_of_SomeD)

lemma running_delete:
  assumes "distinct (map rq_id rs)" "r \<in> set rs"
  shows "running_in rs = running_in (delete_where (\<lambda>q. rq_id q = rq_id r) rs) + (if rq_phase r = Slot_Running then 1 else 0)"
  unfolding running_in_def by (rule count_delete_one [OF assms])

lemma not_waiting_filter:
  assumes "distinct (map rq_id rs)" "r \<in> set rs" "rq_phase r = Slot_Running"
  shows "filter (\<lambda>j. j \<noteq> rq_id r) (waiting_in b rs) = waiting_in b rs"
proof -
  have "rq_id r \<notin> set (waiting_in b rs)"
  proof
    assume "rq_id r \<in> set (waiting_in b rs)"
    then obtain q where "q \<in> set rs" "rq_id q = rq_id r" "rq_phase q = Slot_Waiting" by (auto simp: waiting_id)
    then show False using assms by (auto simp: distinct_map inj_on_def)
  qed
  then show ?thesis by (auto simp: filter_id_conv)
qed

text \<open>Who the slot of a request that settles goes to.\<close>

lemma settled_inv:
  assumes inv: "slots_inv L s"
  shows "slots_inv L (slot_settled i s)"
proof (cases "row_of rq_id (slot_requests s) i")
  case None
  then show ?thesis using inv by (simp add: slot_settled_def)
next
  case (Some r)
  let ?rs = "slot_requests s"
  let ?rest = "delete_where (\<lambda>q. rq_id q = i) ?rs"
  have a: "distinct (map rq_id ?rs)" "sem_high (slot_sem s) = waiting_in True ?rs" "sem_normal (slot_sem s) = waiting_in False ?rs"
    "sem_active (slot_sem s) = running_in ?rs" "slot_counts s = counts_of ?rs"
    using inv by (simp_all add: slots_inv_def slots_agree_counts)
  have b: "running_in ?rs \<le> sem_max L" "sem_queued (slot_sem s) \<noteq> 0 \<longrightarrow> running_in ?rs = sem_max L"
    "sem_queued (slot_sem s) \<le> sem_max_waiting L" "length (sem_normal (slot_sem s)) \<le> max_normal_waiting L" "callers_bounded ?rs"
    using inv by (simp_all add: slots_inv_def slots_bounded_callers)
  have r: "r \<in> set ?rs" "rq_id r = i" using row_of_here [OF Some] by simp_all
  show ?thesis
  proof (cases "rq_phase r = Slot_Running")
    case False
    then show ?thesis using inv Some by (simp add: slot_settled_def)
  next
    case True
    obtain x sem where x: "sem_release (slot_sem s) = (x, sem)" by force
    let ?rs' = "update_where (\<lambda>q. Some (rq_id q) = x) (\<lambda>q. q\<lparr>rq_phase := Slot_Running\<rparr>) ?rest"
    have s': "slot_settled i s = \<lparr>slot_sem = sem, slot_counts = counts_of ?rest, slot_requests = ?rs'\<rparr>"
      using Some True x r release_counted [OF a(1) r(1)] a(5) by (simp add: slot_settled_def)
    have w: "waiting_in p ?rest = waiting_in p ?rs" for p
      using not_waiting_filter [OF a(1) r(1) True] r(2) by simp
    have d: "distinct (map rq_id ?rest)" using a(1) by (rule distinct_map_delete_where)
    have run: "running_in ?rs = running_in ?rest + 1" using running_delete [OF a(1) r(1)] r(2) True by simp
    have c: "counts_of ?rs' = counts_of ?rest" by (rule ext) (simp add: counts_of_def)
    have cb: "callers_bounded ?rs'" using b(5) by (intro callers_bounded_start callers_bounded_leave)
    show ?thesis
    proof (cases x)
      case None
      then have q: "waiting_in True ?rs = []" "waiting_in False ?rs = []" "sem = (slot_sem s)\<lparr>sem_active := running_in ?rs - 1\<rparr>"
        using x a run by (auto simp: sem_release_def split: list.splits if_splits)
      moreover have "?rs' = ?rest" using None by (intro update_where_none) simp
      ultimately show ?thesis using s' d run cb c b w a(2,3)
        by (simp add: slots_inv_def slots_agree_counts slots_bounded_callers sem_queued_def None)
    next
      case (Some y)
      have q: "sem_queued (slot_sem s) \<noteq> 0" "sem_queued sem < sem_queued (slot_sem s)" "length (sem_normal sem) \<le> length (sem_normal (slot_sem s))"
        "sem_active sem = sem_active (slot_sem s)"
        "sem_high sem = filter (\<lambda>j. j \<noteq> y) (sem_high (slot_sem s))" "sem_normal sem = filter (\<lambda>j. j \<noteq> y) (sem_normal (slot_sem s))"
        "y \<in> set (sem_high (slot_sem s)) \<or> y \<in> set (sem_normal (slot_sem s))"
      proof -
        have dw: "distinct (waiting_in True ?rs)" "distinct (waiting_in False ?rs)" using distinct_waiting [OF a(1)] by blast+
        have no: "set (waiting_in True ?rs) \<inter> set (waiting_in False ?rs) = {}"
          using a(1) by (auto simp: waiting_id distinct_map inj_on_def) (metis)
        have absent: "y \<notin> set js \<Longrightarrow> filter (\<lambda>j. j \<noteq> y) js = js" for js by (auto simp: filter_id_conv)
        show "sem_queued (slot_sem s) \<noteq> 0" "sem_queued sem < sem_queued (slot_sem s)" "length (sem_normal sem) \<le> length (sem_normal (slot_sem s))"
          "sem_active sem = sem_active (slot_sem s)"
          "sem_high sem = filter (\<lambda>j. j \<noteq> y) (sem_high (slot_sem s))" "sem_normal sem = filter (\<lambda>j. j \<noteq> y) (sem_normal (slot_sem s))"
          "y \<in> set (sem_high (slot_sem s)) \<or> y \<in> set (sem_normal (slot_sem s))"
          using x Some dw no a(2,3) by (auto simp: sem_release_def sem_queued_def absent split: list.splits if_splits)
      qed
      have "y \<in> set (waiting_in True ?rest) \<union> set (waiting_in False ?rest)" using q(7) a(2,3) w by auto
      then obtain t where t: "t \<in> set ?rest" "rq_id t = y" "rq_phase t = Slot_Waiting" by (auto simp only: waiting_id Un_iff)
      have "running_in ?rs' = running_in ?rest + 1" using count_start_one [OF d t(1,3)] t(2) Some by simp
      then have "running_in ?rs' = running_in ?rs" using run by simp
      moreover have "sem_high sem = waiting_in True ?rs'" "sem_normal sem = waiting_in False ?rs'"
        unfolding waiting_in_start w using q(5,6) a(2,3) Some by simp_all
      moreover have "distinct (map rq_id ?rs')" using d by simp
      moreover have "sem_queued sem \<le> sem_max_waiting L" "length (sem_normal sem) \<le> max_normal_waiting L"
        "running_in ?rs = sem_max L" using q(1-3) b(2-4) by simp_all
      ultimately show ?thesis using s' cb c a(4) q(4)
        by (simp only: slots_inv_def slots_agree_counts slots_bounded_callers slot_state.simps simp_thms order_refl)
    qed
  qed
qed

lemma given_up_inv:
  assumes inv: "slots_inv L s"
  shows "slots_inv L (slot_given_up i s)"
proof (cases "row_of rq_id (slot_requests s) i")
  case None
  then show ?thesis using inv by (simp add: slot_given_up_def)
next
  case (Some r)
  let ?rs = "slot_requests s"
  let ?rest = "delete_where (\<lambda>q. rq_id q = i) ?rs"
  have a: "distinct (map rq_id ?rs)" "sem_high (slot_sem s) = waiting_in True ?rs" "sem_normal (slot_sem s) = waiting_in False ?rs"
    "sem_active (slot_sem s) = running_in ?rs" "slot_counts s = counts_of ?rs"
    using inv by (simp_all add: slots_inv_def slots_agree_counts)
  have b: "running_in ?rs \<le> sem_max L" "sem_queued (slot_sem s) \<noteq> 0 \<longrightarrow> running_in ?rs = sem_max L"
    "sem_queued (slot_sem s) \<le> sem_max_waiting L" "length (sem_normal (slot_sem s)) \<le> max_normal_waiting L" "callers_bounded ?rs"
    using inv by (simp_all add: slots_inv_def slots_bounded_callers)
  have r: "r \<in> set ?rs" "rq_id r = i" using row_of_here [OF Some] by simp_all
  show ?thesis
  proof (cases "rq_phase r = Slot_Waiting")
    case False
    then show ?thesis using inv Some by (simp add: slot_given_up_def)
  next
    case True
    have s': "slot_given_up i s = \<lparr>slot_sem = sem_drop i (slot_sem s), slot_counts = counts_of ?rest, slot_requests = ?rest\<rparr>"
      using Some True r release_counted [OF a(1) r(1)] a(5) by (simp add: slot_given_up_def)
    have rm: "remove1 i (waiting_in p ?rs) = waiting_in p ?rest" for p
      using distinct_waiting [OF a(1)] by (simp add: distinct_remove1_removeAll removeAll_filter_not_eq) (metis (mono_tags))
    have len: "sem_queued (sem_drop i (slot_sem s)) \<le> sem_queued (slot_sem s)"
      "length (sem_normal (sem_drop i (slot_sem s))) \<le> length (sem_normal (slot_sem s))"
      by (auto simp: sem_drop_def sem_queued_def length_remove1 intro: add_mono)
    have "sem_queued (sem_drop i (slot_sem s)) \<le> sem_max_waiting L" "length (sem_normal (sem_drop i (slot_sem s))) \<le> max_normal_waiting L"
      "sem_queued (sem_drop i (slot_sem s)) \<noteq> 0 \<longrightarrow> running_in ?rs = sem_max L"
      using len b(2-4) by linarith+
    note bounds = this
    have "running_in ?rs = running_in ?rest" using running_delete [OF a(1) r(1)] r(2) True by simp
    moreover have "distinct (map rq_id ?rest)" using a(1) by (rule distinct_map_delete_where)
    moreover have "callers_bounded ?rest" using b(5) by (rule callers_bounded_leave)
    moreover have "sem_high (sem_drop i (slot_sem s)) = waiting_in True ?rest" "sem_normal (sem_drop i (slot_sem s)) = waiting_in False ?rest"
      "sem_active (sem_drop i (slot_sem s)) = running_in ?rs"
      using a(2-4) rm by (simp_all add: sem_drop_def)
    ultimately show ?thesis using s' b(1) bounds by (simp only: slots_inv_def slots_agree_counts slots_bounded_callers slot_state.simps simp_thms)
  qed
qed

interpretation slot_machine: machine "slot_step L" "slots_inv L" slot_ok for L
proof unfold_locales
  show "slots_inv L s \<Longrightarrow> slot_ok e s \<Longrightarrow> slots_inv L (slot_step L e s)" for e s
    by (cases e) (auto intro: arrive_inv settled_inv given_up_inv)
qed

lemma slots_free_inv: "slots_inv L slots_free"
  by (simp add: slots_inv_def slots_agree_def slots_bounded_def slots_free_def sem_queued_def)

subsection \<open>Who is served next\<close>

definition is_running :: "nat \<Rightarrow> slot_state \<Rightarrow> bool" where
  "is_running i s = (\<exists>r. row_of rq_id (slot_requests s) i = Some r \<and> rq_phase r = Slot_Running)"

text \<open>The settlings among the events that really end a running query.\<close>

fun settlings :: "semaphore_limits \<Rightarrow> slot_event list \<Rightarrow> slot_state \<Rightarrow> nat" where
  "settlings L [] s = 0"
| "settlings L (e # es) s =
    (case e of Query_Settles i \<Rightarrow> if is_running i s then 1 else 0 | _ \<Rightarrow> 0) + settlings L es (slot_step L e s)"

lemma arrive_high:
  "sem_high (slot_sem s) = xs @ w # ys \<Longrightarrow> \<exists>zs. sem_high (slot_sem (snd (slot_arrive L i c aborted s))) = xs @ w # zs"
  by (auto simp: slot_arrive_def sem_acquire_def Let_def split: option.splits acquired.splits priority.splits)

lemma given_up_high:
  assumes "sem_high (slot_sem s) = xs @ w # ys" "i \<noteq> w"
  shows "\<exists>us zs. sem_high (slot_sem (slot_given_up i s)) = us @ w # zs \<and> length us \<le> length xs"
proof -
  have "remove1 i (xs @ w # ys) = (if i \<in> set xs then remove1 i xs @ w # ys else xs @ w # remove1 i ys)"
    using assms(2) by (auto simp: remove1_append)
  moreover have "length (remove1 i xs) \<le> length xs" by (auto simp: length_remove1)
  ultimately show ?thesis using assms(1)
    by (auto simp: slot_given_up_def sem_drop_def split: option.splits)
qed

lemma settled_high:
  assumes inv: "slots_inv L s" and high: "sem_high (slot_sem s) = xs @ w # ys" and run: "is_running i s"
  shows "is_running w (slot_settled i s) \<or>
    (\<exists>us zs. sem_high (slot_sem (slot_settled i s)) = us @ w # zs \<and> Suc (length us) = length xs)"
proof (cases xs)
  case Nil
  obtain r where r: "row_of rq_id (slot_requests s) i = Some r" "rq_phase r = Slot_Running" using run by (auto simp: is_running_def)
  have a: "distinct (map rq_id (slot_requests s))" "sem_high (slot_sem s) = waiting_in True (slot_requests s)"
    using inv by (simp_all add: slots_inv_def slots_agree_counts)
  moreover have "w \<in> set (sem_high (slot_sem s))" using high by simp
  ultimately obtain t where t: "t \<in> set (slot_requests s)" "rq_id t = w" "rq_phase t = Slot_Waiting"
    using waiting_id [of w True "slot_requests s"] by auto
  have "r \<in> set (slot_requests s)" "rq_id r = i" using row_of_here [OF r(1)] by auto
  then have "w \<noteq> i" using t r a(1) by (auto simp: distinct_map inj_on_def)
  have rel: "sem_release (slot_sem s) = (Some w, (slot_sem s)\<lparr>sem_high := ys\<rparr>)" using high Nil by (simp add: sem_release_def)
  have d: "distinct (map rq_id (delete_where (\<lambda>q. rq_id q = i) (slot_requests s)))" using a(1) by (rule distinct_map_delete_where)
  let ?rs = "update_where (\<lambda>q. Some (rq_id q) = Some w) (\<lambda>q. q\<lparr>rq_phase := Slot_Running\<rparr>) (delete_where (\<lambda>q. rq_id q = i) (slot_requests s))"
  have "t\<lparr>rq_phase := Slot_Running\<rparr> \<in> set ?rs" using t \<open>w \<noteq> i\<close> by (auto simp: set_update_where set_delete_where)
  moreover have "distinct (map rq_id ?rs)" using d by simp
  ultimately have "row_of rq_id ?rs w = Some (t\<lparr>rq_phase := Slot_Running\<rparr>)"
    using row_of_distinct [of rq_id ?rs "t\<lparr>rq_phase := Slot_Running\<rparr>"] t(2) by simp
  then show ?thesis using r rel by (simp add: is_running_def slot_settled_def)
next
  case (Cons x us)
  then have "sem_release (slot_sem s) = (Some x, (slot_sem s)\<lparr>sem_high := us @ w # ys\<rparr>)" using high by (simp add: sem_release_def)
  then have "sem_high (slot_sem (slot_settled i s)) = us @ w # ys" using run by (auto simp: is_running_def slot_settled_def)
  moreover have "Suc (length us) = length xs" using Cons by simp
  ultimately show ?thesis by blast
qed

lemma step_high:
  assumes "slots_inv L s" "sem_high (slot_sem s) = xs @ w # ys" "e \<noteq> Wait_Runs_Out w" "e \<noteq> Caller_Leaves w"
  shows "is_running w (slot_step L e s) \<or>
    (\<exists>us zs. sem_high (slot_sem (slot_step L e s)) = us @ w # zs \<and>
       length us + (case e of Query_Settles i \<Rightarrow> if is_running i s then 1 else 0 | _ \<Rightarrow> 0) \<le> length xs)"
proof (cases e)
  case (Query_Arrives i c aborted)
  then show ?thesis using arrive_high [OF assms(2), of L i c aborted] by auto
next
  case (Query_Settles i)
  show ?thesis
  proof (cases "is_running i s")
    case True
    then show ?thesis using settled_high [OF assms(1,2) True] Query_Settles by fastforce
  next
    case False
    then have "slot_settled i s = s" by (auto simp: is_running_def slot_settled_def split: option.splits)
    then show ?thesis using assms(2) Query_Settles False by auto
  qed
qed (use assms given_up_high [OF assms(2)] in auto)

lemma high_served:
  "slots_inv L s \<Longrightarrow> steps_ok slot_ok (slot_step L) es s \<Longrightarrow> sem_high (slot_sem s) = xs @ w # ys \<Longrightarrow>
   Wait_Runs_Out w \<notin> set es \<Longrightarrow> Caller_Leaves w \<notin> set es \<Longrightarrow> length xs < settlings L es s \<Longrightarrow>
   \<exists>as bs. es = as @ bs \<and> is_running w (run_steps (slot_step L) as s)"
proof (induction es arbitrary: s xs ys)
  case (Cons e es)
  have inv: "slots_inv L (slot_step L e s)" using Cons.prems(1,2) slot_machine.inv_step by simp
  have "e \<noteq> Wait_Runs_Out w" "e \<noteq> Caller_Leaves w" using Cons.prems(4,5) by auto
  from step_high [OF Cons.prems(1,3) this] show ?case
  proof (elim disjE exE conjE)
    assume "is_running w (slot_step L e s)"
    then show ?thesis by (intro exI [of _ "[e]"] exI [of _ es]) simp
  next
    fix us zs
    assume us: "sem_high (slot_sem (slot_step L e s)) = us @ w # zs"
      "length us + (case e of Query_Settles i \<Rightarrow> if is_running i s then 1 else 0 | _ \<Rightarrow> 0) \<le> length xs"
    then have "length us < settlings L es (slot_step L e s)" using Cons.prems(6) by (simp only: settlings.simps)
    then obtain as bs where "es = as @ bs" "is_running w (run_steps (slot_step L) as (slot_step L e s))"
      using Cons.IH [OF inv _ us(1)] Cons.prems(2,4,5) by auto
    then show ?thesis by (intro exI [of _ "e # as"] exI [of _ bs]) simp
  qed
qed simp

subsection \<open>The workers of a pool\<close>

definition pool_inv :: "(nat \<Rightarrow> 'e + 'r) \<Rightarrow> nat \<Rightarrow> nat \<Rightarrow> ('r, 'e) pool \<Rightarrow> bool" where
  "pool_inv f limit items p \<longleftrightarrow>
    length (pool_workers p) = min limit items \<and>
    (\<forall>k < length (pool_workers p). \<forall>i. pool_workers p ! k = Worker_On i \<longrightarrow> i < pool_next p \<and> i < items \<and> pool_results p i = None) \<and>
    (\<forall>k < length (pool_workers p). \<forall>j < length (pool_workers p). \<forall>i.
       pool_workers p ! k = Worker_On i \<longrightarrow> pool_workers p ! j = Worker_On i \<longrightarrow> k = j) \<and>
    (\<forall>e. pool_failure p = Some e \<longrightarrow> (\<exists>i < items. f i = Inl e)) \<and>
    (\<forall>i r. pool_results p i = Some r \<longrightarrow> i < pool_next p \<and> f i = Inr r) \<and>
    (pool_failure p = None \<longrightarrow>
       (\<forall>i < items. i < pool_next p \<longrightarrow> pool_results p i \<noteq> None \<or> Worker_On i \<in> set (pool_workers p)) \<and>
       (Worker_Gone \<in> set (pool_workers p) \<longrightarrow> items \<le> pool_next p))"

text \<open>What a call of \<open>fn\<close> settles with is its outcome for the item.\<close>

fun pool_ok :: "(nat \<Rightarrow> 'e + 'r) \<Rightarrow> ('r, 'e) pool_event \<Rightarrow> ('r, 'e) pool \<Rightarrow> bool" where
  "pool_ok f (Settles k outcome) p = (\<forall>i. k < length (pool_workers p) \<longrightarrow> pool_workers p ! k = Worker_On i \<longrightarrow> outcome = f i)"
| "pool_ok f (Looks k) p = True"

lemma pool_invD:
  assumes "pool_inv f limit items p"
  shows "length (pool_workers p) = min limit items"
    and "k < length (pool_workers p) \<Longrightarrow> pool_workers p ! k = Worker_On i \<Longrightarrow> i < pool_next p \<and> i < items \<and> pool_results p i = None"
    and "k < length (pool_workers p) \<Longrightarrow> j < length (pool_workers p) \<Longrightarrow> pool_workers p ! k = Worker_On i \<Longrightarrow>
      pool_workers p ! j = Worker_On i \<Longrightarrow> k = j"
    and "pool_failure p = Some e \<Longrightarrow> \<exists>i < items. f i = Inl e"
    and "pool_results p i = Some r \<Longrightarrow> i < pool_next p \<and> f i = Inr r"
    and "pool_failure p = None \<Longrightarrow> i < items \<Longrightarrow> i < pool_next p \<Longrightarrow> pool_results p i \<noteq> None \<or> Worker_On i \<in> set (pool_workers p)"
    and "pool_failure p = None \<Longrightarrow> Worker_Gone \<in> set (pool_workers p) \<Longrightarrow> items \<le> pool_next p"
  using assms unfolding pool_inv_def by blast+

lemma set_update_other: "k < length xs \<Longrightarrow> y \<in> set xs \<Longrightarrow> y \<noteq> xs ! k \<Longrightarrow> y \<in> set (xs[k := x])"
  by (metis in_set_conv_nth length_list_update nth_list_update_neq)

lemma set_update_new: "y \<in> set (xs[k := x]) \<Longrightarrow> y = x \<or> y \<in> set xs"
  using set_update_subset_insert [of xs k x] by auto

text \<open>After a failure a worker only ever stops, so nothing new is in flight.\<close>

lemma failed_inv:
  assumes inv: "pool_inv f limit items p" and w: "w = Worker_Idle \<or> w = Worker_Gone"
    and p': "pool_workers p' = (pool_workers p)[k := w]" "pool_next p' = pool_next p" "pool_results p' = pool_results p"
      "pool_failure p' = Some e" and e: "\<exists>i < items. f i = Inl e"
  shows "pool_inv f limit items p'"
  unfolding pool_inv_def p'
proof (intro conjI allI impI)
  note D = pool_invD [OF inv]
  show "length ((pool_workers p)[k := w]) = min limit items" using D(1) by simp
  have other: "j < length (pool_workers p) \<Longrightarrow> (pool_workers p)[k := w] ! j = Worker_On i \<Longrightarrow> pool_workers p ! j = Worker_On i" for j i
    using w by (cases "j = k") auto
  fix j i assume "j < length ((pool_workers p)[k := w])" "(pool_workers p)[k := w] ! j = Worker_On i"
  then have j: "j < length (pool_workers p)" "pool_workers p ! j = Worker_On i" using other by auto
  then show "i < pool_next p" "i < items" "pool_results p i = None" using D(2) by blast+
  fix l assume "l < length ((pool_workers p)[k := w])" "(pool_workers p)[k := w] ! l = Worker_On i"
  then show "j = l" using j other D(3) by simp
next
  fix i r assume "pool_results p i = Some r"
  then show "i < pool_next p" "f i = Inr r" using pool_invD(5) [OF inv] by blast+
qed (use e in auto)

lemma looks_inv:
  assumes inv: "pool_inv f limit items p"
  shows "pool_inv f limit items (worker_looks items k p)"
proof (cases "k < length (pool_workers p) \<and> pool_workers p ! k = Worker_Idle")
  case False
  then show ?thesis using inv unfolding worker_looks_def if_not_P [OF False] by blast
next
  case True
  note D = pool_invD [OF inv]
  show ?thesis
  proof (cases "pool_failure p = None")
    case False
    then have "worker_looks items k p = p\<lparr>pool_workers := (pool_workers p)[k := Worker_Gone]\<rparr>"
      using True by (simp add: worker_looks_def)
    moreover obtain e where "pool_failure p = Some e" using False by auto
    ultimately show ?thesis using D(4) by (intro failed_inv [OF inv, of Worker_Gone _ k e]) simp_all
  next
    case none: True
    let ?w = "if items \<le> pool_next p then Worker_Gone else Worker_On (pool_next p)"
    have p': "worker_looks items k p = p\<lparr>pool_next := pool_next p + 1, pool_workers := (pool_workers p)[k := ?w]\<rparr>"
      using True none by (simp add: worker_looks_def Let_def)
    have free: "pool_results p (pool_next p) = None" using D(5) [of "pool_next p"] by (cases "pool_results p (pool_next p)") auto
    have fresh: "j < length (pool_workers p) \<Longrightarrow> pool_workers p ! j \<noteq> Worker_On (pool_next p)" for j using D(2) by blast
    show ?thesis unfolding pool_inv_def
    proof (intro conjI allI impI)
      show "length (pool_workers (worker_looks items k p)) = min limit items" using D(1) p' by simp
    next
      fix j i assume j: "j < length (pool_workers (worker_looks items k p))" "pool_workers (worker_looks items k p) ! j = Worker_On i"
      then show "i < pool_next (worker_looks items k p)" "i < items" "pool_results (worker_looks items k p) i = None"
        using D(2) [of j i] True p' free by (auto simp: nth_list_update split: if_splits)
    next
      fix j l i assume "j < length (pool_workers (worker_looks items k p))" "l < length (pool_workers (worker_looks items k p))"
        "pool_workers (worker_looks items k p) ! j = Worker_On i" "pool_workers (worker_looks items k p) ! l = Worker_On i"
      then show "j = l" using D(3) [of j l i] True p' fresh [of j] fresh [of l] by (auto simp: nth_list_update split: if_splits)
    next
      fix e assume "pool_failure (worker_looks items k p) = Some e"
      then show "\<exists>i < items. f i = Inl e" using p' none by simp
    next
      fix i r assume "pool_results (worker_looks items k p) i = Some r"
      then show "i < pool_next (worker_looks items k p)" "f i = Inr r" using D(5) p' by fastforce+
    next
      fix i assume i: "i < items" "i < pool_next (worker_looks items k p)"
      show "pool_results (worker_looks items k p) i \<noteq> None \<or> Worker_On i \<in> set (pool_workers (worker_looks items k p))"
      proof (cases "i = pool_next p")
        case True2: True
        then show ?thesis using i p' True by (simp add: set_update_memI)
      next
        case False
        then show ?thesis using D(6) [OF none i(1)] i p' True set_update_other [of k "pool_workers p" "Worker_On i" ?w] by auto
      qed
    next
      assume "Worker_Gone \<in> set (pool_workers (worker_looks items k p))"
      then show "items \<le> pool_next (worker_looks items k p)"
        using D(7) [OF none] p' set_update_new [of Worker_Gone "pool_workers p" k ?w] by (auto split: if_splits)
    qed
  qed
qed

lemma item_settles_inv:
  assumes inv: "pool_inv f limit items p" and ok: "pool_ok f (Settles k outcome) p"
  shows "pool_inv f limit items (item_settles k outcome p)"
proof (cases "k < length (pool_workers p) \<and> (\<exists>i. pool_workers p ! k = Worker_On i)")
  case False
  then have "item_settles k outcome p = p" by (auto simp: item_settles_def split: pool_worker.splits)
  then show ?thesis using inv by simp
next
  case True
  then obtain i where i: "k < length (pool_workers p)" "pool_workers p ! k = Worker_On i" by blast
  note D = pool_invD [OF inv]
  have o: "outcome = f i" using ok i by simp
  have here: "i < pool_next p" "i < items" "pool_results p i = None" using D(2) [OF i] by auto
  have only: "j < length (pool_workers p) \<Longrightarrow> j \<noteq> k \<Longrightarrow> pool_workers p ! j \<noteq> Worker_On i" for j using D(3) [OF _ i(1) _ i(2)] by blast
  have stays: "Worker_On j \<in> set ((pool_workers p)[k := Worker_Idle])" if "Worker_On j \<in> set (pool_workers p)" "j \<noteq> i" for j
    using set_update_other [OF i(1) that(1)] i(2) that(2) by simp
  have gone: "Worker_Gone \<in> set ((pool_workers p)[k := Worker_Idle]) \<Longrightarrow> Worker_Gone \<in> set (pool_workers p)"
    using set_update_new [of Worker_Gone "pool_workers p" k Worker_Idle] by simp
  show ?thesis
  proof (cases outcome)
    case (Inl e)
    then have "item_settles k outcome p =
        p\<lparr>pool_failure := (case pool_failure p of None \<Rightarrow> Some e | Some g \<Rightarrow> Some g), pool_workers := (pool_workers p)[k := Worker_Idle]\<rparr>"
      using i by (simp add: item_settles_def)
    then have p': "pool_workers (item_settles k outcome p) = (pool_workers p)[k := Worker_Idle]"
      "pool_next (item_settles k outcome p) = pool_next p" "pool_results (item_settles k outcome p) = pool_results p"
      "pool_failure (item_settles k outcome p) = Some (case pool_failure p of None \<Rightarrow> e | Some g \<Rightarrow> g)"
      by (simp_all split: option.splits)
    have "\<exists>i < items. f i = Inl (case pool_failure p of None \<Rightarrow> e | Some g \<Rightarrow> g)"
      using D(4) here(2) Inl o by (cases "pool_failure p") auto
    then show ?thesis using p' by (intro failed_inv [OF inv, of Worker_Idle]) simp_all
  next
    case (Inr r)
    then have "item_settles k outcome p =
        p\<lparr>pool_results := (pool_results p)(i \<mapsto> r), pool_workers := (pool_workers p)[k := Worker_Idle]\<rparr>"
      using i by (simp add: item_settles_def)
    then have p': "pool_workers (item_settles k outcome p) = (pool_workers p)[k := Worker_Idle]"
      "pool_next (item_settles k outcome p) = pool_next p" "pool_results (item_settles k outcome p) = (pool_results p)(i \<mapsto> r)"
      "pool_failure (item_settles k outcome p) = pool_failure p"
      by simp_all
    show ?thesis unfolding pool_inv_def p'
    proof (intro conjI allI impI)
      fix j l assume j: "j < length ((pool_workers p)[k := Worker_Idle])" "(pool_workers p)[k := Worker_Idle] ! j = Worker_On l"
      then have "pool_workers p ! j = Worker_On l" "j \<noteq> k" by (cases "j = k"; simp)+
      then show "l < pool_next p" "l < items" "((pool_results p)(i \<mapsto> r)) l = None"
        using D(2) [of j l] only [of j] j(1) by auto
    next
      fix j l m
      assume "j < length ((pool_workers p)[k := Worker_Idle])" "l < length ((pool_workers p)[k := Worker_Idle])"
        "(pool_workers p)[k := Worker_Idle] ! j = Worker_On m" "(pool_workers p)[k := Worker_Idle] ! l = Worker_On m"
      then have "j < length (pool_workers p)" "l < length (pool_workers p)" "pool_workers p ! j = Worker_On m" "pool_workers p ! l = Worker_On m"
        by (cases "j = k"; cases "l = k"; simp)+
      then show "j = l" using D(3) by blast
    next
      fix j assume "pool_failure p = None" "j < items" "j < pool_next p"
      then show "((pool_results p)(i \<mapsto> r)) j \<noteq> None \<or> Worker_On j \<in> set ((pool_workers p)[k := Worker_Idle])"
        using D(6) [of j] stays [of j] by auto
    next
      assume "pool_failure p = None" "Worker_Gone \<in> set ((pool_workers p)[k := Worker_Idle])"
      then show "items \<le> pool_next p" using D(7) gone by blast
    next
      fix j x assume "((pool_results p)(i \<mapsto> r)) j = Some x"
      then show "j < pool_next p" "f j = Inr x" using D(5) [of j x] here(1) o Inr by (auto split: if_splits)
    qed (use D(1,4) in auto)
  qed
qed

interpretation pool_machine: machine "pool_step items" "pool_inv f limit items" "pool_ok f" for items limit f
proof unfold_locales
  show "pool_inv f limit items p \<Longrightarrow> pool_ok f e p \<Longrightarrow> pool_inv f limit items (pool_step items e p)" for e p
    by (cases e) (auto intro: looks_inv item_settles_inv)
qed

lemma pool_start_inv: "pool_inv f limit items (pool_start limit items)"
  by (auto simp: pool_inv_def pool_start_def)

end
