(* ===== verification/Limit_Guarantees.thy ===== *)
theory Limit_Guarantees
  imports Limit_Facts
begin

text \<open>
  The properties of the limits on what one process takes on.
\<close>

subsection \<open>Who is counted together\<close>

definition byte_text :: "8 word \<Rightarrow> string" where
  "byte_text b = number_text 10 (unat b)"

lemma byte_text_digits: "list_all (\<lambda>c. digit_value c \<noteq> None) (byte_text b)" "number_in 10 digit_value (byte_text b) = unat b"
  using number_text_reads [of 10 digit_value 0 "unat b", OF _ decimal_digits] by (simp_all add: byte_text_def)

lemma byte_text_marks: "CHR ''.'' \<notin> set (byte_text b)" "CHR ''/'' \<notin> set (byte_text b)"
  using byte_text_digits(1) [of b]
  by (auto simp: list_all_iff digit_value_def char_code_def of_char_def Let_def)

lemma byte_text_inj: "inj byte_text"
  by (rule injI) (metis byte_text_digits(2) word_unat_eq_iff)

lemma join_bytes_inj:
  assumes "xs \<noteq> []" "ys \<noteq> []"
  shows "join_with ''.'' (map byte_text xs) = join_with ''.'' (map byte_text ys) \<longleftrightarrow> xs = ys"
proof
  assume "join_with ''.'' (map byte_text xs) = join_with ''.'' (map byte_text ys)"
  then have "split_on CHR ''.'' (join_with ''.'' (map byte_text xs)) = split_on CHR ''.'' (join_with ''.'' (map byte_text ys))"
    by simp
  then have "map byte_text xs = map byte_text ys"
    using assms byte_text_marks by (subst (asm) (1 2) split_join) auto
  then show "xs = ys" using byte_text_inj by (simp add: inj_map_eq_map)
qed simp

lemma join_bytes_slash: "CHR ''/'' \<notin> set (join_with ''.'' (map byte_text xs))"
  using set_join_with [of "''.''" "map byte_text xs"] byte_text_marks by auto

lemma ip_bucket_bytes:
  assumes "address_bytes ip = Some bs" "bs \<noteq> []"
  shows "ip_bucket ip =
    Some (if length bs = 4 then join_with ''.'' (map byte_text bs) else join_with ''.'' (map byte_text (take 8 bs)) @ ''/64'')"
proof -
  have key: "address_key ip = Some (join_with ''.'' (map byte_text bs))"
  proof -
    have "byte_text = (\<lambda>b. number_text 10 (unat b))" by (rule ext) (simp add: byte_text_def)
    then show ?thesis using assms by (simp add: address_key_def)
  qed
  have "split_on CHR ''.'' (join_with ''.'' (map byte_text bs)) = map byte_text bs"
    using assms(2) byte_text_marks by (intro split_join) auto
  then show ?thesis by (simp add: ip_bucket_def key Let_def take_map)
qed

lemma bucket_shared:
  assumes "address_bytes a = Some x" "address_bytes b = Some y" "length x = 4 \<or> length x = 16" "length y = 4 \<or> length y = 16"
  shows "ip_bucket a = ip_bucket b \<longleftrightarrow> length x = length y \<and> take 8 x = take 8 y"
proof -
  have ne: "x \<noteq> []" "y \<noteq> []" "take 8 x \<noteq> []" "take 8 y \<noteq> []" using assms(3,4) by auto
  have slash: "join_with ''.'' (map byte_text u) \<noteq> join_with ''.'' (map byte_text v) @ ''/64''" for u v
    using join_bytes_slash [of u] by (metis Un_iff list.set_intros(1) set_append)
  show ?thesis
    using ip_bucket_bytes [OF assms(1) ne(1)] ip_bucket_bytes [OF assms(2) ne(2)] join_bytes_inj [OF ne(1,2)]
      join_bytes_inj [OF ne(3,4)] slash [of x "take 8 y"] slash [of y "take 8 x"] assms(3,4)
    by (auto simp del: map_map)
qed

subsection \<open>The guarantees\<close>

text \<open>
  C26. Requests without a user are counted together exactly when they come from one
  IPv4 address, however it is written and also carried inside IPv6, or from one IPv6
  /64; and never together with a signed-in user's.
\<close>

theorem callers_counted_together:
  assumes "caller_user a = []" "caller_user b = []" "names_address (caller_ip a) x" "names_address (caller_ip b) y"
    "caller_user c \<noteq> []"
  shows "(caller_key a = caller_key b \<longleftrightarrow> length (carried x) = length (carried y) \<and> take 8 (carried x) = take 8 (carried y)) \<and>
    caller_key a \<noteq> None \<and> caller_key a \<noteq> caller_key c"
proof -
  have bytes: "address_bytes (caller_ip a) = Some (carried x)" "address_bytes (caller_ip b) = Some (carried y)"
    using assms(3,4) address_bytes_iff by blast+
  have len: "length (carried x) = 4 \<or> length (carried x) = 16" "length (carried y) = 4 \<or> length (carried y) = 16"
    using carried_length [OF names_length [OF assms(3)]] carried_length [OF names_length [OF assms(4)]] by blast+
  have "caller_ip a \<noteq> []" "caller_ip b \<noteq> []"
    using bytes by (auto simp: address_bytes_bare bare_address_def text_reading)
  moreover have "carried x \<noteq> []" "carried y \<noteq> []" using len by auto
  then have "ip_bucket (caller_ip a) \<noteq> None" "ip_bucket (caller_ip b) \<noteq> None"
    using ip_bucket_bytes [OF bytes(1)] ip_bucket_bytes [OF bytes(2)] by simp_all
  ultimately show ?thesis
    using bucket_shared [OF bytes len] assms(1,2,5) by (auto simp: caller_key_def)
qed

lemma callers_counted_together_witness:
  "caller_key \<lparr>caller_user = [], caller_ip = ''10.0.0.5''\<rparr> = caller_key \<lparr>caller_user = [], caller_ip = ''::ffff:a00:5''\<rparr>"
proof -
  have "address_bytes ''10.0.0.5'' = Some [10, 0, 0, 5]" "parse_ipv6 ''::ffff:a00:5'' = Some [0, 0, 0, 0, 0, 0, 0, 0, 0, 0, 255, 255, 10, 0, 0, 5]"
    "parse_ipv4 ''10.0.0.5'' = Some [10, 0, 0, 5]"
    by (simp_all add: address_bytes_bare bare_address_def text_reading)
  then have n: "names_address ''10.0.0.5'' [10, 0, 0, 5]" "names_address ''::ffff:a00:5'' [0, 0, 0, 0, 0, 0, 0, 0, 0, 0, 255, 255, 10, 0, 0, 5]"
    by (simp_all add: names_address_bare bare_address_def parse_ipv4_iff [symmetric] parse_ipv6_iff [symmetric])
  have "carried [10, 0, 0, 5] = [10, 0, 0, 5]" "carried [0, 0, 0, 0, 0, 0, 0, 0, 0, 0, 255, 255, 10, 0, 0, 5] = [10, 0, 0, 5]"
    by (simp_all add: carried_def address_value_eval)
  then show ?thesis
    using callers_counted_together [of "\<lparr>caller_user = [], caller_ip = ''10.0.0.5''\<rparr>" "\<lparr>caller_user = [], caller_ip = ''::ffff:a00:5''\<rparr>"
        _ _ "\<lparr>caller_user = ''u'', caller_ip = []\<rparr>"] n by fastforce
qed

text \<open>
  C23. Whatever arrives, settles, times out or goes away: no more queries run than there
  are slots, none waits while a slot is free, each queue is the waiting requests of its
  priority in the order they came and within its depth, anonymous ones keep to their
  share of it, and no caller has more in flight, running or waiting, than its cap.
\<close>

theorem slots_shared_out:
  assumes "steps_ok slot_ok (slot_step L) es slots_free" "s = run_steps (slot_step L) es slots_free"
  shows "slots_agree s \<and> slots_bounded L s"
  using slot_machine.inv_run [OF slots_free_inv assms(1)] assms(2) by (simp add: slots_inv_def)

lemma slots_shared_out_witness:
  "slots_bounded duckdb_limits (run_steps (slot_step duckdb_limits)
     [Query_Arrives 1 \<lparr>caller_user = ''u'', caller_ip = []\<rparr> False, Query_Arrives 2 \<lparr>caller_user = ''v'', caller_ip = []\<rparr> False,
      Query_Settles 1] slots_free)"
proof -
  have "steps_ok slot_ok (slot_step duckdb_limits)
     [Query_Arrives 1 \<lparr>caller_user = ''u'', caller_ip = []\<rparr> False, Query_Arrives 2 \<lparr>caller_user = ''v'', caller_ip = []\<rparr> False,
      Query_Settles 1] slots_free"
    by (simp add: slots_free_def slot_arrive_def caller_key_def count_caller_def limit_acquire_def caller_max_def
        QUERY_CALLER_MAX_SIGNED_IN_def sem_acquire_def duckdb_limits_def QUERY_MAX_CONCURRENT_def)
  from slots_shared_out [OF this refl] show ?thesis by blast
qed

text \<open>
  C24. A signed-in caller's wait is bounded by those ahead of it: one with \<open>n\<close> signed-in
  waiters before it has the slot by the time \<open>n + 1\<close> running queries have settled,
  whoever else arrives meanwhile, unless its own wait runs out or it leaves.
\<close>

theorem signed_in_waiter_served:
  assumes "steps_ok slot_ok (slot_step L) (before @ es) slots_free" "s = run_steps (slot_step L) before slots_free"
    "sem_high (slot_sem s) = ahead @ w # behind" "Wait_Runs_Out w \<notin> set es" "Caller_Leaves w \<notin> set es"
    "length ahead < settlings L es s"
  shows "\<exists>as bs. es = as @ bs \<and> is_running w (run_steps (slot_step L) as s)"
proof (rule high_served [OF _ _ assms(3-6)])
  show "slots_inv L s" using slot_machine.inv_run [OF slots_free_inv [of L], of before] assms(1,2) by (simp add: steps_ok_append)
  show "steps_ok slot_ok (slot_step L) es s" using assms(1,2) by (simp add: steps_ok_append)
qed

lemma signed_in_waiter_served_witness:
  "\<exists>as bs. [Query_Settles 1] = as @ bs \<and> is_running 2 (run_steps (slot_step duckdb_limits) as
     (run_steps (slot_step duckdb_limits)
       [Query_Arrives 1 \<lparr>caller_user = ''u'', caller_ip = []\<rparr> False, Query_Arrives 2 \<lparr>caller_user = ''v'', caller_ip = []\<rparr> False] slots_free))"
  by (rule signed_in_waiter_served [of _ "[Query_Arrives 1 \<lparr>caller_user = ''u'', caller_ip = []\<rparr> False, Query_Arrives 2 \<lparr>caller_user = ''v'', caller_ip = []\<rparr> False]" _ _ "[]" 2 "[]"])
    (simp_all add: slots_free_def slot_arrive_def caller_key_def count_caller_def limit_acquire_def caller_max_def
        QUERY_CALLER_MAX_SIGNED_IN_def sem_acquire_def duckdb_limits_def QUERY_MAX_CONCURRENT_def QUERY_QUEUE_MAX_def sem_queued_def is_running_def)

text \<open>
  C27. However the items' work interleaves, a call that settles with \<open>limit\<close> workers at
  most in flight answers what working them off one by one would have: every result in
  the items' order where all succeed, and otherwise the error of one that failed, once
  nothing is in flight any more.
\<close>

theorem pool_answers_in_order:
  assumes "0 < limit" "steps_ok (pool_ok f) (pool_step items) es (pool_start limit items)"
    "p = run_steps (pool_step items) es (pool_start limit items)"
  shows "length (filter (\<lambda>w. w \<noteq> Worker_Idle \<and> w \<noteq> Worker_Gone) (pool_workers p)) \<le> limit \<and>
    (\<forall>a. pool_answer items p = Some a \<longrightarrow>
       (if \<forall>i < items. \<exists>r. f i = Inr r then a = Inr (map (\<lambda>i. Some (projr (f i))) [0..<items])
        else (\<exists>e i. a = Inl e \<and> i < items \<and> f i = Inl e)))"
proof -
  have inv: "pool_inv f limit items p" using pool_machine.inv_run [OF pool_start_inv assms(2)] assms(3) by simp
  note D = pool_invD [OF inv]
  have "length (filter (\<lambda>w. w \<noteq> Worker_Idle \<and> w \<noteq> Worker_Gone) (pool_workers p)) \<le> limit"
    using length_filter_le [of _ "pool_workers p"] D(1) le_trans by fastforce
  moreover have "(if \<forall>i < items. \<exists>r. f i = Inr r then a = Inr (map (\<lambda>i. Some (projr (f i))) [0..<items])
        else (\<exists>e i. a = Inl e \<and> i < items \<and> f i = Inl e))" if ans: "pool_answer items p = Some a" for a
  proof (cases "pool_failure p")
    case (Some e)
    then obtain i where i: "i < items" "f i = Inl e" using D(4) by blast
    then have "\<not> (\<forall>i < items. \<exists>r. f i = Inr r)" by force
    then show ?thesis using ans Some i by (auto simp: pool_answer_def split: if_splits)
  next
    case None
    have gone: "\<forall>w \<in> set (pool_workers p). w = Worker_Gone" using ans by (auto simp: pool_answer_def list_all_iff split: if_splits)
    have res: "\<exists>r. pool_results p i = Some r \<and> f i = Inr r" if i: "i < items" for i
    proof -
      have "pool_workers p \<noteq> []" using D(1) assms(1) i by auto
      then have "Worker_Gone \<in> set (pool_workers p)" using gone by (metis last_in_set)
      then have "i < pool_next p" using D(7) [OF None] i by simp
      then have "pool_results p i \<noteq> None" using D(6) [OF None i] gone by blast
      then show ?thesis using D(5) by (cases "pool_results p i") auto
    qed
    then have "map (pool_results p) [0..<items] = map (\<lambda>i. Some (projr (f i))) [0..<items]" by fastforce
    moreover have "\<forall>i < items. \<exists>r. f i = Inr r" using res by blast
    ultimately show ?thesis using ans None by (auto simp: pool_answer_def split: if_splits)
  qed
  ultimately show ?thesis by blast
qed

definition sample_events :: "(char, nat) pool_event list" where
  "sample_events = [Looks 0, Looks 1, Settles 1 (Inr CHR ''b''), Settles 0 (Inr CHR ''a''), Looks 0, Looks 1]"

lemma pool_answers_in_order_witness:
  "pool_answer 2 (run_steps (pool_step 2) sample_events (pool_start 3 2)) = Some (Inr [Some CHR ''a'', Some CHR ''b''])"
proof -
  let ?f = "\<lambda>i. Inr (if i = 0 then CHR ''a'' else CHR ''b'') :: nat + char"
  have "steps_ok (pool_ok ?f) (pool_step 2) sample_events (pool_start 3 2)"
    by (simp add: sample_events_def pool_start_def worker_looks_def item_settles_def Let_def numeral_2_eq_2)
  moreover have "pool_answer 2 (run_steps (pool_step 2) sample_events (pool_start 3 2)) \<noteq> None"
    by (simp add: sample_events_def pool_start_def worker_looks_def item_settles_def pool_answer_def Let_def numeral_2_eq_2)
  ultimately show ?thesis using pool_answers_in_order [of 3 ?f 2 sample_events, OF _ _ refl] by (auto simp: numeral_2_eq_2)
qed

end
