(* ===== verification/Spec2Isabelle.thy ===== *)
theory Spec2Isabelle
  imports Job_Guarantees Job_Worker Claim_Guarantees Storage_Guarantees
    Version_Revert Purge_Finishes Compound_Streams Permission_Guarantees Resource_Guarantees
    Catalog_Guarantees Fetch_Guarantees Limit_Guarantees
begin

text \<open>
  KUKAN is a data catalog: a web API (\<open>packages/api\<close>) over PostgreSQL, a worker (\<open>apps/worker\<close>)
  that takes jobs from a table and runs a pipeline over each resource, a bucket of objects, a search
  index and, per resource, a lake of its versions' tables. This development models the code that
  keeps those stores consistent with each other, and the rules of who may see and change what.

  How the model reads the code. A table is a list of rows and a statement is one atomic step on
  it (\<open>Prelude\<close>: \<open>update_where\<close>, \<open>delete_where\<close>, \<open>select_where\<close>); a transaction is a function from the
  database to what it throws or returns and the database it leaves. In the queue, the consumer, the
  claims and the runs under them, the storage pointers and the sweep, and the limits of one process,
  the statements and calls of one operation that others may come between are separate events of a
  machine, and what is proved holds of every interleaving. The history of versions and the catalog
  are sequential functions instead: what others do meanwhile enters a creation, a revert and a
  purge at the points named below, and an attempt of a purge can be cut off after any of its
  steps. Errors are values. Times are milliseconds of the database
  clock; uuids are natural numbers, in PostgreSQL's order; whatever is drawn at random or read off a
  clock is an argument, and what is owed of it (fresh ids, a clock that does not run back) is the
  \<open>ok\<close> of the machine.

  The parts, and the theories that hold them:

  \<^item> The job queue (\<open>packages/queue/src/postgres.ts\<close>). \<open>Job_Table\<close>: its statements. \<open>Job_Lifecycle\<close>:
    the table under any number of workers. \<open>Job_Worker\<close>: the consumer in one process, turn by turn of the
    event loop. \<open>Job_Guarantees\<close>: leases exclude, a job is taken at most \<open>MAX_ATTEMPTS\<close> times, the
    admin list is the order of work.
  \<^item> The claim on a resource (\<open>api/src/services/pipeline/pipeline-claim.ts\<close>) and what a run records
    under it (\<open>apps/worker/src/pipeline/run/step-tracker.ts\<close>). \<open>Claim\<close>, \<open>Run_Tracker\<close>: the operations.
    \<open>Claim_Protocol\<close>: both as one machine, an interpretation of \<open>lease_machine\<close> as the job table is.
    \<open>Run_Record\<close>, \<open>Claim_Guarantees\<close>: claims exclude, a kill is final, acquisition answers for every resource.
  \<^item> Storage pointers and the ledger of objects nothing names any more
    (\<open>storage-pointer.ts\<close>, the upload half of \<open>resource-service.ts\<close>, \<open>lake-catalog.ts\<close>, \<open>sweep-orphans.ts\<close>,
    \<open>s3.ts\<close>). \<open>Ledger\<close>: the writers and the sweep. \<open>Storage_World\<close>, \<open>Storage_Writers\<close>,
    \<open>Storage_Machine\<close>: the bucket beside the database, the contract of a writer, each writer meeting it.
    \<open>Storage_Guarantees\<close>: what is named is never deleted, what is not is in the ledger.
  \<^item> The history of a resource's content (\<open>resource-version-service.ts\<close>, \<open>build-context.ts\<close>,
    \<open>version-gate.ts\<close>). \<open>Version_Gate\<close>, \<open>Version_History\<close>, \<open>Version_Purge\<close>: the operations.
    \<open>Version_Facts\<close>, \<open>Version_Frames\<close>, \<open>Purge_Run\<close>: what they leave alone, and purges as lists of steps
    with an outline. \<open>Version_Guarantees\<close>, \<open>Version_Revert\<close>, \<open>Purge_Finishes\<close>: creation settles, a
    revert lands where it was told to and takes no upload back, an interrupted purge is finished by
    running it again. What others commit is an arbitrary change of the database at two points
    of a creation (after the gate has read, and before the filing: \<open>between\<close>, \<open>later\<close>), one of a
    revert (between the generation it reads and the pointer it moves: \<open>between\<close>) and one of a
    purge (before the pointer it moves: \<open>pe_others\<close>); the readings of a gate, of a revert's
    settled branch and of a rebuild that is owed are each of one moment. A call to the storage, the
    index or the queue in a purge is done, refused, or done with its answer lost (\<open>backends\<close>); a
    statement of the database that fails is an attempt that ends before it. That the
    number a creation chose was taken meanwhile, which the unique index would refuse, is not checked:
    numbering takes the claim that the filing still holds.
  \<^item> The catalog (\<open>auth/permissions.ts\<close>, \<open>package-service.ts\<close>, \<open>package-cleanup.ts\<close>,
    \<open>organization-service.ts\<close>, \<open>resource-service.ts\<close>). \<open>Permissions\<close>, \<open>Resource_Service\<close>,
    \<open>Package_Service\<close>, \<open>Organization_Service\<close>: the rules and the operations. \<open>Permission_Guarantees\<close>: the
    rules written twice agree. \<open>Resource_Guarantees\<close>: sections stay whole. \<open>Catalog_Facts\<close>,
    \<open>Catalog_Moves\<close>, \<open>Catalog_Machine\<close>, \<open>Catalog_Guarantees\<close>: the tables stay in order, datasets move along
    their life cycle only, and a purge is complete or can be run again.
  \<^item> The container of the legacy Office formats (\<open>compound-file.ts\<close>). \<open>Compound_File\<close>, on bytes
    nobody vouches for; \<open>Compound_Guarantees\<close>, \<open>Compound_Streams\<close>: it returns, and gives the bytes of
    the sectors it was led through.

  \<^item> What a resource URL may reach (\<open>packages/shared/src/url.ts\<close>, \<open>apps/worker/src/safe-fetch.ts\<close>).
    \<open>Address_Policy\<close>: addresses read from text, the lists, the judgement of a URL. \<open>Address_Blocks\<close>,
    \<open>Address_Spellings\<close>: the lists as ranges of numbers, the readers as a grammar. \<open>Safe_Fetch\<close>:
    resolution, refusals, the redirect loop. \<open>Fetch_Chains\<close>, \<open>Fetch_Guarantees\<close>: an address is judged for
    what it names, no connection of a fetch goes to a refused one, credentials stay with their origin.
  \<^item> What one process takes on (\<open>concurrency/semaphore.ts\<close>, \<open>caller-limit.ts\<close>,
    \<open>map-with-concurrency.ts\<close>, \<open>query/duckdb-slot.ts\<close>). \<open>Request_Limits\<close>: the operations and the two
    machines. \<open>Limit_Facts\<close>, \<open>Limit_Guarantees\<close>: slots and shares are kept, a waiter is served.

  \<open>Schema\<close> holds the tables they share (\<open>packages/db/src/schema\<close>), the columns some modelled
  statement reads or writes; \<open>Samples\<close> the rows the properties are applied to once.

  What stands for code that is not here, as arguments: \<open>holds\<close> (jsonb containment), \<open>pt\<close> (how
  PostgreSQL prints a JSON value that is not a string), \<open>skipped\<close> (rows another transaction holds,
  for \<open>SKIP LOCKED\<close>), \<open>lower\<close> (JavaScript's \<open>toLowerCase\<close>), \<open>normal\<close> (\<open>normalizeFormat\<close>), \<open>as_uuid\<close> (the uuid a
  text spells), \<open>lake\<close> (rebuilding a lake), \<open>refuses\<close>, \<open>backends\<close> and \<open>outside\<close> (how the bucket, the index and
  the queue answer), \<open>authorize\<close> (the caller's check), \<open>handlers\<close> (what a job does), \<open>parse\<close> and the fields of
  \<open>fetch_world\<close> (\<open>new URL\<close>, the network, the caller of a fetch), \<open>literal\<close> (what the platform dials
  without a lookup).

  Loops. The sector chains and the directory walk of a compound file are \<open>while_option\<close> loops, shown
  to end on every input; the batches of \<open>enqueueMany\<close>, of a bucket deletion and of an
  organization's purge are recursions on the list that is left; the redirect loop counts down from
  \<open>MAX_REDIRECTS\<close>, as the code counts up to it. No definition uses fuel.

  Not modelled: the web interface, the HTTP routes and their validation, authentication and
  tokens (glue over the services, or the auth provider's); the search adapter, facets, lists and
  details of datasets (queries whose results only the index or the page uses); the interpretation of
  documents and the summaries (text extraction and language models); the lake's own files and SQL
  (DuckDB and DuckLake); the CLI and the MCP server. Two transactions of the catalog that overlap
  under READ COMMITTED are not modelled either: each catalog operation is one step.
\<close>

end
